(* ===== verification/Maljan_Prelude.thy ===== *)
theory Maljan_Prelude
  imports Main "HOL-Library.List_Lexorder" "HOL-Library.Char_ord"
begin

text \<open>
  What every theory of the development shares: the errors Python raises in the modelled
  code and the result type that carries them, with its sequencing operators; the helpers
  for optional columns; decimal and hexadecimal text of numbers; texts joined by a
  separator; the lemma collections the component proofs use.

  A Python \<open>str\<close> is modelled by the bytes of its UTF-8 form, a \<^typ>\<open>string\<close> (a list of
  8-bit characters): concatenation, comparison for equality and the order of code points
  are those of the UTF-8 bytes, and \<open>encode("utf-8")\<close> is the identity.
\<close>

named_theorems result_simps \<open>rewriting of results in the error monad\<close>

section \<open>Results: a value or the exception raised\<close>

datatype py_error =
    ValueError
  | TypeError
  | KeyError
  | UnicodeEncodeError
  | OverflowError

text \<open>\<open>Inl e\<close> is the exception \<open>e\<close> leaving the call, \<open>Inr v\<close> the value returned.\<close>

definition bind_r :: "'e + 'a \<Rightarrow> ('a \<Rightarrow> 'e + 'b) \<Rightarrow> 'e + 'b" where
  "bind_r r f = (case r of Inl e \<Rightarrow> Inl e | Inr v \<Rightarrow> f v)"

definition map_r :: "('a \<Rightarrow> 'b) \<Rightarrow> 'e + 'a \<Rightarrow> 'e + 'b" where
  "map_r f r = (case r of Inl e \<Rightarrow> Inl e | Inr v \<Rightarrow> Inr (f v))"

definition check_r :: "bool \<Rightarrow> 'e \<Rightarrow> 'e + unit" where
  "check_r b e = (if b then Inr () else Inl e)"

text \<open>A list of results, read from the left: the first exception ends it.\<close>

fun sequence_r :: "('e + 'a) list \<Rightarrow> 'e + 'a list" where
  "sequence_r [] = Inr []"
| "sequence_r (r # rs) = bind_r r (\<lambda>v. map_r (\<lambda>vs. v # vs) (sequence_r rs))"

lemma bind_r_Inl [simp, result_simps]: "bind_r (Inl e) f = Inl e"
  by (simp add: bind_r_def)

lemma bind_r_Inr [simp, result_simps]: "bind_r (Inr v) f = f v"
  by (simp add: bind_r_def)

lemma map_r_Inl [simp, result_simps]: "map_r f (Inl e) = Inl e"
  by (simp add: map_r_def)

lemma map_r_Inr [simp, result_simps]: "map_r f (Inr v) = Inr (f v)"
  by (simp add: map_r_def)

lemma bind_r_eq_Inr: "bind_r r f = Inr w \<longleftrightarrow> (\<exists>v. r = Inr v \<and> f v = Inr w)"
  by (cases r) auto

lemma map_r_eq_Inr: "map_r f r = Inr w \<longleftrightarrow> (\<exists>v. r = Inr v \<and> w = f v)"
  by (cases r) auto

lemma bind_r_eq_Inl: "bind_r r f = Inl e \<longleftrightarrow> r = Inl e \<or> (\<exists>v. r = Inr v \<and> f v = Inl e)"
  by (cases r) auto

lemma map_r_eq_Inl: "map_r f r = Inl e \<longleftrightarrow> r = Inl e"
  by (cases r) auto

lemma check_r_eq_Inr: "check_r b e = Inr u \<longleftrightarrow> b"
  by (simp add: check_r_def)

lemma check_r_eq_Inl: "check_r b e = Inl e' \<longleftrightarrow> \<not> b \<and> e' = e"
  by (auto simp: check_r_def)

lemmas result_iffs = bind_r_eq_Inr bind_r_eq_Inl map_r_eq_Inr map_r_eq_Inl
  check_r_eq_Inr check_r_eq_Inl

lemma sequence_r_map_Inr [simp]: "sequence_r (map (\<lambda>x. Inr (f x)) xs) = Inr (map f xs)"
  by (induction xs) auto

lemma sequence_r_eq_Inr: "sequence_r rs = Inr vs \<longleftrightarrow> rs = map Inr vs"
  by (induction rs arbitrary: vs) (auto simp: result_iffs)

lemma sequence_r_mem: "sequence_r rs = Inr vs \<Longrightarrow> r \<in> set rs \<Longrightarrow> \<exists>v\<in>set vs. r = Inr v"
  by (auto simp: sequence_r_eq_Inr)

lemma sequence_r_cong_Inr:
  "(\<And>x. x \<in> set xs \<Longrightarrow> f x = Inr (g x)) \<Longrightarrow> sequence_r (map f xs) = Inr (map g xs)"
  by (induction xs) auto

section \<open>Optional columns\<close>

text \<open>\<open>value or 0\<close>, \<open>value or ""\<close> and \<open>str(value)\<close> over a column that may be NULL.\<close>

definition int_or_0 :: "int option \<Rightarrow> int" where
  "int_or_0 v = (case v of None \<Rightarrow> 0 | Some i \<Rightarrow> i)"

definition or_empty :: "string option \<Rightarrow> string" where
  "or_empty v = (case v of None \<Rightarrow> [] | Some s \<Rightarrow> s)"

definition str_opt :: "string option \<Rightarrow> string" where
  "str_opt v = (case v of None \<Rightarrow> ''None'' | Some s \<Rightarrow> s)"

text \<open>\<open>value or None\<close> over a string: the empty string reads as NULL.\<close>

definition none_if_empty :: "string \<Rightarrow> string option" where
  "none_if_empty s = (if s = [] then None else Some s)"

lemma option_helpers [simp]:
  "int_or_0 None = 0" "int_or_0 (Some i) = i"
  "or_empty None = []" "or_empty (Some s) = s"
  "str_opt None = ''None''" "str_opt (Some s) = s"
  by (simp_all add: int_or_0_def or_empty_def str_opt_def)

lemma or_empty_none_if_empty [simp]: "or_empty (none_if_empty s) = s"
  by (simp add: none_if_empty_def)

section \<open>Decimal and hexadecimal text\<close>

definition digit_char :: "nat \<Rightarrow> char" where
  "digit_char d = char_of (48 + d)"

fun nat_text :: "nat \<Rightarrow> string" where
  "nat_text n = (if n < 10 then [digit_char n] else nat_text (n div 10) @ [digit_char (n mod 10)])"

declare nat_text.simps [simp del]

definition int_text :: "int \<Rightarrow> string" where
  "int_text i = (if i < 0 then CHR ''-'' # nat_text (nat (- i)) else nat_text (nat i))"

definition is_digit :: "char \<Rightarrow> bool" where
  "is_digit c = (48 \<le> (of_char c :: nat) \<and> (of_char c :: nat) \<le> 57)"

definition digit_val :: "char \<Rightarrow> nat" where
  "digit_val c = of_char c - 48"

definition nat_of_text :: "string \<Rightarrow> nat" where
  "nat_of_text s = foldl (\<lambda>n c. 10 * n + digit_val c) 0 s"

lemma of_char_digit_char [simp]: "d < 10 \<Longrightarrow> of_char (digit_char d) = 48 + d"
  by (simp add: digit_char_def)

lemma digit_val_digit_char [simp]: "d < 10 \<Longrightarrow> digit_val (digit_char d) = d"
  by (simp add: digit_val_def)

lemma is_digit_digit_char [simp]: "d < 10 \<Longrightarrow> is_digit (digit_char d)"
  by (simp add: is_digit_def)

lemma nat_of_text_snoc [simp]: "nat_of_text (s @ [c]) = 10 * nat_of_text s + digit_val c"
  by (simp add: nat_of_text_def)

lemma nat_of_text_Nil [simp]: "nat_of_text [] = 0"
  by (simp add: nat_of_text_def)

lemma nat_of_text_nat_text [simp]: "nat_of_text (nat_text n) = n"
proof (induction n rule: nat_text.induct)
  case (1 n)
  show ?case
  proof (cases "n < 10")
    case True
    then show ?thesis
      using nat_of_text_snoc [of "[]" "digit_char n"] by (simp add: nat_text.simps)
  next
    case False
    then show ?thesis using "1.IH" by (subst nat_text.simps) simp
  qed
qed

lemma nat_text_digits: "c \<in> set (nat_text n) \<Longrightarrow> is_digit c"
proof (induction n rule: nat_text.induct)
  case (1 n)
  show ?case
  proof (cases "n < 10")
    case True
    with "1.prems" show ?thesis by (simp add: nat_text.simps)
  next
    case False
    with "1.prems" have "c \<in> set (nat_text (n div 10)) \<or> c = digit_char (n mod 10)"
      by (subst (asm) nat_text.simps) auto
    with False "1.IH" show ?thesis by auto
  qed
qed

lemma nat_text_not_Nil [simp]: "nat_text n \<noteq> []"
  by (subst nat_text.simps) simp

lemma nat_text_inject [simp]: "nat_text m = nat_text n \<longleftrightarrow> m = n"
  using nat_of_text_nat_text by metis

lemma minus_not_digit [simp]: "\<not> is_digit (CHR ''-'')"
  by (simp add: is_digit_def)

lemma nat_text_not_minus: "nat_text n \<noteq> CHR ''-'' # s"
  using nat_text_digits [of "CHR ''-''" n] by (metis list.set_intros(1) minus_not_digit)

lemma int_text_inject [simp]: "int_text i = int_text j \<longleftrightarrow> i = j"
proof
  assume eq: "int_text i = int_text j"
  have "nat_text m \<noteq> CHR ''-'' # s" "CHR ''-'' # s \<noteq> nat_text m" for m s
    using nat_text_not_minus [of m s] by auto
  with eq show "i = j"
    by (auto simp: int_text_def split: if_splits)
qed simp

lemma int_text_chars: "c \<in> set (int_text i) \<Longrightarrow> c = CHR ''-'' \<or> is_digit c"
  using nat_text_digits by (auto simp: int_text_def split: if_splits)

lemma int_text_not_Nil [simp]: "int_text i \<noteq> []"
  by (simp add: int_text_def)

definition hex_digit :: "nat \<Rightarrow> char" where
  "hex_digit d = (if d < 10 then char_of (48 + d) else char_of (87 + d))"

definition hex_val :: "char \<Rightarrow> nat" where
  "hex_val c = (if is_digit c then of_char c - 48 else of_char c - 87)"

lemma hex_val_hex_digit [simp]: "d < 16 \<Longrightarrow> hex_val (hex_digit d) = d"
  by (auto simp: hex_digit_def hex_val_def is_digit_def)

lemma hex_digit_chars: "d < 16 \<Longrightarrow>
  is_digit (hex_digit d) \<or> (97 \<le> (of_char (hex_digit d) :: nat) \<and> (of_char (hex_digit d) :: nat) \<le> 102)"
  by (auto simp: hex_digit_def is_digit_def)

text \<open>The two lower-case hexadecimal digits of a byte, and \<open>hexdigest()\<close> of a digest.\<close>

definition hex_byte :: "char \<Rightarrow> string" where
  "hex_byte c = [hex_digit (of_char c div 16), hex_digit (of_char c mod 16)]"

definition hexdigest :: "string \<Rightarrow> string" where
  "hexdigest s = concat (map hex_byte s)"

lemma of_char_less [simp]: "(of_char (c :: char) :: nat) < 256"
  by (cases c) (simp add: of_char_def horner_sum_simps)

lemma hex_byte_inject [simp]: "hex_byte c = hex_byte c' \<longleftrightarrow> c = c'"
proof
  assume eq: "hex_byte c = hex_byte c'"
  have bound: "(of_char x :: nat) div 16 < 16" for x :: char
    using of_char_less [of x] by linarith
  from eq have "hex_val (hex_digit (of_char c div 16)) = hex_val (hex_digit (of_char c' div 16))"
    and "hex_val (hex_digit (of_char c mod 16)) = hex_val (hex_digit (of_char c' mod 16))"
    by (simp_all add: hex_byte_def)
  then have "(of_char c :: nat) div 16 = of_char c' div 16" "(of_char c :: nat) mod 16 = of_char c' mod 16"
    by (simp_all add: bound)
  then have "(of_char c :: nat) = of_char c'"
    by (metis div_mult_mod_eq)
  then show "c = c'" by simp
qed simp

lemma length_hex_byte [simp]: "length (hex_byte c) = 2"
  by (simp add: hex_byte_def)

lemma hexdigest_simps [simp]:
  "hexdigest [] = []" "hexdigest (c # s) = hex_byte c @ hexdigest s"
  by (simp_all add: hexdigest_def)

lemma hexdigest_inject [simp]: "hexdigest s = hexdigest t \<longleftrightarrow> s = t"
proof
  assume "hexdigest s = hexdigest t"
  then show "s = t"
  proof (induction s arbitrary: t)
    case Nil
    then show ?case by (cases t) (auto simp: hex_byte_def)
  next
    case (Cons c s)
    then obtain c' t' where t: "t = c' # t'"
      by (cases t) (auto simp: hex_byte_def)
    with Cons.prems have "hex_byte c = hex_byte c' \<and> hexdigest s = hexdigest t'"
      by (simp add: append_eq_append_conv)
    with Cons.IH t show ?case by simp
  qed
qed simp

definition is_ascii :: "string \<Rightarrow> bool" where
  "is_ascii s = list_all (\<lambda>c. (of_char c :: nat) < 128) s"

lemma is_ascii_append [simp]: "is_ascii (s @ t) \<longleftrightarrow> is_ascii s \<and> is_ascii t"
  by (simp add: is_ascii_def)

lemma hexdigest_chars: "c \<in> set (hexdigest s) \<Longrightarrow> \<exists>d<16. c = hex_digit d"
proof -
  assume "c \<in> set (hexdigest s)"
  then obtain x where x: "c \<in> set (hex_byte x)" by (auto simp: hexdigest_def)
  have small: "(of_char x :: nat) div 16 < 16" "(of_char x :: nat) mod 16 < 16"
    using of_char_less [of x] by linarith+
  from x have "c = hex_digit (of_char x div 16) \<or> c = hex_digit (of_char x mod 16)"
    by (simp add: hex_byte_def)
  with small show ?thesis by blast
qed

lemma hexdigest_ascii [simp]: "is_ascii (hexdigest s)"
  using hexdigest_chars hex_digit_chars
  by (fastforce simp: is_ascii_def list_all_iff is_digit_def)

lemma of_char_of_char_58: "(of_char (CHR '':'') :: nat) = 58"
  by simp

lemma hexdigest_no_colon: "CHR '':'' \<notin> set (hexdigest s)"
proof
  assume "CHR '':'' \<in> set (hexdigest s)"
  then obtain d where "d < 16" "CHR '':'' = hex_digit d" using hexdigest_chars by blast
  then have "(of_char (hex_digit d) :: nat) = 58" by (metis of_char_of_char_58)
  with hex_digit_chars [OF \<open>d < 16\<close>] show False by (auto simp: is_digit_def)
qed

text \<open>A text with a separator that its right part does not hold splits in one way.\<close>

lemma takeWhile_stop: "c \<notin> set y \<Longrightarrow> takeWhile (\<lambda>z. z \<noteq> c) (y @ c # x) = y"
  by (induction y) auto

lemma split_at_last:
  assumes "c \<notin> set y" "c \<notin> set y'" and eq: "x @ c # y = x' @ c # y'"
  shows "x = x' \<and> y = y'"
proof -
  have "takeWhile (\<lambda>z. z \<noteq> c) (rev (x @ c # y)) = rev y" "takeWhile (\<lambda>z. z \<noteq> c) (rev (x' @ c # y')) = rev y'"
    using takeWhile_stop [of c "rev y" "rev x"] takeWhile_stop [of c "rev y'" "rev x'"] assms(1,2)
    by simp_all
  with eq have "rev y = rev y'" by metis
  with eq show ?thesis by simp
qed

section \<open>Text joined by a separator\<close>

fun join_with :: "string \<Rightarrow> string list \<Rightarrow> string" where
  "join_with sep [] = []"
| "join_with sep [x] = x"
| "join_with sep (x # y # xs) = x @ sep @ join_with sep (y # xs)"

text \<open>\<open>needle in text\<close>.\<close>

fun has_infix :: "string \<Rightarrow> string \<Rightarrow> bool" where
  "has_infix needle [] = (needle = [])"
| "has_infix needle (c # s) = (take (length needle) (c # s) = needle \<or> has_infix needle s)"

text \<open>\<open>str.upper\<close> and \<open>str.lower\<close> over the letters of ASCII.\<close>

definition upper_char :: "char \<Rightarrow> char" where
  "upper_char c = (let n = (of_char c :: nat) in if 97 \<le> n \<and> n \<le> 122 then char_of (n - 32) else c)"

definition lower_char :: "char \<Rightarrow> char" where
  "lower_char c = (let n = (of_char c :: nat) in if 65 \<le> n \<and> n \<le> 90 then char_of (n + 32) else c)"

end
