(* ===== verification/Py_Json.thy ===== *)
theory Py_Json
  imports Maljan_Prelude
begin

text \<open>
  The Python values the ledger's records are made of, and the one serialisation every digest
  is taken over (\<open>apps/api/app/services/ledger_chain.py\<close>: \<open>_number\<close>, \<open>_normalised\<close>,
  \<open>json_value\<close>, \<open>timestamp\<close>, \<open>canonical\<close>). The standard library's \<open>json.dumps\<close>
  with sorted keys and compact separators is written out here, so that the main theorem of
  the theory, \<open>canonical_inject\<close>, is about the bytes that are hashed: two normalised
  documents with the same bytes are the same document up to the order of their keys.
\<close>

section \<open>Values\<close>

text \<open>
  A finite float is held by its shortest decimal text (\<open>repr\<close>), which names it: sign,
  the digits as a number with no trailing zero, and the power of ten. Zero is
  \<open>FDec s 0 0\<close>.
\<close>

datatype pyfloat = FNan | FInf bool | FDec bool nat int

fun float_wf :: "pyfloat \<Rightarrow> bool" where
  "float_wf (FDec s m e) = (if m = 0 then e = 0 else m mod 10 \<noteq> 0)"
| "float_wf _ = True"

fun is_finite :: "pyfloat \<Rightarrow> bool" where
  "is_finite (FDec s m e) = True"
| "is_finite _ = False"

fun is_integer :: "pyfloat \<Rightarrow> bool" where
  "is_integer (FDec s m e) = (m = 0 \<or> 0 \<le> e)"
| "is_integer _ = False"

text \<open>
  A dictionary is its items in insertion order (keys distinct). \<open>PMoment t off\<close> is a
  \<open>datetime\<close>: its wall clock in microseconds since 1970-01-01 00:00 and its UTC offset in
  microseconds, \<^const>\<open>None\<close> for a value with no zone.
\<close>

datatype py =
    PNone
  | PBool bool
  | PInt int
  | PFloat pyfloat
  | PStr string
  | PList "py list"
  | PDict "(string \<times> py) list"
  | PMoment int "int option"

definition py_opt_str :: "string option \<Rightarrow> py" where
  "py_opt_str v = (case v of None \<Rightarrow> PNone | Some s \<Rightarrow> PStr s)"

definition py_opt_int :: "int option \<Rightarrow> py" where
  "py_opt_int v = (case v of None \<Rightarrow> PNone | Some i \<Rightarrow> PInt i)"

lemma py_opt_inject [simp]:
  "py_opt_str a = py_opt_str b \<longleftrightarrow> a = b" "py_opt_int i = py_opt_int j \<longleftrightarrow> i = j"
  by (auto simp: py_opt_str_def py_opt_int_def split: option.splits)

section \<open>Text of a value: json.dumps\<close>

definition json_esc :: "char \<Rightarrow> string" where
  "json_esc c =
     (if c = CHR 0x22 then [CHR 0x5C, CHR 0x22]
      else if c = CHR 0x5C then [CHR 0x5C, CHR 0x5C]
      else if c = CHR 0x0A then [CHR 0x5C, CHR ''n'']
      else if c = CHR 0x0D then [CHR 0x5C, CHR ''r'']
      else if c = CHR 0x09 then [CHR 0x5C, CHR ''t'']
      else if c = CHR 0x0C then [CHR 0x5C, CHR ''f'']
      else if c = CHR 0x08 then [CHR 0x5C, CHR ''b'']
      else if (of_char c :: nat) < 32 then [CHR 0x5C, CHR ''u'', CHR ''0'', CHR ''0''] @ hex_byte c
      else [c])"

definition json_string :: "string \<Rightarrow> string" where
  "json_string s = CHR 0x22 # concat (map json_esc s) @ [CHR 0x22]"

definition zeros :: "nat \<Rightarrow> string" where
  "zeros k = replicate k (CHR ''0'')"

definition pad_to :: "nat \<Rightarrow> string \<Rightarrow> string" where
  "pad_to k s = zeros (k - length s) @ s"

text \<open>\<open>float.__repr__\<close>: fixed notation for a decimal point within 16 places, else an exponent.\<close>

definition float_body :: "nat \<Rightarrow> int \<Rightarrow> string" where
  "float_body m e =
     (let ds = nat_text m; n = length ds; point = int n + e in
      if point \<le> -4 \<or> 16 < point then
        hd ds # (if 1 < n then CHR ''.'' # tl ds else []) @ ''e''
          @ (if point - 1 < 0 then ''-'' else ''+'') @ pad_to 2 (nat_text (nat \<bar>point - 1\<bar>))
      else if point \<le> 0 then ''0.'' @ zeros (nat (- point)) @ ds
      else if point < int n then take (nat point) ds @ ''.'' @ drop (nat point) ds
      else ds @ zeros (nat (point - int n)) @ ''.0'')"

fun float_repr :: "pyfloat \<Rightarrow> string" where
  "float_repr FNan = ''nan''"
| "float_repr (FInf s) = (if s then ''-inf'' else ''inf'')"
| "float_repr (FDec s m e) = (if s then ''-'' else []) @ float_body m e"

text \<open>
  \<open>json.dumps\<close> with compact separators, \<open>ensure_ascii=False\<close> and \<open>allow_nan=False\<close>;
  the flag is \<open>sort_keys\<close>. A float that is not finite is a \<^const>\<open>ValueError\<close>, a value
  that is not JSON a \<^const>\<open>TypeError\<close>.
\<close>

primrec dumps :: "bool \<Rightarrow> py \<Rightarrow> py_error + string" where
  "dumps so PNone = Inr ''null''"
| "dumps so (PBool b) = Inr (if b then ''true'' else ''false'')"
| "dumps so (PInt i) = Inr (int_text i)"
| "dumps so (PFloat f) = (if is_finite f then Inr (float_repr f) else Inl ValueError)"
| "dumps so (PStr s) = Inr (json_string s)"
| "dumps so (PList vs) =
     map_r (\<lambda>ts. ''['' @ join_with '','' ts @ '']'') (sequence_r (map (dumps so) vs))"
| "dumps so (PDict kvs) =
     map_r (\<lambda>ts. ''{'' @ join_with '','' ts @ ''}'')
       (sequence_r
         (map (\<lambda>kr. map_r (\<lambda>t. json_string (fst kr) @ '':'' @ t) (snd kr))
           ((if so then sort_key fst else id) (map (map_prod id (dumps so)) kvs))))"
| "dumps so (PMoment t off) = Inl TypeError"

definition canonical :: "py \<Rightarrow> py_error + string" where
  "canonical document = dumps True document"

section \<open>Normalisation of a JSON column\<close>

text \<open>\<open>_number\<close>: an integral float is the exact integer of its shortest decimal text.\<close>

definition number :: "pyfloat \<Rightarrow> py_error + py" where
  "number value =
     (case value of
        FDec s m e \<Rightarrow>
          if is_integer value then Inr (PInt ((if s then - 1 else 1) * int m * 10 ^ nat e))
          else Inr (PFloat value)
      | _ \<Rightarrow> Inl ValueError)"

primrec normalised :: "py \<Rightarrow> py_error + py" where
  "normalised PNone = Inr PNone"
| "normalised (PBool b) = Inr (PBool b)"
| "normalised (PInt i) = Inr (PInt i)"
| "normalised (PFloat f) = number f"
| "normalised (PStr s) = Inr (PStr s)"
| "normalised (PList vs) = map_r PList (sequence_r (map normalised vs))"
| "normalised (PDict kvs) =
     map_r PDict (sequence_r (map (\<lambda>kr. map_r (Pair (fst kr)) (snd kr)) (map (map_prod id normalised) kvs)))"
| "normalised (PMoment t off) = Inr (PMoment t off)"

text \<open>
  \<open>json.loads (json.dumps v)\<close> is \<open>v\<close> for a value \<open>dumps\<close> takes (a float's shortest
  text reads back as that float), and raises what \<open>dumps\<close> raises otherwise.
\<close>

definition json_roundtrip :: "py \<Rightarrow> py_error + py" where
  "json_roundtrip v = bind_r (dumps False v) (\<lambda>_. Inr v)"

definition json_value :: "py \<Rightarrow> py_error + py" where
  "json_value value =
     (if value = PNone then Inr PNone else bind_r (json_roundtrip value) normalised)"

section \<open>Timestamps\<close>

text \<open>The civil date of a day number (days since 1970-01-01, proleptic Gregorian).\<close>

definition civil_date :: "int \<Rightarrow> int \<times> int \<times> int" where
  "civil_date day =
     (let z = day + 719468;
          era = z div 146097; doe = z mod 146097;
          yoe = (doe - doe div 1460 + doe div 36524 - doe div 146096) div 365;
          doy = doe - (365 * yoe + yoe div 4 - yoe div 100);
          mp = (5 * doy + 2) div 153;
          d = doy - (153 * mp + 2) div 5 + 1;
          m = (if mp < 10 then mp + 3 else mp - 9)
      in (yoe + era * 400 + (if m \<le> 2 then 1 else 0), m, d))"

definition pad_int :: "nat \<Rightarrow> int \<Rightarrow> string" where
  "pad_int k i = pad_to k (nat_text (nat i))"

text \<open>\<open>strftime("%Y-%m-%dT%H:%M:%S.%fZ")\<close> of a UTC time in microseconds since 1970.\<close>

definition utc_text :: "int \<Rightarrow> py_error + string" where
  "utc_text t =
     (let (y, m, d) = civil_date (t div 86400000000); us = t mod 86400000000 in
      if y < 1 \<or> 9999 < y then Inl OverflowError
      else Inr (pad_int 4 y @ ''-'' @ pad_int 2 m @ ''-'' @ pad_int 2 d @ ''T''
        @ pad_int 2 (us div 3600000000) @ '':'' @ pad_int 2 (us div 60000000 mod 60) @ '':''
        @ pad_int 2 (us div 1000000 mod 60) @ ''.'' @ pad_int 6 (us mod 1000000) @ ''Z''))"

text \<open>
  \<open>timestamp\<close>: a text is read by the standard library's \<open>datetime.fromisoformat\<close> after
  a \<open>Z\<close> is spelt \<open>+00:00\<close>; the reader is the argument \<open>fromiso\<close>, the wall clock and the
  offset it answers, or \<^const>\<open>None\<close> for its \<open>ValueError\<close>.
\<close>

fun replace_Z :: "string \<Rightarrow> string" where
  "replace_Z [] = []"
| "replace_Z (c # s) = (if c = CHR ''Z'' then ''+00:00'' @ replace_Z s else c # replace_Z s)"

definition timestamp :: "(string \<Rightarrow> (int \<times> int option) option) \<Rightarrow> py \<Rightarrow> py_error + py" where
  "timestamp fromiso value =
     (let utc = (\<lambda>(t, off). map_r PStr (utc_text (t - (case off of None \<Rightarrow> 0 | Some d \<Rightarrow> d)))) in
      case value of
        PNone \<Rightarrow> Inr PNone
      | PStr s \<Rightarrow> (case fromiso (replace_Z s) of None \<Rightarrow> Inl ValueError | Some m \<Rightarrow> utc m)
      | PMoment t off \<Rightarrow> utc (t, off)
      | _ \<Rightarrow> Inl TypeError)"

section \<open>Normal documents\<close>

text \<open>
  What \<open>_normalised\<close> leaves: no float that is an integer, none that is not finite, no
  value that is not JSON. \<open>sorted_form\<close> is the document with the keys of every
  dictionary in order, which is what tells documents apart whatever their key order.
\<close>

primrec normal :: "py \<Rightarrow> bool" where
  "normal PNone = True"
| "normal (PBool b) = True"
| "normal (PInt i) = True"
| "normal (PFloat f) = (is_finite f \<and> \<not> is_integer f \<and> float_wf f)"
| "normal (PStr s) = True"
| "normal (PList vs) = list_all id (map normal vs)"
| "normal (PDict kvs) = list_all snd (map (map_prod id normal) kvs)"
| "normal (PMoment t off) = False"

primrec floats_wf :: "py \<Rightarrow> bool" where
  "floats_wf PNone = True"
| "floats_wf (PBool b) = True"
| "floats_wf (PInt i) = True"
| "floats_wf (PFloat f) = float_wf f"
| "floats_wf (PStr s) = True"
| "floats_wf (PList vs) = list_all id (map floats_wf vs)"
| "floats_wf (PDict kvs) = list_all snd (map (map_prod id floats_wf) kvs)"
| "floats_wf (PMoment t off) = True"

primrec sorted_form :: "py \<Rightarrow> py" where
  "sorted_form PNone = PNone"
| "sorted_form (PBool b) = PBool b"
| "sorted_form (PInt i) = PInt i"
| "sorted_form (PFloat f) = PFloat f"
| "sorted_form (PStr s) = PStr s"
| "sorted_form (PList vs) = PList (map sorted_form vs)"
| "sorted_form (PDict kvs) = PDict (sort_key fst (map (map_prod id sorted_form) kvs))"
| "sorted_form (PMoment t off) = PMoment t off"

text \<open>The text of a normal document whose dictionaries are sorted already.\<close>

primrec text_of :: "py \<Rightarrow> string" where
  "text_of PNone = ''null''"
| "text_of (PBool b) = (if b then ''true'' else ''false'')"
| "text_of (PInt i) = int_text i"
| "text_of (PFloat f) = float_repr f"
| "text_of (PStr s) = json_string s"
| "text_of (PList vs) = ''['' @ join_with '','' (map text_of vs) @ '']''"
| "text_of (PDict kvs) =
     ''{'' @ join_with '','' (map (\<lambda>kt. json_string (fst kt) @ '':'' @ snd kt)
       (map (map_prod id text_of) kvs)) @ ''}''"
| "text_of (PMoment t off) = []"

lemma insort_key_map: "insort_key f (g x) (map g xs) = map g (insort_key (\<lambda>y. f (g y)) x xs)"
  by (induction xs) auto

lemma sort_key_map: "sort_key f (map g xs) = map g (sort_key (\<lambda>x. f (g x)) xs)"
  by (induction xs) (auto simp: insort_key_map)

lemma normal_list [simp]: "normal (PList vs) \<longleftrightarrow> (\<forall>v\<in>set vs. normal v)"
  by (auto simp: list_all_iff)

lemma normal_dict [simp]: "normal (PDict kvs) \<longleftrightarrow> (\<forall>kv\<in>set kvs. normal (snd kv))"
  by (auto simp: list_all_iff)

lemma floats_wf_list [simp]: "floats_wf (PList vs) \<longleftrightarrow> (\<forall>v\<in>set vs. floats_wf v)"
  by (auto simp: list_all_iff)

lemma floats_wf_dict [simp]: "floats_wf (PDict kvs) \<longleftrightarrow> (\<forall>kv\<in>set kvs. floats_wf (snd kv))"
  by (auto simp: list_all_iff)

declare normal.simps(6,7) [simp del] floats_wf.simps(6,7) [simp del]

text \<open>Induction over documents, with one hypothesis per item of a dictionary.\<close>

lemma py_induct [case_names None_ Bool_ Int_ Float_ Str_ List_ Dict_ Moment_]:
  assumes "P PNone" "\<And>b. P (PBool b)" "\<And>i. P (PInt i)" "\<And>f. P (PFloat f)" "\<And>s. P (PStr s)"
    and "\<And>vs. (\<And>v. v \<in> set vs \<Longrightarrow> P v) \<Longrightarrow> P (PList vs)"
    and dict: "\<And>kvs. (\<And>k v. (k, v) \<in> set kvs \<Longrightarrow> P v) \<Longrightarrow> P (PDict kvs)"
    and "\<And>t off. P (PMoment t off)"
  shows "P v"
proof (induction v)
  case (PDict kvs)
  have "P v" if "(k, v) \<in> set kvs" for k v
    using PDict [OF that] by simp
  then show ?case by (rule dict)
qed (use assms in auto)

lemma normal_sorted_form: "normal v \<Longrightarrow> normal (sorted_form v)"
  by (induction v rule: py_induct) auto

lemma canonical_text: "normal v \<Longrightarrow> canonical v = Inr (text_of (sorted_form v))"
  unfolding canonical_def
proof (induction v rule: py_induct)
  case (List_ vs)
  then have "sequence_r (map (dumps True) vs) = Inr (map (\<lambda>v. text_of (sorted_form v)) vs)"
    by (intro sequence_r_cong_Inr) auto
  then show ?case by (simp add: comp_def)
next
  case (Dict_ kvs)
  let ?item = "\<lambda>kr. map_r (\<lambda>t. json_string (fst kr) @ '':'' @ t) (snd kr)"
  have val: "dumps True (snd kv) = Inr (text_of (sorted_form (snd kv)))" if "kv \<in> set kvs" for kv
    using that Dict_.IH [of "fst kv" "snd kv"] Dict_.prems by simp
  have "sequence_r (map ?item (sort_key fst (map (map_prod id (dumps True)) kvs)))
      = sequence_r (map (\<lambda>kv. ?item (map_prod id (dumps True) kv)) (sort_key fst kvs))"
    by (simp add: sort_key_map comp_def)
  also have "\<dots> = Inr (map (\<lambda>kv. json_string (fst kv) @ '':'' @ text_of (sorted_form (snd kv)))
      (sort_key fst kvs))"
    by (intro sequence_r_cong_Inr) (auto simp: val)
  finally show ?case by (simp add: sort_key_map comp_def)
qed auto

section \<open>One document per text\<close>

text \<open>
  Every text below is read back from the left: what follows it is a separator or the end.
\<close>

definition ends_here :: "string \<Rightarrow> bool" where
  "ends_here r = (r = [] \<or> hd r \<in> {CHR '','', CHR '']'', CHR ''}''})"

lemma ends_here_simps [simp]:
  "ends_here []" "ends_here (c # s) \<longleftrightarrow> c \<in> {CHR '','', CHR '']'', CHR ''}''}"
  by (simp_all add: ends_here_def)

text \<open>Strings: the escapes are a prefix code and none starts with the closing quote.\<close>

fun unescape :: "string \<Rightarrow> (char \<times> string) option" where
  "unescape [] = None"
| "unescape (c # s) =
     (if c \<noteq> CHR 0x5C then Some (c, s)
      else case s of
        [] \<Rightarrow> None
      | x # s' \<Rightarrow>
         (if x = CHR ''u'' then
            (case s' of
               a # b # h # l # s'' \<Rightarrow> Some (char_of (hex_val h * 16 + hex_val l), s'')
             | _ \<Rightarrow> None)
          else Some (if x = CHR ''n'' then CHR 0x0A else if x = CHR ''r'' then CHR 0x0D
            else if x = CHR ''t'' then CHR 0x09 else if x = CHR ''f'' then CHR 0x0C
            else if x = CHR ''b'' then CHR 0x08 else x, s')))"

lemma hex_byte_back: "char_of (hex_val (hex_digit (of_char c div 16)) * 16 +
  hex_val (hex_digit (of_char c mod 16))) = c"
proof -
  have "(of_char c :: nat) div 16 < 16" "(of_char c :: nat) mod 16 < 16"
    using of_char_less [of c] by linarith+
  then have "hex_val (hex_digit (of_char c div 16)) * 16 + hex_val (hex_digit (of_char c mod 16))
      = (of_char c :: nat)" by simp
  then show ?thesis by simp
qed

lemma unescape_json_esc: "unescape (json_esc c @ r) = Some (c, r)"
  using hex_byte_back [of c] by (auto simp: json_esc_def hex_byte_def)

lemma json_esc_prefix: "json_esc c @ r = json_esc c' @ r' \<Longrightarrow> c = c' \<and> r = r'"
  using unescape_json_esc by (metis option.inject prod.inject)

lemma json_esc_hd: "json_esc c = x # y \<Longrightarrow> x \<noteq> CHR 0x22"
  by (auto simp: json_esc_def split: if_splits)

lemma json_esc_not_Nil [simp]: "json_esc c \<noteq> []"
  by (simp add: json_esc_def)

lemma escaped_unique:
  "concat (map json_esc s) @ CHR 0x22 # r = concat (map json_esc s') @ CHR 0x22 # r'
    \<Longrightarrow> s = s' \<and> r = r'"
proof (induction s arbitrary: s')
  case Nil
  show ?case
  proof (cases s')
    case (Cons c t)
    then obtain x y where "json_esc c = x # y" by (cases "json_esc c") auto
    with Nil Cons json_esc_hd show ?thesis by fastforce
  qed (use Nil in auto)
next
  case (Cons c s)
  show ?case
  proof (cases s')
    case Nil
    obtain x y where "json_esc c = x # y" by (cases "json_esc c") auto
    with Cons.prems Nil json_esc_hd show ?thesis by fastforce
  next
    case (Cons c' t)
    from Cons.prems [unfolded Cons] have "c = c' \<and> concat (map json_esc s) @ CHR 0x22 # r
        = concat (map json_esc t) @ CHR 0x22 # r'"
      by (intro json_esc_prefix) simp
    with Cons.IH Cons show ?thesis by blast
  qed
qed

lemma json_string_unique: "json_string s @ r = json_string s' @ r' \<Longrightarrow> s = s' \<and> r = r'"
  using escaped_unique [of s r s' r'] by (simp add: json_string_def)

text \<open>Numbers: their characters are none of the separators.\<close>

definition number_char :: "char \<Rightarrow> bool" where
  "number_char c = (is_digit c \<or> c \<in> {CHR ''-'', CHR ''+'', CHR ''.'', CHR ''e''})"

lemma zero_digit [simp]: "is_digit (CHR ''0'')" "\<not> is_digit (CHR ''.'')" "\<not> is_digit (CHR ''e'')"
  "\<not> is_digit (CHR ''+'')" "\<not> is_digit (CHR '','')" "\<not> is_digit (CHR '']'')" "\<not> is_digit (CHR ''}'')"
  "digit_val (CHR ''0'') = 0"
  by (simp_all add: is_digit_def digit_val_def)

lemma zeros_digits: "c \<in> set (zeros k) \<Longrightarrow> is_digit c"
  by (simp add: zeros_def)

lemma nat_text_number [simp]: "list_all number_char (nat_text n)"
  using nat_text_digits by (auto simp: list_all_iff number_char_def)

lemma digits_parts:
  "c \<in> set (take k (nat_text n)) \<Longrightarrow> is_digit c" "c \<in> set (drop k (nat_text n)) \<Longrightarrow> is_digit c"
  "c \<in> set (tl (nat_text n)) \<Longrightarrow> is_digit c" "is_digit (hd (nat_text n))"
  using nat_text_digits nat_text_digits [OF hd_in_set [OF nat_text_not_Nil]]
  by (auto dest: in_set_takeD in_set_dropD) (metis list.set_sel(2) nat_text_not_Nil)

lemma int_text_number: "list_all number_char (int_text i)"
  using int_text_chars by (auto simp: list_all_iff number_char_def)

lemma float_body_number: "list_all number_char (float_body m e)"
  using nat_text_digits digits_parts zeros_digits
  by (auto simp: float_body_def Let_def list_all_iff number_char_def pad_to_def)

lemma float_repr_number: "is_finite f \<Longrightarrow> list_all number_char (float_repr f)"
  using float_body_number by (cases f) (auto simp: number_char_def)

lemma number_prefix:
  assumes "list_all number_char s" "list_all number_char s'" "ends_here r" "ends_here r'"
    and "s @ r = s' @ r'"
  shows "s = s' \<and> r = r'"
proof -
  have "takeWhile number_char (t @ u) = t" if "list_all number_char t" "ends_here u" for t u
  proof -
    have "takeWhile number_char u = []"
      using that(2) by (cases u) (auto simp: number_char_def)
    with that(1) show ?thesis by (simp add: takeWhile_append list_all_iff)
  qed
  from this [OF assms(1,3)] this [OF assms(2,4)] assms(5) show ?thesis by auto
qed

text \<open>A float's text names it: the digits and the place of the decimal point are read back.\<close>

definition exponent_read :: "string \<Rightarrow> int" where
  "exponent_read s =
     (case s of [] \<Rightarrow> 0
      | c # t \<Rightarrow> if c = CHR ''-'' then - int (nat_of_text t) else int (nat_of_text t))"

definition fraction_len :: "string \<Rightarrow> nat" where
  "fraction_len s = length (tl (dropWhile (\<lambda>c. c \<noteq> CHR ''.'') s))"

definition float_read :: "string \<Rightarrow> nat \<times> int" where
  "float_read t =
     (let mant = takeWhile (\<lambda>c. c \<noteq> CHR ''e'') t in
      (nat_of_text (filter is_digit mant),
       exponent_read (tl (dropWhile (\<lambda>c. c \<noteq> CHR ''e'') t)) - int (fraction_len mant)))"

lemma dropWhile_stop: "c \<notin> set y \<Longrightarrow> dropWhile (\<lambda>z. z \<noteq> c) (y @ c # x) = c # x"
  by (induction y) auto

lemma float_read_exponent:
  "CHR ''e'' \<notin> set mant \<Longrightarrow> float_read (mant @ CHR ''e'' # s)
    = (nat_of_text (filter is_digit mant), exponent_read s - int (fraction_len mant))"
  by (simp add: float_read_def takeWhile_stop dropWhile_stop)

lemma float_read_fixed:
  "CHR ''e'' \<notin> set mant \<Longrightarrow> float_read mant
    = (nat_of_text (filter is_digit mant), - int (fraction_len mant))"
proof -
  assume "CHR ''e'' \<notin> set mant"
  then have "takeWhile (\<lambda>c. c \<noteq> CHR ''e'') mant = mant" "dropWhile (\<lambda>c. c \<noteq> CHR ''e'') mant = []"
    by (auto simp: takeWhile_eq_all_conv)
  note parts = this
  show ?thesis
    unfolding float_read_def Let_def parts by (simp add: exponent_read_def)
qed

lemma nat_of_text_zeros [simp]: "nat_of_text (zeros k @ s) = nat_of_text s"
  by (induction k) (simp_all add: zeros_def nat_of_text_def)

lemma nat_of_text_pad [simp]: "nat_of_text (pad_to k (nat_text n)) = n"
  by (simp add: pad_to_def)

lemma filter_digits: "(\<And>c. c \<in> set s \<Longrightarrow> is_digit c) \<Longrightarrow> filter is_digit s = s"
  by (simp add: filter_id_conv)

lemma digits_no_char:
  "(\<And>c. c \<in> set s \<Longrightarrow> is_digit c) \<Longrightarrow> \<not> is_digit x \<Longrightarrow> x \<notin> set s"
  by auto

lemma fraction_len_point:
  "(\<And>c. c \<in> set s \<Longrightarrow> is_digit c) \<Longrightarrow> fraction_len (s @ CHR ''.'' # t) = length t"
  by (simp add: fraction_len_def dropWhile_stop digits_no_char)

lemma fraction_len_none:
  "(\<And>c. c \<in> set s \<Longrightarrow> is_digit c) \<Longrightarrow> fraction_len s = 0"
proof -
  assume "\<And>c. c \<in> set s \<Longrightarrow> is_digit c"
  then have "CHR ''.'' \<notin> set s" using zero_digit(2) by blast
  then have none: "dropWhile (\<lambda>c. c \<noteq> CHR ''.'') s = []" by auto
  show ?thesis unfolding fraction_len_def none by simp
qed

lemma no_exponent_char:
  assumes "\<And>c. c \<in> set s \<Longrightarrow> is_digit c \<or> c = CHR ''.''"
  shows "CHR ''e'' \<notin> set s"
proof
  assume "CHR ''e'' \<in> set s"
  from assms [OF this] show False by simp
qed

lemma float_read_body:
  assumes "e < 0"
  shows "float_read (float_body m e) = (m, e)"
proof -
  let ?ds = "nat_text m" and ?n = "length (nat_text m)"
  let ?point = "int (length (nat_text m)) + e"
  have n: "0 < ?n" by simp
  have digit: "is_digit c" if "c \<in> set ?ds" for c using that by (rule nat_text_digits)
  consider "?point \<le> -4 \<or> 16 < ?point" | "-4 < ?point" "?point \<le> 16" "?point \<le> 0"
    | "0 < ?point" "?point \<le> 16" by linarith
  then show ?thesis
  proof cases
    case 1
    let ?mant = "hd ?ds # (if 1 < ?n then CHR ''.'' # tl ?ds else [])"
    let ?ex = "(if ?point - 1 < 0 then ''-'' else ''+'') @ pad_to 2 (nat_text (nat \<bar>?point - 1\<bar>))"
    have body: "float_body m e = ?mant @ CHR ''e'' # ?ex"
      using 1 by (auto simp: float_body_def Let_def)
    have ds: "?ds = hd ?ds # tl ?ds" by simp
    have single: "?ds = [hd ?ds]" if "\<not> 1 < ?n"
      using that n by (cases ?ds) auto
    have digits: "filter is_digit ?mant = ?ds"
      using single filter_digits [of "tl ?ds"] digits_parts(3,4) ds by auto
    have frac: "fraction_len ?mant = ?n - 1"
      using fraction_len_point [of "[hd ?ds]" "tl ?ds"] fraction_len_none [of "[hd ?ds]"]
        digits_parts(4) [of m] by auto
    have ex: "exponent_read ?ex = ?point - 1"
      by (simp add: exponent_read_def)
    have no_e: "CHR ''e'' \<notin> set ?mant"
      by (rule no_exponent_char) (use digits_parts(3,4) in \<open>auto split: if_splits\<close>)
    show ?thesis
      unfolding body float_read_exponent [OF no_e] digits frac ex by (simp add: of_nat_diff Suc_le_eq)
  next
    case 2
    let ?z = "nat (- ?point)"
    have body: "float_body m e = ''0.'' @ zeros ?z @ ?ds"
      using 2 by (simp add: float_body_def Let_def)
    have dig: "is_digit c" if "c \<in> set (zeros ?z @ ?ds)" for c
      using that digit zeros_digits by auto
    have frac: "fraction_len (''0.'' @ zeros ?z @ ?ds) = ?z + ?n"
      using fraction_len_point [of "''0''" "zeros ?z @ ?ds"] by (simp add: zeros_def)
    have digits: "nat_of_text (filter is_digit (''0.'' @ zeros ?z @ ?ds)) = m"
      using filter_digits [OF dig] nat_of_text_zeros [of "Suc ?z" ?ds] by (simp add: zeros_def)
    have no_e: "CHR ''e'' \<notin> set (''0.'' @ zeros ?z @ ?ds)"
      by (rule no_exponent_char) (use dig in auto)
    show ?thesis
      unfolding body float_read_fixed [OF no_e] digits frac using 2 by simp
  next
    case 3
    let ?k = "nat ?point"
    have body: "float_body m e = take ?k ?ds @ ''.'' @ drop ?k ?ds"
      using 3 assms by (simp add: float_body_def Let_def)
    have frac: "fraction_len (take ?k ?ds @ ''.'' @ drop ?k ?ds) = ?n - ?k"
      using fraction_len_point [of "take ?k ?ds" "drop ?k ?ds"] digits_parts(1) by simp
    have digits: "filter is_digit (take ?k ?ds @ ''.'' @ drop ?k ?ds) = ?ds"
      using filter_digits [of "take ?k ?ds"] filter_digits [of "drop ?k ?ds"] digits_parts(1,2) by simp
    have no_e: "CHR ''e'' \<notin> set (take ?k ?ds @ ''.'' @ drop ?k ?ds)"
      by (rule no_exponent_char) (use digits_parts(1,2) in auto)
    show ?thesis
      unfolding body float_read_fixed [OF no_e] digits frac using 3 assms
      by (auto simp: of_nat_diff nat_le_iff)
  qed
qed

lemma float_body_hd: "\<exists>c t. float_body m e = c # t \<and> is_digit c"
proof -
  obtain c t where ds: "nat_text m = c # t" by (cases "nat_text m") auto
  moreover have "is_digit c" using nat_text_digits [of c m] ds by simp
  ultimately show ?thesis by (auto simp: float_body_def Let_def take_Cons' zeros_def)
qed

lemma float_repr_inject:
  assumes "normal (PFloat f)" "normal (PFloat f')" and eq: "float_repr f = float_repr f'"
  shows "f = f'"
proof -
  obtain s m e where f: "f = FDec s m e" "e < 0" using assms(1) by (cases f) auto
  obtain s' m' e' where f': "f' = FDec s' m' e'" "e' < 0" using assms(2) by (cases f') auto
  have "s = s' \<and> float_body m e = float_body m' e'"
    using eq float_body_hd [of m e] float_body_hd [of m' e'] unfolding f(1) f'(1)
    by (auto split: if_splits)
  moreover have "(m, e) = (m', e')" if "float_body m e = float_body m' e'"
    using that float_read_body f(2) f'(2) by metis
  ultimately show ?thesis by (simp add: f f')
qed

lemma float_body_point: "e < 0 \<Longrightarrow> \<exists>c\<in>{CHR ''.'', CHR ''e''}. c \<in> set (float_body m e)"
  by (auto simp: float_body_def Let_def)

lemma float_not_int:
  assumes "normal (PFloat f)" shows "float_repr f \<noteq> int_text i"
proof -
  obtain s m e where f: "f = FDec s m e" "e < 0" using assms by (cases f) auto
  have "\<exists>c\<in>{CHR ''.'', CHR ''e''}. c \<in> set (float_repr f)"
    using float_body_point [OF f(2), of m] by (auto simp: f(1))
  then show ?thesis using int_text_chars [of _ i] zero_digit(2,3) by fastforce
qed

text \<open>The first character of a text tells which kind of value it is of.\<close>

lemma int_text_hd: "\<exists>c t. int_text i = c # t \<and> (c = CHR ''-'' \<or> is_digit c)"
  using int_text_chars [of _ i] by (cases "int_text i") auto

definition char_class :: "char \<Rightarrow> char" where
  "char_class c = (if c = CHR ''-'' \<or> is_digit c then CHR ''0'' else c)"

fun start_class :: "py \<Rightarrow> char" where
  "start_class PNone = CHR ''n''"
| "start_class (PBool b) = (if b then CHR ''t'' else CHR ''f'')"
| "start_class (PInt i) = CHR ''0''"
| "start_class (PFloat f) = CHR ''0''"
| "start_class (PStr s) = CHR 0x22"
| "start_class (PList vs) = CHR ''[''"
| "start_class (PDict kvs) = CHR 0x7B"
| "start_class (PMoment t off) = CHR ''0''"

lemma text_of_start: "normal v \<Longrightarrow> \<exists>c t. text_of v = c # t \<and> char_class c = start_class v"
proof (cases v)
  case (PInt i)
  moreover obtain c t where "int_text i = c # t" "c = CHR ''-'' \<or> is_digit c"
    using int_text_hd [of i] by blast
  ultimately show ?thesis by (simp add: char_class_def)
next
  case (PFloat f)
  assume "normal v"
  then obtain s m e where f: "f = FDec s m e" using PFloat by (cases f) auto
  obtain c t where "float_body m e = c # t" "is_digit c" using float_body_hd by blast
  then show ?thesis using PFloat by (simp add: char_class_def f)
qed (auto simp: char_class_def is_digit_def json_string_def)

lemma same_start:
  assumes "normal v" "normal v'" "text_of v @ r = text_of v' @ r'"
  shows "start_class v = start_class v'"
  using text_of_start [OF assms(1)] text_of_start [OF assms(2)] assms(3) by auto

lemma join_with_Cons: "join_with sep (x # xs) = x @ concat (map (\<lambda>y. sep @ y) xs)"
  by (induction xs arbitrary: x) auto

text \<open>\<open>unique_text v\<close>: whatever follows, the text of \<open>v\<close> is read back in one way.\<close>

definition unique_text :: "py \<Rightarrow> bool" where
  "unique_text v \<longleftrightarrow> (\<forall>v' r r'. normal v' \<and> ends_here r \<and> ends_here r' \<and>
     text_of v @ r = text_of v' @ r' \<longrightarrow> v = v' \<and> r = r')"

lemma unique_textD:
  "unique_text v \<Longrightarrow> normal v' \<Longrightarrow> ends_here r \<Longrightarrow> ends_here r' \<Longrightarrow>
    text_of v @ r = text_of v' @ r' \<Longrightarrow> v = v' \<and> r = r'"
  unfolding unique_text_def by blast

definition tail_items :: "py list \<Rightarrow> string" where
  "tail_items vs = concat (map (\<lambda>v. CHR '','' # text_of v) vs)"

definition tail_pairs :: "(string \<times> py) list \<Rightarrow> string" where
  "tail_pairs kvs = concat (map (\<lambda>kv. CHR '','' # json_string (fst kv) @ CHR '':'' # text_of (snd kv)) kvs)"

lemma tail_simps [simp]:
  "tail_items [] = []" "tail_items (v # vs) = CHR '','' # text_of v @ tail_items vs"
  "tail_pairs [] = []"
  "tail_pairs (kv # kvs) = CHR '','' # json_string (fst kv) @ CHR '':'' # text_of (snd kv) @ tail_pairs kvs"
  by (simp_all add: tail_items_def tail_pairs_def)

lemma text_of_list:
  "text_of (PList []) = ''[]''"
  "text_of (PList (v # vs)) = CHR ''['' # text_of v @ tail_items vs @ '']''"
  by (simp_all add: join_with_Cons tail_items_def comp_def)

lemma text_of_dict:
  "text_of (PDict []) = [CHR 0x7B, CHR 0x7D]"
  "text_of (PDict (kv # kvs)) = CHR 0x7B # json_string (fst kv) @ CHR '':'' # text_of (snd kv)
     @ tail_pairs kvs @ [CHR 0x7D]"
  by (simp_all add: join_with_Cons tail_pairs_def comp_def)

lemma ends_here_tails [simp]:
  "ends_here (tail_items vs @ CHR '']'' # r)" "ends_here (tail_pairs kvs @ CHR 0x7D # r)"
  by (cases vs; simp) (cases kvs; simp)

lemma tail_items_unique:
  assumes "\<And>v. v \<in> set vs \<Longrightarrow> unique_text v" "\<forall>v\<in>set vs'. normal v"
    and "tail_items vs @ CHR '']'' # r = tail_items vs' @ CHR '']'' # r'"
  shows "vs = vs' \<and> r = r'"
  using assms
proof (induction vs arbitrary: vs')
  case Nil
  then show ?case by (cases vs') auto
next
  case (Cons v vs)
  then obtain v' ws where vs': "vs' = v' # ws" by (cases vs') auto
  from Cons.prems vs' have "v = v' \<and> tail_items vs @ CHR '']'' # r = tail_items ws @ CHR '']'' # r'"
    by (intro unique_textD) auto
  with Cons vs' show ?case by auto
qed

lemma tail_pairs_unique:
  assumes "\<And>kv. kv \<in> set kvs \<Longrightarrow> unique_text (snd kv)" "\<forall>kv\<in>set kvs'. normal (snd kv)"
    and "tail_pairs kvs @ CHR 0x7D # r = tail_pairs kvs' @ CHR 0x7D # r'"
  shows "kvs = kvs' \<and> r = r'"
  using assms
proof (induction kvs arbitrary: kvs')
  case Nil
  then show ?case by (cases kvs') auto
next
  case (Cons kv kvs)
  then obtain kv' ws where kvs': "kvs' = kv' # ws" by (cases kvs') auto
  from Cons.prems(3) kvs' have "fst kv = fst kv' \<and>
      CHR '':'' # text_of (snd kv) @ tail_pairs kvs @ CHR 0x7D # r
      = CHR '':'' # text_of (snd kv') @ tail_pairs ws @ CHR 0x7D # r'"
    by (intro json_string_unique) simp
  moreover from this Cons.prems kvs' have "snd kv = snd kv' \<and>
      tail_pairs kvs @ CHR 0x7D # r = tail_pairs ws @ CHR 0x7D # r'"
    by (intro unique_textD) auto
  ultimately show ?case
    using Cons.IH [of ws] Cons.prems(1,2) kvs' by (auto simp: prod_eq_iff)
qed

lemma number_unique_text:
  assumes "normal v" and "(\<exists>i. v = PInt i) \<or> (\<exists>f. v = PFloat f)"
  shows "unique_text v"
  unfolding unique_text_def
proof (intro allI impI, elim conjE)
  fix v' r r'
  assume v': "normal v'" and ends: "ends_here r" "ends_here r'"
    and eq: "text_of v @ r = text_of v' @ r'"
  have num: "list_all number_char (text_of w)" if "normal w" "start_class w = CHR ''0''" for w
    using that int_text_number float_repr_number by (cases w) (auto split: if_splits)
  have start: "start_class v' = CHR ''0''"
    using same_start [OF assms(1) v' eq] assms(2) by auto
  have same: "text_of v = text_of v'" "r = r'"
    using number_prefix [OF num [OF assms(1)] num [OF v' start] ends eq] assms(2) by auto
  from start v' have "(\<exists>i. v' = PInt i) \<or> (\<exists>f. v' = PFloat f)"
    by (cases v') (auto split: if_splits)
  with assms same(1) v' show "v = v' \<and> r = r'"
    using float_repr_inject float_not_int same(2) by (metis int_text_inject text_of.simps(3,4))
qed

lemma no_closing_start:
  assumes "normal v" shows "text_of v @ r \<noteq> CHR '']'' # s" "CHR '']'' # s \<noteq> text_of v @ r"
proof -
  obtain c t where "text_of v = c # t" "char_class c = start_class v"
    using text_of_start [OF assms] by blast
  moreover have "start_class v \<noteq> CHR '']''" by (cases v) auto
  ultimately show "text_of v @ r \<noteq> CHR '']'' # s" "CHR '']'' # s \<noteq> text_of v @ r"
    by (auto simp: char_class_def)
qed

lemma list_unique_text:
  assumes "\<And>v. v \<in> set vs \<Longrightarrow> normal v \<and> unique_text v"
  shows "unique_text (PList vs)"
  unfolding unique_text_def
proof (intro allI impI, elim conjE)
  fix v' r r'
  assume a: "normal v'" "ends_here r" "ends_here r'" "text_of (PList vs) @ r = text_of v' @ r'"
  have "normal (PList vs)" using assms by simp
  from same_start [OF this a(1,4)] obtain ws where v': "v' = PList ws"
    by (cases v') (auto split: if_splits)
  note eq = a(4) [unfolded v']
  show "PList vs = v' \<and> r = r'"
  proof (cases vs)
    case Nil
    then show ?thesis
      using eq a(1) no_closing_start v' by (cases ws) (auto simp: text_of_list simp del: text_of.simps)
  next
    case (Cons v us)
    have nv: "normal v" "unique_text v" using assms Cons by auto
    show ?thesis
    proof (cases ws)
      case Nil
      then show ?thesis
        using eq nv Cons no_closing_start by (auto simp: text_of_list simp del: text_of.simps)
    next
      case (Cons w xs)
      have "v = w \<and> tail_items us @ CHR '']'' # r = tail_items xs @ CHR '']'' # r'"
        by (rule unique_textD [OF nv(2)])
          (use eq a(1) v' \<open>vs = v # us\<close> Cons in \<open>auto simp: text_of_list simp del: text_of.simps\<close>)
      moreover from this have "us = xs \<and> r = r'"
        by (intro tail_items_unique) (use assms a(1) v' \<open>vs = v # us\<close> Cons in auto)
      ultimately show ?thesis using v' \<open>vs = v # us\<close> Cons by simp
    qed
  qed
qed

lemma dict_unique_text:
  assumes "\<And>kv. kv \<in> set kvs \<Longrightarrow> normal (snd kv) \<and> unique_text (snd kv)"
  shows "unique_text (PDict kvs)"
  unfolding unique_text_def
proof (intro allI impI, elim conjE)
  fix v' r r'
  assume a: "normal v'" "ends_here r" "ends_here r'" "text_of (PDict kvs) @ r = text_of v' @ r'"
  have "normal (PDict kvs)" using assms by simp
  from same_start [OF this a(1,4)] obtain ws where v': "v' = PDict ws"
    by (cases v') (auto split: if_splits)
  note eq = a(4) [unfolded v']
  show "PDict kvs = v' \<and> r = r'"
  proof (cases kvs)
    case Nil
    then show ?thesis
      using eq v' by (cases ws) (auto simp: text_of_dict json_string_def simp del: text_of.simps)
  next
    case (Cons kv us)
    show ?thesis
    proof (cases ws)
      case Nil
      then show ?thesis
        using eq Cons by (auto simp: text_of_dict json_string_def simp del: text_of.simps)
    next
      case (Cons kw xs)
      from eq have "fst kv = fst kw \<and> CHR '':'' # text_of (snd kv) @ tail_pairs us @ CHR 0x7D # r
          = CHR '':'' # text_of (snd kw) @ tail_pairs xs @ CHR 0x7D # r'"
        by (intro json_string_unique)
          (simp add: text_of_dict \<open>kvs = kv # us\<close> Cons del: text_of.simps)
      moreover from this have "snd kv = snd kw \<and>
          tail_pairs us @ CHR 0x7D # r = tail_pairs xs @ CHR 0x7D # r'"
        by (intro unique_textD) (use assms a(1) v' \<open>kvs = kv # us\<close> Cons in auto)
      moreover from this have "us = xs \<and> r = r'"
        by (intro tail_pairs_unique) (use assms a(1) v' \<open>kvs = kv # us\<close> Cons in auto)
      ultimately show ?thesis using v' \<open>kvs = kv # us\<close> Cons by (auto simp: prod_eq_iff)
    qed
  qed
qed

lemma constant_unique_text:
  assumes "normal v" "start_class v \<in> {CHR ''n'', CHR ''t'', CHR ''f'', CHR 0x22}"
  shows "unique_text v"
  unfolding unique_text_def
proof (intro allI impI, elim conjE)
  fix v' r r'
  assume a: "normal v'" "text_of v @ r = text_of v' @ r'"
  from same_start [OF assms(1) a] a(2) assms show "v = v' \<and> r = r'"
    by (cases v; cases v') (auto split: if_splits dest: json_string_unique)
qed

lemma normal_unique_text: "normal v \<Longrightarrow> unique_text v"
proof (induction v rule: py_induct)
  case (List_ vs)
  then show ?case by (intro list_unique_text) auto
next
  case (Dict_ kvs)
  then show ?case by (intro dict_unique_text) auto
next
  case (Bool_ b)
  then show ?case by (cases b) (auto intro: constant_unique_text)
qed (auto intro: number_unique_text constant_unique_text)

text \<open>
  The serialisation every digest is taken over is one-to-one on normal documents, up to
  the order in which a dictionary's keys were inserted.
\<close>

lemma canonical_inject:
  assumes "normal v" "normal w"
  shows "canonical v = canonical w \<longleftrightarrow> sorted_form v = sorted_form w"
  using assms unique_textD [OF normal_unique_text [OF normal_sorted_form [OF assms(1)]]
    normal_sorted_form [OF assms(2)], of "[]" "[]"]
  by (auto simp: canonical_text)

section \<open>What a JSON column holds\<close>

lemma dumps_json_error:
  "dumps so v = Inr t \<Longrightarrow> floats_wf v \<Longrightarrow> normalised v = Inr w \<Longrightarrow> normal w"
proof (induction v arbitrary: t w rule: py_induct)
  case (Float_ f)
  then show ?case by (cases f) (auto simp: number_def split: if_splits)
next
  case (List_ vs)
  from List_.prems obtain ts ws where ts: "map (dumps so) vs = map Inr ts"
    and ws: "map normalised vs = map Inr ws" and w: "w = PList ws"
    by (auto simp: result_iffs sequence_r_eq_Inr)
  have "normal (ws ! i)" if "i < length ws" for i
  proof -
    have len: "length vs = length ws" "length vs = length ts"
      using ws ts by (metis length_map)+
    have "dumps so (vs ! i) = Inr (ts ! i)" "normalised (vs ! i) = Inr (ws ! i)"
      using that len ts ws by (metis nth_map)+
    then show ?thesis
      using List_.IH [of "vs ! i" "ts ! i" "ws ! i"] List_.prems(2) that len by simp
  qed
  then show ?case unfolding w by (auto simp: in_set_conv_nth)
next
  case (Dict_ kvs)
  have item: "normal x" if "(k, v) \<in> set kvs" "normalised v = Inr x" for k v x
  proof -
    let ?xs = "(if so then sort_key fst else id) (map (map_prod id (dumps so)) kvs)"
    let ?item = "\<lambda>kr. map_r (\<lambda>t. json_string (fst kr) @ '':'' @ t) (snd kr)"
    have dumped: "map_r (\<lambda>ts. ''{'' @ join_with '','' ts @ ''}'') (sequence_r (map ?item ?xs)) = Inr t"
      using Dict_.prems(1) by (simp only: dumps.simps)
    obtain ts where "sequence_r (map ?item ?xs) = Inr ts"
      using dumped by (cases "sequence_r (map ?item ?xs)") (simp_all only: map_r_Inl sum.distinct)
    moreover have "(k, dumps so v) \<in> set (map (map_prod id (dumps so)) kvs)"
      using imageI [OF that(1), of "map_prod id (dumps so)"] by simp
    then have "(k, dumps so v) \<in> set ?xs" by (cases so) simp_all
    then have "?item (k, dumps so v) \<in> set (map ?item ?xs)" unfolding set_map by (rule imageI)
    ultimately obtain u where "?item (k, dumps so v) = Inr u" using sequence_r_mem by blast
    then obtain t where "dumps so v = Inr t" by (auto simp: map_r_eq_Inr)
    then show ?thesis
      using Dict_.IH [OF that(1), of t x] Dict_.prems(2) that by fastforce
  qed
  from Dict_.prems(3) obtain ws where w: "w = PDict ws"
    and ws: "map (\<lambda>kv. map_r (Pair (fst kv)) (normalised (snd kv))) kvs = map Inr ws"
    by (auto simp: result_iffs sequence_r_eq_Inr comp_def)
  have "normal (snd kw)" if "kw \<in> set ws" for kw
  proof -
    from that have "Inr kw \<in> set (map (\<lambda>kv. map_r (Pair (fst kv)) (normalised (snd kv))) kvs)"
      unfolding ws by simp
    then obtain k v where "(k, v) \<in> set kvs" "Inr kw = map_r (Pair k) (normalised v)" by auto
    then show ?thesis using item [of k v] by (cases "normalised v") auto
  qed
  then show ?case unfolding w by simp
qed auto

lemma json_value_normal: "floats_wf v \<Longrightarrow> json_value v = Inr w \<Longrightarrow> normal w"
  by (auto simp: json_value_def json_roundtrip_def result_iffs split: if_splits
      intro: dumps_json_error)

lemma normal_dumps: "normal v \<Longrightarrow> \<exists>t. dumps so v = Inr t"
proof (induction v rule: py_induct)
  case (List_ vs)
  then obtain f where "\<forall>v\<in>set vs. dumps so v = Inr (f v)" by simp metis
  then have "sequence_r (map (dumps so) vs) = Inr (map f vs)" by (intro sequence_r_cong_Inr) auto
  then show ?case by simp
next
  case (Dict_ kvs)
  let ?item = "\<lambda>kr. map_r (\<lambda>t. json_string (fst kr) @ '':'' @ t) (snd kr)"
  have "\<exists>t. ?item kr = Inr t" if "kr \<in> set (map (map_prod id (dumps so)) kvs)" for kr
    using that Dict_ by fastforce
  then obtain f where f: "?item kr = Inr (f kr)" if "kr \<in> set (map (map_prod id (dumps so)) kvs)" for kr
    by metis
  have "sequence_r (map ?item xs) = Inr (map f xs)"
    if "set xs = set (map (map_prod id (dumps so)) kvs)" for xs
    by (intro sequence_r_cong_Inr) (use f that in auto)
  from this [of "(if so then sort_key fst else id) (map (map_prod id (dumps so)) kvs)"]
  show ?case by simp
qed auto

lemma normal_normalised: "normal v \<Longrightarrow> normalised v = Inr v"
proof (induction v rule: py_induct)
  case (Float_ f)
  then show ?case by (cases f) (auto simp: number_def)
next
  case (List_ vs)
  then have "sequence_r (map normalised vs) = Inr (map (\<lambda>v. v) vs)"
    by (intro sequence_r_cong_Inr) auto
  then show ?case by simp
next
  case (Dict_ kvs)
  then have "sequence_r (map (\<lambda>kv. map_r (Pair (fst kv)) (normalised (snd kv))) kvs) = Inr (map (\<lambda>kv. kv) kvs)"
    by (intro sequence_r_cong_Inr) auto
  then show ?case by (simp add: comp_def)
qed auto

text \<open>A normal document is what the column reads back.\<close>

lemma normal_json_value [simp]: "normal v \<Longrightarrow> json_value v = Inr v"
  using normal_dumps [of v False] normal_normalised [of v]
  by (auto simp: json_value_def json_roundtrip_def)

lemma normal_opt [simp]: "normal (py_opt_str a)" "normal (py_opt_int i)"
  by (simp_all add: py_opt_str_def py_opt_int_def split: option.splits)

lemma normal_floats_wf: "normal v \<Longrightarrow> floats_wf v"
  by (induction v rule: py_induct) auto

end
