(* ===== verification/Py_Dict.thy ===== *)
theory Py_Dict
  imports Py_Json
begin

text \<open>
  Python's operations on dictionaries, truth values and text that the audit and ledger code
  uses on JSON documents: \<open>get\<close>, item assignment, \<open>{**d, k: v}\<close>, \<open>isinstance(v, Mapping)\<close>,
  \<open>bool(v)\<close>, \<open>v or w\<close>, \<open>str(v)\<close>, \<open>v == w\<close> and \<open>str.strip\<close>.
\<close>

type_synonym dict = "(string \<times> py) list"

section \<open>Dictionaries\<close>

definition dict_get :: "dict \<Rightarrow> string \<Rightarrow> py" where
  "dict_get d k = (case map_of d k of None \<Rightarrow> PNone | Some v \<Rightarrow> v)"

fun dict_set :: "dict \<Rightarrow> string \<Rightarrow> py \<Rightarrow> dict" where
  "dict_set [] k v = [(k, v)]"
| "dict_set (p # d) k v = (if fst p = k then (k, v) # d else p # dict_set d k v)"

definition dict_without :: "string list \<Rightarrow> dict \<Rightarrow> dict" where
  "dict_without ks d = filter (\<lambda>kv. fst kv \<notin> set ks) d"

text \<open>\<open>isinstance(v, Mapping)\<close>.\<close>

definition as_mapping :: "py \<Rightarrow> dict option" where
  "as_mapping v = (case v of PDict d \<Rightarrow> Some d | _ \<Rightarrow> None)"

definition as_list :: "py \<Rightarrow> py list option" where
  "as_list v = (case v of PList vs \<Rightarrow> Some vs | _ \<Rightarrow> None)"

lemma as_mapping_simps [simp]:
  "as_mapping (PDict d) = Some d" "as_mapping PNone = None" "as_mapping (PStr s) = None"
  "as_mapping (PBool b) = None" "as_mapping (PInt i) = None" "as_mapping (PList vs) = None"
  "as_mapping (PFloat f) = None" "as_mapping (PMoment t off) = None"
  by (simp_all add: as_mapping_def)

lemma as_mapping_Some: "as_mapping v = Some d \<longleftrightarrow> v = PDict d"
  by (cases v) auto

lemma dict_get_set [simp]: "dict_get (dict_set d k v) k' = (if k' = k then v else dict_get d k')"
  by (induction d) (auto simp: dict_get_def)

lemma dict_get_Nil [simp]: "dict_get [] k = PNone"
  by (simp add: dict_get_def)

lemma dict_get_Cons [simp]: "dict_get ((k, v) # d) k' = (if k = k' then v else dict_get d k')"
  by (simp add: dict_get_def)

lemma dict_get_without: "dict_get (dict_without ks d) k = (if k \<in> set ks then PNone else dict_get d k)"
  by (induction d) (auto simp: dict_without_def dict_get_def)

lemma fst_dict_set: "fst ` set (dict_set d k v) = insert k (fst ` set d)"
  by (induction d) (auto simp: image_iff)

lemma dict_set_new: "k \<notin> fst ` set d \<Longrightarrow> dict_set d k v = d @ [(k, v)]"
  by (induction d) auto

lemma dict_without_set [simp]:
  "dict_without ks (dict_set d k v) =
     (if k \<in> set ks then dict_without ks d else dict_set (dict_without ks d) k v)"
  by (induction d) (auto simp: dict_without_def)

lemma dict_without_id: "\<forall>kv\<in>set d. fst kv \<notin> set ks \<Longrightarrow> dict_without ks d = d"
  by (simp add: dict_without_def)

lemma dict_without_Nil [simp]: "dict_without ks [] = []"
  by (simp add: dict_without_def)

lemma dict_without_Cons [simp]:
  "dict_without ks ((k, v) # d) = (if k \<in> set ks then dict_without ks d else (k, v) # dict_without ks d)"
  by (simp add: dict_without_def)

lemma dict_without_append [simp]: "dict_without ks (d @ e) = dict_without ks d @ dict_without ks e"
  by (simp add: dict_without_def)

lemma normal_dict_set: "normal (PDict d) \<Longrightarrow> normal v \<Longrightarrow> normal (PDict (dict_set d k v))"
  by (induction d) auto

lemma normal_dict_without: "normal (PDict d) \<Longrightarrow> normal (PDict (dict_without ks d))"
  by (auto simp: dict_without_def)

lemma normal_dict_get: "normal (PDict d) \<Longrightarrow> normal (dict_get d k)"
  by (auto simp: dict_get_def split: option.splits dest!: map_of_SomeD)

text \<open>Two dictionaries with the same sorted form answer every \<open>get\<close> alike.\<close>

lemma map_of_insort_key:
  "k \<notin> fst ` set xs \<Longrightarrow> map_of (insort_key fst (k, v) xs) = (map_of xs)(k \<mapsto> v)"
  by (induction xs) (auto simp: fun_eq_iff)

lemma map_of_sort_key: "distinct (map fst d) \<Longrightarrow> map_of (sort_key fst d) = map_of d"
proof (induction d)
  case (Cons p d)
  then show ?case by (cases p) (simp add: map_of_insort_key)
qed simp

section \<open>Truth, equality and text\<close>

fun truthy :: "py \<Rightarrow> bool" where
  "truthy PNone = False"
| "truthy (PBool b) = b"
| "truthy (PInt i) = (i \<noteq> 0)"
| "truthy (PFloat f) = (case f of FDec s m e \<Rightarrow> m \<noteq> 0 | _ \<Rightarrow> True)"
| "truthy (PStr s) = (s \<noteq> [])"
| "truthy (PList vs) = (vs \<noteq> [])"
| "truthy (PDict d) = (d \<noteq> [])"
| "truthy (PMoment t off) = True"

definition py_or :: "py \<Rightarrow> py \<Rightarrow> py" where
  "py_or v w = (if truthy v then v else w)"

text \<open>
  \<open>==\<close>: booleans, integers and floats compare by their value, dictionaries whatever the
  order of their keys, moments by the instant. A JSON document holds no NaN.
\<close>

primrec eq_form :: "py \<Rightarrow> py" where
  "eq_form PNone = PNone"
| "eq_form (PBool b) = PInt (if b then 1 else 0)"
| "eq_form (PInt i) = PInt i"
| "eq_form (PFloat f) = (case number f of Inr v \<Rightarrow> v | Inl e \<Rightarrow> PFloat f)"
| "eq_form (PStr s) = PStr s"
| "eq_form (PList vs) = PList (map eq_form vs)"
| "eq_form (PDict kvs) = PDict (sort_key fst (map (map_prod id eq_form) kvs))"
| "eq_form (PMoment t off) =
     (case off of None \<Rightarrow> PMoment t None | Some d \<Rightarrow> PMoment (t - d) (Some 0))"

definition py_eq :: "py \<Rightarrow> py \<Rightarrow> bool" where
  "py_eq v w = (eq_form v = eq_form w)"

lemma py_eq_refl [simp]: "py_eq v v"
  by (simp add: py_eq_def)

lemma py_eq_sym: "py_eq v w \<Longrightarrow> py_eq w v"
  by (simp add: py_eq_def)

lemma py_eq_trans: "py_eq u v \<Longrightarrow> py_eq v w \<Longrightarrow> py_eq u w"
  by (simp add: py_eq_def)

lemma number_eq_PStr [simp]: "(case number f of Inr v \<Rightarrow> v | Inl e \<Rightarrow> PFloat f) \<noteq> PStr s"
  by (auto simp: number_def split: pyfloat.splits if_splits)

lemma py_eq_PStr [simp]: "py_eq v (PStr s) \<longleftrightarrow> v = PStr s" "py_eq (PStr s) v \<longleftrightarrow> v = PStr s"
proof -
  show "py_eq v (PStr s) \<longleftrightarrow> v = PStr s"
    by (cases v) (auto simp: py_eq_def split: option.splits)
  then show "py_eq (PStr s) v \<longleftrightarrow> v = PStr s"
    by (auto dest: py_eq_sym)
qed

text \<open>
  \<open>str(v)\<close>. Containers are written as \<open>repr\<close> writes them; a moment's text is never taken
  in the modelled code.
\<close>

definition repr_char :: "char \<Rightarrow> char \<Rightarrow> string" where
  "repr_char q c =
     (if c = q \<or> c = CHR 0x5C then [CHR 0x5C, c]
      else if c = CHR 0x0A then [CHR 0x5C, CHR ''n'']
      else if c = CHR 0x0D then [CHR 0x5C, CHR ''r'']
      else if c = CHR 0x09 then [CHR 0x5C, CHR ''t'']
      else if (of_char c :: nat) < 32 \<or> c = CHR 0x7F then [CHR 0x5C, CHR ''x''] @ hex_byte c
      else [c])"

definition str_repr :: "string \<Rightarrow> string" where
  "str_repr s =
     (let q = (if CHR 0x27 \<in> set s \<and> CHR 0x22 \<notin> set s then CHR 0x22 else CHR 0x27)
      in q # concat (map (repr_char q) s) @ [q])"

primrec py_repr :: "py \<Rightarrow> string" where
  "py_repr PNone = ''None''"
| "py_repr (PBool b) = (if b then ''True'' else ''False'')"
| "py_repr (PInt i) = int_text i"
| "py_repr (PFloat f) = float_repr f"
| "py_repr (PStr s) = str_repr s"
| "py_repr (PList vs) = ''['' @ join_with '', '' (map py_repr vs) @ '']''"
| "py_repr (PDict kvs) =
     ''{'' @ join_with '', '' (map (\<lambda>kt. str_repr (fst kt) @ '': '' @ snd kt)
       (map (map_prod id py_repr) kvs)) @ ''}''"
| "py_repr (PMoment t off) = ''datetime''"

definition py_str :: "py \<Rightarrow> string" where
  "py_str v = (case v of PStr s \<Rightarrow> s | _ \<Rightarrow> py_repr v)"

lemma py_str_simps [simp]:
  "py_str (PStr s) = s" "py_str PNone = ''None''" "py_str (PInt i) = int_text i"
  by (simp_all add: py_str_def)

text \<open>\<open>int(v or 0)\<close> over an integer column or a JSON number; a column of another type never occurs.\<close>

definition py_int_or_0 :: "py \<Rightarrow> int" where
  "py_int_or_0 v =
     (case v of
        PInt i \<Rightarrow> i
      | PBool b \<Rightarrow> (if b then 1 else 0)
      | PFloat (FDec s m e) \<Rightarrow>
          (if s then - 1 else 1) * (if 0 \<le> e then int m * 10 ^ nat e else int m div 10 ^ nat (- e))
      | _ \<Rightarrow> 0)"

lemma py_int_or_0_simps [simp]: "py_int_or_0 (PInt i) = i" "py_int_or_0 PNone = 0"
  by (simp_all add: py_int_or_0_def)

text \<open>\<open>str.strip()\<close> over the ASCII whitespace characters.\<close>

definition is_space :: "char \<Rightarrow> bool" where
  "is_space c = (let n = (of_char c :: nat) in (9 \<le> n \<and> n \<le> 13) \<or> (28 \<le> n \<and> n \<le> 32))"

definition strip :: "string \<Rightarrow> string" where
  "strip s = rev (dropWhile is_space (rev (dropWhile is_space s)))"

text \<open>\<open>int(text)\<close>: a sign, digits with single underscores between them, spaces around.\<close>

fun digit_groups :: "bool \<Rightarrow> string \<Rightarrow> string option" where
  "digit_groups after_digit [] = (if after_digit then Some [] else None)"
| "digit_groups after_digit (c # s) =
     (if is_digit c then map_option (\<lambda>ds. c # ds) (digit_groups True s)
      else if c = CHR ''_'' \<and> after_digit then digit_groups False s
      else None)"

definition int_of_text :: "string \<Rightarrow> int option" where
  "int_of_text text =
     (case strip text of
        [] \<Rightarrow> None
      | c # s \<Rightarrow>
          if c = CHR ''-'' then map_option (\<lambda>ds. - int (nat_of_text ds)) (digit_groups False s)
          else if c = CHR ''+'' then map_option (\<lambda>ds. int (nat_of_text ds)) (digit_groups False s)
          else map_option (\<lambda>ds. int (nat_of_text ds)) (digit_groups False (c # s)))"

text \<open>\<open>int(v)\<close>: a float is cut towards zero, a text read, anything else but a number refused.\<close>

definition py_int :: "py \<Rightarrow> py_error + int" where
  "py_int v =
     (case v of
        PInt i \<Rightarrow> Inr i
      | PBool b \<Rightarrow> Inr (if b then 1 else 0)
      | PFloat f \<Rightarrow>
          (case f of FDec s m e \<Rightarrow> Inr (py_int_or_0 v) | FInf s \<Rightarrow> Inl OverflowError | FNan \<Rightarrow> Inl ValueError)
      | PStr s \<Rightarrow> (case int_of_text s of Some i \<Rightarrow> Inr i | None \<Rightarrow> Inl ValueError)
      | _ \<Rightarrow> Inl TypeError)"

text \<open>
  A dictionary or set looks a value up by its hash: a list or a dictionary has none, which is a
  \<^const>\<open>TypeError\<close>.
\<close>

definition hashable :: "py \<Rightarrow> bool" where
  "hashable v = (case v of PList vs \<Rightarrow> False | PDict d \<Rightarrow> False | _ \<Rightarrow> True)"

definition py_set :: "py list \<Rightarrow> py_error + py list" where
  "py_set vs = (if list_all hashable vs then Inr vs else Inl TypeError)"

definition py_in :: "py \<Rightarrow> py list \<Rightarrow> py_error + bool" where
  "py_in v vs = (if hashable v then Inr (list_ex (py_eq v) vs) else Inl TypeError)"

text \<open>The members a loop takes out of a value, in order: a text gives its characters, a
  dictionary its keys.\<close>

definition py_iter :: "py \<Rightarrow> py_error + py list" where
  "py_iter v =
     (case v of
        PList vs \<Rightarrow> Inr vs
      | PStr s \<Rightarrow> Inr (map (\<lambda>c. PStr [c]) s)
      | PDict d \<Rightarrow> Inr (map (\<lambda>kv. PStr (fst kv)) d)
      | _ \<Rightarrow> Inl TypeError)"

lemma py_iter_list [simp]: "py_iter (PList vs) = Inr vs"
  by (simp add: py_iter_def)

lemma py_int_PInt [simp]: "py_int (PInt i) = Inr i"
  by (simp add: py_int_def)

end
