(* ===== verification/Ledger_Chain.thy ===== *)
theory Ledger_Chain
  imports Py_Dict
begin

text \<open>
  The evidence ledger's digests, hash chain and seal
  (\<open>apps/api/app/services/ledger_chain.py\<close>), function by function: the keys, the canonical
  columns of a ledger row and of a report row, the digests over them, the chain over a job's
  rows, the core seal, the anchored seal, the amendments after it and the follow-up records.

  What the code takes from \<open>hashlib\<close>, \<open>hmac\<close>, \<open>ipaddress\<close> and
  \<open>datetime.fromisoformat\<close> is the argument \<open>L\<close> of type \<open>stdlib\<close>; every theorem holds for
  all of them, so for the real ones, and none assumes the hashes free of collisions.
\<close>

section \<open>Standard library functions and keys\<close>

text \<open>Digests are bytes here; \<^const>\<open>hexdigest\<close> writes them as the code stores them.\<close>

record stdlib =
  sha256 :: "string \<Rightarrow> string"
  hmac_sha256 :: "string \<Rightarrow> string \<Rightarrow> string"
  ip_interface :: "string \<Rightarrow> string option"
  fromisoformat :: "string \<Rightarrow> (int \<times> int option) option"

record chain_key =
  ck_key :: string
  ck_key_id :: string

type_synonym key_ring = "(string \<times> chain_key) list"

definition CHAIN_VERSION :: int where "CHAIN_VERSION = 1"
definition KEY_LABEL :: string where "KEY_LABEL = ''maljan-ledger-chain-v1''"
definition KEY_ID_LENGTH :: nat where "KEY_ID_LENGTH = 16"
definition ENTRY_TAG :: string where "ENTRY_TAG = ''maljan-evidence-entry/1'' @ [CHR 0x0A]"
definition GENESIS_TAG :: string where "GENESIS_TAG = ''maljan-evidence-ledger/1'' @ [CHR 0x0A]"
definition LINK_TAG :: string where "LINK_TAG = ''maljan-evidence-link/1'' @ [CHR 0x0A]"
definition REPORT_TAG :: string where "REPORT_TAG = ''maljan-stored-report/1'' @ [CHR 0x0A]"
definition RECORD_TAG :: string where "RECORD_TAG = ''maljan-ledger-record/1'' @ [CHR 0x0A]"
definition FOLLOW_UP_TAG :: string where "FOLLOW_UP_TAG = ''maljan-follow-up/1'' @ [CHR 0x0A]"
definition KEY_ID_TAG :: string where "KEY_ID_TAG = ''maljan-ledger-chain-key-id/1'' @ [CHR 0x0A]"

text \<open>
  \<open>derive_key\<close>: the HKDF of the \<open>cryptography\<close> package is the argument \<open>hkdf\<close> (secret,
  purpose label).
\<close>

definition derive_key ::
  "stdlib \<Rightarrow> (string \<Rightarrow> string \<Rightarrow> string) \<Rightarrow> string \<Rightarrow> string \<Rightarrow> chain_key" where
  "derive_key L hkdf secret label =
     (let key = hkdf secret label;
          digest = hexdigest (sha256 L (KEY_ID_TAG @ key))
      in \<lparr>ck_key = key, ck_key_id = take KEY_ID_LENGTH digest\<rparr>)"

text \<open>
  \<open>platform_key_status\<close>: \<open>bootstrap\<close> is what reading the bootstrap settings gives, the
  secret or the class of the import or validation error caught; \<open>env\<close> the environment
  variable's value, \<^const>\<open>None\<close> when unset.
\<close>

datatype no_key_reason = BootstrapUnread string | EnvVarNotSet

definition platform_key_status ::
  "stdlib \<Rightarrow> (string \<Rightarrow> string \<Rightarrow> string) \<Rightarrow> string \<Rightarrow> string + string \<Rightarrow> string option
    \<Rightarrow> chain_key option \<times> no_key_reason option" where
  "platform_key_status L hkdf label bootstrap env =
     (let secret = (case bootstrap of Inr s \<Rightarrow> strip s | Inl exc \<Rightarrow> []);
          unread = (case bootstrap of Inr s \<Rightarrow> None | Inl exc \<Rightarrow> Some exc);
          secret = (if secret = [] then strip (or_empty env) else secret)
      in if secret \<noteq> [] then (Some (derive_key L hkdf secret label), None)
         else case unread of
           Some exc \<Rightarrow> (None, Some (BootstrapUnread exc))
         | None \<Rightarrow> (None, Some EnvVarNotSet))"

definition platform_key ::
  "stdlib \<Rightarrow> (string \<Rightarrow> string \<Rightarrow> string) \<Rightarrow> string + string \<Rightarrow> string option \<Rightarrow> chain_key option" where
  "platform_key L hkdf bootstrap env = fst (platform_key_status L hkdf KEY_LABEL bootstrap env)"

definition known_keys ::
  "stdlib \<Rightarrow> (string \<Rightarrow> string \<Rightarrow> string) \<Rightarrow> string + string \<Rightarrow> string option \<Rightarrow> key_ring" where
  "known_keys L hkdf bootstrap env =
     (case platform_key L hkdf bootstrap env of
        Some current \<Rightarrow> [(ck_key_id current, current)]
      | None \<Rightarrow> [])"

text \<open>\<open>keyed\<close>: HMAC-SHA256 under a key, separated by a tag, as hex.\<close>

definition keyed :: "stdlib \<Rightarrow> chain_key \<Rightarrow> string \<Rightarrow> string \<Rightarrow> string" where
  "keyed L key tag message = hexdigest (hmac_sha256 L (ck_key key) (tag @ message))"

text \<open>\<open>f"{previous}:{digest}".encode("ascii")\<close>\<close>

definition link_message :: "string \<Rightarrow> string \<Rightarrow> py_error + string" where
  "link_message previous digest =
     (let text = previous @ '':'' @ digest
      in if is_ascii text then Inr text else Inl UnicodeEncodeError)"

section \<open>The rows' columns and digests\<close>

definition DIGESTED :: "string list" where
  "DIGESTED = [''entry_id'', ''seq'', ''stage'', ''agent'', ''server'', ''tool'', ''ok'', ''error'',
     ''remediation'', ''duration_ms'', ''waited_ms'', ''args'', ''args_repaired'', ''args_raw'',
     ''model'', ''output'', ''structured'', ''function_ranges'', ''truncated'', ''chars_dropped'',
     ''repeated_of'', ''symbol'', ''started_at'', ''created_at'', ''source'', ''facts'',
     ''reputation'', ''pack_step'', ''structured_from_server'', ''agent_role'', ''agent_tab'',
     ''spilled'', ''args_nulls_dropped'', ''args_nulls_withheld'', ''ran_on'']"

definition SEALED_WHEN_SET :: "string list" where
  "SEALED_WHEN_SET = [''waited_ms'', ''args_nulls_dropped'', ''args_nulls_withheld'', ''ran_on'']"

definition JSON_COLUMNS :: "string list" where
  "JSON_COLUMNS = [''args'', ''structured'', ''function_ranges'', ''facts'', ''reputation'',
     ''pack_step'', ''spilled'', ''args_nulls_dropped'', ''args_nulls_withheld'', ''ran_on'']"

text \<open>A ledger or report row is its columns by name; a missing column reads as \<^const>\<open>PNone\<close>.\<close>

definition entry_field :: "stdlib \<Rightarrow> dict \<Rightarrow> string \<Rightarrow> py_error + dict" where
  "entry_field L row name =
     (let value = dict_get row name in
      if name \<in> set SEALED_WHEN_SET \<and> \<not> truthy value then Inr []
      else map_r (\<lambda>v. [(name, v)])
        (if name \<in> set JSON_COLUMNS then json_value value
         else if name = ''created_at'' then timestamp (fromisoformat L) value
         else case value of PFloat f \<Rightarrow> number f | _ \<Rightarrow> Inr value))"

definition entry_fields :: "stdlib \<Rightarrow> dict \<Rightarrow> py_error + dict" where
  "entry_fields L row = map_r concat (sequence_r (map (entry_field L row) DIGESTED))"

definition entry_digest :: "stdlib \<Rightarrow> dict \<Rightarrow> py_error + string" where
  "entry_digest L row =
     bind_r (entry_fields L row) (\<lambda>fields.
       map_r (\<lambda>bytes. hexdigest (sha256 L (ENTRY_TAG @ bytes))) (canonical (PDict fields)))"

definition genesis :: "stdlib \<Rightarrow> string \<Rightarrow> chain_key \<Rightarrow> py_error + string" where
  "genesis L job_id key =
     map_r (keyed L key GENESIS_TAG)
       (canonical (PDict [(''job_id'', PStr job_id), (''version'', PInt CHAIN_VERSION)]))"

definition link :: "stdlib \<Rightarrow> string \<Rightarrow> string \<Rightarrow> chain_key \<Rightarrow> py_error + string" where
  "link L previous digest key = map_r (keyed L key LINK_TAG) (link_message previous digest)"

definition seq_of :: "dict \<Rightarrow> int" where
  "seq_of row = py_int_or_0 (dict_get row ''seq'')"

text \<open>\<open>chain_rows\<close>: the rows in \<open>seq\<close> order with their two chain columns set, and the head.\<close>

fun chain_from :: "stdlib \<Rightarrow> chain_key \<Rightarrow> string \<Rightarrow> dict list \<Rightarrow> py_error + (string \<times> dict list)" where
  "chain_from L key head [] = Inr (head, [])"
| "chain_from L key head (row # rows) =
     bind_r (entry_digest L row) (\<lambda>digest.
     bind_r (link L head digest key) (\<lambda>head'.
     map_r (\<lambda>(last, done). (last, dict_set (dict_set row ''digest'' (PStr digest)) ''chain'' (PStr head') # done))
       (chain_from L key head' rows)))"

definition chain_rows ::
  "stdlib \<Rightarrow> string \<Rightarrow> dict list \<Rightarrow> chain_key \<Rightarrow> py_error + (string \<times> dict list)" where
  "chain_rows L job_id rows key =
     bind_r (genesis L job_id key) (\<lambda>head. chain_from L key head (sort_key seq_of rows))"

section \<open>The report's columns and digest\<close>

definition SEAL_KEY :: string where "SEAL_KEY = ''ledger_seal''"
definition AMENDMENTS_KEY :: string where "AMENDMENTS_KEY = ''ledger_amendments''"

definition without_seal :: "py \<Rightarrow> py_error + py" where
  "without_seal document =
     json_value (case document of
       PDict d \<Rightarrow> PDict (dict_without [SEAL_KEY, AMENDMENTS_KEY] d)
     | _ \<Rightarrow> document)"

definition REPORT_DIGESTED :: "string list" where
  "REPORT_DIGESTED = [''job_id'', ''verdict'', ''overall_confidence'', ''malware_category'',
     ''stix_bundle'', ''judge_stix_bundle'', ''mitre_techniques'', ''agent_reports'',
     ''negotiation_log'', ''run_summary'', ''malware_report'', ''incomplete_reason'']"

definition REPORT_JSON :: "string list" where
  "REPORT_JSON = [''stix_bundle'', ''judge_stix_bundle'', ''mitre_techniques'', ''agent_reports'',
     ''negotiation_log'', ''run_summary'', ''malware_report'']"

definition report_field :: "dict \<Rightarrow> dict \<Rightarrow> string \<Rightarrow> py_error + (string \<times> py)" where
  "report_field report overrides name =
     (let value = (case map_of overrides name of Some v \<Rightarrow> v | None \<Rightarrow> dict_get report name) in
      map_r (Pair name)
        (if name \<in> {''malware_report'', ''run_summary''} then without_seal value
         else if name \<in> set REPORT_JSON then json_value value
         else if name = ''job_id'' then Inr (if value = PNone then PNone else PStr (py_str value))
         else case value of PFloat f \<Rightarrow> number f | _ \<Rightarrow> Inr value))"

text \<open>No overrides is the empty dictionary.\<close>

definition report_fields :: "dict \<Rightarrow> dict \<Rightarrow> py_error + dict" where
  "report_fields report overrides = sequence_r (map (report_field report overrides) REPORT_DIGESTED)"

definition report_digest :: "stdlib \<Rightarrow> dict \<Rightarrow> dict \<Rightarrow> py_error + string" where
  "report_digest L report overrides =
     bind_r (report_fields report overrides) (\<lambda>fields.
       map_r (\<lambda>bytes. hexdigest (sha256 L (REPORT_TAG @ bytes))) (canonical (PDict fields)))"

section \<open>The seal and the records after it\<close>

definition record_digest :: "stdlib \<Rightarrow> dict \<Rightarrow> chain_key \<Rightarrow> py_error + string" where
  "record_digest L record key =
     bind_r (sequence_r (map (\<lambda>kv. map_r (Pair (fst kv)) (json_value (snd kv)))
         (dict_without [''digest''] record)))
       (\<lambda>body. map_r (keyed L key RECORD_TAG) (canonical (PDict body)))"

text \<open>\<open>record["digest"] = record_digest(record, key)\<close>\<close>

definition digested :: "stdlib \<Rightarrow> dict \<Rightarrow> chain_key \<Rightarrow> py_error + dict" where
  "digested L record key =
     map_r (\<lambda>d. dict_set record ''digest'' (PStr d)) (record_digest L record key)"

definition seal ::
  "stdlib \<Rightarrow> string \<Rightarrow> dict list \<Rightarrow> string \<Rightarrow> string \<Rightarrow> py \<Rightarrow> chain_key \<Rightarrow> string \<Rightarrow> py_error + dict" where
  "seal L job_id rows head report_sha256 sealed_at key report_id =
     (let seqs = map seq_of rows in
      bind_r (timestamp (fromisoformat L) sealed_at) (\<lambda>at.
        digested L
          [(''version'', PInt CHAIN_VERSION),
           (''algorithm'', PStr ''hmac-sha256''),
           (''key_id'', py_opt_str (none_if_empty (ck_key_id key))),
           (''job_id'', PStr job_id),
           (''report_id'', PStr report_id),
           (''entries'', PInt (int (length rows))),
           (''first_seq'', if seqs = [] then PNone else PInt (Min (set seqs))),
           (''last_seq'', if seqs = [] then PNone else PInt (Max (set seqs))),
           (''head'', PStr head),
           (''report_sha256'', PStr report_sha256),
           (''sealed_at'', at)] key))"

definition anchored :: "stdlib \<Rightarrow> dict \<Rightarrow> bool \<Rightarrow> chain_key \<Rightarrow> py_error + dict" where
  "anchored L core landed key =
     digested L
       (dict_set (dict_set (dict_without [''digest''] core) ''core_digest'' (dict_get core ''digest''))
          ''audit_anchored'' (PBool landed)) key"

definition core_of :: "dict \<Rightarrow> dict" where
  "core_of seal_d =
     dict_set (dict_without [''core_digest'', ''audit_anchored'', ''digest''] seal_d)
       ''digest'' (dict_get seal_d ''core_digest'')"

definition amendment ::
  "stdlib \<Rightarrow> dict \<Rightarrow> int \<Rightarrow> string \<Rightarrow> string \<Rightarrow> string \<Rightarrow> py \<Rightarrow> chain_key \<Rightarrow> py_error + dict" where
  "amendment L previous num kind before after moment key =
     bind_r (timestamp (fromisoformat L) moment) (\<lambda>at.
       digested L
         [(''number'', PInt num),
          (''kind'', PStr kind),
          (''prev'', dict_get previous ''digest''),
          (''report_sha256_before'', PStr before),
          (''report_sha256_after'', PStr after),
          (''at'', at),
          (''key_id'', py_opt_str (none_if_empty (ck_key_id key)))] key)"

text \<open>The mappings among the members of a list; no list has none.\<close>

definition mappings_in :: "py \<Rightarrow> dict list" where
  "mappings_in held = (case held of PList vs \<Rightarrow> List.map_filter as_mapping vs | _ \<Rightarrow> [])"

definition amend ::
  "stdlib \<Rightarrow> dict \<Rightarrow> dict \<Rightarrow> py \<Rightarrow> py \<Rightarrow> string \<Rightarrow> chain_key \<Rightarrow> py
    \<Rightarrow> py_error + (dict \<times> py \<times> dict option)" where
  "amend L report payload summary seal_record kind key moment =
     (case as_mapping seal_record of
        None \<Rightarrow> Inr (payload, summary, None)
      | Some seal_d \<Rightarrow>
          if \<not> truthy (dict_get seal_d ''digest'') then Inr (payload, summary, None)
          else
            let stored_payload =
                  (case as_mapping (dict_get report ''malware_report'') of Some d \<Rightarrow> d | None \<Rightarrow> []);
                next_summary =
                  (if summary \<noteq> PNone then summary else dict_get report ''run_summary'')
            in
            bind_r (report_digest L report []) (\<lambda>before.
            bind_r (report_digest L report
                [(''malware_report'', PDict payload), (''run_summary'', next_summary)]) (\<lambda>after.
            if before = after then Inr (payload, summary, None)
            else
              let amendments = mappings_in (dict_get stored_payload AMENDMENTS_KEY) in
              map_r (\<lambda>record.
                 let held = PList (map PDict (amendments @ [record])) in
                 (dict_set payload AMENDMENTS_KEY held,
                  (case as_mapping next_summary of
                     Some d \<Rightarrow> PDict (dict_set d AMENDMENTS_KEY held)
                   | None \<Rightarrow> next_summary),
                  Some record))
                (amendment L (if amendments = [] then seal_d else last amendments)
                   (int (length amendments) + 1) kind before after moment key))))"

definition follow_up_record ::
  "stdlib \<Rightarrow> string \<Rightarrow> string \<Rightarrow> string \<Rightarrow> py \<Rightarrow> py \<Rightarrow> string \<Rightarrow> py \<Rightarrow> chain_key \<Rightarrow> py_error + dict" where
  "follow_up_record L follow_up_id report_id report_sha256 seal_record last_amendment
       answer_sha256 moment key =
     (let seal_d = (case as_mapping seal_record of Some d \<Rightarrow> d | None \<Rightarrow> []);
          amended = (case as_mapping last_amendment of Some d \<Rightarrow> d | None \<Rightarrow> [])
      in bind_r (timestamp (fromisoformat L) moment) (\<lambda>at.
        digested L
          [(''kind'', PStr ''follow_up''),
           (''follow_up_id'', PStr follow_up_id),
           (''report_id'', PStr report_id),
           (''report_sha256'', PStr report_sha256),
           (''seal_digest'', dict_get seal_d ''digest''),
           (''amendment_digest'', dict_get amended ''digest''),
           (''answer_sha256'', PStr answer_sha256),
           (''at'', at),
           (''key_id'', py_opt_str (none_if_empty (ck_key_id key)))] key))"

definition follow_up_digest :: "stdlib \<Rightarrow> dict \<Rightarrow> py_error + string" where
  "follow_up_digest L document =
     bind_r (json_value (PDict document)) (\<lambda>v.
       map_r (\<lambda>bytes. hexdigest (sha256 L (FOLLOW_UP_TAG @ bytes))) (canonical v))"

definition with_seal :: "py \<Rightarrow> dict \<Rightarrow> py" where
  "with_seal document record =
     (case as_mapping document of
        Some d \<Rightarrow> PDict (dict_set d SEAL_KEY (PDict record))
      | None \<Rightarrow> document)"

end
