(* ===== verification/Audit_Rows.thy ===== *)
theory Audit_Rows
  imports Ledger_Chain
begin

text \<open>
  The rows of the audit log and its head record (\<open>apps/api/app/models/audit.py\<close>) and what is
  computed over them (\<open>apps/api/app/services/audit_chain.py\<close>): the canonical columns of a
  row, its digest, the genesis value, the link to the next row and the keyed MAC of the head.
\<close>

definition AUDIT_ENTRY_TAG :: string where "AUDIT_ENTRY_TAG = ''maljan-audit-entry/1'' @ [CHR 0x0A]"
definition AUDIT_GENESIS_TAG :: string where "AUDIT_GENESIS_TAG = ''maljan-audit-chain/1'' @ [CHR 0x0A]"
definition AUDIT_LINK_TAG :: string where "AUDIT_LINK_TAG = ''maljan-audit-link/1'' @ [CHR 0x0A]"
definition AUDIT_HEAD_TAG :: string where "AUDIT_HEAD_TAG = ''maljan-audit-head/1'' @ [CHR 0x0A]"
definition HEAD_NAME :: string where "HEAD_NAME = ''audit''"

definition LEDGER_SEAL :: string where "LEDGER_SEAL = ''ledger.seal''"
definition REPORT_AMEND :: string where "REPORT_AMEND = ''report.amend''"
definition REPORT_DELETE :: string where "REPORT_DELETE = ''report.delete''"
definition REPORT_FOLLOW_UP :: string where "REPORT_FOLLOW_UP = ''report.follow_up''"
definition HEAD_REPAIR :: string where "HEAD_REPAIR = ''audit.head_repair''"

text \<open>
  \<open>AuditLog\<close>: the nullable columns are options, \<open>details\<close> is the JSON column
  (\<^const>\<open>PNone\<close> for NULL) and \<open>created_at\<close> the timestamp as read.
\<close>

record audit_row =
  user_id :: "string option"
  action :: string
  resource_type :: "string option"
  resource_id :: "string option"
  details :: py
  ip_address :: "string option"
  created_at :: py
  chain_seq :: "int option"
  row_digest :: "string option"
  row_chain :: "string option"
  chain_key_id :: "string option"

text \<open>\<open>AuditChainHead\<close>: the last chained row's place, chain value and key, under a MAC.\<close>

record chain_head =
  head_seq :: int
  head_chain :: string
  head_key_id :: "string option"
  head_mac_of :: string
  rotated_at_seq :: "int option"

text \<open>\<open>int(row.chain_seq or 0)\<close>\<close>

definition row_seq :: "audit_row \<Rightarrow> int" where
  "row_seq row = int_or_0 (chain_seq row)"

definition row_key_id :: "audit_row \<Rightarrow> string" where
  "row_key_id row = or_empty (chain_key_id row)"

definition ip_text :: "stdlib \<Rightarrow> string option \<Rightarrow> string option" where
  "ip_text L value =
     (case value of
        None \<Rightarrow> None
      | Some s \<Rightarrow>
          if s = [] then None
          else case ip_interface L s of Some t \<Rightarrow> Some t | None \<Rightarrow> Some s)"

definition audit_fields :: "stdlib \<Rightarrow> audit_row \<Rightarrow> py_error + dict" where
  "audit_fields L row =
     bind_r (json_value (details row)) (\<lambda>det.
     map_r (\<lambda>at.
       [(''chain_seq'', py_opt_int (chain_seq row)),
        (''user_id'', py_opt_str (user_id row)),
        (''action'', PStr (action row)),
        (''resource_type'', py_opt_str (resource_type row)),
        (''resource_id'', py_opt_str (resource_id row)),
        (''details'', det),
        (''ip_address'', py_opt_str (ip_text L (ip_address row))),
        (''created_at'', at),
        (''chain_key_id'', py_opt_str (chain_key_id row))])
       (timestamp (fromisoformat L) (created_at row)))"

definition audit_digest :: "stdlib \<Rightarrow> audit_row \<Rightarrow> py_error + string" where
  "audit_digest L row =
     bind_r (audit_fields L row) (\<lambda>cols.
       map_r (\<lambda>bytes. hexdigest (sha256 L (AUDIT_ENTRY_TAG @ bytes))) (canonical (PDict cols)))"

definition audit_genesis :: "stdlib \<Rightarrow> chain_key \<Rightarrow> string" where
  "audit_genesis L key = keyed L key AUDIT_GENESIS_TAG []"

definition audit_link :: "stdlib \<Rightarrow> string \<Rightarrow> string \<Rightarrow> chain_key \<Rightarrow> py_error + string" where
  "audit_link L previous digest key = map_r (keyed L key AUDIT_LINK_TAG) (link_message previous digest)"

text \<open>\<open>head_mac\<close>: its document is integers and a text, so its serialisation never raises.\<close>

definition head_document :: "int \<Rightarrow> string \<Rightarrow> int option \<Rightarrow> py" where
  "head_document seq chain rotated =
     PDict [(''chain'', PStr chain), (''chain_seq'', PInt seq), (''rotated_at_seq'', py_opt_int rotated)]"

definition head_mac :: "stdlib \<Rightarrow> int \<Rightarrow> string \<Rightarrow> int option \<Rightarrow> chain_key \<Rightarrow> string" where
  "head_mac L seq chain rotated key =
     (case canonical (head_document seq chain rotated) of
        Inr bytes \<Rightarrow> keyed L key AUDIT_HEAD_TAG bytes
      | Inl e \<Rightarrow> [])"

text \<open>The head record's own MAC recomputed.\<close>

definition head_verifies :: "stdlib \<Rightarrow> chain_head \<Rightarrow> chain_key \<Rightarrow> bool" where
  "head_verifies L head key =
     (head_mac L (head_seq head) (head_chain head) (rotated_at_seq head) key = head_mac_of head)"

section \<open>Facts shared by every walk\<close>

lemma normal_head_document [simp]: "normal (head_document seq chain rotated)"
  by (simp add: head_document_def)

lemma head_mac_text:
  "head_mac L seq chain rotated key
    = keyed L key AUDIT_HEAD_TAG (text_of (sorted_form (head_document seq chain rotated)))"
  by (simp add: head_mac_def canonical_text)

lemma keyed_is_hex: "is_ascii (keyed L key tag m)" "CHR '':'' \<notin> set (keyed L key tag m)"
  by (simp_all add: keyed_def hexdigest_no_colon)

lemma keyed_inject: "keyed L key tag m = keyed L key tag m' \<longleftrightarrow>
  hmac_sha256 L (ck_key key) (tag @ m) = hmac_sha256 L (ck_key key) (tag @ m')"
  by (simp add: keyed_def)

lemma audit_digest_hex:
  assumes "audit_digest L row = Inr d"
  shows "is_ascii d" "CHR '':'' \<notin> set d"
  using assms by (auto simp: audit_digest_def result_iffs hexdigest_no_colon)

lemma audit_link_Inr:
  "is_ascii p \<Longrightarrow> is_ascii d \<Longrightarrow>
    audit_link L p d key = Inr (keyed L key AUDIT_LINK_TAG (p @ '':'' @ d))"
  by (simp add: audit_link_def link_message_def) (simp add: is_ascii_def)

lemma audit_link_hex: "audit_link L p d key = Inr c \<Longrightarrow> is_ascii c \<and> CHR '':'' \<notin> set c"
  by (auto simp: audit_link_def result_iffs keyed_is_hex)

lemma audit_genesis_hex [simp]: "is_ascii (audit_genesis L key)"
  by (simp add: audit_genesis_def keyed_is_hex)

text \<open>
  What a hash or a MAC says about two messages: equal values mean equal messages, or the two
  messages are a collision, which the theorems name rather than exclude.
\<close>

definition collision :: "(string \<Rightarrow> string) \<Rightarrow> string \<Rightarrow> string \<Rightarrow> bool" where
  "collision h m m' = (m \<noteq> m' \<and> h m = h m')"

lemma audit_fields_normal:
  assumes "audit_fields L row = Inr cols" "floats_wf (details row)"
  shows "normal (PDict cols)"
proof -
  from assms(1) obtain det at where det: "json_value (details row) = Inr det"
    and at: "timestamp (fromisoformat L) (created_at row) = Inr at"
    and cols: "cols =
       [(''chain_seq'', py_opt_int (chain_seq row)), (''user_id'', py_opt_str (user_id row)),
        (''action'', PStr (action row)), (''resource_type'', py_opt_str (resource_type row)),
        (''resource_id'', py_opt_str (resource_id row)), (''details'', det),
        (''ip_address'', py_opt_str (ip_text L (ip_address row))), (''created_at'', at),
        (''chain_key_id'', py_opt_str (chain_key_id row))]"
    by (auto simp: audit_fields_def result_iffs)
  have "normal det" using json_value_normal [OF assms(2) det] .
  moreover have "normal at"
    using at by (auto simp: timestamp_def Let_def result_iffs split: py.splits option.splits prod.splits)
  ultimately show ?thesis by (simp add: cols)
qed

end
