(* ===== verification/Audit_Chain.thy ===== *)
theory Audit_Chain
  imports Audit_Rows
begin

text \<open>
  The audit chain (\<open>apps/api/app/services/audit_chain.py\<close>): appending a chained row inside
  the caller's transaction (\<open>_boundary_for_append\<close>, \<open>append\<close>) and recomputing the chain
  against its head (\<open>verify_audit_chain\<close>). The session's waiting anchor head is written by
  \<open>anchor_after_commit\<close> of \<open>audit_anchor.py\<close>, which every append calls.
\<close>

section \<open>The session an append runs in\<close>

text \<open>
  What the code reads and writes through \<open>db\<close>: the audit log, the head record, the
  failure counter, and what the session holds for the anchor: the head waiting for the
  commit (\<open>PendingRead\<close> is the \<open>True\<close> that asks for the head as committed) and whether the
  commit and rollback listeners are on. \<open>anchor_on\<close> is \<open>configured() is not None\<close>,
  \<open>has_engine\<close> that the session carries an engine to connect through.
\<close>

datatype pending_head = PendingHead chain_head | PendingRead

record session =
  db_rows :: "audit_row list"
  db_head :: "chain_head option"
  audit_write_failures :: nat
  anchor_on :: bool
  has_engine :: bool
  pending :: "pending_head option"
  hooked :: bool

definition anchor_after_commit :: "chain_head option \<Rightarrow> session \<Rightarrow> session" where
  "anchor_after_commit head s =
     (if \<not> anchor_on s then s
      else if (case head of Some h \<Rightarrow> or_empty (head_key_id h) = [] | None \<Rightarrow> False) then s
      else if \<not> has_engine s then s
      else
        let waiting =
          (case head of
             None \<Rightarrow> (case pending s of Some p \<Rightarrow> p | None \<Rightarrow> PendingRead)
           | Some h \<Rightarrow>
               (case pending s of
                  Some (PendingHead held) \<Rightarrow>
                    if head_seq held > head_seq h then PendingHead held else PendingHead h
                | _ \<Rightarrow> PendingHead h))
        in s\<lparr>pending := Some waiting, hooked := True\<rparr>)"

text \<open>A rolled-back savepoint fires the rollback listener too: the waiting head is dropped.\<close>

definition rolled_back :: "session \<Rightarrow> session" where
  "rolled_back s = (if hooked s then s\<lparr>pending := None\<rparr> else s)"

section \<open>Appending\<close>

datatype refusal =
    RowsWithoutHead
  | HeadNotVerified
  | RowsCarryCurrentKey
  | HeadNotAtLastRow
  | LastRowUnderOtherKey
  | HeadNotVerifiedUnderItsKey

text \<open>How an append ends without a row: \<open>HeadRefused\<close> or another exception.\<close>

datatype append_error = Refused refusal | Failed py_error

definition chained :: "audit_row list \<Rightarrow> audit_row list" where
  "chained rows = filter (\<lambda>r. chain_seq r \<noteq> None) rows"

text \<open>\<open>SELECT \<dots> WHERE chain_seq IS NOT NULL ORDER BY chain_seq DESC LIMIT 1\<close>\<close>

definition last_chained :: "audit_row list \<Rightarrow> audit_row option" where
  "last_chained rows =
     (case sort_key row_seq (chained rows) of [] \<Rightarrow> None | rs \<Rightarrow> Some (last rs))"

definition boundary_for_append ::
  "stdlib \<Rightarrow> key_ring \<Rightarrow> audit_row list \<Rightarrow> chain_head option \<Rightarrow> audit_row option \<Rightarrow> chain_key \<Rightarrow> int
    \<Rightarrow> append_error + int" where
  "boundary_for_append L known rows head last_row key seq =
     (case head of
        None \<Rightarrow> (if last_row \<noteq> None then Inl (Refused RowsWithoutHead) else Inr seq)
      | Some h \<Rightarrow>
          let points_at_last =
            (case last_row of
               None \<Rightarrow> False
             | Some r \<Rightarrow> head_seq h = row_seq r \<and> Some (head_chain h) = row_chain r)
          in
          if or_empty (head_key_id h) = ck_key_id key then
            if \<not> points_at_last \<or> \<not> head_verifies L h key then Inl (Refused HeadNotVerified)
            else case rotated_at_seq h of Some b \<Rightarrow> Inr b | None \<Rightarrow> Inl (Failed TypeError)
          else if \<exists>r\<in>set rows. chain_key_id r = Some (ck_key_id key) then
            Inl (Refused RowsCarryCurrentKey)
          else if \<not> points_at_last then Inl (Refused HeadNotAtLastRow)
          else if (case last_row of Some r \<Rightarrow> row_key_id r | None \<Rightarrow> []) \<noteq> or_empty (head_key_id h) then
            Inl (Refused LastRowUnderOtherKey)
          else
            case map_of known (or_empty (head_key_id h)) of
              Some older \<Rightarrow>
                if \<not> head_verifies L h older then Inl (Refused HeadNotVerifiedUnderItsKey) else Inr seq
            | None \<Rightarrow> Inr seq)"

text \<open>The row and the head an append writes, or how it fails before writing anything.\<close>

definition lift_error :: "py_error + 'a \<Rightarrow> append_error + 'a" where
  "lift_error r = (case r of Inl e \<Rightarrow> Inl (Failed e) | Inr v \<Rightarrow> Inr v)"

definition appended ::
  "stdlib \<Rightarrow> key_ring \<Rightarrow> chain_key \<Rightarrow> py \<Rightarrow> string \<Rightarrow> string \<Rightarrow> string option \<Rightarrow> dict \<Rightarrow> string option
    \<Rightarrow> session \<Rightarrow> append_error + (audit_row \<times> chain_head)" where
  "appended L known key now act rtype rid det uid s =
     (let last_row = last_chained (db_rows s);
          previous_seq = (case last_row of Some r \<Rightarrow> row_seq r | None \<Rightarrow> 0);
          previous = (case last_row of Some r \<Rightarrow> str_opt (row_chain r) | None \<Rightarrow> audit_genesis L key);
          seq = previous_seq + 1
      in
      bind_r (boundary_for_append L known (db_rows s) (db_head s) last_row key seq) (\<lambda>rotated_at.
      let row = \<lparr>user_id = uid, action = act, resource_type = Some rtype, resource_id = rid,
                 details = PDict det, ip_address = None, created_at = now, chain_seq = Some seq,
                 row_digest = None, row_chain = None, chain_key_id = none_if_empty (ck_key_id key)\<rparr>
      in
      bind_r (lift_error (audit_digest L row)) (\<lambda>digest.
      map_r (\<lambda>chain.
        (row\<lparr>row_digest := Some digest, row_chain := Some chain\<rparr>,
         \<lparr>head_seq = seq, head_chain = chain, head_key_id = none_if_empty (ck_key_id key),
          head_mac_of = head_mac L seq chain (Some rotated_at) key,
          rotated_at_seq = Some rotated_at\<rparr>))
        (lift_error (audit_link L previous digest key)))))"

text \<open>
  \<open>append\<close>: the row answered (\<^const>\<open>None\<close> when it failed) and the session after it. A
  failure rolls the savepoint back, so the log and the head are as they were, and is counted.
\<close>

definition append ::
  "stdlib \<Rightarrow> key_ring \<Rightarrow> chain_key \<Rightarrow> py \<Rightarrow> string \<Rightarrow> string \<Rightarrow> string option \<Rightarrow> dict \<Rightarrow> string option
    \<Rightarrow> session \<Rightarrow> audit_row option \<times> session" where
  "append L known key now act rtype rid det uid s =
     (case appended L known key now act rtype rid det uid s of
        Inl e \<Rightarrow>
          (None, rolled_back (s\<lparr>audit_write_failures := audit_write_failures s + 1\<rparr>))
      | Inr (row, head) \<Rightarrow>
          (Some row,
           anchor_after_commit (Some head)
             (s\<lparr>db_rows := db_rows s @ [row], db_head := Some head\<rparr>)))"

section \<open>Verifying the chain\<close>

text \<open>Why a walk stopped; each constructor is one of the code's messages with its numbers.\<close>

datatype break_reason =
    NoHeadRecord
  | HeadRefusedReason
  | ImpossibleBoundary
  | HeadNotUnderCurrentKey
  | RowMissing int
  | RowDiffers int
  | ForbiddenKey int string int
  | ClaimsCurrentKeyBefore int int
  | NotLinked int
  | CutOffTheEnd int int
  | PastTheHead int
  | HeadChainDiffers int
  | JobNoHead
  | JobHeadNotCurrent
  | JobRowPastHead string
  | JobRowDiffers string
  | JobRowForbiddenKey string
  | JobRowClaimsCurrentKey string
  | JobRowBeforeMissing string
  | JobRowNotLinked string
  | JobHeadEndsElsewhere string
  | JobRowAfterMissing string
  | JobRowAfterDiffers string
  | JobRowAfterNotOwn string
  | JobRowAfterForbiddenKey string
  | JobRowAfterClaimsCurrentKey string
  | JobRowAfterNotLinked string

text \<open>\<open>AuditChainCheck\<close>\<close>

record chain_check =
  checked_rows :: nat
  broken_at :: "int option"
  broken_reason :: "break_reason option"
  checked_head_seq :: "int option"
  checked_rotated_at :: "int option"
  verified :: "int list"
  unverifiable :: "int list"
  head_unverifiable :: bool

definition new_check :: "nat \<Rightarrow> chain_check" where
  "new_check n = \<lparr>checked_rows = n, broken_at = None, broken_reason = None, checked_head_seq = None,
     checked_rotated_at = None, verified = [], unverifiable = [], head_unverifiable = False\<rparr>"

definition unverifiable_span :: "chain_check \<Rightarrow> (int \<times> int) option" where
  "unverifiable_span c =
     (if unverifiable c = [] then None else Some (hd (unverifiable c), last (unverifiable c)))"

definition broken :: "int \<Rightarrow> break_reason \<Rightarrow> chain_check \<Rightarrow> chain_check" where
  "broken seq reason c = c\<lparr>broken_at := Some seq, broken_reason := Some reason\<rparr>"

text \<open>What one row of the walk comes to, given the chain value and the place before it.\<close>

datatype row_verdict = Breaks int break_reason | Unverifiable | Verified

definition key_rule :: "string option \<Rightarrow> int option \<Rightarrow> int \<Rightarrow> string \<Rightarrow> break_reason option" where
  "key_rule current boundary seq key_id =
     (case boundary of
        None \<Rightarrow> None
      | Some b \<Rightarrow>
          if b \<le> seq \<and> Some key_id \<noteq> current then Some (ForbiddenKey seq key_id b)
          else if seq < b \<and> Some key_id = current then Some (ClaimsCurrentKeyBefore seq b)
          else None)"

definition audit_step ::
  "stdlib \<Rightarrow> key_ring \<Rightarrow> string option \<Rightarrow> int option \<Rightarrow> string option \<Rightarrow> int \<Rightarrow> audit_row
    \<Rightarrow> py_error + row_verdict" where
  "audit_step L keys current boundary previous expected row =
     (let seq = row_seq row; key_id = row_key_id row in
      if seq \<noteq> expected then Inr (Breaks expected (RowMissing expected))
      else
      bind_r (audit_digest L row) (\<lambda>digest.
      if Some digest \<noteq> row_digest row then Inr (Breaks seq (RowDiffers seq))
      else
      case key_rule current boundary seq key_id of
        Some reason \<Rightarrow> Inr (Breaks seq reason)
      | None \<Rightarrow>
        (case map_of keys key_id of
           None \<Rightarrow> Inr Unverifiable
         | Some key \<Rightarrow>
             bind_r (audit_link L (case previous of Some p \<Rightarrow> p | None \<Rightarrow> audit_genesis L key)
                 (str_opt (row_digest row)) key) (\<lambda>chain.
             if Some chain \<noteq> row_chain row then Inr (Breaks seq (NotLinked seq)) else Inr Verified))))"

text \<open>
  The walk over the ordered rows: the check so far, and \<^const>\<open>None\<close> when a break ended it, or
  the chain value and the next place the walk ended on.
\<close>

fun audit_walk ::
  "stdlib \<Rightarrow> key_ring \<Rightarrow> string option \<Rightarrow> int option \<Rightarrow> audit_row list \<Rightarrow> string option \<Rightarrow> int
    \<Rightarrow> chain_check \<Rightarrow> py_error + (chain_check \<times> (string option \<times> int) option)" where
  "audit_walk L keys current boundary [] previous expected c = Inr (c, Some (previous, expected))"
| "audit_walk L keys current boundary (row # rows) previous expected c =
     bind_r (audit_step L keys current boundary previous expected row) (\<lambda>verdict.
       case verdict of
         Breaks seq reason \<Rightarrow> Inr (broken seq reason c, None)
       | Unverifiable \<Rightarrow>
           audit_walk L keys current boundary rows (Some (str_opt (row_chain row))) (expected + 1)
             (c\<lparr>unverifiable := unverifiable c @ [row_seq row]\<rparr>)
       | Verified \<Rightarrow>
           audit_walk L keys current boundary rows (Some (str_opt (row_chain row))) (expected + 1)
             (c\<lparr>verified := verified c @ [row_seq row]\<rparr>))"

text \<open>The end of the walk against the head: cut off, past the head, or another chain value.\<close>

definition walk_end :: "chain_head \<Rightarrow> string option \<Rightarrow> int \<Rightarrow> chain_check \<Rightarrow> chain_check" where
  "walk_end head previous expected c =
     (let last_seq = expected - 1 in
      if head_unverifiable c then c
      else if head_seq head > last_seq then
        broken (last_seq + 1) (CutOffTheEnd (last_seq + 1) (head_seq head)) c
      else if head_seq head < last_seq then
        broken (head_seq head + 1) (PastTheHead (head_seq head)) c
      else if last_seq \<noteq> 0 \<and> Some (head_chain head) \<noteq> previous then
        broken last_seq (HeadChainDiffers last_seq) c
      else c)"

definition chain_walk ::
  "stdlib \<Rightarrow> key_ring \<Rightarrow> string option \<Rightarrow> int option \<Rightarrow> chain_head \<Rightarrow> audit_row list \<Rightarrow> chain_check
    \<Rightarrow> py_error + chain_check" where
  "chain_walk L keys current boundary head ordered c =
     map_r (\<lambda>(c', ended). case ended of
         None \<Rightarrow> c'
       | Some (previous, expected) \<Rightarrow> walk_end head previous expected c')
       (audit_walk L keys current boundary ordered None 1 c)"

text \<open>
  \<open>verify_audit_chain\<close>. \<open>keys\<close> are the keys the platform can derive, in their order;
  \<open>current\<close> the id of the one it chains under now. Looking the current id up where it is not
  held raises \<^const>\<open>KeyError\<close>.
\<close>

definition verify_audit_chain ::
  "stdlib \<Rightarrow> audit_row list \<Rightarrow> key_ring \<Rightarrow> chain_head option \<Rightarrow> string option
    \<Rightarrow> py_error + chain_check" where
  "verify_audit_chain L rows keys head current0 =
     (let current = (if current0 = None \<and> length keys = 1 then Some (fst (hd keys)) else current0);
          ordered = sort_key row_seq rows;
          c = new_check (length ordered)
      in
      case head of
        None \<Rightarrow>
          Inr (if ordered \<noteq> [] then broken (row_seq (last ordered)) NoHeadRecord c else c)
      | Some h \<Rightarrow>
          let c = c\<lparr>checked_head_seq := Some (head_seq h)\<rparr>;
              key_id = or_empty (head_key_id h)
          in
          if Some key_id = current then
            (case rotated_at_seq h of
               None \<Rightarrow> Inr (broken (head_seq h + 1) HeadRefusedReason c)
             | Some b \<Rightarrow>
               (case map_of keys key_id of
                  None \<Rightarrow> Inl KeyError
                | Some key \<Rightarrow>
                    if \<not> head_verifies L h key then
                      Inr (broken (head_seq h + 1) HeadRefusedReason c)
                    else if \<not> (1 \<le> b \<and> b \<le> max (head_seq h) 1) then
                      Inr (broken (head_seq h + 1) ImpossibleBoundary c)
                    else
                      chain_walk L keys current (Some b) h ordered
                        (c\<lparr>checked_rotated_at := Some b\<rparr>)))
          else if (case map_of keys key_id of
                     Some older \<Rightarrow> \<not> head_verifies L h older | None \<Rightarrow> False) then
            Inr (broken (head_seq h + 1) HeadRefusedReason c)
          else
            let current_rows =
              map row_seq (filter (\<lambda>r. current \<noteq> None \<and> Some (row_key_id r) = current) rows)
            in
            if current_rows \<noteq> [] then
              Inr (broken (Min (set current_rows)) HeadNotUnderCurrentKey c)
            else chain_walk L keys current None h ordered (c\<lparr>head_unverifiable := True\<rparr>))"

end
