(* ===== verification/Audit_Repair.thy ===== *)
theory Audit_Repair
  imports Audit_Chain
begin

text \<open>
  The rest of \<open>apps/api/app/services/audit_chain.py\<close>: the local check of one job's chained
  rows (\<open>verify_job_rows\<close>), the operator's repair of a refused head (\<open>repaired_head\<close>,
  \<open>plan_repair\<close>) and the chained record of a report's deletion.
\<close>

section \<open>One job's rows\<close>

text \<open>
  The boundary and whether the head says nothing, or why the check ends before the rows.
  Rows reach this check chained, so \<open>int(_read(row, "chain_seq"))\<close> is their place.
\<close>

definition job_boundary ::
  "stdlib \<Rightarrow> key_ring \<Rightarrow> string option \<Rightarrow> chain_head \<Rightarrow> audit_row list
    \<Rightarrow> py_error + (break_reason + int option)" where
  "job_boundary L keys current h ordered =
     (if Some (or_empty (head_key_id h)) = current then
        (case rotated_at_seq h of
           None \<Rightarrow> Inr (Inl HeadRefusedReason)
         | Some b \<Rightarrow>
           (case map_of keys (or_empty (head_key_id h)) of
              None \<Rightarrow> Inl KeyError
            | Some key \<Rightarrow>
                Inr (if head_verifies L h key then Inr (Some b) else Inl HeadRefusedReason)))
      else if or_empty current \<noteq> [] \<and> (\<exists>r\<in>set ordered. Some (row_key_id r) = current) then
        Inr (Inl JobHeadNotCurrent)
      else Inr (Inr None))"

text \<open>The row after a job's row: its own digest, its place, its key, its link.\<close>

definition job_next ::
  "stdlib \<Rightarrow> key_ring \<Rightarrow> string option \<Rightarrow> int option \<Rightarrow> int set \<Rightarrow> string \<Rightarrow> audit_row \<Rightarrow> audit_row
    \<Rightarrow> py_error + row_verdict" where
  "job_next L keys current boundary own_seqs job_resource row following =
     (let seq = row_seq row; act = action row; next_key_id = row_key_id following in
      bind_r (audit_digest L following) (\<lambda>digest.
      if Some digest \<noteq> row_digest following then Inr (Breaks seq (JobRowAfterDiffers act))
      else if str_opt (resource_id following) = job_resource \<and> seq + 1 \<notin> own_seqs then
        Inr (Breaks seq (JobRowAfterNotOwn act))
      else if (case boundary of Some b \<Rightarrow> b \<le> seq + 1 \<and> Some next_key_id \<noteq> current | None \<Rightarrow> False) then
        Inr (Breaks seq (JobRowAfterForbiddenKey act))
      else if (case boundary of Some b \<Rightarrow> seq + 1 < b \<and> Some next_key_id = current | None \<Rightarrow> False) then
        Inr (Breaks seq (JobRowAfterClaimsCurrentKey act))
      else
        (case map_of keys next_key_id of
           None \<Rightarrow> Inr Unverifiable
         | Some next_key \<Rightarrow>
             map_r (\<lambda>chain.
               if Some chain \<noteq> row_chain following then Breaks seq (JobRowAfterNotLinked act) else Verified)
               (audit_link L (str_opt (row_chain row)) (str_opt (row_digest following)) next_key))))"

definition job_step ::
  "stdlib \<Rightarrow> key_ring \<Rightarrow> string option \<Rightarrow> int option \<Rightarrow> chain_head \<Rightarrow> (int \<Rightarrow> string option)
    \<Rightarrow> (int \<Rightarrow> audit_row option) \<Rightarrow> int set \<Rightarrow> string \<Rightarrow> bool \<Rightarrow> audit_row \<Rightarrow> py_error + row_verdict" where
  "job_step L keys current boundary head predecessors successors own_seqs job_resource unread row =
     (let seq = row_seq row; act = action row; key_id = row_key_id row in
      if head_seq head < seq then Inr (Breaks seq (JobRowPastHead act))
      else
      bind_r (audit_digest L row) (\<lambda>digest.
      if Some digest \<noteq> row_digest row then Inr (Breaks seq (JobRowDiffers act))
      else if (case boundary of Some b \<Rightarrow> b \<le> seq \<and> Some key_id \<noteq> current | None \<Rightarrow> False) then
        Inr (Breaks seq (JobRowForbiddenKey act))
      else if (case boundary of Some b \<Rightarrow> seq < b \<and> Some key_id = current | None \<Rightarrow> False) then
        Inr (Breaks seq (JobRowClaimsCurrentKey act))
      else
        (case map_of keys key_id of
           None \<Rightarrow> Inr Unverifiable
         | Some key \<Rightarrow>
             (case (if seq = 1 then Some (audit_genesis L key) else predecessors (seq - 1)) of
                None \<Rightarrow> Inr (Breaks seq (JobRowBeforeMissing act))
              | Some previous \<Rightarrow>
                  bind_r (audit_link L previous (str_opt (row_digest row)) key) (\<lambda>chain.
                  if Some chain \<noteq> row_chain row then Inr (Breaks seq (JobRowNotLinked act))
                  else if seq = head_seq head then
                    Inr (if \<not> unread \<and> Some (head_chain head) \<noteq> row_chain row
                         then Breaks seq (JobHeadEndsElsewhere act) else Verified)
                  else
                    (case successors (seq + 1) of
                       None \<Rightarrow> Inr (Breaks seq (JobRowAfterMissing act))
                     | Some following \<Rightarrow>
                         job_next L keys current boundary own_seqs job_resource row following))))))"

fun job_walk :: "(audit_row \<Rightarrow> py_error + row_verdict) \<Rightarrow> audit_row list \<Rightarrow> chain_check \<Rightarrow> py_error + chain_check" where
  "job_walk step [] c = Inr c"
| "job_walk step (row # rows) c =
     bind_r (step row) (\<lambda>verdict.
       case verdict of
         Breaks seq reason \<Rightarrow> Inr (broken seq reason c)
       | Unverifiable \<Rightarrow> job_walk step rows (c\<lparr>unverifiable := unverifiable c @ [row_seq row]\<rparr>)
       | Verified \<Rightarrow> job_walk step rows (c\<lparr>verified := verified c @ [row_seq row]\<rparr>))"

definition verify_job_rows ::
  "stdlib \<Rightarrow> audit_row list \<Rightarrow> (int \<Rightarrow> string option) \<Rightarrow> key_ring \<Rightarrow> chain_head option \<Rightarrow> string option
    \<Rightarrow> (int \<Rightarrow> audit_row option) \<Rightarrow> py_error + chain_check" where
  "verify_job_rows L own predecessors keys head current successors =
     (let ordered = sort_key row_seq own;
          c = new_check (length ordered);
          own_seqs = set (map row_seq ordered)
      in
      case ordered of
        [] \<Rightarrow> Inr c
      | first # _ \<Rightarrow>
          let job_resource = str_opt (resource_id first) in
          (case head of
             None \<Rightarrow> Inr (broken (row_seq first) JobNoHead c)
           | Some h \<Rightarrow>
               bind_r (job_boundary L keys current h ordered) (\<lambda>found.
               case found of
                 Inl reason \<Rightarrow> Inr (broken (row_seq first) reason c)
               | Inr boundary \<Rightarrow>
                   job_walk
                     (job_step L keys current boundary h predecessors successors own_seqs job_resource
                       (boundary = None))
                     ordered (c\<lparr>head_unverifiable := (boundary = None)\<rparr>))))"

text \<open>
  What \<open>verify_job\<close> (\<open>ledger_verify.py\<close>) reads of the log for one job: its chained rows up to
  the head, and the rows next to them, by place (a later row of the same place would win).
\<close>

definition within_head :: "chain_head option \<Rightarrow> audit_row \<Rightarrow> bool" where
  "within_head head row \<longleftrightarrow>
     chain_seq row \<noteq> None \<and> (case head of Some h \<Rightarrow> row_seq row \<le> head_seq h | None \<Rightarrow> True)"

definition own_rows :: "audit_row list \<Rightarrow> chain_head option \<Rightarrow> string \<Rightarrow> audit_row list" where
  "own_rows rows head job =
     sort_key row_seq (filter (\<lambda>r. resource_id r = Some job \<and> within_head head r) rows)"

definition neighbours :: "audit_row list \<Rightarrow> chain_head option \<Rightarrow> audit_row list \<Rightarrow> audit_row list" where
  "neighbours rows head own =
     filter (\<lambda>r. within_head head r \<and>
       list_ex (\<lambda>p. 1 < row_seq p \<and> row_seq r = row_seq p - 1 \<or> row_seq r = row_seq p + 1) own) rows"

definition by_place :: "audit_row list \<Rightarrow> int \<Rightarrow> audit_row option" where
  "by_place rows = map_of (rev (map (\<lambda>r. (row_seq r, r)) rows))"

definition job_check ::
  "stdlib \<Rightarrow> audit_row list \<Rightarrow> key_ring \<Rightarrow> chain_head option \<Rightarrow> string option \<Rightarrow> string
    \<Rightarrow> py_error + chain_check" where
  "job_check L rows keys head current job =
     (let own = own_rows rows head job;
          found = neighbours rows head own
      in verify_job_rows L own (\<lambda>seq. map_option (\<lambda>r. str_opt (row_chain r)) (by_place found seq))
           keys head current (by_place found))"

section \<open>Repairing a refused head\<close>

datatype repair_refusal =
    NoCurrentKey
  | NoChainedRow
  | RepairRowMissing int
  | RepairRowDiffers int
  | VouchedBoundaryKey int int
  | VouchedBoundaryClaim int int
  | OtherKeyAfterBoundary int int
  | RepairNotLinked int
  | NoRowUnderCurrentKey
  | BoundaryContradictsHead int int
  | BoundaryUnacknowledged int
  | BoundaryMisnamed int int
  | TruncationMisnamed int "int option"
  | TruncationUnacknowledged int int

datatype repair_error = RepairRefused repair_refusal | RepairFailed py_error

definition repair_raise :: "py_error + 'a \<Rightarrow> repair_error + 'a" where
  "repair_raise r = (case r of Inl e \<Rightarrow> Inl (RepairFailed e) | Inr v \<Rightarrow> Inr v)"

text \<open>The walk's running values: the chain value before, the boundary found, the rows not checked.\<close>

definition repair_key_rule ::
  "string \<Rightarrow> int option \<Rightarrow> int option \<Rightarrow> int \<Rightarrow> string \<Rightarrow> repair_refusal option" where
  "repair_key_rule current boundary rotated_at seq key_id =
     (case boundary of
        Some b \<Rightarrow>
          if b \<le> seq \<and> key_id \<noteq> current then Some (VouchedBoundaryKey seq b)
          else if seq < b \<and> key_id = current then Some (VouchedBoundaryClaim seq b)
          else (case rotated_at of
                  Some at \<Rightarrow> if key_id \<noteq> current then Some (OtherKeyAfterBoundary seq at) else None
                | None \<Rightarrow> None)
      | None \<Rightarrow>
          (case rotated_at of
             Some at \<Rightarrow> if key_id \<noteq> current then Some (OtherKeyAfterBoundary seq at) else None
           | None \<Rightarrow> None))"

fun repair_walk ::
  "stdlib \<Rightarrow> key_ring \<Rightarrow> string \<Rightarrow> int option \<Rightarrow> audit_row list \<Rightarrow> int
    \<Rightarrow> string option \<times> int option \<times> int list \<Rightarrow> repair_error + (string option \<times> int option \<times> int list)" where
  "repair_walk L keys current boundary [] expected st = Inr st"
| "repair_walk L keys current boundary (row # rows) expected (previous, rotated_at, skipped) =
     (let seq = row_seq row; key_id = row_key_id row in
      if seq \<noteq> expected then Inl (RepairRefused (RepairRowMissing expected))
      else
      bind_r (repair_raise (audit_digest L row)) (\<lambda>digest.
      if Some digest \<noteq> row_digest row then Inl (RepairRefused (RepairRowDiffers seq))
      else
      case repair_key_rule current boundary rotated_at seq key_id of
        Some why \<Rightarrow> Inl (RepairRefused why)
      | None \<Rightarrow>
        let rotated_at = (if key_id = current \<and> rotated_at = None then Some seq else rotated_at) in
        (case map_of keys key_id of
           None \<Rightarrow>
             repair_walk L keys current boundary rows (expected + 1)
               (Some (str_opt (row_chain row)), rotated_at, skipped @ [seq])
         | Some row_key \<Rightarrow>
             bind_r (repair_raise (audit_link L
                 (case previous of Some p \<Rightarrow> p | None \<Rightarrow> audit_genesis L row_key)
                 (str_opt (row_digest row)) row_key)) (\<lambda>chain.
             if Some chain \<noteq> row_chain row then Inl (RepairRefused (RepairNotLinked seq))
             else
               repair_walk L keys current boundary rows (expected + 1)
                 (Some (str_opt (row_chain row)), rotated_at, skipped)))))"

definition current_key :: "key_ring \<Rightarrow> string option \<Rightarrow> repair_error + string \<times> chain_key" where
  "current_key keys current =
     (case current of
        None \<Rightarrow> Inl (RepairRefused NoCurrentKey)
      | Some kid \<Rightarrow>
          (case map_of keys kid of
             None \<Rightarrow> Inl (RepairRefused NoCurrentKey)
           | Some key \<Rightarrow> Inr (kid, key)))"

definition repaired_head ::
  "stdlib \<Rightarrow> audit_row list \<Rightarrow> key_ring \<Rightarrow> string option \<Rightarrow> int option
    \<Rightarrow> repair_error + (chain_head \<times> int list)" where
  "repaired_head L rows keys current boundary =
     bind_r (current_key keys current) (\<lambda>(kid, key).
     let ordered = sort_key row_seq rows in
     if ordered = [] then Inl (RepairRefused NoChainedRow)
     else
     bind_r (repair_walk L keys kid boundary ordered 1 (None, None, []))
       (\<lambda>(previous, rotated_at, skipped).
     case rotated_at of
       None \<Rightarrow> Inl (RepairRefused NoRowUnderCurrentKey)
     | Some b \<Rightarrow>
         let last_seq = row_seq (last ordered); chain = str_opt previous in
         Inr (\<lparr>head_seq = last_seq, head_chain = chain, head_key_id = Some kid,
                head_mac_of = head_mac L last_seq chain (Some b) key, rotated_at_seq = Some b\<rparr>,
              skipped)))"

definition head_for_repair ::
  "stdlib \<Rightarrow> audit_row list \<Rightarrow> key_ring \<Rightarrow> string option \<Rightarrow> repair_error + chain_head" where
  "head_for_repair L rows keys current = map_r fst (repaired_head L rows keys current None)"

text \<open>The boundary an old head vouches for: one under the current key whose MAC verifies.\<close>

definition vouched_boundary :: "stdlib \<Rightarrow> chain_head option \<Rightarrow> string \<Rightarrow> chain_key \<Rightarrow> int option" where
  "vouched_boundary L old_head kid key =
     (case old_head of
        None \<Rightarrow> None
      | Some h \<Rightarrow>
          if or_empty (head_key_id h) = kid \<and> rotated_at_seq h \<noteq> None \<and> head_verifies L h key
          then rotated_at_seq h else None)"

definition supported_head ::
  "stdlib \<Rightarrow> audit_row list \<Rightarrow> key_ring \<Rightarrow> string \<Rightarrow> int option \<Rightarrow> int option
    \<Rightarrow> repair_error + (chain_head \<times> int list \<times> int option)" where
  "supported_head L rows keys kid vouched accept_boundary_at =
     (case vouched of
        Some b \<Rightarrow>
          if accept_boundary_at \<noteq> None \<and> accept_boundary_at \<noteq> Some b then
            Inl (RepairRefused (BoundaryContradictsHead (the accept_boundary_at) b))
          else
            map_r (\<lambda>(head, skipped). (head, skipped, None)) (repaired_head L rows keys (Some kid) (Some b))
      | None \<Rightarrow>
          bind_r (repaired_head L rows keys (Some kid) None) (\<lambda>(head, skipped).
          let derived = int_or_0 (rotated_at_seq head) in
          case accept_boundary_at of
            None \<Rightarrow> Inl (RepairRefused (BoundaryUnacknowledged derived))
          | Some a \<Rightarrow>
              if a \<noteq> derived then Inl (RepairRefused (BoundaryMisnamed a derived))
              else Inr (head, skipped, Some derived)))"

definition old_head_truncated :: "audit_row list \<Rightarrow> chain_head option \<Rightarrow> chain_head \<Rightarrow> bool" where
  "old_head_truncated rows old_head head =
     (case old_head of
        None \<Rightarrow> False
      | Some h \<Rightarrow>
          head_seq head < head_seq h \<or>
          (case by_place rows (head_seq h) of
             Some r \<Rightarrow> row_chain r \<noteq> Some (head_chain h)
           | None \<Rightarrow> False))"

record repair_plan =
  plan_row :: audit_row
  plan_head :: chain_head
  plan_unverifiable :: "int list"
  plan_truncated :: bool

definition repair_details ::
  "chain_head option \<Rightarrow> chain_head \<Rightarrow> int option \<Rightarrow> bool \<Rightarrow> int option \<Rightarrow> int list \<Rightarrow> dict" where
  "repair_details old_head head acknowledged_cut vouched acknowledged skipped =
     [(''old_head_seq'', py_opt_int (map_option head_seq old_head)),
      (''old_head_chain'', py_opt_str (map_option head_chain old_head)),
      (''walked_head_seq'', PInt (head_seq head)),
      (''walked_head_chain'', PStr (head_chain head)),
      (''rotated_at_seq'', py_opt_int (rotated_at_seq head)),
      (''truncation_acknowledged_at'', py_opt_int acknowledged_cut),
      (''boundary_vouched_by_old_head'', PBool vouched),
      (''boundary_acknowledged_at'', py_opt_int acknowledged),
      (''unverifiable'',
        if skipped = [] then PNone else PList [PInt (hd skipped), PInt (last skipped)])]"

definition plan_repair ::
  "stdlib \<Rightarrow> audit_row list \<Rightarrow> key_ring \<Rightarrow> string option \<Rightarrow> chain_head option \<Rightarrow> int option \<Rightarrow> int option
    \<Rightarrow> py \<Rightarrow> repair_error + repair_plan" where
  "plan_repair L rows keys current old_head accept_truncation_at accept_boundary_at now =
     bind_r (current_key keys current) (\<lambda>(kid, key).
     let vouched = vouched_boundary L old_head kid key in
     bind_r (supported_head L rows keys kid vouched accept_boundary_at)
       (\<lambda>(head, skipped, acknowledged).
     let truncated = old_head_truncated rows old_head head;
         old_seq = map_option head_seq old_head
     in
     if accept_truncation_at \<noteq> None \<and> accept_truncation_at \<noteq> old_seq then
       Inl (RepairRefused (TruncationMisnamed (the accept_truncation_at) old_seq))
     else if truncated \<and> accept_truncation_at = None then
       Inl (RepairRefused (TruncationUnacknowledged (int_or_0 old_seq) (head_seq head)))
     else
     let seq = head_seq head + 1;
         row = \<lparr>user_id = None, action = HEAD_REPAIR, resource_type = Some ''audit_chain'',
                resource_id = Some HEAD_NAME,
                details = PDict (repair_details old_head head
                  (if truncated then accept_truncation_at else None) (vouched \<noteq> None) acknowledged skipped),
                ip_address = None, created_at = now, chain_seq = Some seq,
                row_digest = None, row_chain = None, chain_key_id = Some (ck_key_id key)\<rparr>
     in
     bind_r (repair_raise (audit_digest L row)) (\<lambda>digest.
     map_r (\<lambda>chain.
       \<lparr>plan_row = row\<lparr>row_digest := Some digest, row_chain := Some chain\<rparr>,
        plan_head = \<lparr>head_seq = seq, head_chain = chain, head_key_id = Some (ck_key_id key),
          head_mac_of = head_mac L seq chain (rotated_at_seq head) key,
          rotated_at_seq = rotated_at_seq head\<rparr>,
        plan_unverifiable = skipped, plan_truncated = truncated\<rparr>)
       (repair_raise (audit_link L (head_chain head) digest key)))))"

section \<open>The record of a deletion\<close>

datatype deletion_outcome = NoKeyToChain | DeletionChained audit_row | DeletionNotChained string

text \<open>
  \<open>record_report_deletion\<close>: \<open>key\<close> is what \<open>platform_key_status\<close> answers, \<open>report_id\<close> and
  \<open>job_id\<close> the report's ids as text and \<open>ledger_seal\<close> its seal column.
\<close>

definition record_report_deletion ::
  "stdlib \<Rightarrow> key_ring \<Rightarrow> chain_key option \<Rightarrow> py \<Rightarrow> string \<Rightarrow> string \<Rightarrow> py \<Rightarrow> string option \<Rightarrow> session
    \<Rightarrow> deletion_outcome \<times> session" where
  "record_report_deletion L known key now report_id job_id ledger_seal uid s =
     (case key of
        None \<Rightarrow> (NoKeyToChain, s)
      | Some k \<Rightarrow>
          let sealed = (case as_mapping ledger_seal of Some d \<Rightarrow> (\<lambda>name. dict_get d name) | None \<Rightarrow> (\<lambda>_. PNone));
              det = [(''report_id'', PStr report_id), (''seal_digest'', sealed ''digest''),
                     (''core_digest'', sealed ''core_digest'')]
          in
          (case append L known k now REPORT_DELETE ''job'' (Some job_id) det uid s of
             (None, s') \<Rightarrow> (DeletionNotChained report_id, s')
           | (Some row, s') \<Rightarrow> (DeletionChained row, s')))"

end
