(* ===== verification/Audit_Anchor.thy ===== *)
theory Audit_Anchor
  imports Audit_Repair
begin

text \<open>
  Heads of the audit chain kept outside the database
  (\<open>apps/api/app/services/audit_anchor.py\<close>): the anchored head, the two stores that keep heads
  (a table only a role of its own appends to, and objects of a bucket under object lock), the
  write of a committed head and the comparison of the chain with the anchor. The
  hook on the session, \<open>anchor_after_commit\<close>, is in \<open>Audit_Chain\<close>. A message of the code is a
  constructor; what the object store, the role catalogue and the network answer are arguments.
\<close>

section \<open>Heads and what a store raises\<close>

record anchored_head =
  a_seq :: int
  a_chain :: string
  a_key_id :: "string option"
  a_rotated :: int
  a_mac :: string
  a_at :: "string option"

text \<open>\<open>AnchorFailed\<close> is any other exception of the store, the time limit included.\<close>

datatype anchor_exc = AnchorConflict | HeadHidden | HeadGone | AnchorFailed string

text \<open>\<open>AnchoredHead.read\<close> of a head record; a head with no boundary is a \<^const>\<open>TypeError\<close>.\<close>

definition read_head :: "chain_head \<Rightarrow> py_error + anchored_head" where
  "read_head h =
     (case rotated_at_seq h of
        None \<Rightarrow> Inl TypeError
      | Some b \<Rightarrow>
          Inr \<lparr>a_seq = head_seq h, a_chain = head_chain h,
               a_key_id = none_if_empty (or_empty (head_key_id h)), a_rotated = b,
               a_mac = head_mac_of h, a_at = None\<rparr>)"

text \<open>An anchored head as \<open>_mac_holds\<close> reads it.\<close>

definition head_of :: "anchored_head \<Rightarrow> chain_head" where
  "head_of a = \<lparr>head_seq = a_seq a, head_chain = a_chain a, head_key_id = a_key_id a,
     head_mac_of = a_mac a, rotated_at_seq = Some (a_rotated a)\<rparr>"

section \<open>The database anchor\<close>

text \<open>The table \<open>audit_chain_anchor\<close>: \<open>chain_seq\<close> is its primary key; \<open>now\<close> the column default.\<close>

type_synonym anchor_table = "anchored_head list"

definition db_latest :: "anchor_table \<Rightarrow> (anchor_exc + anchored_head option) \<times> anchor_table" where
  "db_latest table =
     (Inr (case sort_key a_seq table of [] \<Rightarrow> None | rows \<Rightarrow> Some (last rows)), table)"

definition db_put :: "string \<Rightarrow> anchored_head \<Rightarrow> anchor_table \<Rightarrow> (anchor_exc + unit) \<times> anchor_table" where
  "db_put now head table =
     (case find (\<lambda>row. a_seq row = a_seq head) table of
        None \<Rightarrow> (Inr (), table @ [head\<lparr>a_at := Some now\<rparr>])
      | Some held \<Rightarrow>
          if a_chain held \<noteq> a_chain head then (Inl AnchorConflict, table) else (Inr (), table))"

text \<open>The privileges two roles hold on the table, as the catalogue answers them.\<close>

record privileges =
  superuser :: bool
  can_insert :: bool
  can_update :: bool
  can_delete :: bool
  can_truncate :: bool

record own_privileges = privileges +
  role_name :: string
  owner_name :: string
  can_select :: bool
  append_only :: bool

datatype weakness =
    SameRole string
  | AnchorSuperuser string
  | AnchorOwner string
  | AnchorMay string "string list"
  | AppSuperuser string
  | AppOwner string
  | AppMay string "string list"
  | AnchorCannotKeep string

definition changes_of :: "('a privileges_scheme) \<Rightarrow> bool \<Rightarrow> string list" where
  "changes_of row inserts =
     (if inserts \<and> can_insert row then [''INSERT''] else []) @
     (if can_update row then [''UPDATE''] else []) @
     (if can_delete row then [''DELETE''] else []) @
     (if can_truncate row then [''TRUNCATE''] else [])"

datatype table_protection = NotProtected "weakness list" bool | Protected string "string option" bool

definition weaknesses :: "own_privileges \<Rightarrow> string option \<Rightarrow> privileges option \<Rightarrow> weakness list" where
  "weaknesses mine app_role theirs =
     (let role = role_name mine; app = or_empty app_role in
      (if app \<noteq> [] \<and> role = app then [SameRole role] else []) @
      (if superuser mine then [AnchorSuperuser role]
       else if owner_name mine = role then [AnchorOwner role]
       else if changes_of mine False \<noteq> [] then [AnchorMay role (changes_of mine False)] else []) @
      (case theirs of
         None \<Rightarrow> []
       | Some t \<Rightarrow>
           if app \<noteq> [] \<and> app \<noteq> role then
             (if superuser t then [AppSuperuser app]
              else if owner_name mine = app then [AppOwner app]
              else if changes_of t True \<noteq> [] then [AppMay app (changes_of t True)] else [])
           else []) @
      (if can_insert mine \<and> can_select mine then [] else [AnchorCannotKeep role]))"

definition database_protection ::
  "own_privileges \<Rightarrow> string option \<Rightarrow> privileges option \<Rightarrow> table_protection" where
  "database_protection mine app_role theirs =
     (let weak = weaknesses mine app_role theirs in
      if weak \<noteq> [] then NotProtected weak (append_only mine)
      else Protected (role_name mine) app_role (append_only mine))"

section \<open>The object-store anchor\<close>

definition OBJECT_PREFIX :: string where "OBJECT_PREFIX = ''audit-chain/head/''"
definition SEQ_WIDTH :: nat where "SEQ_WIDTH = 12"

definition object_name :: "int \<Rightarrow> string" where
  "object_name seq =
     OBJECT_PREFIX @
     (if seq < 0 then CHR ''-'' # pad_to (SEQ_WIDTH - 1) (nat_text (nat (- seq)))
      else pad_to SEQ_WIDTH (nat_text (nat seq))) @ ''.json''"

definition seq_of_name :: "string \<Rightarrow> int option" where
  "seq_of_name name = int_of_text (takeWhile (\<lambda>c. c \<noteq> CHR ''.'') (drop (length OBJECT_PREFIX) name))"

record bucket_lock =
  lock_enabled :: bool
  lock_mode :: "string option"
  lock_duration :: "int option"
  lock_unit :: "string option"

datatype lock_sentence = NoObjectLock | LegalHoldOnly | ComplianceFor "int option" string | GovernanceFor string "int option" string

definition bucket_lock_sentence :: "bucket_lock \<Rightarrow> lock_sentence" where
  "bucket_lock_sentence lock =
     (if \<not> lock_enabled lock then NoObjectLock
      else case lock_mode lock of
        None \<Rightarrow> LegalHoldOnly
      | Some mode \<Rightarrow>
          let unit = map lower_char (or_empty (lock_unit lock)) in
          if map upper_char mode = ''COMPLIANCE'' then ComplianceFor (lock_duration lock) unit
          else GovernanceFor mode (lock_duration lock) unit)"

text \<open>One version under an object's name, as the listing answers it.\<close>

record object_version =
  version_id :: "string option"
  is_delete_marker :: bool
  is_latest :: bool
  last_modified :: int

text \<open>
  What the anchor asks of the store: the objects listed under a prefix after a name, with all
  their versions or without, the head read from an object (of a version), the lock and the write of a
  head under a name.
\<close>

record 's object_ops =
  list_objects :: "'s \<Rightarrow> string \<Rightarrow> string option \<Rightarrow> bool \<Rightarrow> anchor_exc + (string \<times> object_version) list"
  read_object :: "'s \<Rightarrow> string \<Rightarrow> string option \<Rightarrow> anchor_exc + anchored_head"
  get_lock :: "'s \<Rightarrow> anchor_exc + bucket_lock"
  put_object :: "'s \<Rightarrow> string \<Rightarrow> anchored_head \<Rightarrow> bool \<Rightarrow> anchor_exc + 's"

fun max_by :: "('a \<Rightarrow> int) \<Rightarrow> 'a \<Rightarrow> 'a list \<Rightarrow> 'a" where
  "max_by f best [] = best"
| "max_by f best (x # xs) = max_by f (if f best < f x then x else best) xs"

definition hidden_versions :: "object_version list \<Rightarrow> bool" where
  "hidden_versions versions =
     (case filter is_latest versions of
        v # _ \<Rightarrow> is_delete_marker v
      | [] \<Rightarrow> is_delete_marker (max_by last_modified (hd versions) (tl versions)))"

definition first_version :: "object_version list \<Rightarrow> string option" where
  "first_version versions =
     (case filter (\<lambda>v. or_empty (version_id v) \<noteq> [] \<and> \<not> is_delete_marker v) versions of
        [] \<Rightarrow> None
      | v # live \<Rightarrow> version_id (max_by (\<lambda>w. - last_modified w) v live))"

definition has_suffix :: "string \<Rightarrow> string \<Rightarrow> bool" where
  "has_suffix s suffix = (suffix = drop (length s - length suffix) s \<and> length suffix \<le> length s)"

definition has_prefix :: "string \<Rightarrow> string \<Rightarrow> bool" where
  "has_prefix s p = (take (length p) s = p)"

text \<open>\<open>found.setdefault(name, []).append(item)\<close> over the items listed.\<close>

fun add_version ::
  "string \<Rightarrow> object_version \<Rightarrow> (string \<times> object_version list) list \<Rightarrow> (string \<times> object_version list) list" where
  "add_version name v [] = [(name, [v])]"
| "add_version name v ((n, vs) # found) =
     (if n = name then (n, vs @ [v]) # found else (n, vs) # add_version name v found)"

definition listing ::
  "'s object_ops \<Rightarrow> 's \<Rightarrow> string \<Rightarrow> string option \<Rightarrow> anchor_exc + (string \<times> object_version list) list" where
  "listing ops s pre start_after =
     bind_r (get_lock ops s) (\<lambda>lock.
     map_r (\<lambda>items.
       fold (\<lambda>(name, v) found. add_version name v found)
         (filter (\<lambda>(name, v). has_prefix name OBJECT_PREFIX \<and> has_suffix name ''.json'') items) [])
       (list_objects ops s pre start_after (lock_enabled lock)))"

text \<open>
  \<open>_latest\<close>: \<open>highest\<close> is the highest name this process has seen. The listing starts just
  below it; a name that cannot be read as a number is the store's failure.
\<close>

definition listing_start :: "string option \<Rightarrow> anchor_exc + string option" where
  "listing_start highest =
     (case highest of
        None \<Rightarrow> Inr None
      | Some name \<Rightarrow>
          if name = [] then Inr None
          else case seq_of_name name of
            None \<Rightarrow> Inl (AnchorFailed ''ValueError'')
          | Some n \<Rightarrow> Inr (if 0 < n then Some (object_name (n - 1)) else None))"

definition object_latest ::
  "'s object_ops \<Rightarrow> string option \<times> 's
    \<Rightarrow> (anchor_exc + anchored_head option) \<times> (string option \<times> 's)" where
  "object_latest ops st =
     (case bind_r (listing_start (fst st)) (listing ops (snd st) OBJECT_PREFIX) of
        Inl e \<Rightarrow> (Inl e, st)
      | Inr found \<Rightarrow>
          if \<exists>(n, versions)\<in>set found. hidden_versions versions then (Inl HeadHidden, st)
          else
            let live = sort (map fst found) in
            if (case fst st of Some cached \<Rightarrow> live = [] \<or> last live < cached | None \<Rightarrow> False) then
              (Inl HeadGone, st)
            else if live = [] then (Inr None, st)
            else
              let name = last live in
              (map_r Some (read_object ops (snd st) name
                 (case map_of found name of Some vs \<Rightarrow> first_version vs | None \<Rightarrow> None)),
               (Some name, snd st)))"

definition object_held :: "'s object_ops \<Rightarrow> 's \<Rightarrow> string \<Rightarrow> anchor_exc + anchored_head option" where
  "object_held ops s name =
     bind_r (listing ops s name None) (\<lambda>found.
       case map_of found name of
         None \<Rightarrow> Inr None
       | Some versions \<Rightarrow>
           if versions = [] then Inr None
           else if hidden_versions versions then Inl HeadHidden
           else map_r Some (read_object ops s name (first_version versions)))"

definition object_put ::
  "string \<Rightarrow> 's object_ops \<Rightarrow> anchored_head \<Rightarrow> string option \<times> 's
    \<Rightarrow> (anchor_exc + unit) \<times> (string option \<times> 's)" where
  "object_put now ops head st =
     (let name = object_name (a_seq head) in
      case object_held ops (snd st) name of
        Inl e \<Rightarrow> (Inl e, st)
      | Inr (Some held) \<Rightarrow>
          if a_chain held \<noteq> a_chain head then (Inl AnchorConflict, st) else (Inr (), st)
      | Inr None \<Rightarrow>
          (case bind_r (get_lock ops (snd st)) (\<lambda>lock.
              put_object ops (snd st) name (head\<lparr>a_at := Some now\<rparr>)
                (lock_enabled lock \<and> lock_mode lock = None)) of
             Inl e \<Rightarrow> (Inl e, st)
           | Inr s' \<Rightarrow>
               (Inr (),
                (if (case fst st of None \<Rightarrow> True | Some h \<Rightarrow> h < name) then Some name else fst st, s'))))"

section \<open>The configured anchor\<close>

definition NONE :: string where "NONE = ''none''"
definition DATABASE :: string where "DATABASE = ''database''"
definition OBJECT_STORE :: string where "OBJECT_STORE = ''object_store''"

definition configured_kind :: "string option \<Rightarrow> string option \<Rightarrow> string" where
  "configured_kind audit_anchor anchor_url =
     (let raw = map lower_char (strip (or_empty audit_anchor)) in
      if raw \<noteq> [] then raw
      else if strip (or_empty anchor_url) \<noteq> [] then DATABASE else NONE)"

datatype anchor_problem = UnknownKind | UrlNotSet

text \<open>The problems and whether the same-role warning is given; \<open>role_of\<close> reads a URL's user name.\<close>

definition bootstrap_findings ::
  "(string \<Rightarrow> string option) \<Rightarrow> string option \<Rightarrow> string option \<Rightarrow> string \<Rightarrow> anchor_problem list \<times> bool" where
  "bootstrap_findings role_of audit_anchor anchor_url database_url =
     (let kind = configured_kind audit_anchor anchor_url; url = strip (or_empty anchor_url) in
      if kind \<notin> {NONE, DATABASE, OBJECT_STORE} then ([UnknownKind], False)
      else if kind = DATABASE \<and> url = [] then ([UrlNotSet], False)
      else if kind = DATABASE \<and> role_of url = role_of database_url then ([], True)
      else ([], False))"

text \<open>\<open>configured\<close>: the anchor built for the process, kept until the settings differ.\<close>

datatype built_anchor = DatabaseAnchor string | ObjectStoreAnchor

definition configured ::
  "string option \<Rightarrow> string option \<Rightarrow> built_anchor option \<times> (string \<times> string) option
    \<Rightarrow> built_anchor option \<times> (built_anchor option \<times> (string \<times> string) option)" where
  "configured audit_anchor anchor_url built =
     (let kind = configured_kind audit_anchor anchor_url; url = strip (or_empty anchor_url) in
      if snd built = Some (kind, url) then (fst built, built)
      else
        let anchor =
          (if kind = DATABASE \<and> url \<noteq> [] then Some (DatabaseAnchor url)
           else if kind = OBJECT_STORE then Some ObjectStoreAnchor else None)
        in (anchor, (anchor, Some (kind, url))))"

section \<open>Anchoring the committed head\<close>

datatype anchor_outcome = ANCHORED | CURRENT | NOTHING | REFUSED | FAILED

text \<open>\<open>SELECT chain FROM audit_log WHERE chain_seq = \<dots>\<close>, the first row's value.\<close>

definition chain_at :: "audit_row list \<Rightarrow> int \<Rightarrow> string option" where
  "chain_at rows seq =
     (case find (\<lambda>r. chain_seq r = Some seq) rows of Some r \<Rightarrow> row_chain r | None \<Rightarrow> None)"

definition mac_holds :: "stdlib \<Rightarrow> key_ring \<Rightarrow> chain_head \<Rightarrow> bool option" where
  "mac_holds L keys head =
     (case map_of keys (or_empty (head_key_id head)) of
        None \<Rightarrow> None
      | Some key \<Rightarrow> Some (head_verifies L head key))"

datatype anchor_refusal =
    MacNotHeld
  | DatabaseBehindCandidate
  | CandidateNotInChain
  | DatabaseBehindAnchor
  | AnchorNotInChain

definition anchor_refusal_of ::
  "stdlib \<Rightarrow> key_ring \<Rightarrow> audit_row list \<Rightarrow> anchored_head option \<Rightarrow> chain_head \<Rightarrow> chain_head \<Rightarrow> anchor_refusal option" where
  "anchor_refusal_of L keys rows latest head candidate =
     (if mac_holds L keys candidate \<noteq> Some True then Some MacNotHeld
      else if head_seq head < head_seq candidate then Some DatabaseBehindCandidate
      else if chain_at rows (head_seq candidate) \<noteq> Some (head_chain candidate) then Some CandidateNotInChain
      else
        case latest of
          None \<Rightarrow> None
        | Some a \<Rightarrow>
            if head_seq head < a_seq a then Some DatabaseBehindAnchor
            else if chain_at rows (a_seq a) \<noteq> Some (a_chain a) then Some AnchorNotInChain
            else None)"

text \<open>
  \<open>anchor_committed_head\<close>, given the store's \<open>latest\<close> and \<open>put\<close>: the outcome and the store after
  it. \<^const>\<open>REFUSED\<close> and \<^const>\<open>FAILED\<close> are each counted in \<open>audit_anchor_failures\<close> and logged.
\<close>

definition outcome_of :: "anchor_exc \<Rightarrow> anchor_outcome" where
  "outcome_of e = (case e of AnchorFailed w \<Rightarrow> FAILED | _ \<Rightarrow> REFUSED)"

definition anchor_committed_head ::
  "stdlib \<Rightarrow> key_ring \<Rightarrow> ('s \<Rightarrow> (anchor_exc + anchored_head option) \<times> 's)
    \<Rightarrow> (anchored_head \<Rightarrow> 's \<Rightarrow> (anchor_exc + unit) \<times> 's)
    \<Rightarrow> audit_row list \<Rightarrow> chain_head option \<Rightarrow> chain_head option \<Rightarrow> 's \<Rightarrow> anchor_outcome \<times> 's" where
  "anchor_committed_head L keys latest put rows dbh expected st =
     (case latest st of
        (Inl e, st1) \<Rightarrow> (outcome_of e, st1)
      | (Inr held, st1) \<Rightarrow>
        (case dbh of
           None \<Rightarrow> (NOTHING, st1)
         | Some head \<Rightarrow>
             let candidate = (case expected of Some h \<Rightarrow> h | None \<Rightarrow> head) in
             if anchor_refusal_of L keys rows held head candidate \<noteq> None then (REFUSED, st1)
             else if (case held of Some a \<Rightarrow> head_seq candidate \<le> a_seq a | None \<Rightarrow> False) then (CURRENT, st1)
             else
               (case read_head candidate of
                  Inl e \<Rightarrow> (FAILED, st1)
                | Inr a \<Rightarrow>
                    (case put a st1 of
                       (Inl e, st2) \<Rightarrow> (outcome_of e, st2)
                     | (Inr _, st2) \<Rightarrow> (ANCHORED, st2)))))"

text \<open>\<open>_anchor_through\<close>: the task scheduled after a commit, and the one at startup.\<close>

definition anchor_through ::
  "stdlib \<Rightarrow> key_ring \<Rightarrow> ('s \<Rightarrow> (anchor_exc + anchored_head option) \<times> 's)
    \<Rightarrow> (anchored_head \<Rightarrow> 's \<Rightarrow> (anchor_exc + unit) \<times> 's)
    \<Rightarrow> audit_row list \<Rightarrow> chain_head option \<Rightarrow> chain_head option \<Rightarrow> bool \<Rightarrow> 's \<Rightarrow> anchor_outcome \<times> 's" where
  "anchor_through L keys latest put rows dbh expected only_if_empty st =
     (if only_if_empty then
        (case latest st of
           (Inl e, st1) \<Rightarrow> (FAILED, st1)
         | (Inr (Some a), st1) \<Rightarrow> (NOTHING, st1)
         | (Inr None, st1) \<Rightarrow> anchor_committed_head L keys latest put rows dbh expected st1)
      else anchor_committed_head L keys latest put rows dbh expected st)"

section \<open>Comparing the chain with the anchor\<close>

datatype anchor_state = NoAnchor | MATCHES | LAGS | EMPTY | UNREADABLE | UNVERIFIABLE | BROKEN

datatype anchor_break = AnchorMacFails | BEHIND | MISSING | ChainRewritten | StoreTampered anchor_exc

datatype anchor_note =
    NOT_CONFIGURED
  | EMPTY_BESIDE_A_HEAD
  | UNKNOWN_KEY
  | RowsPastAnchor
  | AnchorUnread string "string option"
  | JobPastAnchor

record anchor_verdict =
  v_kind :: string
  v_state :: anchor_state
  v_protection :: "string option"
  v_broken :: "anchor_break option"
  v_unverifiable :: "anchor_note option"
  v_anchored_seq :: "int option"
  v_head_seq :: "int option"
  v_checked :: bool
  v_notes :: "anchor_note list"

definition new_verdict :: "string \<Rightarrow> anchor_state \<Rightarrow> string option \<Rightarrow> anchor_verdict" where
  "new_verdict kind st protection =
     \<lparr>v_kind = kind, v_state = st, v_protection = protection, v_broken = None, v_unverifiable = None,
      v_anchored_seq = None, v_head_seq = None, v_checked = False, v_notes = []\<rparr>"

definition anchor_broken :: "anchor_break \<Rightarrow> anchor_verdict \<Rightarrow> anchor_verdict" where
  "anchor_broken reason v = v\<lparr>v_state := BROKEN, v_broken := Some reason\<rparr>"

definition compare ::
  "stdlib \<Rightarrow> string \<Rightarrow> anchored_head option \<Rightarrow> chain_head option \<Rightarrow> string option \<Rightarrow> key_ring \<Rightarrow> string option
    \<Rightarrow> anchor_verdict" where
  "compare L kind held head chain_at_anchored keys protection =
     (case held of
        None \<Rightarrow>
          (let v = new_verdict kind EMPTY protection in
           if head \<noteq> None then v\<lparr>v_unverifiable := Some EMPTY_BESIDE_A_HEAD, v_notes := [EMPTY_BESIDE_A_HEAD]\<rparr>
           else v)
      | Some a \<Rightarrow>
          let seq = (case head of Some h \<Rightarrow> head_seq h | None \<Rightarrow> 0);
              v = (new_verdict kind MATCHES protection)
                    \<lparr>v_anchored_seq := Some (a_seq a), v_head_seq := map_option head_seq head\<rparr>
          in
          case mac_holds L keys (head_of a) of
            None \<Rightarrow> v\<lparr>v_state := UNVERIFIABLE, v_unverifiable := Some UNKNOWN_KEY, v_notes := [UNKNOWN_KEY]\<rparr>
          | Some False \<Rightarrow> anchor_broken AnchorMacFails v
          | Some True \<Rightarrow>
              if seq < a_seq a then anchor_broken BEHIND v
              else (case chain_at_anchored of
                None \<Rightarrow> anchor_broken MISSING v
              | Some chain \<Rightarrow>
                  if chain \<noteq> a_chain a then anchor_broken ChainRewritten v
                  else
                    let v = v\<lparr>v_checked := True\<rparr> in
                    if a_seq a < seq then v\<lparr>v_state := LAGS, v_notes := [RowsPastAnchor]\<rparr> else v))"

record anchor_reading =
  r_anchored :: "anchored_head option"
  r_protection :: "string option"
  r_error :: "string option"
  r_tampered :: "anchor_exc option"

text \<open>\<open>read\<close>: the store's latest head and its protection, or how reading them failed.\<close>

definition read_anchor ::
  "('s \<Rightarrow> (anchor_exc + anchored_head option) \<times> 's) \<Rightarrow> string option \<Rightarrow> 's \<Rightarrow> anchor_reading \<times> 's" where
  "read_anchor latest protection st =
     (case latest st of
        (Inl (AnchorFailed w), st1) \<Rightarrow>
          (\<lparr>r_anchored = None, r_protection = None, r_error = Some w, r_tampered = None\<rparr>, st1)
      | (Inl AnchorConflict, st1) \<Rightarrow>
          (\<lparr>r_anchored = None, r_protection = None, r_error = Some ''AnchorConflict'', r_tampered = None\<rparr>, st1)
      | (Inl e, st1) \<Rightarrow>
          (\<lparr>r_anchored = None, r_protection = None, r_error = None, r_tampered = Some e\<rparr>, st1)
      | (Inr held, st1) \<Rightarrow>
          (\<lparr>r_anchored = held, r_protection = protection, r_error = None, r_tampered = None\<rparr>, st1))"

text \<open>
  \<open>verification\<close> with the anchor read first. \<open>fresh\<close> is the read on a connection of its own
  outside the snapshot: \<^const>\<open>None\<close> when there is no engine or that read failed.
\<close>

definition verification ::
  "stdlib \<Rightarrow> string option \<Rightarrow> anchor_reading \<Rightarrow> audit_row list \<Rightarrow> chain_head option \<Rightarrow> key_ring
    \<Rightarrow> (audit_row list \<times> chain_head option) option \<Rightarrow> bool \<Rightarrow> anchor_verdict" where
  "verification L kind reading rows head keys fresh operator =
     (case kind of
        None \<Rightarrow> (new_verdict NONE NoAnchor None)\<lparr>v_notes := [NOT_CONFIGURED]\<rparr>
      | Some k \<Rightarrow>
        (case r_tampered reading of
           Some e \<Rightarrow> anchor_broken (StoreTampered e) (new_verdict k BROKEN (r_protection reading))
         | None \<Rightarrow>
           (case r_error reading of
              Some w \<Rightarrow>
                let said = AnchorUnread k (if operator then Some w else None) in
                (new_verdict k UNREADABLE None)\<lparr>v_unverifiable := Some said, v_notes := [said]\<rparr>
            | None \<Rightarrow>
                let held = r_anchored reading;
                    at = (\<lambda>rows. case held of Some a \<Rightarrow> chain_at rows (a_seq a) | None \<Rightarrow> None);
                    v = compare L k held head (at rows) keys (r_protection reading)
                in
                if held \<noteq> None \<and> v_broken v \<in> {Some BEHIND, Some MISSING} then
                  (case fresh of
                     None \<Rightarrow> v
                   | Some (rows2, head2) \<Rightarrow> compare L k held head2 (at rows2) keys (r_protection reading))
                else v)))"

end
