(* ===== verification/Hash_Chain.thy ===== *)
theory Hash_Chain
  imports Maljan_Prelude
begin

text \<open>
  The contract of a keyed hash chain, which the evidence ledger and the audit log both keep:
  a step takes the chain value before a row to the one after it, and two equal values come
  from equal values before and the same row, or from a clash the contract names. What the
  chain's last value says of every row before it is proved here once.
\<close>

locale hash_chain =
  fixes step :: "'c \<Rightarrow> 'r \<Rightarrow> 'c"
    and valid :: "'r \<Rightarrow> bool"
    and same :: "'r \<Rightarrow> 'r \<Rightarrow> bool"
    and clash :: "'c \<Rightarrow> 'r \<Rightarrow> 'c \<Rightarrow> 'r \<Rightarrow> bool"
  assumes step_eq: "valid r \<Longrightarrow> valid r' \<Longrightarrow> step p r = step p' r' \<Longrightarrow>
    (p = p' \<and> same r r') \<or> clash p r p' r'"
begin

definition value_after :: "'c \<Rightarrow> 'r list \<Rightarrow> 'c" where
  "value_after p rs = foldl step p rs"

lemma value_after_simps [simp]:
  "value_after p [] = p" "value_after p (rs @ [r]) = step (value_after p rs) r"
  by (simp_all add: value_after_def)

text \<open>Equal last values: the chains are the same, row by row, or two messages clash at a named place.\<close>

lemma same_end:
  assumes "length rs = length rs'" "\<forall>r\<in>set rs. valid r" "\<forall>r\<in>set rs'. valid r"
    and "value_after p rs = value_after p' rs'"
  shows "(p = p' \<and> list_all2 same rs rs') \<or>
    (\<exists>i<length rs. clash (value_after p (take i rs)) (rs ! i) (value_after p' (take i rs')) (rs' ! i))"
  using assms
proof (induction rs arbitrary: rs' rule: rev_induct)
  case Nil
  then show ?case by simp
next
  case (snoc r rs)
  then obtain ss s where rs': "rs' = ss @ [s]" and len: "length ss = length rs"
    by (cases rs' rule: rev_cases) auto
  from snoc.prems rs' have "(value_after p rs = value_after p' ss \<and> same r s) \<or>
      clash (value_after p rs) r (value_after p' ss) s"
    by (intro step_eq) auto
  then show ?case
  proof
    assume eq: "value_after p rs = value_after p' ss \<and> same r s"
    with snoc.IH [of ss] snoc.prems rs' len
    have "(p = p' \<and> list_all2 same rs ss) \<or>
      (\<exists>i<length rs. clash (value_after p (take i rs)) (rs ! i) (value_after p' (take i ss)) (ss ! i))"
      by simp
    then show ?thesis
    proof
      assume "\<exists>i<length rs. clash (value_after p (take i rs)) (rs ! i) (value_after p' (take i ss)) (ss ! i)"
      then obtain i where "i < length rs"
        "clash (value_after p (take i rs)) (rs ! i) (value_after p' (take i ss)) (ss ! i)" by blast
      then show ?thesis
        using len by (intro disjI2 exI [of _ i]) (simp add: rs' nth_append)
    next
      assume "p = p' \<and> list_all2 same rs ss"
      then show ?thesis
        using eq len rs' by (simp add: list_all2_append)
    qed
  next
    assume "clash (value_after p rs) r (value_after p' ss) s"
    then show ?thesis
      using len by (intro disjI2 exI [of _ "length rs"]) (simp add: rs' nth_append)
  qed
qed

end

end
