(* ===== verification/Audit_Chain_Proofs.thy ===== *)
theory Audit_Chain_Proofs
  imports Audit_Chain Hash_Chain
begin

text \<open>
  What the audit chain promises: every log the appends of the code leave verifies, whatever
  keys were rotated in between; an append over a head that does not verify is refused and
  writes nothing; a row changed, removed or cut off is found by the walk; and two logs that
  end on the same chain value under a key hold the same rows from the rotation boundary on,
  or exhibit a collision.
\<close>

section \<open>The walk, row by row\<close>

definition fine :: "py_error + row_verdict \<Rightarrow> bool" where
  "fine r = (r = Inr Unverifiable \<or> r = Inr Verified)"

text \<open>The chain value a row of the walk is linked onto: the stored one of the row before.\<close>

definition value_before :: "string option \<Rightarrow> audit_row list \<Rightarrow> nat \<Rightarrow> string option" where
  "value_before p rows i = (if i = 0 then p else Some (str_opt (row_chain (rows ! (i - 1)))))"

lemma value_before_simps [simp]:
  "value_before p rows 0 = p"
  "value_before p (row # rows) (Suc i) = value_before (Some (str_opt (row_chain row))) rows i"
  by (auto simp: value_before_def nth_Cons')

definition held_key :: "key_ring \<Rightarrow> audit_row \<Rightarrow> bool" where
  "held_key keys row = (map_of keys (row_key_id row) \<noteq> None)"

lemma fine_simps [simp]:
  "fine (Inr Verified)" "fine (Inr Unverifiable)" "\<not> fine (Inr (Breaks s r))" "\<not> fine (Inl x)"
  by (simp_all add: fine_def)

definition linked_row :: "stdlib \<Rightarrow> key_ring \<Rightarrow> string option \<Rightarrow> audit_row \<Rightarrow> bool" where
  "linked_row L keys p row =
     (case map_of keys (row_key_id row) of
        None \<Rightarrow> True
      | Some key \<Rightarrow>
          (\<exists>chain. row_chain row = Some chain \<and>
            audit_link L (case p of Some q \<Rightarrow> q | None \<Rightarrow> audit_genesis L key)
              (str_opt (row_digest row)) key = Inr chain))"

definition digest_holds :: "stdlib \<Rightarrow> audit_row \<Rightarrow> bool" where
  "digest_holds L row = (\<exists>d. audit_digest L row = Inr d \<and> row_digest row = Some d)"

lemma audit_step_fine:
  "fine (audit_step L keys cur b p e row) \<longleftrightarrow>
    row_seq row = e \<and> digest_holds L row \<and> key_rule cur b e (row_key_id row) = None \<and>
    linked_row L keys p row"
proof (cases "row_seq row = e")
  case True
  show ?thesis
  proof (cases "audit_digest L row")
    case (Inl x)
    then show ?thesis using True by (simp add: audit_step_def digest_holds_def)
  next
    case (Inr d)
    show ?thesis
    proof (cases "row_digest row = Some d")
      case d: True
      show ?thesis
      proof (cases "key_rule cur b e (row_key_id row)")
        case None
        then show ?thesis
          using True Inr d
          by (cases "map_of keys (row_key_id row)")
            (auto simp: audit_step_def digest_holds_def linked_row_def fine_def result_iffs
              split: option.splits if_splits)
      next
        case (Some r)
        then show ?thesis using True Inr d by (simp add: audit_step_def)
      qed
    next
      case d: False
      then have "Some d \<noteq> row_digest row" by metis
      then show ?thesis using True Inr d by (simp add: audit_step_def digest_holds_def)
    qed
  qed
next
  case False
  then show ?thesis by (simp add: audit_step_def)
qed

lemma audit_step_verdict:
  assumes "fine (audit_step L keys cur b p e row)"
  shows "audit_step L keys cur b p e row = Inr (if held_key keys row then Verified else Unverifiable)"
  using assms
  by (auto simp: fine_def audit_step_def Let_def held_key_def result_iffs
      split: if_splits option.splits)

text \<open>A walk that no break ended saw every row fine, and says which rows it verified.\<close>

lemma audit_walk_ended:
  "audit_walk L keys cur b rows p e c = Inr (c', Some (p', e')) \<longleftrightarrow>
    (\<forall>i<length rows. fine (audit_step L keys cur b (value_before p rows i) (e + int i) (rows ! i))) \<and>
    p' = value_before p rows (length rows) \<and> e' = e + int (length rows) \<and>
    c' = c\<lparr>verified := verified c @ map row_seq (filter (held_key keys) rows),
           unverifiable := unverifiable c @ map row_seq (filter (\<lambda>r. \<not> held_key keys r) rows)\<rparr>"
proof (induction rows arbitrary: p e c)
  case Nil
  then show ?case by auto
next
  case (Cons row rows)
  have idx: "(\<forall>i<length (row # rows). fine (audit_step L keys cur b (value_before p (row # rows) i)
        (e + int i) ((row # rows) ! i))) \<longleftrightarrow>
      fine (audit_step L keys cur b p e row) \<and>
      (\<forall>i<length rows. fine (audit_step L keys cur b
        (value_before (Some (str_opt (row_chain row))) rows i) (e + 1 + int i) (rows ! i)))"
    by (simp only: length_Cons All_less_Suc2) (simp add: add.assoc)
  show ?case
  proof (cases "fine (audit_step L keys cur b p e row)")
    case True
    from audit_step_verdict [OF True] show ?thesis
      unfolding idx by (cases "held_key keys row") (auto simp: Cons.IH True add.assoc)
  next
    case False
    then have "audit_walk L keys cur b (row # rows) p e c \<noteq> Inr (c', Some (p', e'))"
      by (auto simp: fine_def result_iffs split: row_verdict.splits)
    with False show ?thesis unfolding idx by blast
  qed
qed


text \<open>A row in its place: what the walk asks of it.\<close>

definition row_ok ::
  "stdlib \<Rightarrow> key_ring \<Rightarrow> string option \<Rightarrow> int option \<Rightarrow> string option \<Rightarrow> int \<Rightarrow> audit_row \<Rightarrow> bool" where
  "row_ok L keys cur b p e row \<longleftrightarrow>
     row_seq row = e \<and> digest_holds L row \<and> key_rule cur b e (row_key_id row) = None \<and>
     linked_row L keys p row"

definition rows_ok ::
  "stdlib \<Rightarrow> key_ring \<Rightarrow> string option \<Rightarrow> int option \<Rightarrow> audit_row list \<Rightarrow> bool" where
  "rows_ok L keys cur b rows =
     (\<forall>i<length rows. row_ok L keys cur b (value_before None rows i) (1 + int i) (rows ! i))"

definition walked ::
  "key_ring \<Rightarrow> audit_row list \<Rightarrow> chain_check \<Rightarrow> chain_check" where
  "walked keys rows c =
     c\<lparr>verified := verified c @ map row_seq (filter (held_key keys) rows),
       unverifiable := unverifiable c @ map row_seq (filter (\<lambda>r. \<not> held_key keys r) rows)\<rparr>"

definition head_at_end :: "chain_head \<Rightarrow> audit_row list \<Rightarrow> bool" where
  "head_at_end h rows \<longleftrightarrow>
     head_seq h = int (length rows) \<and>
     (rows \<noteq> [] \<longrightarrow> head_chain h = str_opt (row_chain (last rows)))"

lemma audit_walk_rows_ok:
  "audit_walk L keys cur b rows None 1 c = Inr (c', Some (p', e')) \<longleftrightarrow>
    rows_ok L keys cur b rows \<and> p' = value_before None rows (length rows) \<and>
    e' = 1 + int (length rows) \<and> c' = walked keys rows c"
  by (auto simp: audit_walk_ended audit_step_fine rows_ok_def row_ok_def walked_def)

lemma audit_walk_break:
  assumes "audit_walk L keys cur b rows p e c = Inr (c', None)"
  shows "broken_at c' \<noteq> None"
  using assms
proof (induction rows arbitrary: p e c)
  case Nil
  then show ?case by simp
next
  case (Cons row rows)
  then obtain v where "audit_step L keys cur b p e row = Inr v" by (auto simp: result_iffs)
  with Cons show ?case by (cases v) (auto simp: broken_def)
qed

lemma value_before_end:
  "rows \<noteq> [] \<Longrightarrow> value_before p rows (length rows) = Some (str_opt (row_chain (last rows)))"
  by (simp add: value_before_def last_conv_nth)

lemma walk_end_intact:
  assumes "broken_at c = None" "\<not> head_unverifiable c"
  shows "broken_at (walk_end h (value_before None rows (length rows)) (1 + int (length rows)) c) = None
    \<longleftrightarrow> head_at_end h rows"
  using assms
  by (cases "rows = []") (auto simp: walk_end_def Let_def broken_def head_at_end_def value_before_end)

lemma walk_end_same:
  "head_unverifiable c \<or> head_at_end h rows \<Longrightarrow>
    walk_end h (value_before None rows (length rows)) (1 + int (length rows)) c = c"
  by (cases "rows = []") (auto simp: walk_end_def Let_def head_at_end_def value_before_end)

lemma chain_walk_intact:
  assumes "broken_at c = None"
  shows "chain_walk L keys cur b h rows c = Inr c' \<and> broken_at c' = None \<longleftrightarrow>
    rows_ok L keys cur b rows \<and> (head_unverifiable c \<or> head_at_end h rows) \<and> c' = walked keys rows c"
proof -
  have w [simp]: "broken_at (walked keys rows c) = None"
    "head_unverifiable (walked keys rows c) = head_unverifiable c"
    using assms by (simp_all add: walked_def)
  show ?thesis
  proof (cases "audit_walk L keys cur b rows None 1 c")
    case (Inl x)
    then show ?thesis
      using audit_walk_rows_ok [of L keys cur b rows c] by (auto simp: chain_walk_def)
  next
    case (Inr r)
    obtain d w where r: "r = (d, w)" by (cases r)
    show ?thesis
    proof (cases w)
      case None
      with Inr r audit_walk_break [of L keys cur b rows None 1 c d]
        audit_walk_rows_ok [of L keys cur b rows c]
      show ?thesis by (auto simp: chain_walk_def)
    next
      case (Some pe)
      obtain p' e' where pe: "pe = (p', e')" by (cases pe)
      from Inr r Some pe audit_walk_rows_ok [of L keys cur b rows c d p' e']
      have ok: "rows_ok L keys cur b rows" "p' = value_before None rows (length rows)"
        "e' = 1 + int (length rows)" "d = walked keys rows c" by auto
      have "chain_walk L keys cur b h rows c =
        Inr (walk_end h (value_before None rows (length rows)) (1 + int (length rows)) (walked keys rows c))"
        using Inr r Some pe ok by (simp add: chain_walk_def)
      then show ?thesis
        using ok(1) walk_end_same [of "walked keys rows c" h rows]
          walk_end_intact [OF w(1), of h rows]
        by (cases "head_unverifiable c \<or> head_at_end h rows") auto
    qed
  qed
qed

text \<open>The log is in order when its rows stand in the places they name.\<close>

lemma rows_ok_seq: "rows_ok L keys cur b rows \<Longrightarrow> i < length rows \<Longrightarrow> row_seq (rows ! i) = 1 + int i"
  by (simp add: rows_ok_def row_ok_def)

lemma sort_in_place:
  assumes "\<And>i. i < length rows \<Longrightarrow> row_seq (rows ! i) = 1 + int i"
  shows "sort_key row_seq rows = rows"
proof -
  have "sorted (map row_seq rows)"
    using assms by (auto simp: sorted_iff_nth_mono)
  then show ?thesis by (rule sort_key_id_if_sorted)
qed

lemma verify_current_intact:
  assumes "or_empty (head_key_id h) = kid" "map_of keys kid = Some key"
  shows "verify_audit_chain L rows keys (Some h) (Some kid) = Inr c \<and> broken_at c = None \<longleftrightarrow>
    (\<exists>b. rotated_at_seq h = Some b \<and> 1 \<le> b \<and> b \<le> max (head_seq h) 1 \<and> head_verifies L h key \<and>
      rows_ok L keys (Some kid) (Some b) (sort_key row_seq rows) \<and>
      head_at_end h (sort_key row_seq rows) \<and>
      c = walked keys (sort_key row_seq rows)
            ((new_check (length rows))\<lparr>checked_head_seq := Some (head_seq h), checked_rotated_at := Some b\<rparr>))"
proof (cases "rotated_at_seq h")
  case None
  then show ?thesis using assms by (auto simp: verify_audit_chain_def Let_def broken_def)
next
  case (Some b)
  let ?c = "(new_check (length rows))\<lparr>checked_head_seq := Some (head_seq h), checked_rotated_at := Some b\<rparr>"
  have new: "broken_at ?c = None" "\<not> head_unverifiable ?c" by (simp_all add: new_check_def)
  show ?thesis
  proof (cases "head_verifies L h key \<and> 1 \<le> b \<and> b \<le> max (head_seq h) 1")
    case True
    have "verify_audit_chain L rows keys (Some h) (Some kid) =
      chain_walk L keys (Some kid) (Some b) h (sort_key row_seq rows) ?c"
      using True Some assms by (simp add: verify_audit_chain_def Let_def)
    then show ?thesis
      using chain_walk_intact [OF new(1)] new(2) True Some by auto
  next
    case False
    then have "\<exists>reason. verify_audit_chain L rows keys (Some h) (Some kid) =
        Inr (broken (head_seq h + 1) reason (new_check (length rows)\<lparr>checked_head_seq := Some (head_seq h)\<rparr>))"
      using Some assms by (auto simp: verify_audit_chain_def Let_def)
    then show ?thesis using False Some by (auto simp: broken_def)
  qed
qed

lemma rows_ok_snoc:
  "rows_ok L keys cur b (rows @ [r]) \<longleftrightarrow>
    rows_ok L keys cur b rows \<and>
    row_ok L keys cur b (value_before None rows (length rows)) (1 + int (length rows)) r"
proof -
  have "value_before None (rows @ [r]) i = value_before None rows i" if "i \<le> length rows" for i
    using that by (auto simp: value_before_def nth_append)
  then show ?thesis
    by (auto simp: rows_ok_def All_less_Suc nth_append)
qed

lemma rows_ok_sorted: "rows_ok L keys cur b rows \<Longrightarrow> sort_key row_seq rows = rows"
  by (rule sort_in_place) (rule rows_ok_seq)

lemma rows_ok_row: "rows_ok L keys cur b rows \<Longrightarrow> r \<in> set rows \<Longrightarrow>
  1 \<le> row_seq r \<and> row_seq r \<le> int (length rows) \<and> digest_holds L r"
  by (auto simp: in_set_conv_nth rows_ok_def row_ok_def)

end
