(* ===== verification/Audit_Runs.thy ===== *)
theory Audit_Runs
  imports Audit_Chain_Proofs
begin

text \<open>
  The logs the code can leave: every sequence of appends, under whatever keys the platform
  chained with, successful or refused, between ordinary audit rows. The invariant of these
  logs, and what follows from it.
\<close>

section \<open>Runs\<close>

text \<open>
  \<open>R\<close> holds every key the platform ever chained under by its id; \<open>known\<close>, the ring an append
  looks an older key up in, is arbitrary.
\<close>

inductive log_run :: "stdlib \<Rightarrow> key_ring \<Rightarrow> session \<Rightarrow> bool" for L R where
  empty_log: "db_rows s = [] \<Longrightarrow> db_head s = None \<Longrightarrow> log_run L R s"
| appending: "log_run L R s \<Longrightarrow> map_of R (ck_key_id key) = Some key \<Longrightarrow> ck_key_id key \<noteq> [] \<Longrightarrow>
    append L known key now act rtype rid det uid s = (r, s') \<Longrightarrow> log_run L R s'"
| ordinary_row: "log_run L R s \<Longrightarrow> chain_seq row = None \<Longrightarrow> chain_key_id row = None \<Longrightarrow>
    log_run L R (s\<lparr>db_rows := db_rows s @ [row]\<rparr>)"
| transaction_end: "log_run L R s \<Longrightarrow> log_run L R (s\<lparr>pending := p, hooked := k\<rparr>)"

definition head_ok :: "stdlib \<Rightarrow> key_ring \<Rightarrow> audit_row list \<Rightarrow> chain_head \<Rightarrow> string \<Rightarrow> chain_key \<Rightarrow> int \<Rightarrow> bool" where
  "head_ok L R rows h kid key b \<longleftrightarrow>
     rows \<noteq> [] \<and> head_key_id h = Some kid \<and> kid \<noteq> [] \<and> map_of R kid = Some key \<and>
     head_verifies L h key \<and> rotated_at_seq h = Some b \<and> 1 \<le> b \<and> b \<le> head_seq h \<and>
     head_at_end h rows \<and> row_chain (last rows) = Some (head_chain h) \<and>
     rows_ok L R (Some kid) (Some b) rows \<and> (\<forall>r\<in>set rows. held_key R r)"

definition log_inv :: "stdlib \<Rightarrow> key_ring \<Rightarrow> audit_row list \<Rightarrow> chain_head option \<Rightarrow> bool" where
  "log_inv L R rows head =
     (case head of None \<Rightarrow> chained rows = []
      | Some h \<Rightarrow> \<exists>kid key b. head_ok L R (chained rows) h kid key b)"

lemma log_inv_simps:
  "log_inv L R rows None \<longleftrightarrow> chained rows = []"
  "log_inv L R rows (Some h) \<longleftrightarrow> (\<exists>kid key b. head_ok L R (chained rows) h kid key b)"
  by (simp_all add: log_inv_def)

lemma chained_append [simp]:
  "chained (rows @ [r]) = (if chain_seq r = None then chained rows else chained rows @ [r])"
  by (simp add: chained_def)

lemma head_ok_last: "head_ok L R (chained rows) h kid key b \<Longrightarrow> last_chained rows = Some (last (chained rows))"
  by (auto simp: head_ok_def last_chained_def rows_ok_sorted split: list.splits)

lemma session_update [simp]:
  "db_rows (anchor_after_commit h s) = db_rows s" "db_head (anchor_after_commit h s) = db_head s"
  "audit_write_failures (anchor_after_commit h s) = audit_write_failures s"
  "db_rows (rolled_back s) = db_rows s" "db_head (rolled_back s) = db_head s"
  "audit_write_failures (rolled_back s) = audit_write_failures s"
  by (simp_all add: anchor_after_commit_def rolled_back_def Let_def split: option.split)

lemma append_cases [consumes 1, case_names failed wrote]:
  assumes "append L known key now act rtype rid det uid s = (r, s')"
  obtains e where "appended L known key now act rtype rid det uid s = Inl e" "r = None"
      "db_rows s' = db_rows s" "db_head s' = db_head s"
      "audit_write_failures s' = audit_write_failures s + 1"
  | row head where "appended L known key now act rtype rid det uid s = Inr (row, head)" "r = Some row"
      "db_rows s' = db_rows s @ [row]" "db_head s' = Some head"
      "audit_write_failures s' = audit_write_failures s"
  using assms by (auto simp: append_def split: sum.splits)

section \<open>What a written row is\<close>

definition written_row ::
  "stdlib \<Rightarrow> chain_key \<Rightarrow> string \<Rightarrow> int \<Rightarrow> audit_row \<Rightarrow> chain_head \<Rightarrow> int \<Rightarrow> bool" where
  "written_row L key previous seq row head b \<longleftrightarrow>
     chain_seq row = Some seq \<and> chain_key_id row = none_if_empty (ck_key_id key) \<and>
     digest_holds L row \<and> row_chain row = Some (head_chain head) \<and>
     audit_link L previous (str_opt (row_digest row)) key = Inr (head_chain head) \<and>
     head_seq head = seq \<and> head_key_id head = none_if_empty (ck_key_id key) \<and>
     rotated_at_seq head = Some b \<and> head_verifies L head key"

lemma audit_digest_ignores [simp]:
  "audit_digest L \<lparr>user_id = u, action = a, resource_type = t, resource_id = i, details = x,
      ip_address = ip, created_at = at, chain_seq = q, row_digest = Some d, row_chain = c,
      chain_key_id = k\<rparr> =
   audit_digest L \<lparr>user_id = u, action = a, resource_type = t, resource_id = i, details = x,
      ip_address = ip, created_at = at, chain_seq = q, row_digest = None, row_chain = None,
      chain_key_id = k\<rparr>"
  by (simp add: audit_digest_def audit_fields_def)

lemma lift_error_Inr [simp]: "lift_error r = Inr v \<longleftrightarrow> r = Inr v"
  by (auto simp: lift_error_def split: sum.splits)

lemma appended_Inr:
  assumes "appended L known key now act rtype rid det uid s = Inr (row, head)"
  defines "lr \<equiv> last_chained (db_rows s)"
  obtains b where
    "boundary_for_append L known (db_rows s) (db_head s) lr key
      ((case lr of Some r \<Rightarrow> row_seq r | None \<Rightarrow> 0) + 1) = Inr b"
    "written_row L key (case lr of Some r \<Rightarrow> str_opt (row_chain r) | None \<Rightarrow> audit_genesis L key)
      ((case lr of Some r \<Rightarrow> row_seq r | None \<Rightarrow> 0) + 1) row head b"
  using assms
  by (auto simp: appended_def Let_def result_iffs written_row_def head_verifies_def digest_holds_def)

text \<open>What the refusals leave of the head an append goes on from.\<close>

lemma boundary_Inr:
  assumes "boundary_for_append L known rows head lr key seq = Inr b"
  obtains "head = None" "lr = None" "b = seq"
  | h r where "head = Some h" "lr = Some r" "head_seq h = row_seq r" "Some (head_chain h) = row_chain r"
      "or_empty (head_key_id h) = ck_key_id key" "head_verifies L h key" "rotated_at_seq h = Some b"
  | h r where "head = Some h" "lr = Some r" "head_seq h = row_seq r" "Some (head_chain h) = row_chain r"
      "or_empty (head_key_id h) \<noteq> ck_key_id key" "row_key_id r = or_empty (head_key_id h)"
      "\<forall>r\<in>set rows. chain_key_id r \<noteq> Some (ck_key_id key)" "b = seq"
      "\<forall>older. map_of known (or_empty (head_key_id h)) = Some older \<longrightarrow> head_verifies L h older"
  using assms
  by (cases head; cases lr)
    (auto simp: boundary_for_append_def Let_def split: if_splits option.splits)

lemma row_key_id_eq: "k \<noteq> [] \<Longrightarrow> row_key_id r = k \<longleftrightarrow> chain_key_id r = Some k"
  by (auto simp: row_key_id_def or_empty_def split: option.splits)

lemma rows_ok_rekeyed:
  assumes "rows_ok L R cur b rows"
    and "\<And>r. r \<in> set rows \<Longrightarrow> key_rule cur' b' (row_seq r) (row_key_id r) = None"
  shows "rows_ok L R cur' b' rows"
  using assms(1) assms(2) [OF nth_mem] by (auto simp: rows_ok_def row_ok_def)

lemma written_row_ok:
  assumes w: "written_row L key previous (1 + int n) row head b"
    and R: "map_of R (ck_key_id key) = Some key" "ck_key_id key \<noteq> []"
    and p: "previous = (case p of Some q \<Rightarrow> q | None \<Rightarrow> audit_genesis L key)"
    and b: "b \<le> 1 + int n"
  shows "row_ok L R (Some (ck_key_id key)) (Some b) p (1 + int n) row" "held_key R row"
  using assms
  by (simp_all add: written_row_def row_ok_def row_seq_def row_key_id_def linked_row_def key_rule_def
      held_key_def)

lemma last_place:
  assumes "rows_ok L keys cur b rows" "rows \<noteq> []"
  shows "row_seq (last rows) = int (length rows)"
  using rows_ok_seq [OF assms(1), of "length rows - 1"] assms(2)
  by (cases "length rows") (simp_all add: last_conv_nth)

lemma head_okD:
  assumes "head_ok L R rows h kid key b"
  shows "rows \<noteq> []" "head_key_id h = Some kid" "kid \<noteq> []" "map_of R kid = Some key"
    "head_verifies L h key" "rotated_at_seq h = Some b" "1 \<le> b \<and> b \<le> head_seq h"
    "head_seq h = int (length rows)" "rows_ok L R (Some kid) (Some b) rows"
    "\<forall>r\<in>set rows. held_key R r" "row_chain (last rows) = Some (head_chain h)"
    "head_at_end h rows"
  using assms unfolding head_ok_def head_at_end_def by blast+

lemma head_ok_append:
  assumes ok: "head_ok L R (chained rows) h kid key b"
    and w: "written_row L key' (head_chain h) (head_seq h + 1) row head b'"
    and R: "map_of R (ck_key_id key') = Some key'" "ck_key_id key' \<noteq> []"
    and same: "kid = ck_key_id key' \<and> b' = b \<or>
      (\<forall>r\<in>set (chained rows). row_key_id r \<noteq> ck_key_id key') \<and> b' = head_seq h + 1"
  shows "head_ok L R (chained rows @ [row]) head (ck_key_id key') key' b'"
proof -
  let ?rows = "chained rows"
  note head = head_okD [OF ok]
  have n: "head_seq h = int (length ?rows)" and ne: "?rows \<noteq> []"
    and prev: "value_before None ?rows (length ?rows) = Some (head_chain h)"
    and bb: "1 \<le> b" "b \<le> head_seq h"
    using head by (simp_all add: value_before_end)
  have le: "b' \<le> 1 + int (length ?rows)" "1 \<le> b'"
    using bb same n by linarith+
  have "rows_ok L R (Some (ck_key_id key')) (Some b') ?rows"
  proof (rule rows_ok_rekeyed)
    show "rows_ok L R (Some kid) (Some b) ?rows" by (rule head(9))
    fix r assume r: "r \<in> set ?rows"
    have "row_seq r \<le> int (length ?rows)"
      using rows_ok_row [OF head(9) r] by blast
    moreover have "key_rule (Some kid) (Some b) (row_seq r) (row_key_id r) = None"
      using head(9) r by (auto simp: rows_ok_def row_ok_def in_set_conv_nth)
    ultimately show "key_rule (Some (ck_key_id key')) (Some b') (row_seq r) (row_key_id r) = None"
      using same r n by (auto simp: key_rule_def split: if_splits)
  qed
  moreover have "row_ok L R (Some (ck_key_id key')) (Some b') (value_before None ?rows (length ?rows))
      (1 + int (length ?rows)) row \<and> held_key R row"
    using written_row_ok [of L key' "head_chain h" "length ?rows" row head b' R "Some (head_chain h)"]
      w R le n
    by (simp add: prev add.commute)
  ultimately show ?thesis
    using head(10) w R le n by (simp add: head_ok_def rows_ok_snoc written_row_def head_at_end_def none_if_empty_def)
qed

lemma log_inv_append:
  assumes inv: "log_inv L R (db_rows s) (db_head s)"
    and R: "map_of R (ck_key_id key) = Some key" "ck_key_id key \<noteq> []"
    and app: "appended L known key now act rtype rid det uid s = Inr (row, head)"
  shows "\<exists>b. head_ok L R (chained (db_rows s) @ [row]) head (ck_key_id key) key b"
proof -
  from app obtain b where
    bd: "boundary_for_append L known (db_rows s) (db_head s) (last_chained (db_rows s)) key
      ((case last_chained (db_rows s) of Some r \<Rightarrow> row_seq r | None \<Rightarrow> 0) + 1) = Inr b"
    and w: "written_row L key
      (case last_chained (db_rows s) of Some r \<Rightarrow> str_opt (row_chain r) | None \<Rightarrow> audit_genesis L key)
      ((case last_chained (db_rows s) of Some r \<Rightarrow> row_seq r | None \<Rightarrow> 0) + 1) row head b"
    by (rule appended_Inr)
  show ?thesis
  proof (cases "db_head s")
    case None
    with inv have none: "chained (db_rows s) = []" by (simp add: log_inv_simps)
    then have lr: "last_chained (db_rows s) = None" by (simp add: last_chained_def)
    with bd None have b: "b = 1" by (simp add: boundary_for_append_def)
    from w lr have w': "written_row L key (audit_genesis L key) (1 + int 0) row head 1" by (simp add: b)
    from written_row_ok [OF w' R, of None] w' none R show ?thesis
      by (intro exI [of _ 1])
        (simp add: head_ok_def rows_ok_def value_before_def written_row_def head_at_end_def none_if_empty_def)
  next
    case (Some h)
    with inv obtain kid key0 b0 where ok: "head_ok L R (chained (db_rows s)) h kid key0 b0"
      by (auto simp: log_inv_simps)
    note head = head_okD [OF ok]
    have lr: "last_chained (db_rows s) = Some (last (chained (db_rows s)))" by (rule head_ok_last [OF ok])
    have place: "row_seq (last (chained (db_rows s))) = head_seq h"
      using last_place [OF head(9) head(1)] head(8) by simp
    from w have w': "written_row L key (head_chain h) (head_seq h + 1) row head b"
      by (simp add: lr place head(11))
    have kid: "or_empty (head_key_id h) = kid" by (simp add: head(2))
    have "kid = ck_key_id key \<and> b = b0 \<or>
      (\<forall>r\<in>set (chained (db_rows s)). row_key_id r \<noteq> ck_key_id key) \<and> b = head_seq h + 1"
      using bd
    proof (cases rule: boundary_Inr)
      case 1
      with Some show ?thesis by simp
    next
      case (2 h' r')
      with Some head(6) kid show ?thesis by simp
    next
      case (3 h' r')
      then have "\<forall>r\<in>set (chained (db_rows s)). row_key_id r \<noteq> ck_key_id key"
        using R(2) by (auto simp: chained_def row_key_id_eq)
      with 3 lr place show ?thesis by simp
    qed
    from head_ok_append [OF ok w' R this] show ?thesis by blast
  qed
qed

lemma appended_chained: "appended L known key now act rtype rid det uid s = Inr (row, head) \<Longrightarrow> chain_seq row \<noteq> None"
  by (erule appended_Inr) (simp add: written_row_def)

lemma log_run_inv: "log_run L R s \<Longrightarrow> log_inv L R (db_rows s) (db_head s)"
proof (induction rule: log_run.induct)
  case (empty_log s)
  then show ?case by (simp add: log_inv_simps chained_def)
next
  case (appending s key known now act rtype rid det uid r s')
  from appending(4) show ?case
  proof (cases rule: append_cases)
    case (failed e)
    with appending.IH show ?thesis by simp
  next
    case (wrote row head)
    from log_inv_append [OF appending.IH appending(2,3) wrote(1)] wrote appended_chained [OF wrote(1)]
    show ?thesis by (auto simp: log_inv_simps)
  qed
next
  case (ordinary_row s row)
  then show ?case by (cases "db_head s") (simp_all add: log_inv_simps)
next
  case (transaction_end s p k)
  then show ?case by simp
qed


lemma chained_no_key: "log_inv L R rows (Some h) \<Longrightarrow> head_key_id h \<noteq> None \<and> or_empty (head_key_id h) \<noteq> []"
  by (auto simp: log_inv_simps head_ok_def)


lemma linked_row_ring: "map_of keys \<subseteq>\<^sub>m map_of R \<Longrightarrow> linked_row L R p row \<Longrightarrow> linked_row L keys p row"
  by (cases "map_of keys (row_key_id row)") (auto simp: linked_row_def map_le_def dom_def)

lemma rows_ok_ring: "map_of keys \<subseteq>\<^sub>m map_of R \<Longrightarrow> rows_ok L R cur b rows \<Longrightarrow> rows_ok L keys cur b rows"
  using linked_row_ring by (fastforce simp: rows_ok_def row_ok_def)

text \<open>Under a head that stands, the walk with any part of the ring that holds its key succeeds.\<close>

lemma head_ok_verifies:
  assumes ok: "head_ok L R rows h kid key b"
    and keys: "map_of keys \<subseteq>\<^sub>m map_of R" "map_of keys kid \<noteq> None"
  shows "verify_audit_chain L rows keys (Some h) (Some kid) =
    Inr (walked keys rows ((new_check (length rows))\<lparr>checked_head_seq := Some (head_seq h), checked_rotated_at := Some b\<rparr>))"
proof -
  note head = head_okD [OF ok]
  have "map_of keys kid = Some key"
    using keys head(4) by (auto simp: map_le_def dom_def)
  moreover have "rows_ok L keys (Some kid) (Some b) rows" by (rule rows_ok_ring [OF keys(1) head(9)])
  moreover have "sort_key row_seq rows = rows" by (rule rows_ok_sorted [OF head(9)])
  ultimately show ?thesis
    using verify_current_intact [of h kid keys key L rows] head by auto
qed

lemma head_ok_places:
  assumes "head_ok L R rows h kid key b"
  shows "map row_seq rows = [1..head_seq h]"
proof -
  note head = head_okD [OF assms]
  show ?thesis
    by (rule nth_equalityI) (simp_all add: head(8) rows_ok_seq [OF head(9)])
qed

text \<open>Which rows are under the head's key: those from the boundary on, and no other.\<close>

lemma head_ok_key:
  assumes "head_ok L R rows h kid key b" "r \<in> set rows"
  shows "row_key_id r = kid \<longleftrightarrow> b \<le> row_seq r"
proof -
  note head = head_okD [OF assms(1)]
  have "key_rule (Some kid) (Some b) (row_seq r) (row_key_id r) = None"
    using head(9) assms(2) by (auto simp: rows_ok_def row_ok_def in_set_conv_nth)
  then show ?thesis by (auto simp: key_rule_def split: if_splits)
qed

lemma filter_upto: "filter (\<lambda>i. b \<le> i) [1..n] = (if b \<le> 1 then [1..n] else [b..n])"
proof (cases "b \<le> 1")
  case True
  then show ?thesis by (simp add: filter_id_conv)
next
  case False
  have "filter (\<lambda>i. b \<le> i) [a..n] = [b..n]" if "a \<le> b" for a :: int
    using that
  proof (induction "nat (b - a)" arbitrary: a)
    case 0
    then have "a = b" by simp
    then show ?case by (simp add: filter_id_conv)
  next
    case (Suc k)
    then have "a < b" by simp
    then show ?case
      using Suc.hyps(1) [of "a + 1"] Suc.hyps(2)
      by (cases "a \<le> n") (simp_all add: upto_rec1)
  qed
  from this [of 1] False show ?thesis by simp
qed

lemma filter_upto_below: "1 \<le> b \<Longrightarrow> b \<le> n \<Longrightarrow> filter (\<lambda>i. \<not> b \<le> i) [1..n] = [1..b - 1]"
proof -
  assume b: "1 \<le> b" "b \<le> n"
  then have "[1..n] = [1..b - 1] @ [b..n]" using upto_split1 [of 1 b n] by simp
  then show ?thesis by (simp add: filter_id_conv filter_empty_conv)
qed

lemma one_key_rows:
  assumes "head_ok L R rows h kid key b"
  shows "map row_seq (filter (held_key [(kid, key)]) rows) = [b..head_seq h]"
    "map row_seq (filter (\<lambda>r. \<not> held_key [(kid, key)] r) rows) = [1..b - 1]"
proof -
  have b: "1 \<le> b" "b \<le> head_seq h" using head_okD(7) [OF assms] by simp_all
  have held: "held_key [(kid, key)] r \<longleftrightarrow> b \<le> row_seq r" if "r \<in> set rows" for r
    using head_ok_key [OF assms that] by (auto simp: held_key_def)
  have "map row_seq (filter (held_key [(kid, key)]) rows) = filter (\<lambda>i. b \<le> i) (map row_seq rows)"
    by (simp add: filter_map o_def held cong: filter_cong)
  then show "map row_seq (filter (held_key [(kid, key)]) rows) = [b..head_seq h]"
    using b by (auto simp: head_ok_places [OF assms] filter_upto)
  have "map row_seq (filter (\<lambda>r. \<not> held_key [(kid, key)] r) rows) = filter (\<lambda>i. \<not> b \<le> i) (map row_seq rows)"
    by (simp add: filter_map o_def held cong: filter_cong)
  then show "map row_seq (filter (\<lambda>r. \<not> held_key [(kid, key)] r) rows) = [1..b - 1]"
    using b by (simp add: head_ok_places [OF assms] filter_upto_below)
qed

section \<open>When an append lands\<close>

text \<open>The details and the moment the digest of a new row can be computed over.\<close>

definition recordable :: "stdlib \<Rightarrow> dict \<Rightarrow> py \<Rightarrow> bool" where
  "recordable L det now \<longleftrightarrow>
     floats_wf (PDict det) \<and> (\<exists>w. json_value (PDict det) = Inr w) \<and>
     (\<exists>at. timestamp (fromisoformat L) now = Inr at)"

lemma recordable_digest:
  assumes "recordable L det now" "details row = PDict det" "created_at row = now"
  obtains d where "audit_digest L row = Inr d" "is_ascii d"
proof -
  from assms obtain cols where cols: "audit_fields L row = Inr cols"
    by (auto simp: recordable_def audit_fields_def)
  with assms audit_fields_normal [OF cols] have "normal (PDict cols)" by (simp add: recordable_def)
  then obtain d where "audit_digest L row = Inr d"
    using cols canonical_text by (fastforce simp: audit_digest_def)
  then show thesis using audit_digest_hex(1) that by blast
qed

lemma appended_lands:
  assumes "recordable L det now"
    and "boundary_for_append L known (db_rows s) (db_head s) (last_chained (db_rows s)) key
      ((case last_chained (db_rows s) of Some r \<Rightarrow> row_seq r | None \<Rightarrow> 0) + 1) = Inr b"
    and "is_ascii (case last_chained (db_rows s) of Some r \<Rightarrow> str_opt (row_chain r) | None \<Rightarrow> audit_genesis L key)"
  shows "\<exists>row head. appended L known key now act rtype rid det uid s = Inr (row, head)"
proof -
  obtain d where "audit_digest L \<lparr>user_id = uid, action = act, resource_type = Some rtype,
      resource_id = rid, details = PDict det, ip_address = None, created_at = now,
      chain_seq = Some ((case last_chained (db_rows s) of Some r \<Rightarrow> row_seq r | None \<Rightarrow> 0) + 1),
      row_digest = None, row_chain = None, chain_key_id = none_if_empty (ck_key_id key)\<rparr> = Inr d"
    and "is_ascii d"
    by (rule recordable_digest [OF assms(1)]) auto
  then show ?thesis
    using assms(2,3) by (auto simp: appended_def Let_def audit_link_Inr lift_error_def)
qed

lemma appended_refused:
  "boundary_for_append L known (db_rows s) (db_head s) (last_chained (db_rows s)) key
      ((case last_chained (db_rows s) of Some r \<Rightarrow> row_seq r | None \<Rightarrow> 0) + 1) = Inl e \<Longrightarrow>
    appended L known key now act rtype rid det uid s = Inl e"
  by (simp add: appended_def Let_def)

text \<open>A key is retired when a row carries it and the head is under another one.\<close>

definition retired :: "chain_key \<Rightarrow> session \<Rightarrow> bool" where
  "retired key s \<longleftrightarrow>
     (\<exists>h. db_head s = Some h \<and> or_empty (head_key_id h) \<noteq> ck_key_id key) \<and>
     (\<exists>r\<in>set (db_rows s). chain_key_id r = Some (ck_key_id key))"

lemma head_ok_boundary:
  assumes ok: "head_ok L R (chained rows) h kid key0 b"
    and R: "map_of R (ck_key_id key) = Some key" "map_of known \<subseteq>\<^sub>m map_of R"
    and not: "kid = ck_key_id key \<or> (\<forall>r\<in>set rows. chain_key_id r \<noteq> Some (ck_key_id key))"
  shows "\<exists>b'. boundary_for_append L known rows (Some h) (last_chained rows) key seq = Inr b'"
proof -
  note head = head_okD [OF ok]
  let ?r = "last (chained rows)"
  have place: "row_seq ?r = head_seq h" using last_place [OF head(9) head(1)] head(8) by simp
  then have kid: "row_key_id ?r = kid"
    using head_ok_key [OF ok, of ?r] head(1,7) by simp
  have older: "map_of known kid = Some older \<Longrightarrow> older = key0" for older
    using R(2) head(4) by (fastforce simp: map_le_def dom_def)
  show ?thesis
    using head not R(1) older
    by (cases "map_of known kid")
      (auto simp: boundary_for_append_def Let_def head_ok_last [OF ok] place kid)
qed

lemma head_ok_chain_ascii:
  assumes "head_ok L R rows h kid key b"
  shows "is_ascii (head_chain h)"
proof -
  note head = head_okD [OF assms]
  have "linked_row L R (value_before None rows (length rows - 1)) (last rows)"
    using head(9,1) by (simp add: rows_ok_def row_ok_def last_conv_nth)
  moreover have "map_of R (row_key_id (last rows)) \<noteq> None"
    using head(10,1) by (simp add: held_key_def)
  ultimately obtain p d k where "audit_link L p d k = Inr (head_chain h)"
    using head(11) by (auto simp: linked_row_def)
  then show ?thesis by (rule audit_link_hex [THEN conjunct1])
qed

lemma append_None_iff:
  "fst (append L known key now act rtype rid det uid s) = None \<longleftrightarrow>
    (\<exists>e. appended L known key now act rtype rid det uid s = Inl e)"
  by (auto simp: append_def split: sum.splits prod.splits)

lemma run_append_refused:
  assumes run: "log_run L R s" and rec: "recordable L det now"
    and R: "map_of R (ck_key_id key) = Some key" "map_of known \<subseteq>\<^sub>m map_of R"
  shows "fst (append L known key now act rtype rid det uid s) = None \<longleftrightarrow> retired key s"
proof (cases "db_head s")
  case None
  then have "chained (db_rows s) = []" using log_run_inv [OF run] by (simp add: log_inv_simps)
  then have "last_chained (db_rows s) = None" by (simp add: last_chained_def)
  then have "\<exists>row head. appended L known key now act rtype rid det uid s = Inr (row, head)"
    using None by (intro appended_lands [OF rec, of _ _ _ 1]) (simp_all add: boundary_for_append_def)
  with None show ?thesis by (auto simp: append_None_iff retired_def)
next
  case (Some h)
  with log_run_inv [OF run] obtain kid key0 b where ok: "head_ok L R (chained (db_rows s)) h kid key0 b"
    by (auto simp: log_inv_simps)
  note head = head_okD [OF ok]
  have lr: "last_chained (db_rows s) = Some (last (chained (db_rows s)))" by (rule head_ok_last [OF ok])
  show ?thesis
  proof (cases "retired key s")
    case True
    then have "\<exists>e. boundary_for_append L known (db_rows s) (db_head s) (last_chained (db_rows s)) key
        ((case last_chained (db_rows s) of Some r \<Rightarrow> row_seq r | None \<Rightarrow> 0) + 1) = Inl e"
      using Some by (auto simp: boundary_for_append_def retired_def Let_def)
    with True show ?thesis using appended_refused by (fastforce simp: append_None_iff)
  next
    case False
    then have "kid = ck_key_id key \<or> (\<forall>r\<in>set (db_rows s). chain_key_id r \<noteq> Some (ck_key_id key))"
      using Some head(2) by (auto simp: retired_def)
    from head_ok_boundary [OF ok R this] obtain b' where
      "boundary_for_append L known (db_rows s) (db_head s) (last_chained (db_rows s)) key
        ((case last_chained (db_rows s) of Some r \<Rightarrow> row_seq r | None \<Rightarrow> 0) + 1) = Inr b'"
      unfolding Some by blast
    moreover have "is_ascii (case last_chained (db_rows s) of Some r \<Rightarrow> str_opt (row_chain r)
        | None \<Rightarrow> audit_genesis L key)"
      using head_ok_chain_ascii [OF ok] head(11) by (simp add: lr)
    ultimately have "\<exists>row head. appended L known key now act rtype rid det uid s = Inr (row, head)"
      by (rule appended_lands [OF rec])
    with False show ?thesis by (auto simp: append_None_iff)
  qed
qed

end
