(* ===== verification/Audit_Tamper.thy ===== *)
theory Audit_Tamper
  imports Audit_Runs
begin

text \<open>
  What a change to the stored rows comes to. Two logs that verify against the same head under
  the current key hold the same columns in every row from the rotation boundary on, or the two
  logs exhibit a collision of the MAC or of the digest at a place the theorem names; and the
  walk names the first row that is missing, cut off or edited.
\<close>

section \<open>The audit link as a hash chain\<close>

definition entry_text :: "stdlib \<Rightarrow> audit_row \<Rightarrow> string" where
  "entry_text L row =
     (case bind_r (audit_fields L row) (\<lambda>cols. canonical (PDict cols)) of
        Inr bytes \<Rightarrow> AUDIT_ENTRY_TAG @ bytes
      | Inl e \<Rightarrow> [])"

definition same_columns :: "stdlib \<Rightarrow> audit_row \<Rightarrow> audit_row \<Rightarrow> bool" where
  "same_columns L r r' \<longleftrightarrow>
     (\<exists>cols cols'. audit_fields L r = Inr cols \<and> audit_fields L r' = Inr cols' \<and>
        sorted_form (PDict cols) = sorted_form (PDict cols'))"

definition stored_row :: "stdlib \<Rightarrow> audit_row \<Rightarrow> bool" where
  "stored_row L r \<longleftrightarrow> digest_holds L r \<and> floats_wf (details r)"

definition link_text :: "string \<Rightarrow> audit_row \<Rightarrow> string" where
  "link_text p r = AUDIT_LINK_TAG @ p @ '':'' @ str_opt (row_digest r)"

definition link_step :: "stdlib \<Rightarrow> chain_key \<Rightarrow> string \<Rightarrow> audit_row \<Rightarrow> string" where
  "link_step L key p r = hexdigest (hmac_sha256 L (ck_key key) (link_text p r))"

definition link_clash :: "stdlib \<Rightarrow> chain_key \<Rightarrow> string \<Rightarrow> audit_row \<Rightarrow> string \<Rightarrow> audit_row \<Rightarrow> bool" where
  "link_clash L key p r p' r' \<longleftrightarrow>
     collision (hmac_sha256 L (ck_key key)) (link_text p r) (link_text p' r') \<or>
     collision (sha256 L) (entry_text L r) (entry_text L r')"

lemma stored_row_digest:
  assumes "stored_row L r"
  obtains cols where "audit_fields L r = Inr cols" "normal (PDict cols)"
    "row_digest r = Some (hexdigest (sha256 L (entry_text L r)))"
    "entry_text L r = AUDIT_ENTRY_TAG @ text_of (sorted_form (PDict cols))"
proof -
  from assms obtain cols where cols: "audit_fields L r = Inr cols"
    by (auto simp: stored_row_def digest_holds_def audit_digest_def result_iffs)
  with assms have "normal (PDict cols)" by (intro audit_fields_normal) (auto simp: stored_row_def)
  with cols canonical_text [OF this] assms show thesis
    by (intro that [of cols]) (auto simp: stored_row_def digest_holds_def audit_digest_def entry_text_def)
qed

lemma link_step_eq:
  assumes "stored_row L r" "stored_row L r'" and eq: "link_step L key p r = link_step L key p' r'"
  shows "(p = p' \<and> same_columns L r r') \<or> link_clash L key p r p' r'"
proof (cases "link_clash L key p r p' r'")
  case False
  obtain cols where c: "audit_fields L r = Inr cols" "normal (PDict cols)"
    "row_digest r = Some (hexdigest (sha256 L (entry_text L r)))"
    "entry_text L r = AUDIT_ENTRY_TAG @ text_of (sorted_form (PDict cols))"
    using assms(1) by (rule stored_row_digest)
  obtain cols' where c': "audit_fields L r' = Inr cols'" "normal (PDict cols')"
    "row_digest r' = Some (hexdigest (sha256 L (entry_text L r')))"
    "entry_text L r' = AUDIT_ENTRY_TAG @ text_of (sorted_form (PDict cols'))"
    using assms(2) by (rule stored_row_digest)
  from eq False have "link_text p r = link_text p' r'"
    by (auto simp: link_step_def link_clash_def collision_def)
  then have "p @ CHR '':'' # hexdigest (sha256 L (entry_text L r)) =
      p' @ CHR '':'' # hexdigest (sha256 L (entry_text L r'))"
    by (simp add: link_text_def c(3) c'(3))
  from split_at_last [OF hexdigest_no_colon hexdigest_no_colon this]
  have p: "p = p'" and d: "sha256 L (entry_text L r) = sha256 L (entry_text L r')"
    by simp_all
  with False have "entry_text L r = entry_text L r'" by (auto simp: link_clash_def collision_def)
  then have "canonical (PDict cols) = canonical (PDict cols')"
    using c(4) c'(4) canonical_text [OF c(2)] canonical_text [OF c'(2)] by simp
  then have "sorted_form (PDict cols) = sorted_form (PDict cols')"
    using canonical_inject [OF c(2) c'(2)] by simp
  with p c(1) c'(1) show ?thesis by (auto simp: same_columns_def)
qed simp

interpretation audit: hash_chain "link_step L key" "stored_row L" "same_columns L" "link_clash L key"
  for L key
  by unfold_locales (rule link_step_eq)

section \<open>The chain values a verified log stores\<close>

definition start_value :: "stdlib \<Rightarrow> chain_key \<Rightarrow> audit_row list \<Rightarrow> nat \<Rightarrow> string" where
  "start_value L key rows i = (case value_before None rows i of Some p \<Rightarrow> p | None \<Rightarrow> audit_genesis L key)"

lemma linked_value:
  assumes "rows_ok L keys (Some kid) (Some b) rows" "map_of keys kid = Some key"
    and "i < length rows" "b \<le> 1 + int i"
  shows "row_chain (rows ! i) = Some (link_step L key (start_value L key rows i) (rows ! i))"
proof -
  have "row_ok L keys (Some kid) (Some b) (value_before None rows i) (1 + int i) (rows ! i)"
    using assms(1,3) by (simp add: rows_ok_def)
  then have kid: "row_key_id (rows ! i) = kid" and linked: "linked_row L keys (value_before None rows i) (rows ! i)"
    using assms(4) by (auto simp: row_ok_def key_rule_def split: if_splits)
  from linked show ?thesis
    by (auto simp: linked_row_def kid assms(2) audit_link_def link_message_def keyed_def link_step_def
        link_text_def start_value_def result_iffs Let_def split: if_splits option.splits)
qed

lemma start_value_Suc:
  assumes "rows_ok L keys (Some kid) (Some b) rows" "map_of keys kid = Some key"
    and "i < length rows" "b \<le> 1 + int i"
  shows "start_value L key rows (Suc i) = link_step L key (start_value L key rows i) (rows ! i)"
  using linked_value [OF assms] by (simp add: start_value_def value_before_def)

lemma walked_value:
  assumes ok: "rows_ok L keys (Some kid) (Some b) rows" and key: "map_of keys kid = Some key"
    and b: "b \<le> 1 + int m" and j: "m + j \<le> length rows"
  shows "audit.value_after L key (start_value L key rows m) (take j (drop m rows)) = start_value L key rows (m + j)"
  using j
proof (induction j)
  case 0
  then show ?case by simp
next
  case (Suc j)
  then have "take (Suc j) (drop m rows) = take j (drop m rows) @ [rows ! (m + j)]"
    by (simp add: take_Suc_conv_app_nth)
  with Suc start_value_Suc [OF ok key, of "m + j"] b show ?case by simp
qed

text \<open>Two logs the walk accepts against one head, from the boundary on.\<close>

lemma same_head_rows:
  assumes ok: "rows_ok L keys (Some kid) (Some b) rows" "rows_ok L keys (Some kid) (Some b) rows'"
    and key: "map_of keys kid = Some key"
    and floats: "\<forall>r\<in>set rows \<union> set rows'. floats_wf (details r)"
    and len: "length rows' = length rows" and b: "1 \<le> b" "b \<le> int (length rows)"
    and last: "str_opt (row_chain (last rows)) = str_opt (row_chain (last rows'))"
  shows "list_all2 (same_columns L) (drop (nat b - 1) rows) (drop (nat b - 1) rows') \<or>
    (\<exists>i. nat b - 1 \<le> i \<and> i < length rows \<and>
      link_clash L key (start_value L key rows i) (rows ! i) (start_value L key rows' i) (rows' ! i))"
proof -
  let ?m = "nat b - 1"
  have bm: "b \<le> 1 + int ?m" "?m \<le> length rows" "rows \<noteq> []" "rows' \<noteq> []"
    using b len by auto
  have stored: "\<forall>r\<in>set (drop ?m rows). stored_row L r" "\<forall>r\<in>set (drop ?m rows'). stored_row L r"
    using floats rows_ok_row [OF ok(1)] rows_ok_row [OF ok(2)]
    by (auto simp: stored_row_def dest!: in_set_dropD)
  have "start_value L key rows (length rows) = start_value L key rows' (length rows')"
    using bm last by (simp add: start_value_def value_before_end)
  then have eq: "audit.value_after L key (start_value L key rows ?m) (drop ?m rows) =
      audit.value_after L key (start_value L key rows' ?m) (drop ?m rows')"
    using walked_value [OF ok(1) key bm(1), of "length rows - ?m"]
      walked_value [OF ok(2) key bm(1), of "length rows' - ?m"] bm len by simp
  have "length (drop ?m rows) = length (drop ?m rows')" by (simp add: len)
  from audit.same_end [OF this stored eq] show ?thesis
  proof (elim disjE exE conjE)
    fix i
    assume i: "i < length (drop ?m rows)"
      and clash: "link_clash L key
        (audit.value_after L key (start_value L key rows ?m) (take i (drop ?m rows))) (drop ?m rows ! i)
        (audit.value_after L key (start_value L key rows' ?m) (take i (drop ?m rows'))) (drop ?m rows' ! i)"
    have "link_clash L key (start_value L key rows (?m + i)) (rows ! (?m + i))
        (start_value L key rows' (?m + i)) (rows' ! (?m + i))"
      using clash i walked_value [OF ok(1) key bm(1), of i] walked_value [OF ok(2) key bm(1), of i] len
      by simp
    then show ?thesis using i by (intro disjI2 exI [of _ "?m + i"]) simp
  qed simp
qed

section \<open>Rows missing, cut off or edited\<close>

lemma audit_walk_append:
  "audit_walk L keys cur b xs p e c = Inr (c', Some (p', e')) \<Longrightarrow>
    audit_walk L keys cur b (xs @ ys) p e c = audit_walk L keys cur b ys p' e' c'"
proof (induction xs arbitrary: p e c)
  case Nil
  then show ?case by simp
next
  case (Cons row xs)
  then obtain v where "audit_step L keys cur b p e row = Inr v" by (auto simp: result_iffs)
  with Cons show ?case by (cases v) auto
qed

lemma rows_ok_prefix: "rows_ok L keys cur b (xs @ ys) \<Longrightarrow> rows_ok L keys cur b xs"
  by (induction ys rule: rev_induct) (simp_all add: rows_ok_snoc flip: append_assoc)

lemma prefix_walk:
  "rows_ok L keys cur b (xs @ zs) \<Longrightarrow>
    audit_walk L keys cur b (xs @ ys) None 1 c =
      audit_walk L keys cur b ys (value_before None xs (length xs)) (1 + int (length xs)) (walked keys xs c)"
  by (rule audit_walk_append) (simp add: audit_walk_rows_ok rows_ok_prefix)

lemma broken_walk:
  assumes "rows_ok L keys cur b (xs @ zs)"
    and "audit_step L keys cur b (value_before None xs (length xs)) (1 + int (length xs)) row = Inr (Breaks n reason)"
  shows "chain_walk L keys cur b h (xs @ row # ys) c = Inr (broken n reason (walked keys xs c))"
  using prefix_walk [OF assms(1), of "row # ys" c] assms(2) by (simp add: chain_walk_def)

lemma cut_walk:
  assumes "rows_ok L keys cur b (xs @ zs)" "\<not> head_unverifiable c" "int (length xs) < head_seq h"
  shows "chain_walk L keys cur b h xs c =
    Inr (broken (1 + int (length xs)) (CutOffTheEnd (1 + int (length xs)) (head_seq h)) (walked keys xs c))"
  using prefix_walk [OF assms(1), of "[]" c] assms(2,3)
  by (simp add: chain_walk_def walk_end_def walked_def Let_def add.commute)

lemma verify_under_head:
  assumes ok: "head_ok L R rows h kid key b" and kid: "map_of keys kid = Some key"
    and sorted: "sort_key row_seq rows' = rows'"
  shows "verify_audit_chain L rows' keys (Some h) (Some kid) =
    chain_walk L keys (Some kid) (Some b) h rows'
      ((new_check (length rows'))\<lparr>checked_head_seq := Some (head_seq h), checked_rotated_at := Some b\<rparr>)"
  using head_okD [OF ok] kid by (simp add: verify_audit_chain_def Let_def sorted)

lemma sorted_places: "sorted (map row_seq rows) \<Longrightarrow> sort_key row_seq rows = rows"
  by (rule sort_key_id_if_sorted)

lemma sorted_sublist:
  assumes "head_ok L R (xs @ r # ys) h kid key b"
  shows "sorted (map row_seq (xs @ r # ys))" "row_seq r = 1 + int (length xs)"
    "\<And>y. y \<in> set ys \<Longrightarrow> row_seq r < row_seq y" "\<And>x. x \<in> set xs \<Longrightarrow> row_seq x < row_seq r"
    "ys \<noteq> [] \<Longrightarrow> row_seq (hd ys) = 2 + int (length xs)"
    "int (length xs) < head_seq h"
proof -
  note head = head_okD [OF assms]
  have places: "map row_seq (xs @ r # ys) = [1..head_seq h]" by (rule head_ok_places [OF assms])
  have "sorted [1..head_seq h]" "sorted_wrt (<) [1..head_seq h]" by simp_all
  then have so: "sorted (map row_seq (xs @ r # ys))" "sorted_wrt (<) (map row_seq (xs @ r # ys))"
    by (simp_all only: places)
  show "sorted (map row_seq (xs @ r # ys))" by (rule so(1))
  show "row_seq r = 1 + int (length xs)"
    using rows_ok_seq [OF head(9), of "length xs"] by simp
  show "row_seq r < row_seq y" if "y \<in> set ys" for y using so(2) that by (simp add: sorted_wrt_append)
  show "row_seq x < row_seq r" if "x \<in> set xs" for x using so(2) that by (simp add: sorted_wrt_append)
  show "row_seq (hd ys) = 2 + int (length xs)" if "ys \<noteq> []"
    using that rows_ok_seq [OF head(9), of "Suc (length xs)"]
    by (cases ys) (simp_all add: nth_append)
  show "int (length xs) < head_seq h" using head(8) by simp
qed

lemma row_at_place:
  assumes "head_ok L R rows h kid key b" "1 \<le> i" "i \<le> head_seq h"
  obtains xs r ys where "rows = xs @ r # ys" "row_seq r = i" "length xs = nat (i - 1)"
proof -
  note head = head_okD [OF assms(1)]
  let ?k = "nat (i - 1)"
  have k: "?k < length rows" using assms(2,3) head(8) by simp
  show thesis
    using id_take_nth_drop [OF k] rows_ok_seq [OF head(9) k] k assms(2)
    by (intro that [of "take ?k rows" "rows ! ?k" "drop (Suc ?k) rows"]) simp_all
qed

lemma missing_row_step:
  "row_seq row \<noteq> e \<Longrightarrow> audit_step L keys cur b p e row = Inr (Breaks e (RowMissing e))"
  by (simp add: audit_step_def)

lemma edited_row_step:
  "row_seq row = e \<Longrightarrow> audit_digest L row = Inr d \<Longrightarrow> row_digest row \<noteq> Some d \<Longrightarrow>
    audit_step L keys cur b p e row = Inr (Breaks e (RowDiffers e))"
  by (auto simp: audit_step_def)

lemma removed_row:
  assumes ok: "head_ok L R rows h kid key b"
    and keys: "map_of keys \<subseteq>\<^sub>m map_of R" "map_of keys kid = Some key"
    and i: "1 \<le> i" "i < head_seq h"
  shows "\<exists>c. verify_audit_chain L (filter (\<lambda>r. row_seq r \<noteq> i) rows) keys (Some h) (Some kid) = Inr c \<and>
    broken_at c = Some i \<and> broken_reason c = Some (RowMissing i)"
proof -
  from row_at_place [OF ok i(1)] i(2) obtain xs r ys
    where rows: "rows = xs @ r # ys" and r: "row_seq r = i" "length xs = nat (i - 1)" by auto
  note sub = sorted_sublist [OF ok [unfolded rows]]
  have "ys \<noteq> []"
    using i r head_okD(8) [OF ok] by (auto simp: rows)
  then obtain y zs where ys: "ys = y # zs" by (cases ys) auto
  have fl: "filter (\<lambda>r. row_seq r \<noteq> i) rows = xs @ y # zs"
  proof -
    have "filter (\<lambda>r. row_seq r \<noteq> i) xs = xs" "filter (\<lambda>r. row_seq r \<noteq> i) ys = ys"
      using sub(3,4) r(1) by (simp_all add: filter_id_conv) (metis less_irrefl)+
    then show ?thesis using r(1) by (simp add: rows ys)
  qed
  have so: "sort_key row_seq (xs @ y # zs) = xs @ y # zs"
    using sub(1) by (intro sorted_places) (auto simp: ys sorted_append)
  have "rows_ok L keys (Some kid) (Some b) (xs @ r # ys)"
    using rows_ok_ring [OF keys(1) head_okD(9) [OF ok]] by (simp add: rows)
  moreover have "row_seq y \<noteq> 1 + int (length xs)" using sub(5) ys by simp
  ultimately have "chain_walk L keys (Some kid) (Some b) h (xs @ y # zs) c =
      Inr (broken (1 + int (length xs)) (RowMissing (1 + int (length xs))) (walked keys xs c))" for c
    by (intro broken_walk [OF _ missing_row_step])
  then show ?thesis
    using r i by (simp add: verify_under_head [OF ok keys(2) so] fl broken_def)
qed

lemma cut_rows:
  assumes ok: "head_ok L R rows h kid key b"
    and keys: "map_of keys \<subseteq>\<^sub>m map_of R" "map_of keys kid = Some key"
    and n: "n < length rows"
  shows "\<exists>c. verify_audit_chain L (take n rows) keys (Some h) (Some kid) = Inr c \<and>
    broken_at c = Some (int n + 1) \<and> broken_reason c = Some (CutOffTheEnd (int n + 1) (head_seq h))"
proof -
  have "sorted (map row_seq rows)" by (simp add: head_ok_places [OF ok])
  then have so: "sort_key row_seq (take n rows) = take n rows"
    by (intro sorted_places) (simp add: sorted_wrt_take flip: take_map)
  have "rows_ok L keys (Some kid) (Some b) (take n rows @ drop n rows)"
    using rows_ok_ring [OF keys(1) head_okD(9) [OF ok]] by simp
  from cut_walk [OF this, of _ h] n head_okD(8) [OF ok] show ?thesis
    by (simp add: verify_under_head [OF ok keys(2) so] broken_def new_check_def add.commute)
qed

lemma edited_row:
  assumes ok: "head_ok L R rows h kid key b"
    and keys: "map_of keys \<subseteq>\<^sub>m map_of R" "map_of keys kid = Some key"
    and i: "i < length rows" and row: "row_seq row = int i + 1" "audit_digest L row = Inr d" "row_digest row \<noteq> Some d"
  shows "\<exists>c. verify_audit_chain L (rows[i := row]) keys (Some h) (Some kid) = Inr c \<and>
    broken_at c = Some (int i + 1) \<and> broken_reason c = Some (RowDiffers (int i + 1))"
proof -
  have upd: "rows[i := row] = take i rows @ row # drop (Suc i) rows" by (rule upd_conv_take_nth_drop [OF i])
  have "map row_seq (rows[i := row]) = map row_seq rows"
    using i row(1) rows_ok_seq [OF head_okD(9) [OF ok] i] by (simp add: map_update list_update_same_conv)
  then have so: "sort_key row_seq (rows[i := row]) = rows[i := row]"
    by (intro sorted_places) (simp add: head_ok_places [OF ok])
  have rok: "rows_ok L keys (Some kid) (Some b) (take i rows @ drop i rows)"
    using rows_ok_ring [OF keys(1) head_okD(9) [OF ok]] by simp
  have "row_seq row = 1 + int (length (take i rows))" using i row(1) by simp
  from broken_walk [OF rok edited_row_step [OF this row(2,3)]] i show ?thesis
    by (simp add: verify_under_head [OF ok keys(2) so]) (simp add: upd broken_def add.commute)
qed

end
