(* ===== verification/Audit_Properties.thy ===== *)
theory Audit_Properties
  imports Audit_Tamper
begin

text \<open>
  The properties of the audit chain, each with its witness: what verification says of every
  log the appends leave, when an append lands and when it is refused, and what a change to
  the stored rows comes to.
\<close>

section \<open>A concrete deployment the witnesses evaluate\<close>

definition demo_std :: stdlib where
  "demo_std = \<lparr>sha256 = (\<lambda>m. ''a''), hmac_sha256 = (\<lambda>k m. k), ip_interface = Some,
     fromisoformat = (\<lambda>s. None)\<rparr>"

definition demo_key :: chain_key where "demo_key = \<lparr>ck_key = ''k1'', ck_key_id = ''id1''\<rparr>"
definition demo_key2 :: chain_key where "demo_key2 = \<lparr>ck_key = ''k2'', ck_key_id = ''id2''\<rparr>"

definition demo_ring :: key_ring where "demo_ring = [(''id1'', demo_key), (''id2'', demo_key2)]"

definition demo_session :: session where
  "demo_session = \<lparr>db_rows = [], db_head = None, audit_write_failures = 0, anchor_on = True,
     has_engine = True, pending = None, hooked = False\<rparr>"

definition demo_append :: "chain_key \<Rightarrow> session \<Rightarrow> audit_row option \<times> session" where
  "demo_append key s = append demo_std [] key (PMoment 0 None) ''a'' ''b'' None [] None s"

definition demo_row1 :: audit_row where
  "demo_row1 = \<lparr>user_id = None, action = ''a'', resource_type = Some ''b'', resource_id = None,
     details = PDict [], ip_address = None, created_at = PMoment 0 None, chain_seq = Some 1,
     row_digest = Some ''61'', row_chain = Some ''6b31'', chain_key_id = Some ''id1''\<rparr>"

definition demo_row2 :: audit_row where
  "demo_row2 = demo_row1\<lparr>chain_seq := Some 2, row_chain := Some ''6b32'', chain_key_id := Some ''id2''\<rparr>"

definition demo_head1 :: chain_head where
  "demo_head1 = \<lparr>head_seq = 1, head_chain = ''6b31'', head_key_id = Some ''id1'', head_mac_of = ''6b31'',
     rotated_at_seq = Some 1\<rparr>"

definition demo_head2 :: chain_head where
  "demo_head2 = \<lparr>head_seq = 2, head_chain = ''6b32'', head_key_id = Some ''id2'', head_mac_of = ''6b32'',
     rotated_at_seq = Some 2\<rparr>"

definition demo_session1 :: session where
  "demo_session1 = demo_session\<lparr>db_rows := [demo_row1], db_head := Some demo_head1,
     pending := Some (PendingHead demo_head1), hooked := True\<rparr>"

definition demo_session2 :: session where
  "demo_session2 = demo_session\<lparr>db_rows := [demo_row1, demo_row2], db_head := Some demo_head2,
     pending := Some (PendingHead demo_head2), hooked := True\<rparr>"

lemma demo_append1: "demo_append demo_key demo_session = (Some demo_row1, demo_session1)"
  by code_simp

lemma demo_append2: "demo_append demo_key2 demo_session1 = (Some demo_row2, demo_session2)"
  by code_simp

lemma demo_run1: "log_run demo_std demo_ring demo_session1"
proof -
  have "log_run demo_std demo_ring demo_session"
    by (rule empty_log) (simp_all add: demo_session_def)
  from appending [OF this _ _ demo_append1 [unfolded demo_append_def]] show ?thesis
    by (simp add: demo_ring_def demo_key_def)
qed

lemma demo_run2: "log_run demo_std demo_ring demo_session2"
  using appending [OF demo_run1 _ _ demo_append2 [unfolded demo_append_def]]
  by (simp add: demo_ring_def demo_key_def demo_key2_def)

section \<open>Every log the code leaves verifies\<close>

text \<open>
  C1. Whatever sequence of appends wrote the log, under whatever keys, refused or not, and
  between whatever ordinary rows, the full verification under the head's key and any part of
  the ring that holds it finds no break. It walks the rows 1 to the head's \<open>chain_seq\<close> without
  a gap, takes the boundary from the head, and reports a row verified exactly when the ring
  holds the row's key.
\<close>

theorem every_log_verifies:
  assumes "log_run L R s" "db_head s = Some h"
    and "map_of keys \<subseteq>\<^sub>m map_of R" "map_of keys (or_empty (head_key_id h)) \<noteq> None"
  shows "\<exists>b c. verify_audit_chain L (chained (db_rows s)) keys (Some h) (head_key_id h) = Inr c \<and>
    broken_at c = None \<and> rotated_at_seq h = Some b \<and> 1 \<le> b \<and> b \<le> head_seq h \<and>
    checked_rotated_at c = Some b \<and> map row_seq (chained (db_rows s)) = [1..head_seq h] \<and>
    verified c = map row_seq (filter (held_key keys) (chained (db_rows s))) \<and>
    unverifiable c = map row_seq (filter (\<lambda>r. \<not> held_key keys r) (chained (db_rows s)))"
proof -
  from log_run_inv [OF assms(1)] assms(2) obtain kid key b
    where ok: "head_ok L R (chained (db_rows s)) h kid key b" by (auto simp: log_inv_simps)
  note head = head_okD [OF ok]
  from head_ok_verifies [OF ok assms(3)] assms(4) head show ?thesis
    by (simp add: head_ok_places [OF ok] walked_def new_check_def)
qed

theorem every_log_verifies_witness:
  "\<exists>b c. verify_audit_chain demo_std (chained (db_rows demo_session2)) demo_ring (Some demo_head2)
      (Some ''id2'') = Inr c \<and> broken_at c = None \<and> rotated_at_seq demo_head2 = Some b \<and>
    verified c = [1, 2]"
proof -
  have d: "db_head demo_session2 = Some demo_head2"
    "map_of demo_ring (or_empty (head_key_id demo_head2)) \<noteq> None"
    "head_key_id demo_head2 = Some ''id2''"
    "map row_seq (filter (held_key demo_ring) (chained (db_rows demo_session2))) = [1, 2]"
    by (simp_all add: demo_session2_def demo_head2_def demo_ring_def demo_key_def demo_key2_def
        chained_def demo_row1_def demo_row2_def held_key_def row_key_id_def row_seq_def)
  show ?thesis
    using every_log_verifies [OF demo_run2 d(1) map_le_refl d(2)] unfolding d(3,4) by blast
qed

text \<open>
  Under the one key the platform can derive, the rows split at the rotation boundary of
  the head: every row from the boundary to the head is verified, every row before it is
  unverifiable, and none is broken.
\<close>

theorem one_key_verification:
  assumes "log_run L R s" "db_head s = Some h" "map_of R (or_empty (head_key_id h)) = Some key"
  shows "\<exists>b c. verify_audit_chain L (chained (db_rows s)) [(or_empty (head_key_id h), key)] (Some h) None
      = Inr c \<and> broken_at c = None \<and> rotated_at_seq h = Some b \<and>
    verified c = [b..head_seq h] \<and> unverifiable c = [1..b - 1]"
proof -
  from log_run_inv [OF assms(1)] assms(2) obtain kid key' b
    where ok: "head_ok L R (chained (db_rows s)) h kid key' b" by (auto simp: log_inv_simps)
  note head = head_okD [OF ok]
  have key: "key' = key" using assms(3) head(2,4) by simp
  have "map_of [(kid, key)] \<subseteq>\<^sub>m map_of R" using head(4) key by (simp add: map_le_def)
  from head_ok_verifies [OF ok this] have
    "verify_audit_chain L (chained (db_rows s)) [(kid, key)] (Some h) (Some kid) =
      Inr (walked [(kid, key)] (chained (db_rows s))
        ((new_check (length (chained (db_rows s))))\<lparr>checked_head_seq := Some (head_seq h), checked_rotated_at := Some b\<rparr>))"
    by simp
  moreover have "verify_audit_chain L (chained (db_rows s)) [(kid, key)] (Some h) None =
      verify_audit_chain L (chained (db_rows s)) [(kid, key)] (Some h) (Some kid)"
    by (simp add: verify_audit_chain_def)
  ultimately show ?thesis
    using head(2,6) one_key_rows [OF ok] key by (simp add: walked_def new_check_def)
qed

theorem one_key_verification_witness:
  "\<exists>c. verify_audit_chain demo_std (chained (db_rows demo_session2)) [(''id2'', demo_key2)]
      (Some demo_head2) None = Inr c \<and> broken_at c = None \<and> verified c = [2] \<and> unverifiable c = [1]"
proof -
  have d: "db_head demo_session2 = Some demo_head2"
    "map_of demo_ring (or_empty (head_key_id demo_head2)) = Some demo_key2"
    "or_empty (head_key_id demo_head2) = ''id2''" "rotated_at_seq demo_head2 = Some 2"
    "head_seq demo_head2 = 2"
    by (simp_all add: demo_session2_def demo_head2_def demo_ring_def)
  from one_key_verification [OF demo_run2 d(1,2)] show ?thesis
    unfolding d(3,4,5) by auto
qed

section \<open>Appending\<close>

text \<open>
  C3. An append writes or does nothing: when it answers no row, the log and the head are
  exactly what they were, the failure is counted and a head waiting for the anchor is dropped
  with the savepoint; when it answers a row, that row is the one added at the end and the head
  points at it, with the next place in the chain, under the current key, verifying.
\<close>

theorem append_all_or_nothing:
  "case append L known key now act rtype rid det uid s of
     (None, s') \<Rightarrow>
       db_rows s' = db_rows s \<and> db_head s' = db_head s \<and>
       audit_write_failures s' = audit_write_failures s + 1 \<and> pending s' = (if hooked s then None else pending s)
   | (Some row, s') \<Rightarrow>
       db_rows s' = db_rows s @ [row] \<and> audit_write_failures s' = audit_write_failures s \<and>
       chain_seq row = Some ((case last_chained (db_rows s) of Some r \<Rightarrow> row_seq r | None \<Rightarrow> 0) + 1) \<and>
       digest_holds L row \<and>
       (\<exists>h. db_head s' = Some h \<and> Some (head_seq h) = chain_seq row \<and> Some (head_chain h) = row_chain row \<and>
         head_key_id h = chain_key_id row \<and> row_key_id row = ck_key_id key \<and> head_verifies L h key)"
proof (cases "appended L known key now act rtype rid det uid s")
  case (Inl e)
  then show ?thesis by (simp add: append_def rolled_back_def)
next
  case (Inr rh)
  obtain row head where rh: "rh = (row, head)" by (cases rh)
  from appended_Inr [OF Inr [unfolded rh]] obtain b where
    "written_row L key (case last_chained (db_rows s) of Some r \<Rightarrow> str_opt (row_chain r) | None \<Rightarrow> audit_genesis L key)
      ((case last_chained (db_rows s) of Some r \<Rightarrow> row_seq r | None \<Rightarrow> 0) + 1) row head b" .
  then show ?thesis
    using Inr rh by (simp add: append_def written_row_def row_key_id_def)
qed

text \<open>
  C4. An append goes on only from a head it can trust. When a row is written, either the log
  held no chained row and no head, or the head pointed at the last chained row, by place and by
  chain value, and: under the current key its MAC verified; under another key, no row of the
  log carried the current key yet, the last row carried the head's key, and the MAC verified
  under that key whenever the ring holds it.
\<close>

theorem append_trusts_head:
  assumes "append L known key now act rtype rid det uid s = (Some row, s')"
  shows "(db_head s = None \<and> last_chained (db_rows s) = None) \<or>
    (\<exists>h r. db_head s = Some h \<and> last_chained (db_rows s) = Some r \<and>
      head_seq h = row_seq r \<and> Some (head_chain h) = row_chain r \<and>
      (if or_empty (head_key_id h) = ck_key_id key then head_verifies L h key
       else (\<forall>r'\<in>set (db_rows s). chain_key_id r' \<noteq> Some (ck_key_id key)) \<and>
         row_key_id r = or_empty (head_key_id h) \<and>
         (\<forall>older. map_of known (or_empty (head_key_id h)) = Some older \<longrightarrow> head_verifies L h older)))"
  using assms
proof (cases rule: append_cases)
  case (failed e)
  then show ?thesis by simp
next
  case (wrote row' head)
  from appended_Inr [OF wrote(1)] obtain b where
    "boundary_for_append L known (db_rows s) (db_head s) (last_chained (db_rows s)) key
      ((case last_chained (db_rows s) of Some r \<Rightarrow> row_seq r | None \<Rightarrow> 0) + 1) = Inr b" .
  then show ?thesis by (cases rule: boundary_Inr) auto
qed

theorem append_trusts_head_witness:
  "db_head demo_session1 \<noteq> None \<and>
   (\<exists>h r. db_head demo_session1 = Some h \<and> last_chained (db_rows demo_session1) = Some r \<and>
     head_seq h = row_seq r \<and> Some (head_chain h) = row_chain r)"
  using append_trusts_head [OF demo_append2 [unfolded demo_append_def]]
  by (auto simp: demo_session1_def)

text \<open>
  C5. Over any log the appends left, an append of recordable details lands unless its key was
  retired, which is when some row carries the key and the head is under another one: a refusal
  never strikes an untouched log, and a rotated-out key never chains again.
\<close>

theorem append_lands_unless_retired:
  assumes "log_run L R s" "recordable L det now"
    and "map_of R (ck_key_id key) = Some key" "map_of known \<subseteq>\<^sub>m map_of R"
  shows "fst (append L known key now act rtype rid det uid s) = None \<longleftrightarrow> retired key s"
  using assms by (rule run_append_refused)

theorem append_lands_unless_retired_witness:
  "fst (append demo_std demo_ring demo_key2 (PMoment 0 None) ''a'' ''b'' None [] None demo_session2) \<noteq> None \<and>
   fst (append demo_std demo_ring demo_key (PMoment 0 None) ''a'' ''b'' None [] None demo_session2) = None"
proof -
  have rec: "recordable demo_std [] (PMoment 0 None)"
  proof -
    have "timestamp (fromisoformat demo_std) (PMoment 0 None) = Inr (PStr ''1970-01-01T00:00:00.000000Z'')"
      by code_simp
    then show ?thesis by (simp add: recordable_def)
  qed
  have "map_of demo_ring (ck_key_id demo_key2) = Some demo_key2"
    "map_of demo_ring (ck_key_id demo_key) = Some demo_key"
    by (simp_all add: demo_ring_def demo_key_def demo_key2_def)
  note lands = append_lands_unless_retired [OF demo_run2 rec this(1) map_le_refl]
    append_lands_unless_retired [OF demo_run2 rec this(2) map_le_refl]
  show ?thesis
    by (simp add: lands) (auto simp: retired_def demo_session2_def demo_head2_def demo_key_def demo_key2_def
      demo_row1_def demo_row2_def)
qed

section \<open>Tampering\<close>

text \<open>
  C2. The head's chain value fixes the log from the rotation boundary on. Two sets of rows
  that both verify against one head under the current key have the same number of rows and the
  same canonical columns in every row from the boundary on, or they exhibit a collision: two
  different link messages with one MAC under the key, or two different row texts with one
  SHA-256 digest, in the rows of one place.
\<close>

theorem same_head_same_rows:
  assumes "verify_audit_chain L rows keys (Some h) (Some kid) = Inr c" "broken_at c = None"
    and "verify_audit_chain L rows' keys (Some h) (Some kid) = Inr c'" "broken_at c' = None"
    and "head_key_id h = Some kid" "map_of keys kid = Some key"
    and "\<forall>r\<in>set rows \<union> set rows'. floats_wf (details r)"
    and "rotated_at_seq h = Some b" "rows \<noteq> []"
  defines "log \<equiv> sort_key row_seq rows" and "log' \<equiv> sort_key row_seq rows'"
  shows "length rows' = length rows \<and>
    (list_all2 (same_columns L) (drop (nat b - 1) log) (drop (nat b - 1) log') \<or>
     (\<exists>i. nat b - 1 \<le> i \<and> i < length log \<and>
       link_clash L key (start_value L key log i) (log ! i) (start_value L key log' i) (log' ! i)))"
proof -
  have kid: "or_empty (head_key_id h) = kid" using assms(5) by simp
  from verify_current_intact [OF kid assms(6), of L rows c] assms(1,2,8)
  have ok: "rows_ok L keys (Some kid) (Some b) log" "head_at_end h log" "1 \<le> b" "b \<le> max (head_seq h) 1"
    by (auto simp: log_def)
  from verify_current_intact [OF kid assms(6), of L rows' c'] assms(3,4,8)
  have ok': "rows_ok L keys (Some kid) (Some b) log'" "head_at_end h log'"
    by (auto simp: log'_def)
  have len: "length log' = length log" using ok(2) ok'(2) by (simp add: head_at_end_def)
  have "rows \<noteq> [] \<longleftrightarrow> log \<noteq> []" by (simp add: log_def flip: set_empty2)
  then have ne: "log \<noteq> []" "log' \<noteq> []" using assms(9) len by auto
  then have "1 \<le> int (length log)" by (cases log) auto
  then have b: "b \<le> int (length log)" using ok(2,4) by (simp add: head_at_end_def)
  have last: "str_opt (row_chain (last log)) = str_opt (row_chain (last log'))"
    using ok(2) ok'(2) ne by (simp add: head_at_end_def)
  have floats: "\<forall>r\<in>set log \<union> set log'. floats_wf (details r)" using assms(7) by (simp add: log_def log'_def)
  from same_head_rows [OF ok(1) ok'(1) assms(6) floats len ok(3) b last] len show ?thesis
    by (simp add: log_def log'_def)
qed

theorem same_head_same_rows_witness:
  "\<exists>rows rows'. length rows' = length rows \<and> rows \<noteq> [] \<and> rows \<noteq> rows' \<and>
    (list_all2 (same_columns demo_std) rows rows' \<or>
     (\<exists>i<length rows. link_clash demo_std demo_key (start_value demo_std demo_key rows i) (rows ! i)
       (start_value demo_std demo_key rows' i) (rows' ! i)))"
proof -
  let ?c = "(new_check 1)\<lparr>checked_head_seq := Some 1, checked_rotated_at := Some 1, verified := [1]\<rparr>"
  let ?row = "demo_row1\<lparr>action := ''z''\<rparr>"
  have v: "verify_audit_chain demo_std [demo_row1] demo_ring (Some demo_head1) (Some ''id1'') = Inr ?c"
    "verify_audit_chain demo_std [?row] demo_ring (Some demo_head1) (Some ''id1'') = Inr ?c"
    by code_simp+
  have d: "broken_at ?c = None" "head_key_id demo_head1 = Some ''id1''" "map_of demo_ring ''id1'' = Some demo_key"
    "\<forall>r\<in>set [demo_row1] \<union> set [?row]. floats_wf (details r)"
    "rotated_at_seq demo_head1 = Some 1" "[demo_row1] \<noteq> []" "demo_row1 \<noteq> ?row"
    by (simp_all add: demo_head1_def demo_ring_def demo_row1_def new_check_def)
  from same_head_same_rows [OF v(1) d(1) v(2) d(1-6)] show ?thesis
    using d(7) by (intro exI [of _ "[demo_row1]"] exI [of _ "[?row]"]) simp
qed

text \<open>
  C6. A row taken out of the middle of a log the appends left is named by the verification:
  the walk breaks at exactly the place of the missing row.
\<close>

theorem removed_row_is_named:
  assumes "log_run L R s" "db_head s = Some h"
    and "map_of keys \<subseteq>\<^sub>m map_of R" "map_of keys (or_empty (head_key_id h)) \<noteq> None"
    and "1 \<le> i" "i < head_seq h"
  shows "\<exists>c. verify_audit_chain L (filter (\<lambda>r. row_seq r \<noteq> i) (chained (db_rows s))) keys (Some h)
      (head_key_id h) = Inr c \<and> broken_at c = Some i \<and> broken_reason c = Some (RowMissing i)"
proof -
  from log_run_inv [OF assms(1)] assms(2) obtain kid key b
    where ok: "head_ok L R (chained (db_rows s)) h kid key b" by (auto simp: log_inv_simps)
  have "map_of keys kid = Some key"
    using assms(3,4) head_okD(2,4) [OF ok] by (auto simp: map_le_def dom_def)
  from removed_row [OF ok assms(3) this assms(5,6)] head_okD(2) [OF ok] show ?thesis by simp
qed

theorem removed_row_is_named_witness:
  "\<exists>c. verify_audit_chain demo_std (filter (\<lambda>r. row_seq r \<noteq> 1) (chained (db_rows demo_session2))) demo_ring
      (Some demo_head2) (Some ''id2'') = Inr c \<and> broken_at c = Some 1 \<and> broken_reason c = Some (RowMissing 1)"
proof -
  have d: "db_head demo_session2 = Some demo_head2"
    "map_of demo_ring (or_empty (head_key_id demo_head2)) \<noteq> None" "1 < head_seq demo_head2"
    "head_key_id demo_head2 = Some ''id2''"
    by (simp_all add: demo_session2_def demo_head2_def demo_ring_def)
  from removed_row_is_named [OF demo_run2 d(1) map_le_refl d(2) order_refl d(3)] show ?thesis
    unfolding d(4) .
qed

text \<open>
  C7. Rows cut off the end of a log are found: the verification of any proper beginning of
  the log against the head breaks at the first row that is gone, up to the head's place.
\<close>

theorem cut_off_rows_are_found:
  assumes "log_run L R s" "db_head s = Some h"
    and "map_of keys \<subseteq>\<^sub>m map_of R" "map_of keys (or_empty (head_key_id h)) \<noteq> None"
    and "n < length (chained (db_rows s))"
  shows "\<exists>c. verify_audit_chain L (take n (chained (db_rows s))) keys (Some h) (head_key_id h) = Inr c \<and>
    broken_at c = Some (int n + 1) \<and> broken_reason c = Some (CutOffTheEnd (int n + 1) (head_seq h))"
proof -
  from log_run_inv [OF assms(1)] assms(2) obtain kid key b
    where ok: "head_ok L R (chained (db_rows s)) h kid key b" by (auto simp: log_inv_simps)
  have "map_of keys kid = Some key"
    using assms(3,4) head_okD(2,4) [OF ok] by (auto simp: map_le_def dom_def)
  from cut_rows [OF ok assms(3) this assms(5)] head_okD(2) [OF ok] show ?thesis by simp
qed

theorem cut_off_rows_are_found_witness:
  "\<exists>c. verify_audit_chain demo_std (take 1 (chained (db_rows demo_session2))) demo_ring
      (Some demo_head2) (Some ''id2'') = Inr c \<and> broken_at c = Some 2"
proof -
  have d: "db_head demo_session2 = Some demo_head2"
    "map_of demo_ring (or_empty (head_key_id demo_head2)) \<noteq> None"
    "1 < length (chained (db_rows demo_session2))" "head_key_id demo_head2 = Some ''id2''"
    by (simp_all add: demo_session2_def demo_head2_def demo_ring_def chained_def demo_row1_def demo_row2_def)
  from cut_off_rows_are_found [OF demo_run2 d(1) map_le_refl d(2) d(3)] show ?thesis
    unfolding d(4) by auto
qed

text \<open>
  A row edited in place, so that its columns no longer recompute to the digest it
  stores, breaks the verification at its place, whatever its chain value says.
\<close>

theorem edited_row_is_named:
  assumes "log_run L R s" "db_head s = Some h"
    and "map_of keys \<subseteq>\<^sub>m map_of R" "map_of keys (or_empty (head_key_id h)) \<noteq> None"
    and "i < length (chained (db_rows s))"
    and "row_seq row = int i + 1" "audit_digest L row = Inr d" "row_digest row \<noteq> Some d"
  shows "\<exists>c. verify_audit_chain L ((chained (db_rows s))[i := row]) keys (Some h) (head_key_id h) = Inr c \<and>
    broken_at c = Some (int i + 1) \<and> broken_reason c = Some (RowDiffers (int i + 1))"
proof -
  from log_run_inv [OF assms(1)] assms(2) obtain kid key b
    where ok: "head_ok L R (chained (db_rows s)) h kid key b" by (auto simp: log_inv_simps)
  have "map_of keys kid = Some key"
    using assms(3,4) head_okD(2,4) [OF ok] by (auto simp: map_le_def dom_def)
  from edited_row [OF ok assms(3) this assms(5-8)] head_okD(2) [OF ok] show ?thesis by simp
qed

theorem edited_row_is_named_witness:
  "\<exists>c. verify_audit_chain demo_std ((chained (db_rows demo_session2))[0 := demo_row1\<lparr>row_digest := Some ''62''\<rparr>])
      demo_ring (Some demo_head2) (Some ''id2'') = Inr c \<and> broken_at c = Some 1"
proof -
  have d: "db_head demo_session2 = Some demo_head2"
    "map_of demo_ring (or_empty (head_key_id demo_head2)) \<noteq> None"
    "0 < length (chained (db_rows demo_session2))" "head_key_id demo_head2 = Some ''id2''"
    "row_seq (demo_row1\<lparr>row_digest := Some ''62''\<rparr>) = int 0 + 1"
    "row_digest (demo_row1\<lparr>row_digest := Some ''62''\<rparr>) \<noteq> Some ''61''"
    by (simp_all add: demo_session2_def demo_head2_def demo_ring_def chained_def demo_row1_def
        demo_row2_def row_seq_def)
  have dig: "audit_digest demo_std (demo_row1\<lparr>row_digest := Some ''62''\<rparr>) = Inr ''61''" by code_simp
  from edited_row_is_named [OF demo_run2 d(1) map_le_refl d(2) d(3) d(5) dig d(6)] show ?thesis
    unfolding d(4) by auto
qed

end
