(* ===== verification/Audit_Repair_Proofs.thy ===== *)
theory Audit_Repair_Proofs
  imports Audit_Repair Audit_Properties "HOL-Library.Multiset"
begin

text \<open>
  What the repair of a head gives: a head and a repair row that verify, at the boundary the old
  head vouches for or the operator named, and never over a cut nobody acknowledged. And the
  local check of one job's rows against the full walk.
\<close>

section \<open>The repair's walk\<close>

lemma repair_raise_simps [simp]:
  "repair_raise (Inl e) = Inl (RepairFailed e)" "repair_raise (Inr v) = Inr v"
  by (simp_all add: repair_raise_def)

lemma repair_raise_Inr: "repair_raise r = Inr v \<longleftrightarrow> r = Inr v"
  by (cases r) auto

definition own_key_from :: "string \<Rightarrow> int option \<Rightarrow> audit_row \<Rightarrow> bool" where
  "own_key_from kid at r \<longleftrightarrow> (row_key_id r = kid \<longleftrightarrow> (\<exists>a. at = Some a \<and> a \<le> row_seq r))"

lemma repair_step:
  assumes "repair_walk L keys kid bd (row # rows) e (p, at, sk) = Inr st"
  obtains at' where "row_seq row = e" "digest_holds L row" "linked_row L keys p row"
    "repair_key_rule kid bd at e (row_key_id row) = None"
    "at' = (if row_key_id row = kid \<and> at = None then Some e else at)"
    "repair_walk L keys kid bd rows (e + 1) (Some (str_opt (row_chain row)), at',
      sk @ (if held_key keys row then [] else [e])) = Inr st"
  using assms
  by (cases "map_of keys (row_key_id row)")
    (auto simp: Let_def result_iffs repair_raise_Inr digest_holds_def linked_row_def held_key_def
      split: if_splits option.splits)

lemma repair_walk_rows:
  assumes "repair_walk L keys kid bd rows e (p, at, sk) = Inr (p', at', sk')"
  shows "(\<forall>i<length rows. row_seq (rows ! i) = e + int i \<and> digest_holds L (rows ! i) \<and>
      linked_row L keys (value_before p rows i) (rows ! i)) \<and>
    p' = value_before p rows (length rows) \<and>
    sk' = sk @ map row_seq (filter (\<lambda>r. \<not> held_key keys r) rows)"
  using assms
proof (induction rows arbitrary: e p at sk)
  case Nil
  then show ?case by simp
next
  case (Cons row rows)
  from Cons.prems obtain at1 where step: "row_seq row = e" "digest_holds L row" "linked_row L keys p row"
    "repair_walk L keys kid bd rows (e + 1) (Some (str_opt (row_chain row)), at1,
      sk @ (if held_key keys row then [] else [e])) = Inr (p', at', sk')"
    by (rule repair_step)
  note ih = Cons.IH [OF step(4)]
  have "\<forall>i<length (row # rows). row_seq ((row # rows) ! i) = e + int i \<and> digest_holds L ((row # rows) ! i) \<and>
      linked_row L keys (value_before p (row # rows) i) ((row # rows) ! i)"
    using step(1-3) ih by (simp only: length_Cons All_less_Suc2) (simp add: add.assoc)
  with ih step(1) show ?case by simp
qed

lemma repair_walk_keys:
  assumes "repair_walk L keys kid bd rows e (p, at, sk) = Inr (p', at', sk')"
    and "\<forall>a. at = Some a \<longrightarrow> a \<le> e"
  shows "(\<forall>r\<in>set rows. own_key_from kid at' r) \<and> (at \<noteq> None \<longrightarrow> at' = at) \<and>
    (\<forall>a. at = None \<and> at' = Some a \<longrightarrow> e \<le> a \<and> a < e + int (length rows))"
  using assms
proof (induction rows arbitrary: e p at sk)
  case Nil
  then show ?case by auto
next
  case (Cons row rows)
  from Cons.prems(1) obtain at1 where step: "row_seq row = e"
    "repair_key_rule kid bd at e (row_key_id row) = None"
    "at1 = (if row_key_id row = kid \<and> at = None then Some e else at)"
    "repair_walk L keys kid bd rows (e + 1) (Some (str_opt (row_chain row)), at1,
      sk @ (if held_key keys row then [] else [e])) = Inr (p', at', sk')"
    by (rule repair_step)
  have "\<forall>a. at1 = Some a \<longrightarrow> a \<le> e + 1" using Cons.prems(2) step(3) by auto
  note ih = Cons.IH [OF step(4) this]
  have "at \<noteq> None \<Longrightarrow> row_key_id row = kid"
    using step(2) by (auto simp: repair_key_rule_def split: option.splits if_splits)
  with ih step(1,3) Cons.prems(2) show ?case
    by (cases at) (auto simp: own_key_from_def split: if_splits)
qed

lemma repair_walk_vouched:
  assumes "repair_walk L keys kid (Some b) rows e (p, at, sk) = Inr (p', at', sk')"
  shows "\<forall>r\<in>set rows. row_key_id r = kid \<longleftrightarrow> b \<le> row_seq r"
  using assms
proof (induction rows arbitrary: e p at sk)
  case Nil
  then show ?case by simp
next
  case (Cons row rows)
  from Cons.prems obtain at1 where step: "row_seq row = e"
    "repair_key_rule kid (Some b) at e (row_key_id row) = None"
    "repair_walk L keys kid (Some b) rows (e + 1) (Some (str_opt (row_chain row)), at1,
      sk @ (if held_key keys row then [] else [e])) = Inr (p', at', sk')"
    by (rule repair_step)
  from Cons.IH [OF step(3)] step(1,2) show ?case
    by (auto simp: repair_key_rule_def split: if_splits)
qed

lemma own_key_rule: "own_key_from kid (Some a) r \<Longrightarrow> key_rule (Some kid) (Some a) (row_seq r) (row_key_id r) = None"
  by (auto simp: own_key_from_def key_rule_def)

text \<open>The head the walk supports: it stands at the end, with the boundary of the rows' own keys.\<close>

lemma repaired_head_Inr:
  assumes "repaired_head L rows keys (Some kid) bd = Inr (h, sk)"
  obtains key b where "map_of keys kid = Some key" "rows_ok L keys (Some kid) (Some b) (sort_key row_seq rows)"
    "head_at_end h (sort_key row_seq rows)" "sort_key row_seq rows \<noteq> []" "head_key_id h = Some kid"
    "rotated_at_seq h = Some b" "1 \<le> b" "b \<le> head_seq h" "head_verifies L h key"
    "sk = map row_seq (filter (\<lambda>r. \<not> held_key keys r) (sort_key row_seq rows))"
    "\<forall>r\<in>set rows. row_key_id r = kid \<longleftrightarrow> b \<le> row_seq r"
    "bd \<noteq> None \<longrightarrow> (\<forall>r\<in>set rows. row_key_id r = kid \<longleftrightarrow> the bd \<le> row_seq r)"
proof -
  let ?rows = "sort_key row_seq rows"
  from assms obtain key p b where ne: "?rows \<noteq> []" and key: "map_of keys kid = Some key"
    and walk: "repair_walk L keys kid bd ?rows 1 (None, None, []) = Inr (p, Some b, sk)"
    and h: "h = \<lparr>head_seq = row_seq (last ?rows), head_chain = str_opt p, head_key_id = Some kid,
      head_mac_of = head_mac L (row_seq (last ?rows)) (str_opt p) (Some b) key, rotated_at_seq = Some b\<rparr>"
    by (auto simp: repaired_head_def current_key_def result_iffs Let_def split: if_splits option.splits)
  note r = repair_walk_rows [OF walk]
  note k = repair_walk_keys [OF walk]
  have keys: "\<forall>r\<in>set ?rows. own_key_from kid (Some b) r" and b: "1 \<le> b" "b < 1 + int (length ?rows)"
    using k by auto
  have rows: "rows_ok L keys (Some kid) (Some b) ?rows"
    unfolding rows_ok_def row_ok_def
  proof (intro allI impI)
    fix i assume i: "i < length ?rows"
    then have "?rows ! i \<in> set ?rows" by (rule nth_mem)
    with keys have "own_key_from kid (Some b) (?rows ! i)" by blast
    from own_key_rule [OF this] r i
    show "row_seq (?rows ! i) = 1 + int i \<and> digest_holds L (?rows ! i) \<and>
        key_rule (Some kid) (Some b) (1 + int i) (row_key_id (?rows ! i)) = None \<and>
        linked_row L keys (value_before None ?rows i) (?rows ! i)"
      by auto
  qed
  have last: "row_seq (last ?rows) = int (length ?rows)" by (rule last_place [OF rows ne])
  have p: "p = Some (str_opt (row_chain (last ?rows)))"
    using r value_before_end [OF ne, of None] by simp
  show thesis
  proof (rule that [OF key rows _ ne])
    show "head_at_end h ?rows" using ne by (simp add: head_at_end_def h last p)
    show "head_verifies L h key" by (simp add: h head_verifies_def)
    show "sk = map row_seq (filter (\<lambda>r. \<not> held_key keys r) ?rows)" using r by simp
    show "\<forall>r\<in>set rows. row_key_id r = kid \<longleftrightarrow> b \<le> row_seq r"
      using keys by (simp add: own_key_from_def)
    show "bd \<noteq> None \<longrightarrow> (\<forall>r\<in>set rows. row_key_id r = kid \<longleftrightarrow> the bd \<le> row_seq r)"
      using walk repair_walk_vouched [of L keys kid "the bd" ?rows 1 None None "[]" p "Some b" sk] by auto
  qed (use b last h in simp_all)
qed


lemma insort_key_snoc: "f a \<le> f x \<Longrightarrow> insort_key f a (ys @ [x]) = insort_key f a ys @ [x]"
  by (induction ys) auto

lemma sort_key_snoc: "\<forall>y\<in>set xs. f y \<le> f x \<Longrightarrow> sort_key f (xs @ [x]) = sort_key f xs @ [x]"
  by (induction xs) (simp_all add: insort_key_snoc)

lemma supported_head_Inr:
  assumes "supported_head L rows keys kid vouched accept = Inr (h, sk, ack)"
  shows "\<exists>bd. repaired_head L rows keys (Some kid) bd = Inr (h, sk) \<and> bd = vouched \<and>
    (vouched = None \<longrightarrow> accept = Some (int_or_0 (rotated_at_seq h)) \<and> ack = accept) \<and>
    (vouched \<noteq> None \<longrightarrow> accept = None \<or> accept = vouched)"
  using assms
  by (auto simp: supported_head_def result_iffs Let_def split: option.splits if_splits)

text \<open>What a repair plan was made from.\<close>

lemma plan_repair_Inr:
  assumes "plan_repair L rows keys cur old trunc accept now = Inr plan"
  obtains kid key h sk ack where "cur = Some kid" "map_of keys kid = Some key"
    "supported_head L rows keys kid (vouched_boundary L old kid key) accept = Inr (h, sk, ack)"
    "\<forall>b. ck_key_id key \<noteq> [] \<and> rotated_at_seq h = Some b \<longrightarrow>
      written_row L key (head_chain h) (head_seq h + 1) (plan_row plan) (plan_head plan) b"
    "rotated_at_seq (plan_head plan) = rotated_at_seq h"
    "plan_unverifiable plan = sk" "plan_truncated plan = old_head_truncated rows old h"
    "plan_truncated plan \<longrightarrow> trunc = map_option head_seq old \<and> trunc \<noteq> None"
    "chain_seq (plan_row plan) = Some (head_seq h + 1)"
proof -
  from assms obtain kid key where cur: "cur = Some kid" "map_of keys kid = Some key"
    by (auto simp: plan_repair_def current_key_def result_iffs split: option.splits)
  with assms obtain h sk ack where sup:
    "supported_head L rows keys kid (vouched_boundary L old kid key) accept = Inr (h, sk, ack)"
    by (auto simp: plan_repair_def current_key_def result_iffs Let_def)
  note cur' = cur sup
  have "\<not> (trunc \<noteq> None \<and> trunc \<noteq> map_option head_seq old)" "\<not> (old_head_truncated rows old h \<and> trunc = None)"
    using assms cur' by (auto simp: plan_repair_def current_key_def Let_def split: if_splits)
  moreover from calculation assms cur' obtain d c where
    dc: "audit_digest L \<lparr>user_id = None, action = HEAD_REPAIR, resource_type = Some ''audit_chain'',
          resource_id = Some HEAD_NAME,
          details = PDict (repair_details old h (if old_head_truncated rows old h then trunc else None)
            (vouched_boundary L old kid key \<noteq> None) ack sk),
          ip_address = None, created_at = now, chain_seq = Some (head_seq h + 1),
          row_digest = None, row_chain = None, chain_key_id = Some (ck_key_id key)\<rparr> = Inr d"
      "audit_link L (head_chain h) d key = Inr c"
    and plan: "plan = \<lparr>plan_row = \<lparr>user_id = None, action = HEAD_REPAIR, resource_type = Some ''audit_chain'',
          resource_id = Some HEAD_NAME,
          details = PDict (repair_details old h (if old_head_truncated rows old h then trunc else None)
            (vouched_boundary L old kid key \<noteq> None) ack sk),
          ip_address = None, created_at = now, chain_seq = Some (head_seq h + 1),
          row_digest = Some d, row_chain = Some c, chain_key_id = Some (ck_key_id key)\<rparr>,
        plan_head = \<lparr>head_seq = head_seq h + 1, head_chain = c, head_key_id = Some (ck_key_id key),
          head_mac_of = head_mac L (head_seq h + 1) c (rotated_at_seq h) key,
          rotated_at_seq = rotated_at_seq h\<rparr>,
        plan_unverifiable = sk, plan_truncated = old_head_truncated rows old h\<rparr>"
    by (auto simp: plan_repair_def current_key_def Let_def result_iffs repair_raise_Inr)
  ultimately show thesis
    using cur'
    by (intro that [OF cur sup])
      (auto simp: written_row_def digest_holds_def head_verifies_def none_if_empty_def)
qed

section \<open>Properties of a repair\<close>

text \<open>Every key of a ring is held under its own id.\<close>

definition ring_ids :: "key_ring \<Rightarrow> bool" where
  "ring_ids keys \<longleftrightarrow> (\<forall>kid key. map_of keys kid = Some key \<longrightarrow> kid = ck_key_id key \<and> kid \<noteq> [])"

text \<open>
  C9. A repair that is planned verifies: with the repair row added, the full verification
  against the new head finds no break, its boundary is the head's, the rows it cannot check are
  exactly those the plan names, and the boundary is where the rows' own keys put it: a row is
  under the current key exactly from the boundary on.
\<close>

theorem planned_repair_verifies:
  assumes plan: "plan_repair L rows keys (Some kid) old trunc accept now = Inr plan" and ids: "ring_ids keys"
  shows "\<exists>b c. verify_audit_chain L (rows @ [plan_row plan]) keys (Some (plan_head plan)) (Some kid) = Inr c \<and>
    broken_at c = None \<and> rotated_at_seq (plan_head plan) = Some b \<and> checked_rotated_at c = Some b \<and>
    unverifiable c = plan_unverifiable plan \<and> (\<forall>r\<in>set rows. row_key_id r = kid \<longleftrightarrow> b \<le> row_seq r)"
proof -
  from plan obtain key h sk ack where key: "map_of keys kid = Some key"
    and sup: "supported_head L rows keys kid (vouched_boundary L old kid key) accept = Inr (h, sk, ack)"
    and w: "\<forall>b. ck_key_id key \<noteq> [] \<and> rotated_at_seq h = Some b \<longrightarrow>
      written_row L key (head_chain h) (head_seq h + 1) (plan_row plan) (plan_head plan) b"
    and pu: "plan_unverifiable plan = sk" and prot: "rotated_at_seq (plan_head plan) = rotated_at_seq h"
    by (rule plan_repair_Inr) auto
  from ids key have kid: "kid = ck_key_id key" "ck_key_id key \<noteq> []" by (auto simp: ring_ids_def)
  from supported_head_Inr [OF sup] obtain bd where "repaired_head L rows keys (Some kid) bd = Inr (h, sk)" by blast
  moreover define log where "log = sort_key row_seq rows"
  ultimately obtain key' b where rows: "rows_ok L keys (Some kid) (Some b) log"
    "head_at_end h log" "log \<noteq> []"
    and h: "rotated_at_seq h = Some b" "1 \<le> b" "b \<le> head_seq h"
    and sk: "sk = map row_seq (filter (\<lambda>r. \<not> held_key keys r) log)"
    and own: "\<forall>r\<in>set rows. row_key_id r = kid \<longleftrightarrow> b \<le> row_seq r"
    by (elim repaired_head_Inr) blast
  let ?row = "plan_row plan"
  have seq: "head_seq h = int (length log)" and chain: "value_before None log (length log) = Some (head_chain h)"
    using rows(2,3) value_before_end [OF rows(3), of None] by (simp_all add: head_at_end_def)
  have wr: "written_row L key (head_chain h) (head_seq h + 1) ?row (plan_head plan) b"
    using w kid h(1) by blast
  have "\<forall>r\<in>set rows. row_seq r \<le> row_seq ?row"
    using rows_ok_row [OF rows(1)] wr seq by (fastforce simp: written_row_def row_seq_def log_def)
  then have sorted: "sort_key row_seq (rows @ [?row]) = log @ [?row]"
    unfolding log_def by (rule sort_key_snoc)
  have "row_ok L keys (Some kid) (Some b) (value_before None log (length log)) (1 + int (length log)) ?row \<and>
      held_key keys ?row"
    using written_row_ok [of L key "head_chain h" "length log" ?row "plan_head plan" b keys "Some (head_chain h)"]
      wr key kid h seq by (simp add: chain add.commute)
  then have ok: "rows_ok L keys (Some kid) (Some b) (log @ [?row])" and held: "held_key keys ?row"
    using rows(1) by (simp_all add: rows_ok_snoc)
  have "head_at_end (plan_head plan) (log @ [?row])" "or_empty (head_key_id (plan_head plan)) = kid"
    "head_verifies L (plan_head plan) key" "head_seq (plan_head plan) = head_seq h + 1"
    using wr seq kid by (simp_all add: head_at_end_def written_row_def)
  then have "verify_audit_chain L (rows @ [?row]) keys (Some (plan_head plan)) (Some kid) =
      Inr (walked keys (log @ [?row]) ((new_check (length (rows @ [?row])))
        \<lparr>checked_head_seq := Some (head_seq (plan_head plan)), checked_rotated_at := Some b\<rparr>))"
    using verify_current_intact [of "plan_head plan" kid keys key L "rows @ [?row]"] key ok h prot
    by (auto simp: sorted)
  then show ?thesis
    using own h(1) prot pu sk held by (simp add: walked_def new_check_def)
qed

text \<open>
  C10. The repair never decides for the operator. A cut the old head shows is signed over only
  with the acknowledgement of exactly the old head's place; the boundary of the new head is the
  one an old head whose MAC verifies vouches for, and otherwise exactly the place the operator
  named.
\<close>

theorem repair_is_acknowledged:
  assumes plan: "plan_repair L rows keys (Some kid) old trunc accept now = Inr plan"
    and key: "map_of keys kid = Some key"
  shows "(plan_truncated plan \<longrightarrow> trunc \<noteq> None \<and> trunc = map_option head_seq old) \<and>
    (case vouched_boundary L old kid key of
       None \<Rightarrow> accept = rotated_at_seq (plan_head plan) \<and> accept \<noteq> None
     | Some v \<Rightarrow> (accept = None \<or> accept = Some v) \<and> (1 \<le> v \<longrightarrow> rotated_at_seq (plan_head plan) = Some v))"
proof -
  from plan obtain key' h sk ack where key': "map_of keys kid = Some key'"
    and sup: "supported_head L rows keys kid (vouched_boundary L old kid key') accept = Inr (h, sk, ack)"
    and prot: "rotated_at_seq (plan_head plan) = rotated_at_seq h"
    and cut_ok: "plan_truncated plan \<longrightarrow> trunc = map_option head_seq old \<and> trunc \<noteq> None"
    by (rule plan_repair_Inr) auto
  have kk: "key' = key" using key key' by simp
  from supported_head_Inr [OF sup] kk
  have rep: "repaired_head L rows keys (Some kid) (vouched_boundary L old kid key) = Inr (h, sk)"
    and acc: "vouched_boundary L old kid key = None \<longrightarrow> accept = Some (int_or_0 (rotated_at_seq h))"
      "vouched_boundary L old kid key \<noteq> None \<longrightarrow> accept = None \<or> accept = vouched_boundary L old kid key"
    by auto
  from rep obtain key2 b where rows: "rows_ok L keys (Some kid) (Some b) (sort_key row_seq rows)"
    "head_at_end h (sort_key row_seq rows)"
    and h: "rotated_at_seq h = Some b" "1 \<le> b" "b \<le> head_seq h"
    and own: "\<forall>r\<in>set rows. row_key_id r = kid \<longleftrightarrow> b \<le> row_seq r"
      "vouched_boundary L old kid key \<noteq> None \<longrightarrow>
        (\<forall>r\<in>set rows. row_key_id r = kid \<longleftrightarrow> the (vouched_boundary L old kid key) \<le> row_seq r)"
    by (rule repaired_head_Inr) blast
  have "v = b" if v: "vouched_boundary L old kid key = Some v" "1 \<le> v" for v
  proof -
    have same: "b \<le> row_seq r \<longleftrightarrow> v \<le> row_seq r" if "r \<in> set rows" for r
      using own v that by simp
    have at: "\<exists>r\<in>set rows. row_seq r = i" if "1 \<le> i" "i \<le> head_seq h" for i
    proof -
      have "nat (i - 1) < length (sort_key row_seq rows)" using that rows(2) by (simp add: head_at_end_def)
      from rows_ok_seq [OF rows(1) this] nth_mem [OF this] that show ?thesis by auto
    qed
    from at [of b] h same have "v \<le> b" by auto
    with at [of v] v h same show "v = b" by fastforce
  qed
  then show ?thesis
    using cut_ok acc prot h(1) by (auto split: option.split)
qed


section \<open>The local check of one job\<close>

lemma by_place_unique:
  assumes "distinct (map row_seq rows)" "r \<in> set rows"
  shows "by_place rows (row_seq r) = Some r"
proof -
  have "distinct (map fst (rev (map (\<lambda>r. (row_seq r, r)) rows)))"
    using assms(1) by (simp add: rev_map o_def flip: rev_map)
  then show ?thesis
    unfolding by_place_def using assms(2) by (intro map_of_is_SomeI) auto
qed

lemma job_walk_fine:
  assumes "\<forall>r\<in>set rows. step r = Inr Verified \<or> step r = Inr Unverifiable"
  shows "job_walk step rows c = Inr (c\<lparr>
    verified := verified c @ map row_seq (filter (\<lambda>r. step r = Inr Verified) rows),
    unverifiable := unverifiable c @ map row_seq (filter (\<lambda>r. step r \<noteq> Inr Verified) rows)\<rparr>)"
  using assms by (induction rows arbitrary: c) auto

lemma key_rule_None:
  assumes "key_rule cur (Some b) seq kid = None"
  shows "\<not> (b \<le> seq \<and> Some kid \<noteq> cur)" "\<not> (seq < b \<and> Some kid = cur)"
  using assms by (auto simp: key_rule_def split: if_splits)

text \<open>A row of a log that verifies, and the row after it.\<close>

lemma job_next_ok:
  assumes ok: "row_ok L keys cur (Some b) (Some (str_opt (row_chain row))) (row_seq row + 1) following"
    and own: "str_opt (resource_id following) = job \<longrightarrow> row_seq row + 1 \<in> own_seqs"
  shows "job_next L keys cur (Some b) own_seqs job row following =
    Inr (if held_key keys following then Verified else Unverifiable)"
proof -
  from ok have f: "row_seq following = row_seq row + 1" "digest_holds L following"
    "key_rule cur (Some b) (row_seq row + 1) (row_key_id following) = None"
    "linked_row L keys (Some (str_opt (row_chain row))) following" by (simp_all add: row_ok_def)
  from f(2) obtain d where d: "audit_digest L following = Inr d" "row_digest following = Some d"
    by (auto simp: digest_holds_def)
  note rule = key_rule_None [OF f(3)]
  show ?thesis
  proof (cases "map_of keys (row_key_id following)")
    case None
    then show ?thesis using d rule own by (auto simp: job_next_def Let_def held_key_def)
  next
    case (Some key)
    with f(4) show ?thesis
      using d rule own by (auto simp: job_next_def Let_def held_key_def linked_row_def)
  qed
qed

lemma job_step_ok:
  assumes rows: "rows_ok L keys cur (Some b) log" and h: "head_at_end h log"
    and i: "i < length log"
    and pre: "0 < i \<longrightarrow> predecessors (int i) = Some (str_opt (row_chain (log ! (i - 1))))"
    and suc: "Suc i < length log \<longrightarrow> successors (2 + int i) = Some (log ! Suc i)"
    and own: "Suc i < length log \<longrightarrow> str_opt (resource_id (log ! Suc i)) = job \<longrightarrow> 2 + int i \<in> own_seqs"
  shows "job_step L keys cur (Some b) h predecessors successors own_seqs job unread (log ! i) =
    Inr (if held_key keys (log ! i) \<and> (Suc i < length log \<longrightarrow> held_key keys (log ! Suc i))
         then Verified else Unverifiable)"
proof -
  let ?row = "log ! i"
  have ok: "row_ok L keys cur (Some b) (value_before None log i) (1 + int i) ?row"
    using rows i by (simp add: rows_ok_def)
  then have f: "row_seq ?row = 1 + int i" "digest_holds L ?row"
    "key_rule cur (Some b) (1 + int i) (row_key_id ?row) = None" "linked_row L keys (value_before None log i) ?row"
    by (simp_all add: row_ok_def)
  from f(2) obtain d where d: "audit_digest L ?row = Inr d" "row_digest ?row = Some d"
    by (auto simp: digest_holds_def)
  note rule = key_rule_None [OF f(3)]
  have seq: "\<not> head_seq h < 1 + int i" "1 + int i = head_seq h \<longleftrightarrow> Suc i = length log"
    using h i by (auto simp: head_at_end_def)
  show ?thesis
  proof (cases "map_of keys (row_key_id ?row)")
    case None
    then show ?thesis using d rule f(1) seq(1) by (auto simp: job_step_def Let_def held_key_def)
  next
    case (Some key)
    with f(4) obtain chain where chain: "row_chain ?row = Some chain"
      "audit_link L (case value_before None log i of Some q \<Rightarrow> q | None \<Rightarrow> audit_genesis L key)
        (str_opt (row_digest ?row)) key = Inr chain" by (auto simp: linked_row_def)
    have before: "(if 1 + int i = 1 then Some (audit_genesis L key) else predecessors (1 + int i - 1)) =
        Some (case value_before None log i of Some q \<Rightarrow> q | None \<Rightarrow> audit_genesis L key)"
      using pre by (cases i) (simp_all add: value_before_def)
    have held: "held_key keys ?row" using Some by (simp add: held_key_def)
    show ?thesis
    proof (cases "Suc i = length log")
      case True
      then have "?row = last log" using i by (cases log rule: rev_cases) (auto simp: nth_append)
      then have "head_chain h = chain" using h i chain(1) by (auto simp: head_at_end_def)
      then show ?thesis
        using d rule f(1) seq True Some chain before held
        by (simp add: job_step_def Let_def del: of_nat_eq_0_iff) auto
    next
      case False
      with i have Si: "Suc i < length log" by simp
      have "row_ok L keys cur (Some b) (value_before None log (Suc i)) (1 + int (Suc i)) (log ! Suc i)"
        using rows Si unfolding rows_ok_def by blast
      then have "row_ok L keys cur (Some b) (Some (str_opt (row_chain ?row))) (row_seq ?row + 1) (log ! Suc i)"
        by (simp add: value_before_def f(1) add.commute)
      from job_next_ok [OF this, of job own_seqs] own Si f(1)
      have next': "job_next L keys cur (Some b) own_seqs job ?row (log ! Suc i) =
          Inr (if held_key keys (log ! Suc i) then Verified else Unverifiable)" by simp
      have "successors (1 + int i + 1) = Some (log ! Suc i)" using suc Si by (simp add: add.commute)
      then show ?thesis
        using d rule f(1) seq False Some chain before held next' Si
        by (simp add: job_step_def Let_def del: of_nat_eq_0_iff)
    qed
  qed
qed


text \<open>The local check over the rows of a log that the full walk accepts.\<close>

lemma job_check_ok:
  assumes kid: "or_empty (head_key_id h) = kid" "map_of keys kid = Some key" "head_verifies L h key"
    "rotated_at_seq h = Some b"
    and ok: "rows_ok L keys (Some kid) (Some b) (sort_key row_seq rows)"
    and h: "head_at_end h (sort_key row_seq rows)"
    and chained: "\<forall>r\<in>set rows. chain_seq r \<noteq> None" and job: "job \<noteq> ''None''"
  shows "\<exists>c. job_check L rows keys (Some h) (Some kid) job = Inr c \<and> broken_at c = None \<and>
    \<not> head_unverifiable c \<and> set (verified c) \<union> set (unverifiable c) = row_seq ` set (own_rows rows (Some h) job) \<and>
    (\<forall>n\<in>set (unverifiable c). n < b) \<and>
    (\<forall>r\<in>set (own_rows rows (Some h) job). b \<le> row_seq r \<longrightarrow> row_seq r \<in> set (verified c))"
proof -
  define log where "log = sort_key row_seq rows"
  define own where "own = own_rows rows (Some h) job"
  define found where "found = neighbours rows (Some h) own"
  have rok: "rows_ok L keys (Some kid) (Some b) log" and hend: "head_at_end h log" and set_log: "set log = set rows"
    using ok h by (simp_all add: log_def)
  have places: "map row_seq log = [1..int (length log)]"
    by (rule nth_equalityI) (simp_all add: rows_ok_seq [OF rok])
  then have "distinct (map row_seq log)" by simp
  moreover have "mset (map row_seq log) = mset (map row_seq rows)" by (simp add: log_def)
  ultimately have dist: "distinct (map row_seq rows)" by (metis mset_eq_imp_distinct_iff)
  have within: "within_head (Some h) r" if "r \<in> set rows" for r
    using that chained rows_ok_row [OF rok, of r] hend
    by (auto simp: within_head_def head_at_end_def set_log)
  have own_mem: "r \<in> set own \<longleftrightarrow> r \<in> set rows \<and> resource_id r = Some job" for r
    using within by (auto simp: own_def own_rows_def)
  have found_at: "by_place found (row_seq r) = Some r"
    if "r \<in> set rows" "p \<in> set own" "1 < row_seq p \<and> row_seq r = row_seq p - 1 \<or> row_seq r = row_seq p + 1" for r p
  proof (rule by_place_unique)
    show "distinct (map row_seq found)" using dist by (auto simp: found_def neighbours_def intro: distinct_map_filter)
    show "r \<in> set found" using that within by (auto simp: found_def neighbours_def list_ex_iff)
  qed
  let ?step = "job_step L keys (Some kid) (Some b) h (\<lambda>seq. map_option (\<lambda>r. str_opt (row_chain r)) (by_place found seq))
    (by_place found) (set (map row_seq own)) job False"
  have step: "?step r = Inr Verified \<or> ?step r = Inr Unverifiable \<and> row_seq r < b" if r: "r \<in> set own" for r
  proof -
    from r own_mem have rr: "r \<in> set log" by (simp add: set_log)
    then obtain i where i: "i < length log" "r = log ! i" by (auto simp: in_set_conv_nth)
    have seq: "row_seq (log ! j) = 1 + int j" if "j < length log" for j using rok that by (rule rows_ok_seq)
    have "0 < i \<longrightarrow> by_place found (int i) = Some (log ! (i - 1))"
      using found_at [of "log ! (i - 1)" r] r i seq [of "i - 1"] seq [of i] nth_mem [of "i - 1" log]
      by (cases i) (auto simp: set_log)
    then have pre: "0 < i \<longrightarrow> map_option (\<lambda>r. str_opt (row_chain r)) (by_place found (int i)) =
        Some (str_opt (row_chain (log ! (i - 1))))" by simp
    have suc: "Suc i < length log \<longrightarrow> by_place found (2 + int i) = Some (log ! Suc i)"
      using found_at [of "log ! Suc i" r] r i seq [of "Suc i"] seq [of i] set_log nth_mem [of "Suc i" log]
      by auto
    have own_suc: "Suc i < length log \<longrightarrow> str_opt (resource_id (log ! Suc i)) = job \<longrightarrow>
        2 + int i \<in> set (map row_seq own)"
    proof (intro impI)
      assume Si: "Suc i < length log" and "str_opt (resource_id (log ! Suc i)) = job"
      then have "resource_id (log ! Suc i) = Some job" using job by (cases "resource_id (log ! Suc i)") auto
      then have "log ! Suc i \<in> set own" using own_mem Si by (simp add: flip: set_log)
      then show "2 + int i \<in> set (map row_seq own)" using seq [OF Si] by force
    qed
    have held: "held_key keys (log ! j)" if "j < length log" "b \<le> 1 + int j" for j
    proof -
      have "key_rule (Some kid) (Some b) (1 + int j) (row_key_id (log ! j)) = None"
        using rok that by (simp add: rows_ok_def row_ok_def)
      then show ?thesis using kid(2) that by (auto simp: key_rule_def held_key_def split: if_splits)
    qed
    show ?thesis
      using job_step_ok [where predecessors = "\<lambda>seq. map_option (\<lambda>r. str_opt (row_chain r)) (by_place found seq)"
          and successors = "by_place found" and job = job and unread = False, OF rok hend i(1) pre suc own_suc] i seq held [of i] held [of "Suc i"]
      by (cases "b \<le> 1 + int i") (auto split: if_splits)
  qed
  have check: "job_check L rows keys (Some h) (Some kid) job =
    (if own = [] then Inr (new_check 0)
     else job_walk ?step own (new_check (length own)\<lparr>head_unverifiable := False\<rparr>))"
  proof (cases own)
    case Nil
    then show ?thesis
      by (simp add: job_check_def Let_def verify_job_rows_def flip: own_def found_def)
  next
    case (Cons o1 os)
    have so: "sort_key row_seq own = own"
      unfolding own_def own_rows_def by (simp add: sort_key_id_if_sorted)
    have res: "str_opt (resource_id o1) = job" using own_mem [of o1] Cons by simp
    show ?thesis
      unfolding job_check_def Let_def own_def [symmetric] found_def [symmetric] verify_job_rows_def so
      using kid res Cons by (simp add: job_boundary_def)
  qed
  have fine: "\<forall>r\<in>set own. ?step r = Inr Verified \<or> ?step r = Inr Unverifiable" using step by blast
  show ?thesis
  proof (cases "own = []")
    case True
    then show ?thesis using check by (simp add: new_check_def flip: own_def)
  next
    case False
    with check job_walk_fine [OF fine] have c: "job_check L rows keys (Some h) (Some kid) job =
      Inr (new_check (length own)\<lparr>head_unverifiable := False,
        verified := map row_seq (filter (\<lambda>r. ?step r = Inr Verified) own),
        unverifiable := map row_seq (filter (\<lambda>r. ?step r \<noteq> Inr Verified) own)\<rparr>)"
      by (simp add: new_check_def)
    show ?thesis
      unfolding own_def [symmetric]
      by (rule exI, rule conjI [OF c]) (use step in \<open>fastforce simp: new_check_def\<close>)
  qed
qed

text \<open>
  C8. The local check of a job, which reads only the job's rows and their neighbours, agrees
  with the walk over the whole log: over a log the full verification accepts, it finds no break
  for any job, accounts for each of the job's rows, and verifies every one at or after the
  rotation boundary.
\<close>

theorem local_check_agrees:
  assumes "verify_audit_chain L rows keys (Some h) (Some kid) = Inr c" "broken_at c = None"
    and "head_key_id h = Some kid" "map_of keys kid = Some key"
    and "\<forall>r\<in>set rows. chain_seq r \<noteq> None" "job \<noteq> ''None''"
  shows "\<exists>b c'. rotated_at_seq h = Some b \<and> job_check L rows keys (Some h) (Some kid) job = Inr c' \<and>
    broken_at c' = None \<and>
    set (verified c') \<union> set (unverifiable c') = row_seq ` set (own_rows rows (Some h) job) \<and>
    (\<forall>r\<in>set (own_rows rows (Some h) job). b \<le> row_seq r \<longrightarrow> row_seq r \<in> set (verified c'))"
proof -
  have kid: "or_empty (head_key_id h) = kid" using assms(3) by simp
  from verify_current_intact [OF kid assms(4), of L rows c] assms(1,2) obtain b where
    "rotated_at_seq h = Some b" "head_verifies L h key"
    "rows_ok L keys (Some kid) (Some b) (sort_key row_seq rows)" "head_at_end h (sort_key row_seq rows)"
    by auto
  from job_check_ok [OF kid assms(4) this(2,1,3,4) assms(5,6)] this(1) show ?thesis by blast
qed

section \<open>Witnesses\<close>

lemma demo_verified:
  "\<exists>c. verify_audit_chain demo_std [demo_row1, demo_row2] demo_ring (Some demo_head2) (Some ''id2'') = Inr c \<and>
    broken_at c = None"
proof -
  from log_run_inv [OF demo_run2] obtain kid key b
    where ok: "head_ok demo_std demo_ring [demo_row1, demo_row2] demo_head2 kid key b"
    by (auto simp: log_inv_simps demo_session2_def chained_def demo_row1_def demo_row2_def)
  then have "kid = ''id2''" by (auto simp: head_ok_def demo_head2_def)
  with head_ok_verifies [OF ok map_le_refl] show ?thesis
    by (simp add: demo_ring_def walked_def new_check_def)
qed

theorem local_check_agrees_witness:
  "\<exists>c. job_check demo_std [demo_row1, demo_row2] demo_ring (Some demo_head2) (Some ''id2'') ''j1'' = Inr c \<and>
    broken_at c = None"
proof -
  obtain c where c: "verify_audit_chain demo_std [demo_row1, demo_row2] demo_ring (Some demo_head2) (Some ''id2'') = Inr c"
    "broken_at c = None" using demo_verified by blast
  have "head_key_id demo_head2 = Some ''id2''" "map_of demo_ring ''id2'' = Some demo_key2"
    "\<forall>r\<in>set [demo_row1, demo_row2]. chain_seq r \<noteq> None" "''j1'' \<noteq> ''None''"
    by (simp_all add: demo_head2_def demo_ring_def demo_row1_def demo_row2_def)
  from local_check_agrees [OF c this] show ?thesis by blast
qed

definition demo_plan :: "repair_error + repair_plan" where
  "demo_plan = plan_repair demo_std [demo_row1] demo_ring (Some ''id1'') None None (Some 1) (PMoment 0 None)"

lemma demo_repaired: "repaired_head demo_std [demo_row1] demo_ring (Some ''id1'') None = Inr (demo_head1, [])"
  by code_simp

lemma demo_recordable: "normal (PDict det) \<Longrightarrow> recordable demo_std det (PMoment 0 None)"
proof -
  assume n: "normal (PDict det)"
  have "timestamp (fromisoformat demo_std) (PMoment 0 None) = Inr (PStr ''1970-01-01T00:00:00.000000Z'')"
    by code_simp
  then show ?thesis
    using normal_json_value [OF n] normal_floats_wf [OF n] by (auto simp: recordable_def)
qed

lemma demo_planned: "\<exists>plan. demo_plan = Inr plan \<and> head_seq (plan_head plan) = 2"
proof -
  let ?det = "repair_details None demo_head1 None False (Some 1) []"
  have n: "normal (PDict ?det)" by (simp add: repair_details_def)
  obtain d where "audit_digest demo_std \<lparr>user_id = None, action = HEAD_REPAIR, resource_type = Some ''audit_chain'',
      resource_id = Some HEAD_NAME, details = PDict ?det, ip_address = None, created_at = PMoment 0 None,
      chain_seq = Some 2, row_digest = None, row_chain = None, chain_key_id = Some ''id1''\<rparr> = Inr d" "is_ascii d"
    by (rule recordable_digest [OF demo_recordable [OF n]]) auto
  moreover have "map_of demo_ring ''id1'' = Some demo_key" by (simp add: demo_ring_def)
  moreover have "is_ascii (head_chain demo_head1)" by (simp add: demo_head1_def is_ascii_def)
  ultimately show ?thesis
    by (simp add: demo_plan_def plan_repair_def current_key_def vouched_boundary_def supported_head_def
        demo_repaired demo_head1_def demo_key_def old_head_truncated_def audit_link_Inr)
qed

lemma demo_ring_ids: "ring_ids demo_ring"
  by (simp add: ring_ids_def demo_ring_def demo_key_def demo_key2_def)

theorem planned_repair_verifies_witness:
  "\<exists>plan c. demo_plan = Inr plan \<and> verify_audit_chain demo_std ([demo_row1] @ [plan_row plan]) demo_ring
    (Some (plan_head plan)) (Some ''id1'') = Inr c \<and> broken_at c = None \<and> head_seq (plan_head plan) = 2"
proof -
  obtain plan where plan: "demo_plan = Inr plan" "head_seq (plan_head plan) = 2"
    using demo_planned by blast
  from planned_repair_verifies [OF plan(1) [unfolded demo_plan_def] demo_ring_ids] plan show ?thesis by blast
qed

theorem repair_is_acknowledged_witness:
  "\<exists>plan. demo_plan = Inr plan \<and> Some 1 = rotated_at_seq (plan_head plan)"
proof -
  obtain plan where plan: "demo_plan = Inr plan"
    using demo_planned by blast
  have key: "map_of demo_ring ''id1'' = Some demo_key" by (simp add: demo_ring_def)
  from repair_is_acknowledged [OF plan [unfolded demo_plan_def] key]
  have "Some 1 = rotated_at_seq (plan_head plan)" by (simp add: vouched_boundary_def)
  with plan show ?thesis by blast
qed

end
