(* ===== verification/Anchor_Proofs.thy ===== *)
theory Anchor_Proofs
  imports Audit_Anchor Audit_Repair_Proofs
begin

text \<open>
  What an anchor adds to the chain. The contract of a store of heads is a locale; what every
  store that keeps it gives the platform is proved in it once, and the table the code appends
  to is shown to keep it.
\<close>

section \<open>The log grows\<close>

inductive log_ext :: "stdlib \<Rightarrow> key_ring \<Rightarrow> session \<Rightarrow> session \<Rightarrow> bool" for L R where
  same_log: "log_ext L R s s"
| by_append: "log_ext L R s s' \<Longrightarrow> map_of R (ck_key_id key) = Some key \<Longrightarrow> ck_key_id key \<noteq> [] \<Longrightarrow>
    append L known key now act rtype rid det uid s' = (r, s'') \<Longrightarrow> log_ext L R s s''"
| by_row: "log_ext L R s s' \<Longrightarrow> chain_seq row = None \<Longrightarrow> chain_key_id row = None \<Longrightarrow>
    log_ext L R s (s'\<lparr>db_rows := db_rows s' @ [row]\<rparr>)"

lemma log_ext_grows: "log_ext L R s s' \<Longrightarrow> \<exists>ys. db_rows s' = db_rows s @ ys"
proof (induction rule: log_ext.induct)
  case (same_log s)
  then show ?case by simp
next
  case (by_append s s' key known now act rtype rid det uid r s'')
  from by_append(4) by_append.IH show ?case by (cases rule: append_cases) auto
next
  case (by_row s s' row)
  then show ?case by auto
qed

lemma log_ext_inv:
  "log_ext L R s s' \<Longrightarrow> log_inv L R (db_rows s) (db_head s) \<Longrightarrow> log_inv L R (db_rows s') (db_head s')"
proof (induction rule: log_ext.induct)
  case (same_log s)
  then show ?case by simp
next
  case (by_append s s' key known now act rtype rid det uid r s'')
  note inv = by_append.IH [OF by_append.prems]
  from by_append(4) show ?case
  proof (cases rule: append_cases)
    case (failed e)
    with inv show ?thesis by simp
  next
    case (wrote row head)
    from log_inv_append [OF inv by_append(2,3) wrote(1)] wrote appended_chained [OF wrote(1)]
    show ?thesis by (auto simp: log_inv_simps)
  qed
next
  case (by_row s s' row)
  then show ?case by (cases "db_head s'") (simp_all add: log_inv_simps)
qed

lemma log_inv_head:
  assumes "log_inv L R rows (Some h)"
  shows "head_seq h = int (length (chained rows))" "chained rows \<noteq> []"
  using assms head_okD(1,8) by (fastforce simp: log_inv_simps)+

text \<open>A chain value stays where it is while the log grows.\<close>

lemma chain_at_append: "chain_at rows seq = Some c \<Longrightarrow> chain_at (rows @ ys) seq = Some c"
proof (induction rows)
  case Nil
  then show ?case by (simp add: chain_at_def)
next
  case (Cons r rows)
  then show ?case by (simp add: chain_at_def split: if_splits)
qed

section \<open>A deployment: commits, anchor writes and verifications\<close>

text \<open>
  The committed log and head and the store beside them. A commit extends the log by any
  session's appends and rows; an anchor write runs at any time, with whatever head it was
  given and the keys the platform holds then.
\<close>

inductive anchor_run ::
  "stdlib \<Rightarrow> key_ring \<Rightarrow> ('s \<Rightarrow> (anchor_exc + anchored_head option) \<times> 's)
    \<Rightarrow> (anchored_head \<Rightarrow> 's \<Rightarrow> (anchor_exc + unit) \<times> 's) \<Rightarrow> ('s \<Rightarrow> bool)
    \<Rightarrow> audit_row list \<Rightarrow> chain_head option \<Rightarrow> 's \<Rightarrow> bool" for L R latest put new_store where
  started: "new_store st \<Longrightarrow> anchor_run L R latest put new_store [] None st"
| committed: "anchor_run L R latest put new_store rows dbh st \<Longrightarrow> db_rows s = rows \<Longrightarrow> db_head s = dbh \<Longrightarrow>
    log_ext L R s s' \<Longrightarrow> anchor_run L R latest put new_store (db_rows s') (db_head s') st"
| anchor_written: "anchor_run L R latest put new_store rows dbh st \<Longrightarrow> map_of keys \<subseteq>\<^sub>m map_of R \<Longrightarrow>
    anchor_committed_head L keys latest put rows dbh expected st = (res, st') \<Longrightarrow>
    anchor_run L R latest put new_store rows dbh st'"

section \<open>The contract of a store of heads\<close>

locale chain_anchor =
  fixes latest :: "'s \<Rightarrow> (anchor_exc + anchored_head option) \<times> 's"
    and put :: "anchored_head \<Rightarrow> 's \<Rightarrow> (anchor_exc + unit) \<times> 's"
    and heads :: "'s \<Rightarrow> int \<Rightarrow> chain_head option"
    and ok :: "'s \<Rightarrow> bool"
  assumes latest_keeps: "ok st \<Longrightarrow> latest st = (r, st') \<Longrightarrow> ok st' \<and> heads st' = heads st"
    and latest_none: "ok st \<Longrightarrow> latest st = (Inr None, st') \<Longrightarrow> heads st s = None"
    and latest_some: "ok st \<Longrightarrow> latest st = (Inr (Some a), st') \<Longrightarrow>
      heads st (a_seq a) = Some (head_of a) \<and> (\<forall>s h. heads st s = Some h \<longrightarrow> s \<le> a_seq a)"
    and put_new: "ok st \<Longrightarrow> put a st = (q, st') \<Longrightarrow> heads st (a_seq a) = None \<Longrightarrow>
      ok st' \<and> (heads st' = (heads st)(a_seq a := Some (head_of a)) \<or> heads st' = heads st)"
    and put_held: "ok st \<Longrightarrow> put a st = (q, st') \<Longrightarrow> heads st (a_seq a) = Some h \<Longrightarrow>
      ok st' \<and> heads st' = heads st"
begin

text \<open>A write keeps every head that was there, and adds none but the head it was given.\<close>

lemma put_grows:
  assumes "ok st" "put a st = (r, st')"
  shows "ok st' \<and> heads st \<subseteq>\<^sub>m heads st' \<and>
    (\<forall>s h. heads st' s = Some h \<longrightarrow> heads st s = Some h \<or> s = a_seq a \<and> h = head_of a)"
proof (cases "heads st (a_seq a)")
  case None
  from put_new [OF assms None] None show ?thesis by (auto simp: map_le_def split: if_splits)
next
  case (Some h)
  from put_held [OF assms Some] show ?thesis by simp
qed

text \<open>What anchoring a committed head does to the heads kept.\<close>

lemma anchoring:
  assumes st: "ok st" and run: "anchor_committed_head L keys latest put rows dbh expected st = (res, st')"
  shows "ok st' \<and> heads st \<subseteq>\<^sub>m heads st' \<and>
    (\<forall>s h. heads st' s = Some h \<longrightarrow> heads st s = Some h \<or>
      (\<exists>head candidate a held. dbh = Some head \<and> anchor_refusal_of L keys rows held head candidate = None \<and>
        read_head candidate = Inr a \<and> s = a_seq a \<and> h = head_of a))"
proof -
  obtain r st1 where l: "latest st = (r, st1)" by (cases "latest st")
  have st1: "ok st1" "heads st1 = heads st" using latest_keeps [OF st l] by auto
  show ?thesis
  proof (cases "\<exists>held head candidate a. r = Inr held \<and> dbh = Some head \<and>
      candidate = (case expected of Some h \<Rightarrow> h | None \<Rightarrow> head) \<and>
      anchor_refusal_of L keys rows held head candidate = None \<and> read_head candidate = Inr a \<and>
      st' = snd (put a st1)")
    case True
    then obtain held head candidate a where a: "dbh = Some head"
      "anchor_refusal_of L keys rows held head candidate = None" "read_head candidate = Inr a"
      "st' = snd (put a st1)" by blast
    then have "put a st1 = (fst (put a st1), st')" by simp
    from put_grows [OF st1(1) this] show ?thesis
      using a st1(2) by (metis (no_types, lifting))
  next
    case False
    then have "st' = st1"
      using run l by (auto simp: anchor_committed_head_def Let_def split: sum.splits option.splits if_splits prod.splits)
    with st1 show ?thesis by simp
  qed
qed

definition kept :: "stdlib \<Rightarrow> key_ring \<Rightarrow> audit_row list \<Rightarrow> int \<Rightarrow> chain_head \<Rightarrow> bool" where
  "kept L R rows s h \<longleftrightarrow>
     head_seq h = s \<and> chain_at rows s = Some (head_chain h) \<and> s \<le> int (length (chained rows)) \<and>
     mac_holds L R h = Some True"

lemma kept_grows: "kept L R rows s h \<Longrightarrow> kept L R (rows @ ys) s h"
  by (simp add: kept_def chained_def chain_at_append)

lemma approved_kept:
  assumes inv: "log_inv L R rows (Some head)" and keys: "map_of keys \<subseteq>\<^sub>m map_of R"
    and ok: "anchor_refusal_of L keys rows held head candidate = None" "read_head candidate = Inr a"
  shows "kept L R rows (a_seq a) (head_of a)"
proof -
  have m: "mac_holds L keys candidate = Some True" "head_seq candidate \<le> head_seq head"
    "chain_at rows (head_seq candidate) = Some (head_chain candidate)"
    using ok(1) by (auto simp: anchor_refusal_of_def split: if_splits)
  from m(1) keys have "mac_holds L R candidate = Some True"
    by (auto simp: mac_holds_def map_le_def dom_def split: option.splits)
  moreover have "head_of a = candidate\<lparr>head_key_id := none_if_empty (or_empty (head_key_id candidate))\<rparr>"
    using ok(2) by (auto simp: read_head_def head_of_def split: option.splits)
  ultimately have "mac_holds L R (head_of a) = Some True" "head_seq (head_of a) = head_seq candidate"
    "head_chain (head_of a) = head_chain candidate"
    by (simp_all add: mac_holds_def head_verifies_def cong: option.case_cong)
  then show ?thesis
    using m log_inv_head(1) [OF inv] by (simp add: kept_def head_of_def)
qed

text \<open>
  Whatever commits and anchor writes happened in whatever order, every head the store keeps is
  a head of the committed chain: at its place, with its chain value, under a MAC that holds.
\<close>

lemma run_keeps:
  assumes "anchor_run L R latest put new_store rows dbh st"
    and fresh: "\<And>st. new_store st \<Longrightarrow> ok st \<and> heads st = Map.empty"
  shows "log_inv L R rows dbh \<and> ok st \<and> (\<forall>s h. heads st s = Some h \<longrightarrow> kept L R rows s h)"
  using assms(1)
proof (induction rule: anchor_run.induct)
  case (started st)
  then show ?case using fresh by (simp add: log_inv_simps chained_def)
next
  case (committed rows dbh st s s')
  from log_ext_grows [OF committed(4)] obtain ys where ys: "db_rows s' = db_rows s @ ys" by blast
  have "kept L R (db_rows s') q h" if "heads st q = Some h" for q h
    using committed.IH that kept_grows unfolding ys committed(2) by blast
  with committed log_ext_inv [OF committed(4)] show ?case by blast
next
  case (anchor_written rows dbh st keys expected res st')
  note a = anchoring [OF _ anchor_written(3)]
  have "kept L R rows q h" if "heads st' q = Some h" for q h
  proof (cases "heads st q = Some h")
    case True
    with anchor_written.IH show ?thesis by blast
  next
    case False
    with a that anchor_written.IH obtain head candidate a' held where
      "dbh = Some head" "anchor_refusal_of L keys rows held head candidate = None"
      "read_head candidate = Inr a'" "q = a_seq a'" "h = head_of a'" by blast
    with approved_kept [of L R rows head keys held candidate a'] anchor_written.IH anchor_written(2)
    show ?thesis by simp
  qed
  with a anchor_written.IH show ?case by blast
qed

text \<open>The comparison with what the store answers then finds no break.\<close>

lemma run_compares:
  assumes run: "anchor_run L R latest put new_store rows dbh st"
    and fresh: "\<And>st. new_store st \<Longrightarrow> ok st \<and> heads st = Map.empty"
    and l: "latest st = (Inr held, st')" and keys: "map_of keys \<subseteq>\<^sub>m map_of R"
    and c: "c = compare L kind held dbh (case held of Some a \<Rightarrow> chain_at rows (a_seq a) | None \<Rightarrow> None) keys prot"
  shows "v_broken c = None \<and> v_state c \<in> {EMPTY, MATCHES, LAGS, UNVERIFIABLE} \<and>
    (\<forall>a. held = Some a \<and> map_of keys (or_empty (a_key_id a)) \<noteq> None \<longrightarrow> v_checked c \<and> v_unverifiable c = None)"
proof (cases held)
  case None
  then show ?thesis by (simp add: c compare_def new_verdict_def Let_def)
next
  case (Some a)
  note keeps = run_keeps [OF run fresh]
  from latest_some [OF _ l [unfolded Some]] keeps have k: "kept L R rows (a_seq a) (head_of a)" by blast
  then have chain: "chain_at rows (a_seq a) = Some (a_chain a)" and m: "mac_holds L R (head_of a) = Some True"
    and le: "a_seq a \<le> int (length (chained rows))"
    by (simp_all add: kept_def head_of_def)
  from chain have "\<exists>r\<in>set rows. chain_seq r = Some (a_seq a)"
    by (auto simp: chain_at_def find_Some_iff split: option.splits)
  then have "chained rows \<noteq> []" by (auto simp: chained_def filter_empty_conv)
  then obtain h where h: "dbh = Some h" using keeps by (cases dbh) (auto simp: log_inv_simps)
  have seq: "\<not> head_seq h < a_seq a" using log_inv_head(1) [of L R rows h] keeps h le by simp
  have "mac_holds L keys (head_of a) \<noteq> Some False"
    using m keys by (auto simp: mac_holds_def map_le_def dom_def split: option.splits)
  then consider "mac_holds L keys (head_of a) = None" | "mac_holds L keys (head_of a) = Some True" by fastforce
  then show ?thesis
  proof cases
    case 1
    then have "map_of keys (or_empty (a_key_id a)) = None"
      by (auto simp: mac_holds_def head_of_def split: option.splits)
    with 1 show ?thesis by (simp add: c Some compare_def new_verdict_def Let_def)
  next
    case 2
    with h seq chain show ?thesis by (simp add: c Some compare_def new_verdict_def Let_def)
  qed
qed

end

section \<open>The table of anchored heads keeps the contract\<close>

definition db_heads :: "anchor_table \<Rightarrow> int \<Rightarrow> chain_head option" where
  "db_heads table s = map_option head_of (find (\<lambda>row. a_seq row = s) table)"

definition db_unique :: "anchor_table \<Rightarrow> bool" where
  "db_unique table = distinct (map a_seq table)"

lemma db_unique_find: "db_unique table \<Longrightarrow> row \<in> set table \<Longrightarrow> find (\<lambda>r. a_seq r = a_seq row) table = Some row"
  by (induction table) (auto simp: db_unique_def)

lemma find_snoc: "find P (xs @ [x]) = (case find P xs of Some y \<Rightarrow> Some y | None \<Rightarrow> if P x then Some x else None)"
  by (induction xs) auto

lemma db_heads_Some: "db_heads table s = Some h \<Longrightarrow> \<exists>row\<in>set table. a_seq row = s \<and> h = head_of row"
  by (auto simp: db_heads_def find_Some_iff)

lemma head_of_at [simp]: "head_of (a\<lparr>a_at := t\<rparr>) = head_of a"
  by (simp add: head_of_def)

lemma last_is_max:
  assumes "sort_key f xs = ys" "ys \<noteq> []"
  shows "last ys \<in> set xs" "x \<in> set xs \<Longrightarrow> f x \<le> f (last ys)"
proof -
  have set: "set ys = set xs" and so: "sorted (map f ys)" using assms by auto
  show "last ys \<in> set xs" using last_in_set [OF assms(2)] set by simp
  assume "x \<in> set xs"
  then have "x \<in> set ys" by (simp add: set)
  then show "f x \<le> f (last ys)"
    using so assms(2) by (cases ys rule: rev_cases) (auto simp: sorted_append)
qed

interpretation table: chain_anchor db_latest "db_put now" db_heads db_unique for now
proof
  fix st r st'
  assume "db_unique st" "db_latest st = (r, st')"
  then show "db_unique st' \<and> db_heads st' = db_heads st" by (simp add: db_latest_def)
next
  fix st st' s
  assume "db_latest st = (Inr None, st')"
  then have "sort_key a_seq st = []" by (auto simp: db_latest_def split: list.splits)
  then have "st = []" by (metis length_0_conv length_sort)
  then show "db_heads st s = None" by (simp add: db_heads_def)
next
  fix st st' a
  assume u: "db_unique st" and l: "db_latest st = (Inr (Some a), st')"
  then have a: "sort_key a_seq st \<noteq> []" "a = last (sort_key a_seq st)"
    by (auto simp: db_latest_def split: list.splits)
  note m = last_is_max [OF refl a(1)]
  show "db_heads st (a_seq a) = Some (head_of a) \<and> (\<forall>s h. db_heads st s = Some h \<longrightarrow> s \<le> a_seq a)"
    using m a(2) db_unique_find [OF u, of a] db_heads_Some [of st] by (fastforce simp: db_heads_def)
next
  fix st a q st'
  assume u: "db_unique st" and p: "db_put now a st = (q, st')" and n: "db_heads st (a_seq a) = None"
  from n have f: "find (\<lambda>row. a_seq row = a_seq a) st = None" by (simp add: db_heads_def)
  with p have st': "st' = st @ [a\<lparr>a_at := Some now\<rparr>]" by (auto simp: db_put_def)
  have "a_seq a \<notin> a_seq ` set st" using f by (auto simp: find_None_iff)
  then have "db_unique st'" using u by (simp add: st' db_unique_def)
  moreover have "db_heads st' = (db_heads st)(a_seq a \<mapsto> head_of a)"
    using f by (auto simp: fun_eq_iff st' db_heads_def find_snoc split: option.splits)
  ultimately show "db_unique st' \<and> (db_heads st' = (db_heads st)(a_seq a \<mapsto> head_of a) \<or> db_heads st' = db_heads st)"
    by blast
next
  fix st a q st' h
  assume "db_unique st" "db_put now a st = (q, st')" "db_heads st (a_seq a) = Some h"
  then show "db_unique st' \<and> db_heads st' = db_heads st"
    by (auto simp: db_put_def db_heads_def split: option.splits if_splits)
qed

end
