(* ===== verification/Anchor_Properties.thy ===== *)
theory Anchor_Properties
  imports Anchor_Proofs
begin

text \<open>
  The properties of the anchor, each with its witness: a deployment that only appends never
  looks tampered with, a rollback below the anchored head always does, a kept head is never
  written over; and the names of the object store's heads are in the order of their places.
\<close>

section \<open>Against the table\<close>

lemma outcome_of_exc [simp]: "outcome_of e \<noteq> ANCHORED" "ANCHORED \<noteq> outcome_of e"
  by (auto simp: outcome_of_def split: anchor_exc.split)

lemma table_new: "st = [] \<Longrightarrow> db_unique st \<and> db_heads st = Map.empty"
  by (simp add: db_unique_def db_heads_def fun_eq_iff)

lemma db_latest_total: "\<exists>held. db_latest st = (Inr held, st)"
  by (simp add: db_latest_def)

lemma compare_state: "v_state (compare L kind held head at keys prot) = BROKEN \<longleftrightarrow>
    v_broken (compare L kind held head at keys prot) \<noteq> None"
  by (simp add: compare_def Let_def new_verdict_def anchor_broken_def split: option.split bool.split)

lemma verification_unbroken:
  assumes "v_broken (compare L k held head (case held of Some a \<Rightarrow> chain_at rows (a_seq a) | None \<Rightarrow> None) keys prot) = None"
  shows "verification L (Some k) \<lparr>r_anchored = held, r_protection = prot, r_error = None, r_tampered = None\<rparr>
      rows head keys fresh opr =
    compare L k held head (case held of Some a \<Rightarrow> chain_at rows (a_seq a) | None \<Rightarrow> None) keys prot"
  using assms by (simp add: verification_def Let_def)

text \<open>
  C11. No false alarm. Whatever commits extended the log and whatever anchor writes ran in
  between, with whatever heads they were given, a verification that reads the table of anchored
  heads finds the chain unbroken: empty, matching, lagging, or unverifiable when the anchored
  head's key is not held; and when the key is held, the anchored head was checked.
\<close>

theorem anchor_raises_no_alarm:
  assumes "anchor_run L R db_latest (db_put now) (\<lambda>t. t = []) rows dbh st" "map_of keys \<subseteq>\<^sub>m map_of R"
  shows "let v = verification L (Some kind) (fst (read_anchor db_latest prot st)) rows dbh keys fresh opr in
    v_broken v = None \<and> v_state v \<in> {EMPTY, MATCHES, LAGS, UNVERIFIABLE} \<and>
    (\<forall>a. db_latest st = (Inr (Some a), st) \<and> map_of keys (or_empty (a_key_id a)) \<noteq> None \<longrightarrow> v_checked v)"
proof -
  obtain held where l: "db_latest st = (Inr held, st)" using db_latest_total by blast
  then have r: "fst (read_anchor db_latest prot st) =
      \<lparr>r_anchored = held, r_protection = prot, r_error = None, r_tampered = None\<rparr>"
    by (simp add: read_anchor_def)
  note c = table.run_compares [OF assms(1) table_new l assms(2) refl, of kind prot]
  have "verification L (Some kind) (fst (read_anchor db_latest prot st)) rows dbh keys fresh opr =
      compare L kind held dbh (case held of Some a \<Rightarrow> chain_at rows (a_seq a) | None \<Rightarrow> None) keys prot"
    unfolding r by (rule verification_unbroken) (use c in blast)
  with c l show ?thesis by (auto simp: Let_def)
qed

text \<open>
  C12. A rollback below the anchor is found. With the key of the anchored head held, whatever
  log and head the database shows later, the verification calls the chain broken exactly when
  the head shown lies before the anchored one or the row at the anchored place does not carry
  the anchored chain value.
\<close>

theorem rollback_below_the_anchor_is_broken:
  assumes "anchor_run L R db_latest (db_put now) (\<lambda>t. t = []) rows dbh st"
    and "db_latest st = (Inr (Some a), st)"
    and "map_of keys \<subseteq>\<^sub>m map_of R" "map_of keys (or_empty (a_key_id a)) \<noteq> None"
  shows "v_state (verification L (Some kind) (fst (read_anchor db_latest prot st)) rows' dbh' keys None opr) = BROKEN
    \<longleftrightarrow> (case dbh' of None \<Rightarrow> 0 | Some h \<Rightarrow> head_seq h) < a_seq a \<or> chain_at rows' (a_seq a) \<noteq> Some (a_chain a)"
proof -
  from table.run_keeps [OF assms(1) table_new] table.latest_some [OF _ assms(2)]
  have "mac_holds L R (head_of a) = Some True" by (auto simp: table.kept_def)
  then have m: "mac_holds L keys (head_of a) = Some True"
    using assms(3,4) by (auto simp: mac_holds_def head_of_def map_le_def dom_def split: option.splits)
  have r: "fst (read_anchor db_latest prot st) =
      \<lparr>r_anchored = Some a, r_protection = prot, r_error = None, r_tampered = None\<rparr>"
    by (simp add: read_anchor_def assms(2))
  have "verification L (Some kind) (fst (read_anchor db_latest prot st)) rows' dbh' keys None opr =
      compare L kind (Some a) dbh' (chain_at rows' (a_seq a)) keys prot"
    by (simp add: r verification_def Let_def)
  then show ?thesis
    by (auto simp: compare_def Let_def m new_verdict_def anchor_broken_def split: option.splits)
qed

lemma case_last: "(case xs of [] \<Rightarrow> None | r # rs \<Rightarrow> Some (last (r # rs))) = (if xs = [] then None else Some (last xs))"
  by (cases xs) auto

text \<open>
  A kept head is never written over and the latest one never falls back: anchoring any
  head leaves every head of the table as it was, whatever the outcome, and when the outcome is
  \<open>anchored\<close> the head it was given (or the database's) is the latest one from then on.
\<close>

theorem anchoring_only_adds:
  assumes "anchor_committed_head L keys db_latest (db_put now) rows (Some head) expected st = (res, st')"
    and "db_unique st"
  defines "candidate \<equiv> (case expected of Some h \<Rightarrow> h | None \<Rightarrow> head)"
  shows "db_unique st' \<and> db_heads st \<subseteq>\<^sub>m db_heads st' \<and> (res \<noteq> ANCHORED \<longrightarrow> st' = st) \<and>
    (res = ANCHORED \<longrightarrow> (\<exists>a. db_latest st' = (Inr (Some a), st') \<and> a_seq a = head_seq candidate \<and>
       a_chain a = head_chain candidate))"
proof -
  have grows: "db_unique st' \<and> db_heads st \<subseteq>\<^sub>m db_heads st'"
    using table.anchoring [OF assms(2,1)] by blast
  obtain held where l: "db_latest st = (Inr held, st)" using db_latest_total by blast
  show ?thesis
  proof (cases "res = ANCHORED")
    case False
    with assms(1) l grows show ?thesis
      by (auto simp: anchor_committed_head_def Let_def db_put_def split: if_splits option.splits sum.splits)
  next
    case True
    with assms(1) l obtain a where a: "read_head candidate = Inr a" "db_put now a st = (Inr (), st')"
      and newer: "\<forall>h. held = Some h \<longrightarrow> a_seq h < head_seq candidate"
      by (auto simp: anchor_committed_head_def Let_def candidate_def split: if_splits option.splits sum.splits prod.splits)
    have fields: "a_seq a = head_seq candidate" "a_chain a = head_chain candidate"
      using a(1) by (auto simp: read_head_def split: option.splits)
    have less: "a_seq r < a_seq a" if "r \<in> set st" for r
    proof (cases held)
      case None
      then have "sort_key a_seq st = []" using l by (auto simp: db_latest_def split: list.splits)
      then have "st = []" by (metis length_0_conv length_sort)
      with that show ?thesis by simp
    next
      case (Some h)
      then have ne: "sort_key a_seq st \<noteq> []" and h: "h = last (sort_key a_seq st)"
        using l by (auto simp: db_latest_def split: list.splits)
      from last_is_max(2) [OF refl ne that] h newer Some fields(1) show ?thesis by simp
    qed
    then have "find (\<lambda>row. a_seq row = a_seq a) st = None" by (fastforce simp: find_None_iff)
    then have st': "st' = st @ [a\<lparr>a_at := Some now\<rparr>]" using a(2) by (simp add: db_put_def)
    have "sort_key a_seq st' = sort_key a_seq st @ [a\<lparr>a_at := Some now\<rparr>]"
      unfolding st' using less by (intro sort_key_snoc) (simp add: order_less_imp_le)
    then have "db_latest st' = (Inr (Some (a\<lparr>a_at := Some now\<rparr>)), st')"
      by (simp add: db_latest_def case_last)
    with grows fields True show ?thesis by auto
  qed
qed

section \<open>What the anchor's sentence claims\<close>

text \<open>
  The sentence that calls the table protected is said exactly when the anchor's role is no
  superuser, does not own the table, may insert and read it and nothing else, is another role than
  the application's, and the application's role, when it is named and known to the database,
  is no superuser, not the owner and may not write to the table at all.
\<close>

theorem protected_iff:
  "(\<exists>role app trig. database_protection mine app_role theirs = Protected role app trig) \<longleftrightarrow>
    \<not> superuser mine \<and> owner_name mine \<noteq> role_name mine \<and>
    \<not> can_update mine \<and> \<not> can_delete mine \<and> \<not> can_truncate mine \<and> can_insert mine \<and> can_select mine \<and>
    \<not> (or_empty app_role \<noteq> [] \<and> or_empty app_role = role_name mine) \<and>
    \<not> (\<exists>t. theirs = Some t \<and> or_empty app_role \<noteq> [] \<and>
       (superuser t \<or> owner_name mine = or_empty app_role \<or> can_insert t \<or> can_update t \<or>
        can_delete t \<or> can_truncate t))"
proof -
  have "(\<exists>role app trig. database_protection mine app_role theirs = Protected role app trig) \<longleftrightarrow>
      weaknesses mine app_role theirs = []"
    by (simp add: database_protection_def Let_def)
  then show ?thesis
    by (cases theirs) (auto simp: weaknesses_def changes_of_def Let_def)
qed

text \<open>
  An application role the database URL does not name is not examined, and the sentence is said
  all the same: the table may be open to the role the application really connects as.
\<close>

lemma unnamed_role_is_called_protected:
  "database_protection \<lparr>superuser = False, can_insert = True, can_update = False, can_delete = False,
     can_truncate = False, role_name = ''anchor'', owner_name = ''app'', can_select = True, append_only = False\<rparr>
     None None = Protected ''anchor'' None False"
  by (simp add: database_protection_def weaknesses_def changes_of_def Let_def)

section \<open>The object store's anchor\<close>

lemma digits_order:
  assumes "length s = length t" "\<forall>c\<in>set s. is_digit c" "\<forall>c\<in>set t. is_digit c"
    and "nat_of_text s < nat_of_text t"
  shows "s < t"
proof -
  have bound: "nat_of_text u < 10 ^ length u" if "\<forall>c\<in>set u. is_digit c" for u
    using that
  proof (induction u rule: rev_induct)
    case (snoc c u)
    then have "digit_val c < 10" by (auto simp: is_digit_def digit_val_def)
    with snoc show ?case by simp
  qed simp
  have split: "nat_of_text (c # u) = digit_val c * 10 ^ length u + nat_of_text u" for c u
    by (induction u rule: rev_induct) (simp_all add: algebra_simps flip: append_Cons, simp add: nat_of_text_def)
  show ?thesis
    using assms
  proof (induction s t rule: list_induct2)
    case (Cons c s d t)
    have ds: "nat_of_text s < 10 ^ length t" "nat_of_text t < 10 ^ length t"
      using bound [of s] bound [of t] Cons.prems Cons.hyps by auto
    have "digit_val c \<le> digit_val d"
    proof (rule ccontr)
      assume "\<not> digit_val c \<le> digit_val d"
      then have "digit_val d + 1 \<le> digit_val c" by simp
      then have "(digit_val d + 1) * 10 ^ length t \<le> digit_val c * 10 ^ length t" by (rule mult_le_mono1)
      then show False using Cons.prems(3) Cons.hyps ds by (simp add: split)
    qed
    then consider "digit_val c < digit_val d" | "digit_val c = digit_val d" by linarith
    then show ?case
    proof cases
      case 1
      then have "c < d" using Cons.prems by (auto simp: digit_val_def is_digit_def less_char_def)
      then show ?thesis by simp
    next
      case 2
      have "48 \<le> (of_char c :: nat)" "48 \<le> (of_char d :: nat)" using Cons.prems by (auto simp: is_digit_def)
      then have "(of_char c :: nat) = of_char d" using 2 unfolding digit_val_def by linarith
      then have "c = d" by simp
      moreover have "s < t" using 2 Cons by (intro Cons.IH) (auto simp: split)
      ultimately show ?thesis by simp
    qed
  qed simp
qed

lemma pad_to_digits: "\<forall>c\<in>set (pad_to k (nat_text n)). is_digit c"
  using nat_text_digits zeros_digits by (auto simp: pad_to_def)

lemma nat_text_length: "n < 10 ^ k \<Longrightarrow> 0 < k \<Longrightarrow> length (nat_text n) \<le> k"
proof (induction k arbitrary: n)
  case (Suc k)
  show ?case
  proof (cases "n < 10")
    case True
    then show ?thesis by (simp add: nat_text.simps)
  next
    case False
    then have "0 < k" using Suc.prems by (cases k) auto
    moreover have "n div 10 < 10 ^ k" using Suc.prems by (simp add: less_mult_imp_div_less mult.commute)
    ultimately show ?thesis using Suc.IH False by (subst nat_text.simps) simp
  qed
qed simp

lemma strip_digits: "\<forall>c\<in>set s. is_digit c \<Longrightarrow> strip s = s"
proof -
  assume d: "\<forall>c\<in>set s. is_digit c"
  have sp: "is_digit c \<Longrightarrow> \<not> is_space c" for c by (auto simp: is_space_def is_digit_def)
  have "dropWhile is_space t = t" if "\<forall>c\<in>set t. is_digit c" for t
    using that sp by (cases t) auto
  from this [of s] this [of "rev s"] d show ?thesis by (simp add: strip_def)
qed

lemma digit_groups_digits: "\<forall>c\<in>set s. is_digit c \<Longrightarrow> s \<noteq> [] \<or> b \<Longrightarrow> digit_groups b s = Some s"
  by (induction s arbitrary: b) auto

text \<open>
  Objects are named in chain order: below ten to the twelfth, an earlier place has the
  smaller name, so the last name listed is the highest head, and a name reads back as its place.
\<close>

theorem object_names_in_order:
  assumes "0 \<le> m" "m < n" "n < 10 ^ 12"
  shows "object_name m < object_name n \<and> seq_of_name (object_name m) = Some m"
proof -
  let ?s = "\<lambda>i. pad_to SEQ_WIDTH (nat_text (nat i))"
  have "nat m < 10 ^ 12" "nat n < 10 ^ 12" using assms by auto
  then have len: "length (?s m) = 12" "length (?s n) = 12"
    using nat_text_length [of _ 12] by (simp_all add: pad_to_def zeros_def SEQ_WIDTH_def)
  have "nat_of_text (?s m) < nat_of_text (?s n)" using assms by simp
  then have less: "?s m < ?s n" by (intro digits_order) (simp_all add: len pad_to_digits)
  have pre: "p @ x @ q < p @ y @ q" if "x < y" "length x = length y" for p x y q :: string
  proof -
    have "x @ q < y @ q" using that(2,1) by (induction x y rule: list_induct2) auto
    then show ?thesis by (induction p) auto
  qed
  have "object_name m < object_name n"
    using pre [OF less] assms len by (simp add: object_name_def)
  moreover have "seq_of_name (object_name m) = Some m"
  proof -
    have nd: "CHR ''.'' \<notin> set (?s m)" using pad_to_digits zero_digit by blast
    have "?s m \<noteq> []" using len(1) by auto
    then obtain c t where ct: "?s m = c # t" by (cases "?s m") auto
    then have c: "c \<noteq> CHR ''-''" "c \<noteq> CHR ''+''"
      using pad_to_digits [of SEQ_WIDTH "nat m"] by (auto simp: is_digit_def)
    have "int_of_text (?s m) = Some m"
      using strip_digits [OF pad_to_digits, of SEQ_WIDTH "nat m"] c
        digit_groups_digits [OF pad_to_digits, of SEQ_WIDTH "nat m" False] assms(1) nat_of_text_pad [of SEQ_WIDTH "nat m"]
      by (simp add: int_of_text_def ct)
    moreover have "takeWhile (\<lambda>c. c \<noteq> CHR ''.'') (?s m @ ''.json'') = ?s m" using takeWhile_stop [OF nd] .
    ultimately show ?thesis
      using assms(1) by (simp add: seq_of_name_def object_name_def)
  qed
  ultimately show ?thesis ..
qed

section \<open>Witnesses\<close>

definition demo_anchored :: anchored_head where
  "demo_anchored = \<lparr>a_seq = 1, a_chain = ''6b31'', a_key_id = Some ''id1'', a_rotated = 1, a_mac = ''6b31'',
     a_at = Some ''t''\<rparr>"

lemma demo_anchoring:
  "anchor_committed_head demo_std demo_ring db_latest (db_put ''t'') [demo_row1] (Some demo_head1) None []
    = (ANCHORED, [demo_anchored])"
  by code_simp

lemma demo_anchor_run:
  "anchor_run demo_std demo_ring db_latest (db_put ''t'') (\<lambda>t. t = []) [demo_row1] (Some demo_head1) [demo_anchored]"
proof -
  let ?run = "anchor_run demo_std demo_ring db_latest (db_put ''t'') (\<lambda>t. t = [])"
  have base: "?run [] None []" by (rule started) simp
  have ext: "log_ext demo_std demo_ring demo_session demo_session1"
    by (rule by_append [OF same_log _ _ demo_append1 [unfolded demo_append_def]])
      (simp_all add: demo_ring_def demo_key_def)
  have "db_rows demo_session = []" "db_head demo_session = None" by (simp_all add: demo_session_def)
  from committed [OF base this ext] have "?run (db_rows demo_session1) (db_head demo_session1) []" .
  then have "?run [demo_row1] (Some demo_head1) []" by (simp add: demo_session1_def)
  from anchor_written [OF this map_le_refl demo_anchoring] show ?thesis .
qed

lemma demo_latest: "db_latest [demo_anchored] = (Inr (Some demo_anchored), [demo_anchored])"
  by (simp add: db_latest_def)

theorem anchor_raises_no_alarm_witness:
  "v_broken (verification demo_std (Some DATABASE) (fst (read_anchor db_latest None [demo_anchored]))
     [demo_row1] (Some demo_head1) demo_ring None False) = None \<and>
   v_checked (verification demo_std (Some DATABASE) (fst (read_anchor db_latest None [demo_anchored]))
     [demo_row1] (Some demo_head1) demo_ring None False)"
proof -
  have "map_of demo_ring (or_empty (a_key_id demo_anchored)) \<noteq> None"
    by (simp add: demo_ring_def demo_anchored_def)
  with anchor_raises_no_alarm [OF demo_anchor_run map_le_refl, of DATABASE None None False] demo_latest
  show ?thesis by (simp add: Let_def)
qed

theorem rollback_below_the_anchor_is_broken_witness:
  "v_state (verification demo_std (Some DATABASE) (fst (read_anchor db_latest None [demo_anchored]))
     [] None demo_ring None False) = BROKEN"
proof -
  have "map_of demo_ring (or_empty (a_key_id demo_anchored)) \<noteq> None"
    by (simp add: demo_ring_def demo_anchored_def)
  from rollback_below_the_anchor_is_broken
    [OF demo_anchor_run demo_latest map_le_refl this, of DATABASE None "[]" None False]
  show ?thesis by (simp add: demo_anchored_def)
qed

theorem anchoring_only_adds_witness:
  "\<exists>a. db_latest [demo_anchored] = (Inr (Some a), [demo_anchored]) \<and> a_seq a = head_seq demo_head1"
proof -
  have "db_unique []" by (simp add: db_unique_def)
  from anchoring_only_adds [OF demo_anchoring this] show ?thesis by auto
qed

theorem object_names_in_order_witness:
  "object_name 9 < object_name 10 \<and> seq_of_name (object_name 9) = Some 9"
  by (rule object_names_in_order) simp_all

end
