(* ===== verification/Anchor_Objects.thy ===== *)
theory Anchor_Objects
  imports Anchor_Properties
begin

text \<open>
  The object store's anchor over a bucket under object lock. A bucket is the writes it took, in order;
  \<open>serves\<close> says how the store's service answers from them, which is what the code relies on. Over
  any such bucket, what the anchor reads as the latest head is determined.
\<close>

section \<open>A versioned bucket\<close>

text \<open>A version written under a name: an object with the head it reads as, or a delete marker.\<close>

record bucket_write =
  wr_name :: string
  wr_version :: string
  wr_marker :: bool
  wr_time :: int
  wr_body :: "anchor_exc + anchored_head"

definition written_under :: "bucket_write list \<Rightarrow> string \<Rightarrow> bucket_write list" where
  "written_under b name = filter (\<lambda>w. wr_name w = name) b"

definition answered :: "bucket_write list \<Rightarrow> bucket_write \<Rightarrow> object_version" where
  "answered b w = \<lparr>version_id = Some (wr_version w), is_delete_marker = wr_marker w,
     is_latest = (w = last (written_under b (wr_name w))), last_modified = wr_time w\<rparr>"

definition listed :: "bucket_write list \<Rightarrow> string \<Rightarrow> string option \<Rightarrow> bucket_write list" where
  "listed b pre after =
     filter (\<lambda>w. has_prefix (wr_name w) pre \<and> (case after of None \<Rightarrow> True | Some a \<Rightarrow> a < wr_name w)) b"

text \<open>
  The answers of the service: object lock is on; every version under the prefix after the name, in
  any order; the body of a version that is asked for.
\<close>

definition serves :: "'s object_ops \<Rightarrow> 's \<Rightarrow> bucket_write list \<Rightarrow> bool" where
  "serves ops s b \<longleftrightarrow>
     (\<exists>lock. get_lock ops s = Inr lock \<and> lock_enabled lock) \<and>
     (\<forall>pre after. \<exists>items. list_objects ops s pre after True = Inr items \<and>
        set items = (\<lambda>w. (wr_name w, answered b w)) ` set (listed b pre after)) \<and>
     (\<forall>w\<in>set b. \<not> wr_marker w \<longrightarrow> read_object ops s (wr_name w) (Some (wr_version w)) = wr_body w)"

text \<open>Versions have an id of their own, and those under one name are written one after the other.\<close>

definition bucket_ok :: "bucket_write list \<Rightarrow> bool" where
  "bucket_ok b \<longleftrightarrow>
     distinct (map (\<lambda>w. (wr_name w, wr_version w)) b) \<and> (\<forall>w\<in>set b. wr_version w \<noteq> []) \<and>
     sorted_wrt (\<lambda>w w'. wr_name w = wr_name w' \<longrightarrow> wr_time w < wr_time w') b"

definition heads :: "bucket_write list \<Rightarrow> string set" where
  "heads b = {name \<in> set (map wr_name b). has_prefix name OBJECT_PREFIX \<and> has_suffix name ''.json''}"

text \<open>What was first written under a name, and whether a delete marker is its latest version.\<close>

definition first_written :: "bucket_write list \<Rightarrow> string \<Rightarrow> (anchor_exc + anchored_head) option" where
  "first_written b name = map_option wr_body (find (\<lambda>w. wr_name w = name \<and> \<not> wr_marker w) b)"

definition hidden_at :: "bucket_write list \<Rightarrow> string \<Rightarrow> bool" where
  "hidden_at b name \<longleftrightarrow> wr_marker (last (written_under b name))"

section \<open>Versions collected by name\<close>

lemma add_version_map:
  "map_of (add_version name v found) n =
     (if n = name then Some ((case map_of found n of None \<Rightarrow> [] | Some vs \<Rightarrow> vs) @ [v]) else map_of found n)"
  by (induction name v found rule: add_version.induct) auto

lemma add_version_keys:
  "set (map fst (add_version name v found)) = insert name (set (map fst found))"
  "distinct (map fst found) \<Longrightarrow> distinct (map fst (add_version name v found))"
proof -
  show keys: "set (map fst (add_version name v found)) = insert name (set (map fst found))"
    for name v and found :: "(string \<times> object_version list) list"
    by (induction name v found rule: add_version.induct) auto
  show "distinct (map fst found) \<Longrightarrow> distinct (map fst (add_version name v found))"
  proof (induction name v found rule: add_version.induct)
    case (2 name v n vs found)
    show ?case
    proof (cases "n = name")
      case False
      then have "n \<notin> insert name (set (map fst found))" using 2(2) by simp
      then have "n \<notin> set (map fst (add_version name v found))" unfolding keys .
      with 2 False show ?thesis by simp
    qed (use 2(2) in simp)
  qed simp
qed

definition collect :: "(string \<times> object_version) list \<Rightarrow> (string \<times> object_version list) list" where
  "collect items = fold (\<lambda>(name, v) found. add_version name v found) items []"

lemma collect_snoc: "collect (items @ [(name, v)]) = add_version name v (collect items)"
  by (simp add: collect_def)

lemma collect_keys: "distinct (map fst (collect items)) \<and> set (map fst (collect items)) = set (map fst items)"
proof (induction items rule: rev_induct)
  case (snoc item items)
  then show ?case using add_version_keys by (cases item) (auto simp: collect_snoc simp del: set_map)
qed (simp add: collect_def)

lemma collect_versions:
  "map_of (collect items) n = Some vs \<Longrightarrow> set vs = {v. (n, v) \<in> set items} \<and> vs \<noteq> []"
proof (induction items arbitrary: vs rule: rev_induct)
  case (snoc item items)
  obtain name v where item: "item = (name, v)" by (cases item)
  show ?case
  proof (cases "n = name")
    case True
    have "\<forall>v. (n, v) \<notin> set items" if "map_of (collect items) n = None"
      using that collect_keys [of items] by (force simp: map_of_eq_None_iff)
    with True snoc show ?thesis
      by (cases "map_of (collect items) n") (auto simp: item collect_snoc add_version_map)
  next
    case False
    with snoc show ?thesis by (auto simp: item collect_snoc add_version_map)
  qed
qed (simp add: collect_def)

section \<open>The latest and the first version\<close>

lemma max_by_most: "max_by f best xs \<in> set (best # xs) \<and> (\<forall>x\<in>set (best # xs). f x \<le> f (max_by f best xs))"
proof (induction xs arbitrary: best)
  case (Cons x xs)
  from Cons [of "if f best < f x then x else best"] show ?case by (auto split: if_splits)
qed simp

lemma hidden_versions_under:
  assumes vs: "set vs = answered b ` set (written_under b name)" and "written_under b name \<noteq> []"
  shows "hidden_versions vs = hidden_at b name"
proof -
  let ?last = "last (written_under b name)"
  have last: "?last \<in> set (written_under b name)" using assms(2) by simp
  then have name: "wr_name ?last = name" by (simp add: written_under_def)
  have "answered b ?last \<in> set vs" "is_latest (answered b ?last)"
    using last by (simp add: vs, simp add: answered_def name)
  then have "answered b ?last \<in> set (filter is_latest vs)" by simp
  then have some: "filter is_latest vs \<noteq> []" by (auto simp: filter_empty_conv)
  then have "hd (filter is_latest vs) \<in> set (filter is_latest vs)" by (rule hd_in_set)
  then obtain w where w: "hd (filter is_latest vs) = answered b w" "w \<in> set (written_under b name)" "is_latest (answered b w)"
    using vs by auto
  then have "w = ?last" by (auto simp: answered_def written_under_def)
  then have "is_delete_marker (hd (filter is_latest vs)) = wr_marker ?last" using w(1) by (simp add: answered_def)
  then show ?thesis using some by (cases "filter is_latest vs") (simp_all add: hidden_versions_def hidden_at_def)
qed

lemma find_mem: "find P xs = Some x \<Longrightarrow> x \<in> set xs \<and> P x"
  by (induction xs) (auto split: if_splits)

lemma first_of_sorted: "sorted_wrt R xs \<Longrightarrow> find P xs = Some x \<Longrightarrow> y \<in> set xs \<Longrightarrow> P y \<Longrightarrow> y = x \<or> R x y"
  by (induction xs) (auto split: if_splits)

lemma first_version_under:
  assumes ok: "bucket_ok b" and vs: "set vs = answered b ` set (written_under b name)" and first: "find (\<lambda>w. \<not> wr_marker w) (written_under b name) = Some w"
  shows "first_version vs = Some (wr_version w)"
proof -
  let ?keep = "\<lambda>v. or_empty (version_id v) \<noteq> [] \<and> \<not> is_delete_marker v"
  have id: "wr_version w' \<noteq> []" if "w' \<in> set (written_under b name)" for w' using ok that by (simp add: bucket_ok_def written_under_def)
  have w: "w \<in> set (written_under b name)" "\<not> wr_marker w" using first by (auto simp: find_Some_iff)
  have kept: "set (filter ?keep vs) = answered b ` {w' \<in> set (written_under b name). \<not> wr_marker w'}"
    using id by (auto simp: vs answered_def)
  then have "answered b w \<in> set (filter ?keep vs)" using w by blast
  then obtain v live where live: "filter ?keep vs = v # live" by (cases "filter ?keep vs") auto
  define best where "best = max_by (\<lambda>w. - last_modified w) v live"
  have best: "best \<in> set (filter ?keep vs)" "last_modified best \<le> last_modified (answered b w)"
    using max_by_most [of "\<lambda>w. - last_modified w" v live] \<open>answered b w \<in> set (filter ?keep vs)\<close>
    unfolding best_def live by fastforce+
  then obtain w' where w': "best = answered b w'" "w' \<in> set (written_under b name)" "\<not> wr_marker w'" using kept by auto
  have "sorted_wrt (\<lambda>w w'. wr_name w = wr_name w' \<longrightarrow> wr_time w < wr_time w') (written_under b name)"
    using ok by (simp add: bucket_ok_def written_under_def sorted_wrt_filter)
  from first_of_sorted [OF this first w'(2)] w'(3) have "w' = w \<or> (wr_name w = wr_name w' \<longrightarrow> wr_time w < wr_time w')" by simp
  moreover have "wr_name w = wr_name w'" using w w' by (simp add: written_under_def)
  moreover have "wr_time w' \<le> wr_time w" using best(2) w'(1) by (simp add: answered_def)
  ultimately have "w' = w" by auto
  then show ?thesis using live w'(1) by (simp add: first_version_def best_def answered_def)
qed

lemma first_under: "first_written b name = map_option wr_body (find (\<lambda>w. \<not> wr_marker w) (written_under b name))"
proof -
  have "find (\<lambda>w. wr_name w = name \<and> \<not> wr_marker w) b = find (\<lambda>w. \<not> wr_marker w) (filter (\<lambda>w. wr_name w = name) b)"
    by (induction b) auto
  then show ?thesis by (simp add: first_written_def written_under_def)
qed

lemma not_hidden_written:
  assumes "written_under b name \<noteq> []" "\<not> hidden_at b name"
  obtains w where "find (\<lambda>w. \<not> wr_marker w) (written_under b name) = Some w"
proof (cases "find (\<lambda>w. \<not> wr_marker w) (written_under b name)")
  case None
  then have "wr_marker (last (written_under b name))" using assms(1) by (simp add: find_None_iff)
  with assms(2) show thesis by (simp add: hidden_at_def)
qed (rule that)

section \<open>What is read\<close>

text \<open>The names a listing begins with: those after the one before the place \<open>n\<close>.\<close>

definition from_below :: "int \<Rightarrow> string \<Rightarrow> bool" where
  "from_below n name \<longleftrightarrow> n \<le> 0 \<or> object_name (n - 1) < name"

lemma listing_start_below:
  assumes "0 \<le> n" "n + 1 < 10 ^ 12"
  shows "\<exists>after. listing_start (Some (object_name n)) = Inr after \<and>
    (\<forall>name. (case after of None \<Rightarrow> True | Some a \<Rightarrow> a < name) = from_below n name)"
proof -
  have "seq_of_name (object_name n) = Some n" using object_names_in_order [of n "n + 1"] assms by simp
  moreover have "object_name n \<noteq> []" by (simp add: object_name_def)
  ultimately show ?thesis by (simp add: listing_start_def from_below_def)
qed

lemma has_prefix_refl: "has_prefix name name"
  by (simp add: has_prefix_def)

lemma listing_served:
  assumes served: "serves ops s b"
  obtains found where "listing ops s OBJECT_PREFIX after = Inr found" "distinct (map fst found)"
    "fst ` set found = {name \<in> heads b. case after of None \<Rightarrow> True | Some a \<Rightarrow> a < name}"
    "\<forall>name vs. map_of found name = Some vs \<longrightarrow> set vs = answered b ` set (written_under b name) \<and> written_under b name \<noteq> []"
proof -
  let ?head = "\<lambda>(name, v :: object_version). has_prefix name OBJECT_PREFIX \<and> has_suffix name ''.json''"
  obtain lock where lock: "get_lock ops s = Inr lock" "lock_enabled lock" using served by (auto simp: serves_def)
  obtain items where items: "list_objects ops s OBJECT_PREFIX after True = Inr items"
    "set items = (\<lambda>w. (wr_name w, answered b w)) ` set (listed b OBJECT_PREFIX after)"
    using served unfolding serves_def by blast
  define kept where "kept = filter ?head items"
  have kept: "(name, v) \<in> set kept \<longleftrightarrow>
      name \<in> heads b \<and> (case after of None \<Rightarrow> True | Some a \<Rightarrow> a < name) \<and> v \<in> answered b ` set (written_under b name)" for name v
  proof -
    have "(name, v) \<in> set kept \<longleftrightarrow> (\<exists>w\<in>set b. wr_name w = name \<and> v = answered b w \<and> has_prefix name OBJECT_PREFIX \<and>
        has_suffix name ''.json'' \<and> (case after of None \<Rightarrow> True | Some a \<Rightarrow> a < name))"
      by (auto simp: kept_def items(2) listed_def image_iff)
    then show ?thesis by (auto simp: heads_def written_under_def image_iff)
  qed
  have "listing ops s OBJECT_PREFIX after = Inr (collect kept)"
    by (simp add: listing_def lock items(1) collect_def kept_def)
  moreover have "distinct (map fst (collect kept))" using collect_keys by blast
  moreover have "fst ` set (collect kept) = {name \<in> heads b. case after of None \<Rightarrow> True | Some a \<Rightarrow> a < name}"
  proof -
    have "\<exists>w. w \<in> set (written_under b name)" if "name \<in> heads b" for name
      using that by (auto simp: heads_def written_under_def)
    then have "fst ` set kept = {name \<in> heads b. case after of None \<Rightarrow> True | Some a \<Rightarrow> a < name}"
      using kept by (force simp: image_iff)
    then show ?thesis using collect_keys [of kept] by simp
  qed
  moreover have "\<forall>name vs. map_of (collect kept) name = Some vs \<longrightarrow>
      set vs = answered b ` set (written_under b name) \<and> written_under b name \<noteq> []"
  proof (intro allI impI)
    fix name vs assume that: "map_of (collect kept) name = Some vs"
    have vs: "set vs = {v. (name, v) \<in> set kept}" "vs \<noteq> []" using collect_versions [OF that] by simp_all
    then obtain v where "(name, v) \<in> set kept" by (cases vs) auto
    then have "name \<in> heads b \<and> (case after of None \<Rightarrow> True | Some a \<Rightarrow> a < name)" "written_under b name \<noteq> []"
      by (auto simp: kept)
    then show "set vs = answered b ` set (written_under b name) \<and> written_under b name \<noteq> []" using vs(1) kept by auto
  qed
  ultimately show thesis by (rule that)
qed

lemma sorted_last: "sorted xs \<Longrightarrow> x \<in> set xs \<Longrightarrow> x \<le> last xs" for x :: string
  by (induction xs) auto

lemma last_sorted: "sort xs \<noteq> [] \<Longrightarrow> last (sort xs) = Max (set xs)" for xs :: "string list"
proof -
  assume "sort xs \<noteq> []"
  then have "last (sort xs) \<in> set xs" using last_in_set [of "sort xs"] by simp
  moreover have "\<forall>x\<in>set xs. x \<le> last (sort xs)" using sorted_last [of "sort xs"] by simp
  ultimately show ?thesis by (intro Max_eqI [symmetric]) auto
qed

text \<open>
  Over a bucket, the latest head the anchor reads after it has seen the head of the place \<open>n\<close>: hidden
  where a delete marker is the latest version under a name listed, gone where no name is as high
  as that head's, and otherwise the first version under the highest name of all.
\<close>

lemma object_latest_reads:
  assumes ok: "bucket_ok b" and served: "serves ops s b" and n: "0 \<le> n" "n + 1 < 10 ^ 12"
  defines "seen \<equiv> Some (object_name n)"
  shows "\<exists>name\<in>heads b. from_below n name \<and> hidden_at b name \<Longrightarrow> object_latest ops (seen, s) = (Inl HeadHidden, (seen, s))"
    "\<forall>name\<in>heads b. from_below n name \<longrightarrow> \<not> hidden_at b name \<Longrightarrow> \<forall>name\<in>heads b. name < object_name n \<Longrightarrow>
      object_latest ops (seen, s) = (Inl HeadGone, (seen, s))"
    "\<forall>name\<in>heads b. from_below n name \<longrightarrow> \<not> hidden_at b name \<Longrightarrow> \<exists>name\<in>heads b. object_name n \<le> name \<Longrightarrow>
      \<exists>body. first_written b (Max (heads b)) = Some body \<and>
        object_latest ops (seen, s) = (map_r Some body, (Some (Max (heads b)), s))"
proof -
  obtain after where after: "listing_start seen = Inr after"
    "\<And>name. (case after of None \<Rightarrow> True | Some a \<Rightarrow> a < name) = from_below n name"
    using listing_start_below [OF n] unfolding seen_def by blast
  obtain found where found: "listing ops s OBJECT_PREFIX after = Inr found" "distinct (map fst found)"
    "fst ` set found = {name \<in> heads b. case after of None \<Rightarrow> True | Some a \<Rightarrow> a < name}"
    "\<forall>name vs. map_of found name = Some vs \<longrightarrow> set vs = answered b ` set (written_under b name) \<and> written_under b name \<noteq> []"
    by (rule listing_served [OF served, of after])
  note names = found(3) [unfolded after(2)]
  define live where "live = sort (map fst found)"
  have live: "set live = {name \<in> heads b. from_below n name}" using names by (simp add: live_def)
  have hidden: "(\<exists>(name, vs)\<in>set found. hidden_versions vs) \<longleftrightarrow> (\<exists>name\<in>heads b. from_below n name \<and> hidden_at b name)"
  proof -
    have "hidden_versions vs = hidden_at b name" if "(name, vs) \<in> set found" for name vs
      using found(2,4) that hidden_versions_under [of vs b name] by simp
    then have "(\<exists>(name, vs)\<in>set found. hidden_versions vs) \<longleftrightarrow> (\<exists>name\<in>fst ` set found. hidden_at b name)" by force
    then show ?thesis unfolding names by auto
  qed
  have read: "object_latest ops (seen, s) =
      (if \<exists>(name, vs)\<in>set found. hidden_versions vs then (Inl HeadHidden, (seen, s))
       else if live = [] \<or> last live < object_name n then (Inl HeadGone, (seen, s))
       else (map_r Some (read_object ops s (last live)
               (case map_of found (last live) of Some vs \<Rightarrow> first_version vs | None \<Rightarrow> None)), (Some (last live), s)))"
  proof -
    have "bind_r (listing_start seen) (listing ops s OBJECT_PREFIX) = Inr found" by (simp add: after(1) found(1))
    then show ?thesis
      unfolding object_latest_def fst_conv snd_conv live_def Let_def by (simp add: seen_def)
  qed
  show "\<exists>name\<in>heads b. from_below n name \<and> hidden_at b name \<Longrightarrow> object_latest ops (seen, s) = (Inl HeadHidden, (seen, s))"
    unfolding read hidden by (simp only: if_True)
  assume "\<forall>name\<in>heads b. from_below n name \<longrightarrow> \<not> hidden_at b name"
  then have visible: "\<not> (\<exists>(name, vs)\<in>set found. hidden_versions vs)" "\<And>name. name \<in> set live \<Longrightarrow> \<not> hidden_at b name"
    unfolding hidden live by auto
  note read = read [unfolded if_not_P [OF visible(1)]]
  have last: "live \<noteq> [] \<Longrightarrow> last live = Max (set live)" using last_sorted [of "map fst found"] by (simp add: live_def)
  show "object_latest ops (seen, s) = (Inl HeadGone, (seen, s))" if "\<forall>name\<in>heads b. name < object_name n"
  proof -
    have "live = [] \<or> last live < object_name n" using that live last_in_set [of live] by auto
    then show ?thesis unfolding read by (simp only: if_True)
  qed
  show "\<exists>body. first_written b (Max (heads b)) = Some body \<and>
      object_latest ops (seen, s) = (map_r Some body, (Some (Max (heads b)), s))" if "\<exists>name\<in>heads b. object_name n \<le> name"
  proof -
    let ?top = "Max (heads b)"
    have fin: "finite (heads b)" by (simp add: heads_def)
    have top: "?top \<in> heads b" "object_name n \<le> ?top" using that Max_in [OF fin] Max_ge [OF fin] by (auto intro: order_trans)
    have "from_below n ?top"
    proof (cases "0 < n")
      case True
      then have "object_name (n - 1) < object_name n" using object_names_in_order [of "n - 1" n] n by simp
      from less_le_trans [OF this top(2)] show ?thesis by (simp add: from_below_def)
    qed (use n(1) in \<open>simp add: from_below_def\<close>)
    then have "?top \<in> set live" using live top(1) by simp
    then have "live \<noteq> []" by auto
    have "Max (set live) = ?top" using \<open>?top \<in> set live\<close> fin live by (intro Max_eqI) auto
    then have name: "last live = ?top" using last [OF \<open>live \<noteq> []\<close>] by simp
    have "?top \<in> fst ` set found" using names live \<open>?top \<in> set live\<close> by simp
    then obtain vs where vs: "map_of found ?top = Some vs" by (metis map_of_eq_None_iff option.exhaust)
    note under = found(4) [rule_format, OF this]
    obtain w where w: "find (\<lambda>w. \<not> wr_marker w) (written_under b ?top) = Some w"
      using not_hidden_written visible(2) [OF \<open>?top \<in> set live\<close>] under by blast
    then have "w \<in> set b" "wr_name w = ?top" "\<not> wr_marker w" by (auto simp: find_Some_iff written_under_def dest: nth_mem)
    then have "read_object ops s ?top (Some (wr_version w)) = wr_body w" using served by (auto simp: serves_def)
    moreover have "first_version vs = Some (wr_version w)" using first_version_under [OF ok _ w] under by blast
    moreover have "first_written b ?top = Some (wr_body w)" by (simp add: first_under w)
    ultimately show ?thesis using read \<open>live \<noteq> []\<close> leD [OF top(2)] by (simp add: name vs)
  qed
qed

text \<open>What was first written under a name stays so, whatever is written after.\<close>

lemma first_written_stays: "first_written old name = Some body \<Longrightarrow> first_written (old @ rest) name = Some body"
  unfolding first_written_def by (induction old) auto

text \<open>
  C13. The object-store anchor does not forget a head. Take a bucket under object lock, whatever was
  written, overwritten or hidden in it, and a process that has seen the head of the place \<open>n\<close>. If a
  delete marker is the latest version under a name after that of the place before it (\<open>from_below\<close>; the
  listing begins there), the anchor is called tampered with (hidden); if there is none, but the bucket has
  no name as high as that head's, it is called tampered with too (gone); otherwise the answer is what
  was first written under the highest name of all, which is that head's or a later one, and that name
  is the one the process has now seen. So what is written later under a name never changes the answer:
  what was first written under the highest name at any earlier time (\<open>told\<close>) is what is read. The
  service lists every version and reads a version asked for (\<open>serves\<close>), the versions under one
  name are written at different times (\<open>bucket_ok\<close>), and the place is below the twelve digits of
  a name.
\<close>

theorem object_anchor_never_forgets:
  assumes "bucket_ok b" "serves ops s b" "0 \<le> n" "n + 1 < 10 ^ 12"
  shows "if \<exists>name\<in>heads b. from_below n name \<and> hidden_at b name
    then object_latest ops (Some (object_name n), s) = (Inl HeadHidden, (Some (object_name n), s))
    else if \<forall>name\<in>heads b. name < object_name n
    then object_latest ops (Some (object_name n), s) = (Inl HeadGone, (Some (object_name n), s))
    else \<exists>top\<in>heads b. \<exists>body.
      object_latest ops (Some (object_name n), s) = (map_r Some body, (Some top, s)) \<and>
      object_name n \<le> top \<and> (\<forall>name\<in>heads b. name \<le> top) \<and> first_written b top = Some body \<and>
      (\<forall>old rest told. b = old @ rest \<and> first_written old top = Some told \<longrightarrow> body = told)"
proof -
  note reads = object_latest_reads [OF assms]
  have fin: "finite (heads b)" by (simp add: heads_def)
  consider (hidden) "\<exists>name\<in>heads b. from_below n name \<and> hidden_at b name"
    | (gone) "\<forall>name\<in>heads b. from_below n name \<longrightarrow> \<not> hidden_at b name" "\<forall>name\<in>heads b. name < object_name n"
    | (there) "\<forall>name\<in>heads b. from_below n name \<longrightarrow> \<not> hidden_at b name" "\<exists>name\<in>heads b. object_name n \<le> name"
    by (meson not_less)
  then show ?thesis
  proof cases
    case hidden
    then show ?thesis using reads(1) by simp
  next
    case gone
    then have "\<not> (\<exists>name\<in>heads b. from_below n name \<and> hidden_at b name)" by blast
    then show ?thesis using reads(2) [OF gone] gone(2) by simp
  next
    case there
    then have no: "\<not> (\<exists>name\<in>heads b. from_below n name \<and> hidden_at b name)" "\<not> (\<forall>name\<in>heads b. name < object_name n)"
      by (blast, meson not_less)
    obtain body where body: "first_written b (Max (heads b)) = Some body"
      "object_latest ops (Some (object_name n), s) = (map_r Some body, (Some (Max (heads b)), s))"
      using reads(3) [OF there] by blast
    have top: "Max (heads b) \<in> heads b" "object_name n \<le> Max (heads b)" "\<forall>name\<in>heads b. name \<le> Max (heads b)"
      using there(2) Max_in [OF fin] Max_ge [OF fin] by (auto intro: order_trans)
    have "\<forall>old rest told. b = old @ rest \<and> first_written old (Max (heads b)) = Some told \<longrightarrow> body = told"
      using body(1) first_written_stays by fastforce
    with body top show ?thesis
      unfolding if_not_P [OF no(1)] if_not_P [OF no(2)] by blast
  qed
qed

section \<open>A bucket that serves\<close>

text \<open>The service over the writes themselves; an object that is asked for without a version is the latest.\<close>

definition bucket_ops :: "bucket_write list object_ops" where
  "bucket_ops =
     \<lparr>list_objects = (\<lambda>b pre after versions.
        Inr (map (\<lambda>w. (wr_name w, answered b w))
          (filter (\<lambda>w. versions \<or> w = last (written_under b (wr_name w))) (rev (listed b pre after))))),
      read_object = (\<lambda>b name version.
        (case find (\<lambda>w. wr_name w = name \<and> \<not> wr_marker w \<and> (case version of None \<Rightarrow> True | Some v \<Rightarrow> wr_version w = v)) (rev b) of
           None \<Rightarrow> Inl (AnchorFailed ''NoSuchKey'')
         | Some w \<Rightarrow> wr_body w)),
      get_lock = (\<lambda>b. Inr \<lparr>lock_enabled = True, lock_mode = Some ''COMPLIANCE'', lock_duration = Some 30, lock_unit = Some ''DAYS''\<rparr>),
      put_object = (\<lambda>b name head hold.
        Inr (b @ [\<lparr>wr_name = name, wr_version = nat_text (length b), wr_marker = False, wr_time = int (length b), wr_body = Inr head\<rparr>]))\<rparr>"

lemma bucket_serves:
  assumes "bucket_ok b"
  shows "serves bucket_ops b b"
proof -
  have "find (\<lambda>w'. wr_name w' = wr_name w \<and> \<not> wr_marker w' \<and> wr_version w' = wr_version w) (rev b) = Some w"
    if w: "w \<in> set b" "\<not> wr_marker w" for w
  proof (cases "find (\<lambda>w'. wr_name w' = wr_name w \<and> \<not> wr_marker w' \<and> wr_version w' = wr_version w) (rev b)")
    case None
    then show ?thesis using w by (auto simp: find_None_iff)
  next
    case (Some w')
    then have "w' \<in> set b" "wr_name w' = wr_name w" "wr_version w' = wr_version w"
      using find_mem by fastforce+
    then have "w' = w" using assms w(1) by (auto simp: bucket_ok_def distinct_map inj_on_def)
    with Some show ?thesis by simp
  qed
  then have "\<forall>w\<in>set b. \<not> wr_marker w \<longrightarrow> read_object bucket_ops b (wr_name w) (Some (wr_version w)) = wr_body w"
    by (simp add: bucket_ops_def)
  moreover have "\<exists>items. list_objects bucket_ops b pre after True = Inr items \<and>
      set items = (\<lambda>w. (wr_name w, answered b w)) ` set (listed b pre after)" for pre after
    by (simp add: bucket_ops_def)
  moreover have "\<exists>lock. get_lock bucket_ops b = Inr lock \<and> lock_enabled lock" by (simp add: bucket_ops_def)
  ultimately show ?thesis by (simp only: serves_def) blast
qed

text \<open>Two heads were kept; a forged one was then written over the first, and over the second.\<close>

definition demo_write :: "int \<Rightarrow> string \<Rightarrow> bool \<Rightarrow> int \<Rightarrow> string \<Rightarrow> bucket_write" where
  "demo_write n version marker time chain =
     \<lparr>wr_name = object_name n, wr_version = version, wr_marker = marker, wr_time = time,
      wr_body = Inr (demo_anchored\<lparr>a_seq := n, a_chain := chain\<rparr>)\<rparr>"

definition demo_bucket :: "bucket_write list" where
  "demo_bucket = [demo_write 1 ''v1'' False 1 ''aa'', demo_write 2 ''v2'' False 2 ''bb'',
     demo_write 1 ''v3'' False 3 ''ff'', demo_write 2 ''v4'' False 4 ''ff'']"

lemma demo_bucket_ok: "bucket_ok demo_bucket"
  by code_simp

lemma demo_bucket_heads: "heads demo_bucket = {object_name 1, object_name 2}"
  "\<forall>name\<in>{object_name 1, object_name 2}. \<not> hidden_at demo_bucket name" "object_name 1 < object_name 2"
  "first_written (take 2 demo_bucket) (object_name 2) = Some (Inr (demo_anchored\<lparr>a_seq := 2, a_chain := ''bb''\<rparr>))"
  by code_simp+

theorem object_anchor_never_forgets_witness:
  "object_latest bucket_ops (Some (object_name 2), demo_bucket) =
     (Inr (Some (demo_anchored\<lparr>a_seq := 2, a_chain := ''bb''\<rparr>)), (Some (object_name 2), demo_bucket))"
proof -
  note heads = demo_bucket_heads
  have no: "\<not> (\<exists>name\<in>heads demo_bucket. from_below 2 name \<and> hidden_at demo_bucket name)"
    "\<not> (\<forall>name\<in>heads demo_bucket. name < object_name 2)"
    using heads(1,2) by auto
  have "0 \<le> (2 :: int)" "2 + 1 < (10 :: int) ^ 12" by simp_all
  note reads = object_anchor_never_forgets [OF demo_bucket_ok bucket_serves [OF demo_bucket_ok] this]
  obtain top body where top: "top \<in> heads demo_bucket" "object_name 2 \<le> top"
    "object_latest bucket_ops (Some (object_name 2), demo_bucket) = (map_r Some body, (Some top, demo_bucket))"
    "\<forall>old rest told. demo_bucket = old @ rest \<and> first_written old top = Some told \<longrightarrow> body = told"
    using reads [unfolded if_not_P [OF no(1)] if_not_P [OF no(2)]] by blast
  have "top = object_name 2" using top(1,2) heads(1,3) by auto
  moreover have "body = Inr (demo_anchored\<lparr>a_seq := 2, a_chain := ''bb''\<rparr>)"
    using top(4) heads(4) append_take_drop_id [of 2 demo_bucket, symmetric] calculation by blast
  ultimately show ?thesis using top(3) by simp
qed

text \<open>A delete marker over the second head is named, and a bucket without the second head is too.\<close>

theorem a_hidden_or_lost_head_is_named:
  "object_latest bucket_ops (Some (object_name 2), demo_bucket @ [demo_write 2 ''v5'' True 5 []]) =
     (Inl HeadHidden, (Some (object_name 2), demo_bucket @ [demo_write 2 ''v5'' True 5 []]))"
  "object_latest bucket_ops (Some (object_name 2), take 1 demo_bucket) = (Inl HeadGone, (Some (object_name 2), take 1 demo_bucket))"
  by code_simp+

end
