(* ===== verification/Ledger_Verify.thy ===== *)
theory Ledger_Verify
  imports Audit_Anchor
begin

text \<open>
  The verification of one job's stored ledger (\<open>apps/api/app/services/ledger_verify.py\<close>): the
  seal found and its copies compared, the rows recomputed and linked, the amendments walked to
  the stored report, the deletion of a report, the follow-ups and the verdict. Each reason,
  check and note is a constructor with the numbers its sentence names.
\<close>

section \<open>What is read and what is answered\<close>

datatype status = VERIFIED | BROKEN_LEDGER | DELETED | OTHER_KEY | UNVERIFIABLE_LEDGER | NOT_SEALED

datatype end_reason =
    AuditChainBroken "break_reason option"
  | AnchorMismatch anchor_break
  | AnchorUnverifiable anchor_note
  | RowWithoutDigest int
  | RowDiffersFromDigest int
  | SealedUnderOtherKey string
  | SealNotUnderKey
  | SealNamesOtherJob
  | RowsButNoSealInReport
  | AuditSealButNone
  | OWN_ROWS_UNVERIFIABLE
  | SEAL_SUPERSEDED
  | ChainGap int int
  | PREDATES
  | CopiesDisagree "string list"
  | ReportRowNoSeal
  | DocumentNoSeal string
  | SealForOtherReport
  | AuditSealDiffers
  | AuditRecordsAnotherSeal
  | AuditRowRemoved
  | SEAL_NOT_ANCHORED
  | DeletedSealNotLanded
  | RowsButNoReportUnread
  | RowsButNoSealAnywhere
  | NOTHING_STORED
  | RowNotLinkedInLedger int
  | RowPastSeal int
  | RowsAfterMissing int
  | EveryRowMissing
  | RowCountDiffers nat
  | HeadDiffers
  | DeletionNotRecorded
  | HEAD_UNVERIFIABLE
  | DeletedByOwner
  | AmendmentsDiffer
  | AmendmentNotRecord nat
  | AmendmentOtherKey nat
  | AmendmentNotUnderKey nat
  | AmendmentNotChained nat
  | ChangedBeforeAmendment nat
  | AmendmentMissing nat
  | AmendmentDiffersFromAudit nat
  | AmendmentNotLanded nat
  | ReportChanged
  | VERIFIED_REASON
  | FollowUpMismatch

datatype check_line =
    AnchorChecked
  | CopiesAgree "string list"
  | SealOnAuditChain
  | RowsRecompute nat
  | SealVerifies
  | ChainEndsOnHead nat
  | AmendmentsStored nat
  | ReportEquals nat
  | AuditRowsVerify nat
  | FollowUpsMatch nat

datatype follow_up_problem =
    NoRecordButChained string
  | FollowUpChanged string
  | NamesAnother string
  | RecordNotUnderKey string
  | NoChainedRow string
  | RecordDiffersFromChain string
  | RowGone string

datatype follow_up_note =
    NoRecordNotChecked string
  | KeyNotDerivable string
  | AuditRowDidNotLand string
  | GoneWithReport string

datatype note_line =
    AnchorNote anchor_note
  | AuditNotRead
  | SealFromAuditChain
  | FollowUpNote follow_up_note
  | FollowUpSaid follow_up_problem
  | AlsoProblem follow_up_problem

text \<open>\<open>JobAudit\<close>\<close>

record job_audit =
  ja_check :: chain_check
  ja_seals :: "dict list"
  ja_amendments :: "dict list"
  ja_deletes :: "dict list"
  ja_gap :: "(int \<times> int) option"
  ja_anchor :: "anchor_verdict option"

definition unverifiable_own :: "job_audit \<Rightarrow> bool" where
  "unverifiable_own a \<longleftrightarrow> broken_at (ja_check a) = None \<and> unverifiable (ja_check a) \<noteq> []"

text \<open>\<open>_Result\<close>: the body of the answer and what is pending.\<close>

record verdict =
  vd_job :: string
  vd_status :: status
  vd_reason :: "end_reason option"
  vd_first :: "int option"
  vd_entries :: nat
  vd_head :: "string option"
  vd_seal :: "dict option"
  vd_amendments :: nat
  vd_checks :: "check_line list"
  vd_notes :: "note_line list"
  vd_anchor :: "(string \<times> anchor_state) option"
  vd_pending :: "end_reason option"

definition new_result :: "string \<Rightarrow> verdict" where
  "new_result job_id =
     \<lparr>vd_job = job_id, vd_status = VERIFIED, vd_reason = None, vd_first = None, vd_entries = 0,
      vd_head = None, vd_seal = None, vd_amendments = 0, vd_checks = [], vd_notes = [],
      vd_anchor = None, vd_pending = None\<rparr>"

definition said :: "check_line \<Rightarrow> verdict \<Rightarrow> verdict" where
  "said line r = r\<lparr>vd_checks := vd_checks r @ [line]\<rparr>"

definition noted :: "note_line \<Rightarrow> verdict \<Rightarrow> verdict" where
  "noted line r = r\<lparr>vd_notes := vd_notes r @ [line]\<rparr>"

definition ended :: "status \<Rightarrow> end_reason \<Rightarrow> int option \<Rightarrow> verdict \<Rightarrow> verdict" where
  "ended st reason seq r = r\<lparr>vd_status := st, vd_reason := Some reason, vd_first := seq\<rparr>"

text \<open>A step either ends the verification with its verdict or goes on.\<close>

type_synonym 'a vstep = "py_error + (verdict + 'a)"

definition stop :: "status \<Rightarrow> end_reason \<Rightarrow> int option \<Rightarrow> verdict \<Rightarrow> 'a vstep" where
  "stop st reason seq r = Inr (Inl (ended st reason seq r))"

definition go :: "'a \<Rightarrow> 'a vstep" where
  "go v = Inr (Inr v)"

definition bind_v :: "'a vstep \<Rightarrow> ('a \<Rightarrow> 'b vstep) \<Rightarrow> 'b vstep" where
  "bind_v m f = bind_r m (\<lambda>r. case r of Inl v \<Rightarrow> Inr (Inl v) | Inr x \<Rightarrow> f x)"

section \<open>The seal\<close>

definition digest_of :: "py \<Rightarrow> py" where
  "digest_of seal_v = (case as_mapping seal_v of Some d \<Rightarrow> dict_get d ''digest'' | None \<Rightarrow> PNone)"

definition sub_get :: "py \<Rightarrow> string \<Rightarrow> py" where
  "sub_get document name = (case as_mapping document of Some d \<Rightarrow> dict_get d name | None \<Rightarrow> PNone)"

text \<open>The named copies of the seal that are mappings.\<close>

definition seal_copies :: "dict \<Rightarrow> (string \<times> dict) list" where
  "seal_copies report =
     List.map_filter (\<lambda>(name, v). map_option (Pair name) (as_mapping v))
       [(''report row'', dict_get report ''ledger_seal''),
        (''report payload'', sub_get (dict_get report ''malware_report'') SEAL_KEY),
        (''run summary'', sub_get (dict_get report ''run_summary'') SEAL_KEY)]"

definition named_cores :: "dict list \<Rightarrow> py_error + py list" where
  "named_cores deletes =
     py_set (filter truthy (map (\<lambda>d. dict_get d ''core_digest'') deletes))"

text \<open>A verified seal that no deletion accounts for; the lookups stop nothing but an unhashable value.\<close>

definition superseded_seal :: "job_audit \<Rightarrow> py_error + bool" where
  "superseded_seal a =
     bind_r (named_cores (ja_deletes a)) (\<lambda>gone.
     map_r (\<lambda>ins. list_ex (\<lambda>b. \<not> b) ins)
       (sequence_r (map (\<lambda>d. py_in (digest_of (dict_get d ''seal'')) gone) (ja_seals a))))"

definition no_seal_in_report :: "verdict \<Rightarrow> dict list \<Rightarrow> dict list \<Rightarrow> job_audit option \<Rightarrow> 'a vstep" where
  "no_seal_in_report r chained_rows for_report audit =
     (if chained_rows \<noteq> [] then
        stop BROKEN_LEDGER RowsButNoSealInReport (Some (seq_of (hd chained_rows))) r
      else if for_report \<noteq> [] then stop BROKEN_LEDGER AuditSealButNone None r
      else case audit of
        None \<Rightarrow> stop NOT_SEALED PREDATES None r
      | Some a \<Rightarrow>
          if unverifiable_own a then stop UNVERIFIABLE_LEDGER OWN_ROWS_UNVERIFIABLE None r
          else bind_r (superseded_seal a) (\<lambda>left.
            if left then stop UNVERIFIABLE_LEDGER SEAL_SUPERSEDED None r
            else case ja_gap a of
              Some (n, m) \<Rightarrow> stop UNVERIFIABLE_LEDGER (ChainGap n m) None r
            | None \<Rightarrow> stop NOT_SEALED PREDATES None r))"

text \<open>The seal against the audit chain's: confirmed, contradicted, or left pending.\<close>

definition seal_on_the_chain ::
  "verdict \<Rightarrow> dict \<Rightarrow> dict list \<Rightarrow> job_audit option \<Rightarrow> verdict vstep" where
  "seal_on_the_chain r seal_d for_report audit =
     (case audit of
        None \<Rightarrow> go r
      | Some a \<Rightarrow>
          let core = core_of seal_d;
              matching = filter (\<lambda>v. py_eq (digest_of v) (dict_get core ''digest''))
                           (map (\<lambda>d. dict_get d ''seal'') for_report)
          in
          if matching \<noteq> [] then
            (if \<not> py_eq (last matching) (PDict core) then stop BROKEN_LEDGER AuditSealDiffers None r
             else go (said SealOnAuditChain r))
          else if for_report \<noteq> [] then stop BROKEN_LEDGER AuditRecordsAnotherSeal None r
          else if unverifiable_own a then go (r\<lparr>vd_pending := Some OWN_ROWS_UNVERIFIABLE\<rparr>)
          else if dict_get seal_d ''audit_anchored'' = PBool True then
            stop BROKEN_LEDGER AuditRowRemoved None r
          else go (r\<lparr>vd_pending := Some SEAL_NOT_ANCHORED\<rparr>))"

definition document_without_seal :: "dict \<Rightarrow> (string \<times> dict) list \<Rightarrow> string option" where
  "document_without_seal report present =
     (case filter (\<lambda>(name, column).
          as_mapping (dict_get report column) \<noteq> None \<and> map_of present name = None)
        [(''report payload'', ''malware_report''), (''run summary'', ''run_summary'')] of
        [] \<Rightarrow> None
      | (name, _) # _ \<Rightarrow> Some name)"

definition seal_of_the_report ::
  "verdict \<Rightarrow> dict \<Rightarrow> dict list \<Rightarrow> job_audit option \<Rightarrow> (dict \<times> verdict) vstep" where
  "seal_of_the_report r report chained_rows audit =
     (let present = seal_copies report;
          names = sort (map fst present);
          report_id = py_str (dict_get report ''id'');
          for_report = filter (\<lambda>d. py_str (dict_get d ''report_id'') = report_id)
                         (case audit of Some a \<Rightarrow> ja_seals a | None \<Rightarrow> [])
      in
      case present of
        [] \<Rightarrow> no_seal_in_report r chained_rows for_report audit
      | (_, seal_d) # _ \<Rightarrow>
          if list_ex (\<lambda>c. \<not> py_eq (PDict (snd c)) (PDict seal_d)) present then
            stop BROKEN_LEDGER (CopiesDisagree names) None r
          else if map_of present ''report row'' = None then stop BROKEN_LEDGER ReportRowNoSeal None r
          else (case document_without_seal report present of
            Some name \<Rightarrow> stop BROKEN_LEDGER (DocumentNoSeal name) None r
          | None \<Rightarrow>
              let r = said (CopiesAgree names) r in
              if py_str (dict_get seal_d ''report_id'') \<noteq> report_id then
                stop BROKEN_LEDGER SealForOtherReport None r
              else bind_v (seal_on_the_chain r seal_d for_report audit) (\<lambda>r. go (seal_d, r))))"

definition seal_without_a_report_end ::
  "verdict \<Rightarrow> dict list \<Rightarrow> dict list \<Rightarrow> job_audit option \<Rightarrow> 'a vstep" where
  "seal_without_a_report_end r ordered chained_rows audit =
     (if (case audit of Some a \<Rightarrow> unverifiable_own a | None \<Rightarrow> False) then
        stop UNVERIFIABLE_LEDGER OWN_ROWS_UNVERIFIABLE None r
      else if chained_rows \<noteq> [] then
        (if audit = None then stop UNVERIFIABLE_LEDGER RowsButNoReportUnread None r
         else stop BROKEN_LEDGER RowsButNoSealAnywhere (Some (seq_of (hd chained_rows))) r)
      else case (case audit of Some a \<Rightarrow> ja_gap a | None \<Rightarrow> None) of
        Some (n, m) \<Rightarrow> stop UNVERIFIABLE_LEDGER (ChainGap n m) None r
      | None \<Rightarrow> stop NOT_SEALED (if ordered = [] then NOTHING_STORED else PREDATES) None r)"

text \<open>The seal a deletion names: \<open>None\<close> when there is none, and whether one was named.\<close>

definition deleted_seal :: "job_audit \<Rightarrow> py_error + (dict option \<times> bool)" where
  "deleted_seal a =
     (if ja_deletes a = [] then Inr (None, False)
      else
        bind_r (named_cores (ja_deletes a)) (\<lambda>named.
        map_r (\<lambda>ins.
          let held = map fst (filter snd (zip (map (\<lambda>d. dict_get d ''seal'') (ja_seals a)) ins)) in
          (if held = [] then None else as_mapping (last held), named \<noteq> []))
          (sequence_r (map (\<lambda>d. py_in (digest_of (dict_get d ''seal'')) named) (ja_seals a)))))"

definition seal_without_a_report ::
  "verdict \<Rightarrow> dict list \<Rightarrow> dict list \<Rightarrow> job_audit option \<Rightarrow> (dict \<times> verdict) vstep" where
  "seal_without_a_report r ordered chained_rows audit =
     (case audit of
        None \<Rightarrow> seal_without_a_report_end r ordered chained_rows audit
      | Some a \<Rightarrow>
          bind_r (deleted_seal a) (\<lambda>(found, named).
          case found of
            Some d \<Rightarrow> go (d, noted SealFromAuditChain r)
          | None \<Rightarrow>
              if named then stop UNVERIFIABLE_LEDGER DeletedSealNotLanded None r
              else
                case (if ja_seals a = [] then None else as_mapping (dict_get (last (ja_seals a)) ''seal'')) of
                  Some d \<Rightarrow> go (d, noted SealFromAuditChain r)
                | None \<Rightarrow> seal_without_a_report_end r ordered chained_rows audit))"

section \<open>The rows\<close>

fun check_digests :: "stdlib \<Rightarrow> dict list \<Rightarrow> verdict \<Rightarrow> unit vstep" where
  "check_digests L [] r = go ()"
| "check_digests L (row # rows) r =
     (if \<not> truthy (dict_get row ''digest'') then
        stop BROKEN_LEDGER (RowWithoutDigest (seq_of row)) (Some (seq_of row)) r
      else
        bind_r (entry_digest L row) (\<lambda>digest.
        if \<not> py_eq (PStr digest) (dict_get row ''digest'') then
          stop BROKEN_LEDGER (RowDiffersFromDigest (seq_of row)) (Some (seq_of row)) r
        else check_digests L rows r))"

fun walk_links :: "stdlib \<Rightarrow> chain_key \<Rightarrow> dict list \<Rightarrow> string \<Rightarrow> verdict \<Rightarrow> string vstep" where
  "walk_links L key [] head r = go head"
| "walk_links L key (row # rows) head r =
     bind_r (link L head (py_str (dict_get row ''digest'')) key) (\<lambda>head'.
     if \<not> py_eq (PStr head') (dict_get row ''chain'') then
       stop BROKEN_LEDGER (RowNotLinkedInLedger (seq_of row)) (Some (seq_of row)) r
     else walk_links L key rows head' r)"

text \<open>The rows after the sealed last place; \<open>int(last_seq)\<close> is only read when there is a row.\<close>

definition rows_beyond :: "dict list \<Rightarrow> py \<Rightarrow> py_error + dict list" where
  "rows_beyond ordered last_seq =
     (if last_seq = PNone \<or> ordered = [] then Inr []
      else map_r (\<lambda>n. filter (\<lambda>row. n < seq_of row) ordered) (py_int last_seq))"

definition check_the_chain ::
  "stdlib \<Rightarrow> verdict \<Rightarrow> string \<Rightarrow> dict list \<Rightarrow> dict \<Rightarrow> chain_key \<Rightarrow> verdict vstep" where
  "check_the_chain L r job_id ordered seal_d key =
     bind_r (genesis L job_id key) (\<lambda>start.
     bind_v (walk_links L key ordered start r) (\<lambda>head.
     let r = r\<lparr>vd_head := Some head\<rparr>;
         last_seq = dict_get seal_d ''last_seq'';
         entries = py_or (dict_get seal_d ''entries'') (PInt 0)
     in
     bind_r (rows_beyond ordered last_seq) (\<lambda>beyond.
     if beyond \<noteq> [] \<or> (last_seq = PNone \<and> ordered \<noteq> []) then
       let extra = seq_of (hd (if beyond \<noteq> [] then beyond else ordered)) in
       stop BROKEN_LEDGER (RowPastSeal extra) (Some extra) r
     else
     bind_r (if ordered \<noteq> [] \<and> last_seq \<noteq> PNone
             then map_r (\<lambda>n. seq_of (last ordered) < n) (py_int last_seq) else Inr False) (\<lambda>short.
     if short then
       stop BROKEN_LEDGER (RowsAfterMissing (seq_of (last ordered))) (Some (seq_of (last ordered) + 1)) r
     else
     bind_r (py_int entries) (\<lambda>n.
     if ordered = [] \<and> 0 < n then
       bind_r (if truthy (dict_get seal_d ''first_seq'')
               then map_r Some (py_int (dict_get seal_d ''first_seq'')) else Inr None)
         (\<lambda>first. stop BROKEN_LEDGER EveryRowMissing first r)
     else if int (length ordered) \<noteq> n then
       stop BROKEN_LEDGER (RowCountDiffers (length ordered)) None r
     else if \<not> py_eq (PStr head) (dict_get seal_d ''head'') then stop BROKEN_LEDGER HeadDiffers None r
     else go (said (ChainEndsOnHead (length ordered)) r))))))"

section \<open>The report and its amendments\<close>

text \<open>\<open>keys.get(record.get("key_id") or "")\<close>\<close>

definition key_named :: "key_ring \<Rightarrow> py \<Rightarrow> py_error + chain_key option" where
  "key_named keys v =
     (let v = py_or v (PStr []) in
      if \<not> hashable v then Inl TypeError
      else Inr (case v of PStr s \<Rightarrow> map_of keys s | _ \<Rightarrow> None))"

text \<open>The amendment a recorded one is followed by: chained onto it and verifying under its key.\<close>

definition follows :: "stdlib \<Rightarrow> key_ring \<Rightarrow> py \<Rightarrow> dict \<Rightarrow> py_error + bool" where
  "follows L keys previous a =
     (if \<not> py_eq (dict_get a ''prev'') previous then Inr False
      else
        bind_r (key_named keys (dict_get a ''key_id'')) (\<lambda>key.
        case key of
          None \<Rightarrow> Inr False
        | Some k \<Rightarrow> map_r (\<lambda>d. py_eq (PStr d) (dict_get a ''digest'')) (record_digest L a k)))"

definition following :: "stdlib \<Rightarrow> key_ring \<Rightarrow> py \<Rightarrow> dict list \<Rightarrow> py_error + dict list" where
  "following L keys previous held =
     map_r (\<lambda>bs. map fst (filter snd (zip held bs))) (sequence_r (map (follows L keys previous) held))"

text \<open>
  The \<open>while True\<close> of \<open>_audit_amendments\<close>: \<^const>\<open>None\<close> when it never returns, which a cycle of
  records makes it do.
\<close>

partial_function (option) amendment_chain ::
  "stdlib \<Rightarrow> key_ring \<Rightarrow> dict list \<Rightarrow> py \<Rightarrow> dict list \<Rightarrow> (py_error + dict list) option" where
  "amendment_chain L keys held previous chain =
     (case following L keys previous held of
        Inl e \<Rightarrow> Some (Inl e)
      | Inr next_ones \<Rightarrow>
          (case next_ones of
             [] \<Rightarrow> Some (Inr chain)
           | a # _ \<Rightarrow> amendment_chain L keys held (dict_get a ''digest'') (chain @ [a])))"

definition recorded_amendments :: "string \<Rightarrow> job_audit \<Rightarrow> dict list" where
  "recorded_amendments report_id a =
     List.map_filter (\<lambda>d. as_mapping (dict_get d ''amendment''))
       (filter (\<lambda>d. py_str (dict_get d ''report_id'') = report_id) (ja_amendments a))"

definition audit_amendments ::
  "stdlib \<Rightarrow> dict \<Rightarrow> string \<Rightarrow> job_audit \<Rightarrow> key_ring \<Rightarrow> (py_error + dict list) option" where
  "audit_amendments L seal_d report_id a keys =
     amendment_chain L keys (recorded_amendments report_id a) (dict_get seal_d ''digest'') []"

text \<open>The walk over the stored amendments: the digest they end on, from the \<open>index\<close>-th on.\<close>

fun walk_amendments ::
  "stdlib \<Rightarrow> key_ring \<Rightarrow> py list \<Rightarrow> nat \<Rightarrow> py \<Rightarrow> py \<Rightarrow> verdict \<Rightarrow> py vstep" where
  "walk_amendments L keys [] index previous expected r = go expected"
| "walk_amendments L keys (v # vs) index previous expected r =
     (case as_mapping v of
        None \<Rightarrow> stop BROKEN_LEDGER (AmendmentNotRecord index) None r
      | Some record \<Rightarrow>
          bind_r (key_named keys (dict_get record ''key_id'')) (\<lambda>key.
          case key of
            None \<Rightarrow> stop OTHER_KEY (AmendmentOtherKey index) None r
          | Some k \<Rightarrow>
              bind_r (record_digest L record k) (\<lambda>digest.
              if \<not> py_eq (PStr digest) (dict_get record ''digest'') then
                stop BROKEN_LEDGER (AmendmentNotUnderKey index) None r
              else if \<not> py_eq (dict_get record ''number'') (PInt (int index)) \<or>
                      \<not> py_eq (dict_get record ''prev'') previous then
                stop BROKEN_LEDGER (AmendmentNotChained index) None r
              else if \<not> py_eq (dict_get record ''report_sha256_before'') expected then
                stop BROKEN_LEDGER (ChangedBeforeAmendment index) None r
              else walk_amendments L keys vs (index + 1) (dict_get record ''digest'')
                     (dict_get record ''report_sha256_after'') r)))"

text \<open>The recorded amendments against the stored ones; \<open>dict(v)\<close> of one that is no mapping never
  comes to it, the walk ends first.\<close>

fun compare_recorded :: "py list \<Rightarrow> dict list \<Rightarrow> nat \<Rightarrow> verdict \<Rightarrow> unit vstep" where
  "compare_recorded held [] index r = go ()"
| "compare_recorded [] (record # recorded) index r = stop BROKEN_LEDGER (AmendmentMissing index) None r"
| "compare_recorded (v # held) (record # recorded) index r =
     (if \<not> py_eq v (PDict record) then stop BROKEN_LEDGER (AmendmentDiffersFromAudit index) None r
      else compare_recorded held recorded (index + 1) r)"

definition stored_amendments :: "py \<Rightarrow> py" where
  "stored_amendments document = py_or (sub_get document AMENDMENTS_KEY) (PList [])"

text \<open>The stored amendments walked from the seal, and the ones the audit chain records compared.\<close>

definition walk_stored ::
  "stdlib \<Rightarrow> verdict \<Rightarrow> dict \<Rightarrow> py \<Rightarrow> key_ring \<Rightarrow> (py list \<times> py) vstep" where
  "walk_stored L r seal_d held keys =
     bind_r (py_iter held) (\<lambda>vs.
     bind_v (walk_amendments L keys vs 1 (dict_get seal_d ''digest'') (dict_get seal_d ''report_sha256'') r)
       (\<lambda>expected. go (vs, expected)))"

definition audited_amendments ::
  "stdlib \<Rightarrow> verdict \<Rightarrow> dict \<Rightarrow> string \<Rightarrow> py list \<Rightarrow> job_audit option \<Rightarrow> key_ring \<Rightarrow> verdict vstep option" where
  "audited_amendments L r seal_d report_id vs audit keys =
     (case audit of
        None \<Rightarrow> Some (go r)
      | Some a \<Rightarrow>
          map_option (\<lambda>got.
            bind_r got (\<lambda>recorded.
            bind_v (compare_recorded vs recorded 1 r) (\<lambda>_.
            go (said (AmendmentsStored (length recorded))
              (if length recorded < length vs \<and> vd_pending r = None
               then r\<lparr>vd_pending := Some (AmendmentNotLanded (length recorded + 1))\<rparr> else r)))))
            (audit_amendments L seal_d report_id a keys))"

definition report_end :: "stdlib \<Rightarrow> dict \<Rightarrow> py \<Rightarrow> nat \<Rightarrow> verdict \<Rightarrow> verdict vstep" where
  "report_end L report expected n r =
     bind_r (report_digest L report []) (\<lambda>current.
     if \<not> py_eq (PStr current) expected then stop BROKEN_LEDGER ReportChanged None r
     else go (said (ReportEquals n) r))"

definition check_report ::
  "stdlib \<Rightarrow> verdict \<Rightarrow> dict \<Rightarrow> dict \<Rightarrow> job_audit option \<Rightarrow> key_ring \<Rightarrow> verdict vstep option" where
  "check_report L r seal_d report audit keys =
     (let payload = dict_get report ''malware_report''; summary = dict_get report ''run_summary'';
          held = stored_amendments payload
      in
      if as_mapping summary \<noteq> None \<and> \<not> py_eq (stored_amendments summary) held then
        Some (stop BROKEN_LEDGER AmendmentsDiffer None r)
      else
        case walk_stored L r seal_d held keys of
          Inl e \<Rightarrow> Some (Inl e)
        | Inr (Inl v) \<Rightarrow> Some (Inr (Inl v))
        | Inr (Inr (vs, expected)) \<Rightarrow>
            map_option (\<lambda>got. bind_v got (report_end L report expected (length vs)))
              (audited_amendments L (r\<lparr>vd_amendments := length vs\<rparr>) seal_d (py_str (dict_get report ''id'')) vs
                audit keys))"

text \<open>What checking the follow-ups found.\<close>

record follow_up_check =
  fu_problems :: "follow_up_problem list"
  fu_notes :: "follow_up_note list"
  fu_matched :: nat

text \<open>
  What \<open>verify_ledger\<close> hands back. A seal that itself has the keys \<open>status\<close> and \<open>job_id\<close> is
  taken for the verdict that ended the search for it, and is handed back as it is; \<open>verify_job\<close>
  then adds the follow-ups' lines to it.
\<close>

datatype answer = Answer verdict | SealTaken dict | SealTakenWith dict follow_up_check

section \<open>The verdict\<close>

definition anchor_unverifiable :: "job_audit option \<Rightarrow> anchor_note option" where
  "anchor_unverifiable audit =
     (case audit of
        None \<Rightarrow> None
      | Some a \<Rightarrow> (case ja_anchor a of Some v \<Rightarrow> v_unverifiable v | None \<Rightarrow> None))"

definition check_the_deletion :: "verdict \<Rightarrow> dict \<Rightarrow> job_audit option \<Rightarrow> verdict" where
  "check_the_deletion r seal_d audit =
     (let records = filter (\<lambda>d. py_eq (dict_get d ''core_digest'') (dict_get seal_d ''digest''))
                      (case audit of Some a \<Rightarrow> ja_deletes a | None \<Rightarrow> [])
      in
      if records = [] then ended BROKEN_LEDGER DeletionNotRecorded None r
      else if (case audit of Some a \<Rightarrow> head_unverifiable (ja_check a) | None \<Rightarrow> False) then
        ended UNVERIFIABLE_LEDGER HEAD_UNVERIFIABLE None r
      else case anchor_unverifiable audit of
        Some why \<Rightarrow> ended UNVERIFIABLE_LEDGER (AnchorUnverifiable why) None r
      | None \<Rightarrow> ended DELETED DeletedByOwner None r)"

definition final_verdict :: "verdict \<Rightarrow> job_audit option \<Rightarrow> verdict" where
  "final_verdict r audit =
     (let close = (\<lambda>r.
        case vd_pending r of
          Some why \<Rightarrow> ended UNVERIFIABLE_LEDGER why None r
        | None \<Rightarrow>
            (case anchor_unverifiable audit of
               Some why \<Rightarrow> ended UNVERIFIABLE_LEDGER (AnchorUnverifiable why) None r
             | None \<Rightarrow> ended VERIFIED VERIFIED_REASON None r))
      in
      case audit of
        None \<Rightarrow> close r
      | Some a \<Rightarrow>
          if head_unverifiable (ja_check a) then ended UNVERIFIABLE_LEDGER HEAD_UNVERIFIABLE None r
          else if unverifiable_own a then ended UNVERIFIABLE_LEDGER OWN_ROWS_UNVERIFIABLE None r
          else close (said (AuditRowsVerify (length (verified (ja_check a)))) r))"


definition begun :: "string \<Rightarrow> dict list \<Rightarrow> job_audit option \<Rightarrow> verdict" where
  "begun job_id ordered audit =
     (let r = (new_result job_id)\<lparr>vd_entries := length ordered\<rparr> in
      case (case audit of Some a \<Rightarrow> ja_anchor a | None \<Rightarrow> None) of
        None \<Rightarrow> r
      | Some v \<Rightarrow> r\<lparr>vd_anchor := Some (v_kind v, v_state v), vd_notes := map AnchorNote (v_notes v)\<rparr>)"

definition before_the_seal :: "string \<Rightarrow> dict list \<Rightarrow> job_audit option \<Rightarrow> verdict + verdict" where
  "before_the_seal job_id ordered audit =
     (let r = begun job_id ordered audit in
      case audit of
        None \<Rightarrow> Inr (noted AuditNotRead r)
      | Some a \<Rightarrow>
          if broken_at (ja_check a) \<noteq> None then
            Inl (ended BROKEN_LEDGER (AuditChainBroken (broken_reason (ja_check a))) None r)
          else
            (case ja_anchor a of
               None \<Rightarrow> Inr r
             | Some v \<Rightarrow>
                 (case v_broken v of
                    Some why \<Rightarrow> Inl (ended BROKEN_LEDGER (AnchorMismatch why) None r)
                  | None \<Rightarrow> Inr (if v_checked v then said AnchorChecked r else r))))"

text \<open>From the seal found to the end of the chain under its key, then to the verdict.\<close>

definition upto_the_chain ::
  "stdlib \<Rightarrow> string \<Rightarrow> dict list \<Rightarrow> key_ring \<Rightarrow> dict \<Rightarrow> verdict \<Rightarrow> verdict vstep" where
  "upto_the_chain L job_id ordered keys seal_d r =
     bind_v (check_digests L ordered r) (\<lambda>_.
     let r = said (RowsRecompute (length ordered)) r in
     bind_r (key_named keys (dict_get seal_d ''key_id'')) (\<lambda>key.
     case key of
       None \<Rightarrow> stop OTHER_KEY (SealedUnderOtherKey (py_str (py_or (dict_get seal_d ''key_id'') (PStr [])))) None r
     | Some k \<Rightarrow>
         bind_r (record_digest L seal_d k) (\<lambda>digest.
         if \<not> py_eq (PStr digest) (dict_get seal_d ''digest'') then
           stop BROKEN_LEDGER SealNotUnderKey None r
         else if py_str (dict_get seal_d ''job_id'') \<noteq> job_id then
           stop BROKEN_LEDGER SealNamesOtherJob None r
         else check_the_chain L (said SealVerifies r) job_id ordered seal_d k)))"

definition after_the_seal ::
  "stdlib \<Rightarrow> string \<Rightarrow> dict list \<Rightarrow> dict option \<Rightarrow> job_audit option \<Rightarrow> key_ring \<Rightarrow> dict \<Rightarrow> verdict
    \<Rightarrow> (py_error + verdict) option" where
  "after_the_seal L job_id ordered report audit keys seal_d r =
     (case upto_the_chain L job_id ordered keys seal_d (r\<lparr>vd_seal := Some seal_d\<rparr>) of
        Inl e \<Rightarrow> Some (Inl e)
      | Inr (Inl v) \<Rightarrow> Some (Inr v)
      | Inr (Inr r) \<Rightarrow>
          (case report of
             None \<Rightarrow> Some (Inr (check_the_deletion r seal_d audit))
           | Some rep \<Rightarrow>
               map_option (map_r (\<lambda>step. case step of Inl v \<Rightarrow> v | Inr r \<Rightarrow> final_verdict r audit))
                 (check_report L r seal_d rep audit keys)))"

definition verify_ledger ::
  "stdlib \<Rightarrow> string \<Rightarrow> dict list \<Rightarrow> dict option \<Rightarrow> job_audit option \<Rightarrow> key_ring
    \<Rightarrow> (py_error + answer) option" where
  "verify_ledger L job_id rows report audit keys =
     (let ordered = sort_key seq_of rows;
          chained_rows = filter (\<lambda>row. truthy (dict_get row ''digest'') \<or> truthy (dict_get row ''chain'')) ordered
      in
      case before_the_seal job_id ordered audit of
        Inl v \<Rightarrow> Some (Inr (Answer v))
      | Inr r \<Rightarrow>
          (case (case report of
                   Some rep \<Rightarrow> seal_of_the_report r rep chained_rows audit
                 | None \<Rightarrow> seal_without_a_report r ordered chained_rows audit) of
             Inl e \<Rightarrow> Some (Inl e)
           | Inr (Inl v) \<Rightarrow> Some (Inr (Answer v))
           | Inr (Inr (seal_d, r)) \<Rightarrow>
               if {''status'', ''job_id''} \<subseteq> fst ` set seal_d then Some (Inr (SealTaken seal_d))
               else map_option (map_r Answer) (after_the_seal L job_id ordered report audit keys seal_d r)))"

section \<open>The follow-ups\<close>

definition problem :: "follow_up_problem \<Rightarrow> follow_up_check \<Rightarrow> follow_up_check" where
  "problem p f = f\<lparr>fu_problems := fu_problems f @ [p]\<rparr>"

definition fu_note :: "follow_up_note \<Rightarrow> follow_up_check \<Rightarrow> follow_up_check" where
  "fu_note n f = f\<lparr>fu_notes := fu_notes f @ [n]\<rparr>"

definition matched :: "follow_up_check \<Rightarrow> follow_up_check" where
  "matched f = f\<lparr>fu_matched := fu_matched f + 1\<rparr>"

text \<open>The record against the chained row that holds it, once it verifies.\<close>

definition check_against_chain ::
  "string \<Rightarrow> dict \<Rightarrow> dict \<Rightarrow> dict option \<Rightarrow> follow_up_check \<Rightarrow> py_error + follow_up_check" where
  "check_against_chain own row record chain f =
     (case chain of
        None \<Rightarrow>
          map_r (\<lambda>ns.
            if has_infix ''did not land'' (join_with '' '' (map py_str ns)) then
              matched (fu_note (AuditRowDidNotLand own) f)
            else problem (NoChainedRow own) f)
            (py_iter (py_or (dict_get row ''notes'') (PList [])))
      | Some d \<Rightarrow>
          bind_r (bind_r (json_value (dict_get d ''record'')) canonical) (\<lambda>held.
          bind_r (bind_r (json_value (PDict record)) canonical) (\<lambda>own_text.
          Inr (if held \<noteq> own_text then problem (RecordDiffersFromChain own) f else matched f))))"

definition check_follow_up ::
  "stdlib \<Rightarrow> key_ring \<Rightarrow> (string \<Rightarrow> dict option) \<Rightarrow> dict \<Rightarrow> follow_up_check \<Rightarrow> py_error + follow_up_check" where
  "check_follow_up L keys held row f =
     (let own = py_str (dict_get row ''id''); chain = held own in
      case as_mapping (dict_get row ''record'') of
        None \<Rightarrow>
          Inr (if chain \<noteq> None then problem (NoRecordButChained own) f else fu_note (NoRecordNotChecked own) f)
      | Some record \<Rightarrow>
          bind_r (follow_up_digest L
              [(''question'', dict_get row ''question''), (''answer'', dict_get row ''answer''),
               (''model'', dict_get row ''model'')]) (\<lambda>digest.
          if \<not> py_eq (PStr digest) (dict_get record ''answer_sha256'') then Inr (problem (FollowUpChanged own) f)
          else if py_str (dict_get record ''follow_up_id'') \<noteq> own \<or>
                  py_str (dict_get record ''report_id'') \<noteq> py_str (dict_get row ''report_id'') \<or>
                  \<not> py_eq (dict_get record ''report_sha256'') (dict_get row ''report_sha256'') then
            Inr (problem (NamesAnother own) f)
          else
            (case map_of keys (py_str (py_or (dict_get record ''key_id'') (PStr []))) of
               None \<Rightarrow> check_against_chain own row record chain (fu_note (KeyNotDerivable own) f)
             | Some k \<Rightarrow>
                 bind_r (record_digest L record k) (\<lambda>rd.
                 if \<not> py_eq (PStr rd) (dict_get record ''digest'') then Inr (problem (RecordNotUnderKey own) f)
                 else check_against_chain own row record chain f))))"

fun fold_r :: "('a \<Rightarrow> 'b \<Rightarrow> 'e + 'b) \<Rightarrow> 'a list \<Rightarrow> 'b \<Rightarrow> 'e + 'b" where
  "fold_r g [] acc = Inr acc"
| "fold_r g (x # xs) acc = bind_r (g x acc) (fold_r g xs)"

definition gone_follow_up :: "string list \<Rightarrow> string \<times> dict \<Rightarrow> follow_up_check \<Rightarrow> follow_up_check" where
  "gone_follow_up reports idd f =
     (let named = (case as_mapping (dict_get (snd idd) ''record'') of
                     Some d \<Rightarrow> py_str (dict_get d ''report_id'') | None \<Rightarrow> [])
      in if named \<noteq> [] \<and> named \<in> set reports then problem (RowGone (fst idd)) f
         else fu_note (GoneWithReport (fst idd)) f)"

definition check_follow_ups ::
  "stdlib \<Rightarrow> dict list \<Rightarrow> dict list \<Rightarrow> key_ring \<Rightarrow> string list \<Rightarrow> py_error + follow_up_check" where
  "check_follow_ups L rows on_chain keys reports =
     (let pairs = map (\<lambda>d. (py_str (dict_get d ''follow_up_id''), d)) on_chain;
          held = map_of (rev pairs);
          stored = map (\<lambda>row. py_str (dict_get row ''id'')) rows;
          gone = sort (remdups (filter (\<lambda>i. i \<notin> set stored) (map fst pairs)))
      in
      map_r (\<lambda>f. fold (gone_follow_up reports) (map (\<lambda>i. (i, the (held i))) gone) f)
        (fold_r (check_follow_up L keys held) rows \<lparr>fu_problems = [], fu_notes = [], fu_matched = 0\<rparr>))"

definition with_follow_ups :: "verdict \<Rightarrow> follow_up_check \<Rightarrow> verdict" where
  "with_follow_ups v f =
     (let v = v\<lparr>vd_checks := vd_checks v @ (if 0 < fu_matched f then [FollowUpsMatch (fu_matched f)] else []),
                vd_notes := vd_notes v @ map FollowUpNote (fu_notes f)\<rparr>
      in
      case fu_problems f of
        [] \<Rightarrow> v
      | first # others \<Rightarrow>
          let v = (if vd_status v \<in> {VERIFIED, NOT_SEALED, DELETED}
                   then ended BROKEN_LEDGER FollowUpMismatch None v
                   else noted (FollowUpSaid first) v)
          in v\<lparr>vd_notes := vd_notes v @ map AlsoProblem others\<rparr>)"

section \<open>One job, read from the database\<close>

text \<open>Whether rows are missing up to the head: how many should exist and do.\<close>

definition chain_gap :: "audit_row list \<Rightarrow> chain_head option \<Rightarrow> (int \<times> int) option" where
  "chain_gap rows head =
     (case head of
        None \<Rightarrow> None
      | Some h \<Rightarrow>
          let present = int (length (filter (\<lambda>r. chain_seq r \<noteq> None \<and> row_seq r \<le> head_seq h) rows)) in
          if present \<noteq> head_seq h then Some (head_seq h, present) else None)"

text \<open>The details of the job's rows of one action that verified.\<close>

definition verified_details :: "chain_check \<Rightarrow> audit_row list \<Rightarrow> string \<Rightarrow> dict list" where
  "verified_details check own act =
     map (\<lambda>r. case as_mapping (details r) of Some d \<Rightarrow> d | None \<Rightarrow> [])
       (filter (\<lambda>r. action r = act \<and> row_seq r \<in> set (verified check)) own)"

definition job_past_anchor :: "anchor_verdict \<Rightarrow> audit_row list \<Rightarrow> anchor_verdict" where
  "job_past_anchor v own =
     (case v_anchored_seq v of
        Some n \<Rightarrow>
          if v_broken v = None \<and> own \<noteq> [] \<and> list_ex (\<lambda>r. n < row_seq r) own
          then v\<lparr>v_notes := v_notes v @ [JobPastAnchor]\<rparr> else v
      | None \<Rightarrow> v)"

definition job_audit_of ::
  "stdlib \<Rightarrow> audit_row list \<Rightarrow> chain_head option \<Rightarrow> key_ring \<Rightarrow> string option \<Rightarrow> anchor_verdict \<Rightarrow> string
    \<Rightarrow> py_error + job_audit" where
  "job_audit_of L log head keys current anchor job_id =
     (let own = own_rows log head job_id in
      map_r (\<lambda>check.
        \<lparr>ja_check = check,
         ja_seals = verified_details check own LEDGER_SEAL,
         ja_amendments = verified_details check own REPORT_AMEND,
         ja_deletes = verified_details check own REPORT_DELETE,
         ja_gap = chain_gap log head,
         ja_anchor = Some (job_past_anchor anchor own)\<rparr>)
        (job_check L log keys head current job_id))"

definition verify_job ::
  "stdlib \<Rightarrow> string \<Rightarrow> dict list \<Rightarrow> dict option \<Rightarrow> audit_row list \<Rightarrow> chain_head option \<Rightarrow> key_ring
    \<Rightarrow> string option \<Rightarrow> anchor_verdict \<Rightarrow> dict list \<Rightarrow> (py_error + answer) option" where
  "verify_job L job_id rows report log head keys current anchor asked =
     (case job_audit_of L log head keys current anchor job_id of
        Inl e \<Rightarrow> Some (Inl e)
      | Inr audit \<Rightarrow>
          map_option (\<lambda>got. bind_r got (\<lambda>ans.
            let follow_ups = verified_details (ja_check audit) (own_rows log head job_id) REPORT_FOLLOW_UP in
            if asked = [] \<and> follow_ups = [] then Inr ans
            else
              bind_r (check_follow_ups L asked follow_ups keys
                  (case report of
                     Some rep \<Rightarrow> if truthy (dict_get rep ''id'') then [py_str (dict_get rep ''id'')] else []
                   | None \<Rightarrow> []))
                (\<lambda>f. case ans of
                   Answer v \<Rightarrow> Inr (Answer (with_follow_ups v f))
                 | SealTaken d \<Rightarrow>
                     if {''checks'', ''notes''} \<subseteq> fst ` set d then Inr (SealTakenWith d f) else Inl KeyError
                 | SealTakenWith d f' \<Rightarrow> Inr (SealTakenWith d f'))))
            (verify_ledger L job_id rows report (Some audit) keys))"

end
