(* ===== verification/Ledger_Proofs.thy ===== *)
theory Ledger_Proofs
  imports Ledger_Verify Hash_Chain
begin

text \<open>
  What a verdict of \<open>verify_ledger\<close> rests on: each step's success and failure characterised,
  the stored rows as a fixed point of the sealing computation, and the ledger's link as an
  instance of the keyed hash chain.
\<close>

section \<open>Steps that end and steps that go on\<close>

lemma vstep_simps [simp]:
  "go x \<noteq> Inl e" "stop st why n r \<noteq> Inl e"
  "go x = Inr (Inr y) \<longleftrightarrow> x = y" "go x = go y \<longleftrightarrow> x = y" "go x \<noteq> Inr (Inl v)" "stop st why n r \<noteq> Inr (Inr y)"
  "stop st why n r = Inr (Inl v) \<longleftrightarrow> v = ended st why n r"
  "bind_v (go x) f = f x" "bind_v (Inl e) f = Inl e" "bind_v (Inr (Inl v)) f = Inr (Inl v)"
  "bind_v (Inr (Inr x)) f = f x" "bind_v (stop st why n r) f = stop st why n r"
  by (auto simp: go_def stop_def bind_v_def)

lemma bind_v_cases:
  "bind_v m f = (case m of Inl e \<Rightarrow> Inl e | Inr (Inl v) \<Rightarrow> Inr (Inl v) | Inr (Inr x) \<Rightarrow> f x)"
  by (auto simp: bind_v_def split: sum.splits)

lemma bind_v_goes: "bind_v m f = Inr (Inr y) \<longleftrightarrow> (\<exists>x. m = Inr (Inr x) \<and> f x = Inr (Inr y))"
  by (simp add: bind_v_cases split: sum.splits)

lemma bind_v_ends: "bind_v m f = Inr (Inl v) \<longleftrightarrow> m = Inr (Inl v) \<or> (\<exists>x. m = Inr (Inr x) \<and> f x = Inr (Inl v))"
  by (auto simp: bind_v_cases split: sum.splits)

lemmas vstep_iffs = bind_v_goes bind_v_ends bind_r_eq_Inr map_r_eq_Inr

lemma ended_sel [simp]:
  "vd_status (ended st why n r) = st" "vd_reason (ended st why n r) = Some why" "vd_first (ended st why n r) = n"
  "vd_seal (ended st why n r) = vd_seal r" "vd_head (ended st why n r) = vd_head r"
  "vd_entries (ended st why n r) = vd_entries r" "vd_amendments (ended st why n r) = vd_amendments r"
  by (simp_all add: ended_def)

lemma said_sel [simp]:
  "vd_seal (said l r) = vd_seal r" "vd_head (said l r) = vd_head r" "vd_pending (said l r) = vd_pending r"
  "vd_entries (said l r) = vd_entries r" "vd_amendments (said l r) = vd_amendments r"
  "vd_seal (noted n r) = vd_seal r" "vd_pending (noted n r) = vd_pending r"
  by (simp_all add: said_def noted_def)

text \<open>A verdict a step can end on is never a good one.\<close>

definition bad_end :: "'a vstep \<Rightarrow> bool" where
  "bad_end m \<longleftrightarrow> (\<forall>v. m = Inr (Inl v) \<longrightarrow> vd_status v \<notin> {VERIFIED, DELETED})"

lemma bad_endD: "bad_end m \<Longrightarrow> m = Inr (Inl v) \<Longrightarrow> vd_status v \<notin> {VERIFIED, DELETED}"
  by (auto simp: bad_end_def)

lemma bad_end_go [simp, intro]: "bad_end (go x)"
  by (simp add: bad_end_def)

lemma bad_end_stop [simp]: "bad_end (stop st why n r) \<longleftrightarrow> st \<notin> {VERIFIED, DELETED}"
  by (auto simp: bad_end_def)

lemma bad_end_Inl [simp]: "bad_end (Inl e)"
  by (simp add: bad_end_def)

lemma bad_end_bind_r [intro]: "(\<And>x. m = Inr x \<Longrightarrow> bad_end (f x)) \<Longrightarrow> bad_end (bind_r m f)"
  by (cases m) auto

lemma bad_end_bind_v [intro]: "bad_end m \<Longrightarrow> (\<And>x. m = Inr (Inr x) \<Longrightarrow> bad_end (f x)) \<Longrightarrow> bad_end (bind_v m f)"
  by (auto simp: bad_end_def bind_v_ends)

lemma bad_end_check_digests [simp]: "bad_end (check_digests L rows r)"
  by (induction rows) (auto intro!: bad_end_bind_r)

lemma bad_end_walk_links [simp]: "bad_end (walk_links L key rows p r)"
  by (induction rows arbitrary: p) (auto intro!: bad_end_bind_r)

lemma bad_end_check_the_chain [simp]: "bad_end (check_the_chain L r job rows seal_d key)"
  unfolding check_the_chain_def Let_def by (auto intro!: bad_end_bind_r bad_end_bind_v)

lemma bad_end_walk_amendments [simp]: "bad_end (walk_amendments L keys vs n prev expected r)"
proof (induction vs arbitrary: n prev expected)
  case (Cons v vs)
  then show ?case by (auto intro!: bad_end_bind_r split: option.splits)
qed simp

lemma bad_end_compare_recorded [simp]: "bad_end (compare_recorded held recorded n r)"
  by (induction held recorded n r rule: compare_recorded.induct) auto

lemma bad_end_walk_stored [simp]: "bad_end (walk_stored L r seal_d held keys)"
  unfolding walk_stored_def by (auto intro!: bad_end_bind_r bad_end_bind_v)

lemma bad_end_audited_amendments:
  "audited_amendments L r seal_d rid vs audit keys = Some m \<Longrightarrow> bad_end m"
  unfolding audited_amendments_def by (auto split: option.splits intro!: bad_end_bind_r bad_end_bind_v)

lemma bad_end_report_end [simp]: "bad_end (report_end L rep expected n r)"
  unfolding report_end_def by (auto intro!: bad_end_bind_r)

lemma bad_end_check_report: "check_report L r seal_d rep audit keys = Some m \<Longrightarrow> bad_end m"
  unfolding check_report_def Let_def
  by (auto split: if_splits sum.splits intro!: bad_end_bind_v dest: bad_end_audited_amendments)
    (auto simp: bad_end_def dest: bad_endD [OF bad_end_walk_stored])

lemma bad_end_no_seal [simp]: "bad_end (no_seal_in_report r rows seals audit)"
  unfolding no_seal_in_report_def by (auto intro!: bad_end_bind_r split: option.splits)

lemma bad_end_seal_on_the_chain [simp]: "bad_end (seal_on_the_chain r seal_d seals audit)"
  unfolding seal_on_the_chain_def Let_def by (auto split: option.splits)

lemma bad_end_seal_of_the_report [simp]: "bad_end (seal_of_the_report r rep rows audit)"
  unfolding seal_of_the_report_def Let_def by (auto split: list.splits option.splits intro!: bad_end_bind_v)

lemma bad_end_seal_without_a_report_end [simp]: "bad_end (seal_without_a_report_end r ordered rows audit)"
  unfolding seal_without_a_report_end_def by (auto split: option.splits)

lemma bad_end_seal_without_a_report [simp]: "bad_end (seal_without_a_report r ordered rows audit)"
  unfolding seal_without_a_report_def by (auto intro!: bad_end_bind_r split: option.splits)

section \<open>The rows: a fixed point of the sealing computation\<close>

lemma dict_set_same: "dict_get d k \<noteq> PNone \<Longrightarrow> dict_set d k (dict_get d k) = d"
  by (induction d) (auto simp: dict_get_def)

text \<open>Setting the two chain columns changes no digested column.\<close>

lemma entry_field_set:
  "k \<notin> set DIGESTED \<Longrightarrow> name \<in> set DIGESTED \<Longrightarrow> entry_field L (dict_set row k v) name = entry_field L row name"
  by (auto simp: entry_field_def Let_def)

lemma chain_columns: "''digest'' \<notin> set DIGESTED" "''chain'' \<notin> set DIGESTED"
  by (simp_all add: DIGESTED_def)

lemma entry_fields_set [simp]:
  "entry_fields L (dict_set row ''digest'' v) = entry_fields L row"
  "entry_fields L (dict_set row ''chain'' v) = entry_fields L row"
  unfolding entry_fields_def
  by (auto intro!: arg_cong [where f = "map_r concat"] arg_cong [where f = sequence_r]
      simp: entry_field_set chain_columns)

lemma entry_digest_set [simp]:
  "entry_digest L (dict_set row ''digest'' v) = entry_digest L row"
  "entry_digest L (dict_set row ''chain'' v) = entry_digest L row"
  by (simp_all add: entry_digest_def)

lemma seq_of_set [simp]:
  "seq_of (dict_set row ''digest'' v) = seq_of row" "seq_of (dict_set row ''chain'' v) = seq_of row"
  by (simp_all add: seq_of_def)

text \<open>A row whose stored digest is the one its columns give.\<close>

definition row_digested :: "stdlib \<Rightarrow> dict \<Rightarrow> bool" where
  "row_digested L row \<longleftrightarrow> (\<exists>d. entry_digest L row = Inr d \<and> dict_get row ''digest'' = PStr d)"

lemma check_digests_goes:
  "check_digests L rows r = Inr (Inr u) \<Longrightarrow> \<forall>row\<in>set rows. row_digested L row"
  by (induction rows) (auto simp: row_digested_def bind_r_eq_Inr split: if_splits)

lemma walk_links_goes:
  assumes "\<forall>row\<in>set rows. row_digested L row" "walk_links L key rows p r = Inr (Inr h)"
  shows "chain_from L key p rows = Inr (h, rows)"
  using assms
proof (induction rows arbitrary: p)
  case Nil
  then show ?case by (simp add: go_def)
next
  case (Cons row rows)
  from Cons.prems(1) obtain d where d: "entry_digest L row = Inr d" "dict_get row ''digest'' = PStr d"
    by (auto simp: row_digested_def)
  from Cons.prems(2) d obtain c where c: "link L p d key = Inr c" "dict_get row ''chain'' = PStr c"
    and rest: "walk_links L key rows c r = Inr (Inr h)"
    by (auto simp: bind_r_eq_Inr split: if_splits)
  have "dict_set (dict_set row ''digest'' (PStr d)) ''chain'' (PStr c) = row"
    using dict_set_same [of row "''digest''"] dict_set_same [of row "''chain''"] d(2) c(2) by simp
  with Cons.IH [OF _ rest] Cons.prems(1) d(1) c(1) show ?case by simp
qed

text \<open>The rows the sealing computation leaves.\<close>

lemma chain_from_rows:
  assumes "chain_from L key p rows = Inr (h, rows')"
  shows "map seq_of rows' = map seq_of rows \<and> length rows' = length rows \<and>
    (\<forall>row\<in>set rows'. row_digested L row) \<and> chain_from L key p rows' = Inr (h, rows')"
  using assms
proof (induction rows arbitrary: p rows')
  case (Cons row rows)
  then obtain d c ds where d: "entry_digest L row = Inr d" "link L p d key = Inr c"
    and rest: "chain_from L key c rows = Inr (h, ds)"
    and rows': "rows' = dict_set (dict_set row ''digest'' (PStr d)) ''chain'' (PStr c) # ds"
    by (auto simp: result_iffs split: prod.splits)
  let ?row = "dict_set (dict_set row ''digest'' (PStr d)) ''chain'' (PStr c)"
  have "dict_set (dict_set ?row ''digest'' (PStr d)) ''chain'' (PStr c) = ?row"
    using dict_set_same [of ?row "''digest''"] dict_set_same [of ?row "''chain''"] by simp
  with Cons.IH [OF rest] d show ?case by (auto simp: rows' row_digested_def)
qed simp

lemma chain_from_links:
  assumes "chain_from L key p rows = Inr (h, rows)" "row \<in> set rows"
  shows "\<exists>c. dict_get row ''chain'' = PStr c"
  using assms
proof (induction rows arbitrary: p)
  case (Cons x rows)
  then obtain d c ds where "chain_from L key c rows = Inr (h, ds)"
    and eq: "x # rows = dict_set (dict_set x ''digest'' (PStr d)) ''chain'' (PStr c) # ds"
    by (auto simp: result_iffs split: prod.splits)
  then have x: "x = dict_set (dict_set x ''digest'' (PStr d)) ''chain'' (PStr c)"
    and rest: "chain_from L key c rows = Inr (h, rows)" by auto
  have "dict_get x ''chain'' = PStr c" by (subst x) simp
  with Cons.IH [OF rest] Cons.prems(2) show ?case by auto
qed simp

text \<open>Over rows the sealing computation leaves, the two walks go through to its head.\<close>

definition digests_shown :: "stdlib \<Rightarrow> bool" where
  "digests_shown L \<longleftrightarrow> (\<forall>m. sha256 L m \<noteq> [])"

lemma shown_digest: "digests_shown L \<Longrightarrow> entry_digest L row = Inr d \<Longrightarrow> d \<noteq> []"
  by (auto simp: digests_shown_def entry_digest_def result_iffs hexdigest_def hex_byte_def)

lemma check_digests_pass:
  "digests_shown L \<Longrightarrow> \<forall>row\<in>set rows. row_digested L row \<Longrightarrow> check_digests L rows r = go ()"
  by (induction rows) (auto simp: row_digested_def dest: shown_digest)

lemma walk_links_pass:
  assumes "chain_from L key p rows = Inr (h, rows)" "\<forall>row\<in>set rows. row_digested L row"
  shows "walk_links L key rows p r = go h"
  using assms
proof (induction rows arbitrary: p)
  case (Cons x rows)
  then obtain d c ds where l: "entry_digest L x = Inr d" "link L p d key = Inr c"
    and "chain_from L key c rows = Inr (h, ds)"
    and eq: "x # rows = dict_set (dict_set x ''digest'' (PStr d)) ''chain'' (PStr c) # ds"
    by (auto simp: result_iffs split: prod.splits)
  then have x: "x = dict_set (dict_set x ''digest'' (PStr d)) ''chain'' (PStr c)"
    and rest: "chain_from L key c rows = Inr (h, rows)" by auto
  have "dict_get x ''digest'' = PStr d" by (subst x) simp
  moreover have "dict_get x ''chain'' = PStr c" by (subst x) simp
  ultimately show ?case using Cons.IH [OF rest] Cons.prems(2) l by simp
qed simp

section \<open>What each step that goes on has established\<close>

lemma result_sel [simp]:
  "vd_status (r\<lparr>vd_seal := x\<rparr>) = vd_status r" "vd_pending (r\<lparr>vd_seal := x\<rparr>) = vd_pending r"
  by simp_all

lemma Nil_filter: "[] = filter P xs \<longleftrightarrow> (\<forall>x\<in>set xs. \<not> P x)"
  by (metis filter_empty_conv)

lemma check_the_chain_goes:
  assumes "check_the_chain L r job rows seal_d key = Inr (Inr r')" "\<forall>row\<in>set rows. row_digested L row"
  obtains start head where "genesis L job key = Inr start" "chain_from L key start rows = Inr (head, rows)"
    "dict_get seal_d ''head'' = PStr head"
    "py_int (py_or (dict_get seal_d ''entries'') (PInt 0)) = Inr (int (length rows))"
    "rows \<noteq> [] \<Longrightarrow> \<exists>n. py_int (dict_get seal_d ''last_seq'') = Inr n \<and> n \<le> seq_of (last rows) \<and>
       (\<forall>row\<in>set rows. seq_of row \<le> n)"
    "r' = said (ChainEndsOnHead (length rows)) (r\<lparr>vd_head := Some head\<rparr>)"
proof -
  from assms(1) obtain start head where g: "genesis L job key = Inr start"
    and w: "walk_links L key rows start r = Inr (Inr head)"
    by (auto simp: check_the_chain_def vstep_iffs)
  have c: "chain_from L key start rows = Inr (head, rows)" by (rule walk_links_goes [OF assms(2) w])
  from assms(1) g w show thesis
    by (intro that [OF g c])
      (auto simp: check_the_chain_def Let_def rows_beyond_def result_iffs filter_empty_conv Nil_filter not_less
        split: if_splits)
qed

fun amended :: "stdlib \<Rightarrow> key_ring \<Rightarrow> py list \<Rightarrow> nat \<Rightarrow> py \<Rightarrow> py \<Rightarrow> py \<Rightarrow> bool" where
  "amended L keys [] n previous before after \<longleftrightarrow> after = before"
| "amended L keys (v # vs) n previous before after \<longleftrightarrow>
     (\<exists>rec k d. v = PDict rec \<and> key_named keys (dict_get rec ''key_id'') = Inr (Some k) \<and>
        record_digest L rec k = Inr d \<and> dict_get rec ''digest'' = PStr d \<and>
        py_eq (dict_get rec ''number'') (PInt (int n)) \<and> py_eq (dict_get rec ''prev'') previous \<and>
        py_eq (dict_get rec ''report_sha256_before'') before \<and>
        amended L keys vs (n + 1) (PStr d) (dict_get rec ''report_sha256_after'') after)"

lemma walk_amendments_goes:
  "walk_amendments L keys vs n previous before r = Inr (Inr after) \<longleftrightarrow> amended L keys vs n previous before after"
proof (induction vs arbitrary: n previous before)
  case (Cons v vs)
  show ?case
  proof (cases "as_mapping v")
    case None
    then show ?thesis by auto
  next
    case (Some rec)
    then show ?thesis
      using Cons.IH by (auto simp: as_mapping_Some bind_r_eq_Inr split: option.splits)
  qed
qed auto

lemma walk_amendments_pass:
  "amended L keys vs n previous before after \<Longrightarrow> walk_amendments L keys vs n previous before r = go after"
  by (simp add: go_def walk_amendments_goes)

lemma compare_recorded_goes:
  "compare_recorded held recorded n r = Inr (Inr u) \<longleftrightarrow>
     length recorded \<le> length held \<and> list_all2 (\<lambda>v d. py_eq v (PDict d)) (take (length recorded) held) recorded"
  by (induction held recorded n r rule: compare_recorded.induct) (auto simp: go_def)

lemma audited_amendments_goes:
  assumes "audited_amendments L r seal_d rid vs audit keys = Some (Inr (Inr r'))" "vd_pending r' = None"
  shows "vd_pending r = None \<and> vd_seal r' = vd_seal r \<and> vd_head r' = vd_head r \<and>
    (\<forall>a. audit = Some a \<longrightarrow> (\<exists>recorded. audit_amendments L seal_d rid a keys = Some (Inr recorded) \<and>
      list_all2 (\<lambda>v d. py_eq v (PDict d)) vs recorded))"
proof (cases audit)
  case None
  with assms show ?thesis by (auto simp: audited_amendments_def)
next
  case (Some a)
  with assms(1) obtain recorded where rec: "audit_amendments L seal_d rid a keys = Some (Inr recorded)"
    and cmp: "compare_recorded vs recorded 1 r = Inr (Inr ())"
    and r': "r' = said (AmendmentsStored (length recorded))
              (if length recorded < length vs \<and> vd_pending r = None
               then r\<lparr>vd_pending := Some (AmendmentNotLanded (length recorded + 1))\<rparr> else r)"
    by (auto simp: audited_amendments_def vstep_iffs)
  from r' assms(2) have "\<not> length recorded < length vs" "vd_pending r = None" by (auto split: if_splits)
  with cmp rec r' Some show ?thesis by (auto simp: compare_recorded_goes)
qed

lemma check_report_goes:
  assumes "check_report L r seal_d rep audit keys = Some (Inr (Inr r'))" "vd_pending r' = None"
  obtains vs after dig where "stored_amendments (dict_get rep ''malware_report'') = vs" "vd_pending r = None"
    "vd_seal r' = vd_seal r" "vd_head r' = vd_head r"
    "py_iter vs = Inr after"
    "amended L keys after 1 (dict_get seal_d ''digest'') (dict_get seal_d ''report_sha256'') (PStr dig)"
    "report_digest L rep [] = Inr dig"
    "\<And>a. audit = Some a \<Longrightarrow> \<exists>recorded. audit_amendments L seal_d (py_str (dict_get rep ''id'')) a keys = Some (Inr recorded) \<and>
      list_all2 (\<lambda>v d. py_eq v (PDict d)) after recorded"
proof -
  from assms(1) obtain vs expected r1 where w: "walk_stored L r seal_d (stored_amendments (dict_get rep ''malware_report'')) keys =
      Inr (Inr (vs, expected))"
    and a: "audited_amendments L (r\<lparr>vd_amendments := length vs\<rparr>) seal_d (py_str (dict_get rep ''id'')) vs audit keys
      = Some (Inr (Inr r1))"
    and e: "report_end L rep expected (length vs) r1 = Inr (Inr r')"
    by (auto simp: check_report_def Let_def bind_v_goes split: if_splits sum.splits)
  from e obtain dig where dig: "report_digest L rep [] = Inr dig" "expected = PStr dig"
    and r': "r' = said (ReportEquals (length vs)) r1"
    by (auto simp: report_end_def bind_r_eq_Inr split: if_splits)
  from w have vs: "py_iter (stored_amendments (dict_get rep ''malware_report'')) = Inr vs"
    and am: "amended L keys vs 1 (dict_get seal_d ''digest'') (dict_get seal_d ''report_sha256'') expected"
    by (auto simp: walk_stored_def vstep_iffs walk_amendments_goes)
  from audited_amendments_goes [OF a] r' assms(2) show thesis
    by (intro that [OF refl _ _ _ vs am [unfolded dig(2)] dig(1)]) auto
qed

lemma seal_on_the_chain_goes:
  assumes "seal_on_the_chain r seal_d seals audit = Inr (Inr r')" "vd_pending r' = None"
  shows "vd_pending r = None \<and>
    (audit \<noteq> None \<longrightarrow> (\<exists>d\<in>set seals. py_eq (dict_get d ''seal'') (PDict (core_of seal_d))))"
proof (cases audit)
  case None
  with assms show ?thesis by (simp add: seal_on_the_chain_def)
next
  case (Some a)
  let ?matching = "filter (\<lambda>v. py_eq (digest_of v) (dict_get (core_of seal_d) ''digest'')) (map (\<lambda>d. dict_get d ''seal'') seals)"
  from assms Some have m: "?matching \<noteq> []" "py_eq (last ?matching) (PDict (core_of seal_d))" "vd_pending r = None"
    by (auto simp: seal_on_the_chain_def Let_def split: if_splits)
  have "last ?matching \<in> set (map (\<lambda>d. dict_get d ''seal'') seals)"
    using last_in_set [OF m(1)] by auto
  with m(2,3) show ?thesis by auto
qed

lemma no_seal_no_go [simp]: "no_seal_in_report r rows seals audit \<noteq> Inr (Inr x)"
  by (auto simp: no_seal_in_report_def bind_r_eq_Inr split: option.splits)

lemma seal_copies_first:
  "as_mapping (dict_get rep ''ledger_seal'') = Some d \<Longrightarrow> \<exists>rest. seal_copies rep = (''report row'', d) # rest"
  by (simp add: seal_copies_def map_filter_simps)

lemma seal_copies_no_row:
  assumes "as_mapping (dict_get rep ''ledger_seal'') = None"
  shows "map_of (seal_copies rep) ''report row'' = None"
proof -
  let ?f = "\<lambda>(name, v). map_option (Pair name) (as_mapping v)"
  have away: "map_of (List.map_filter ?f xs) k = None" if "k \<notin> fst ` set xs"
    for xs :: "(string \<times> py) list" and k
    using that by (induction xs) (auto simp: map_filter_simps split: option.splits)
  have "seal_copies rep = List.map_filter ?f
      [(''report payload'', sub_get (dict_get rep ''malware_report'') SEAL_KEY),
       (''run summary'', sub_get (dict_get rep ''run_summary'') SEAL_KEY)]" (is "_ = List.map_filter _ ?xs")
    by (simp only: seal_copies_def map_filter_simps assms prod.case option.map option.case)
  moreover have "''report row'' \<notin> fst ` set ?xs" by simp
  note away [OF this]
  ultimately show ?thesis by (simp only:)
qed

lemma seal_of_the_report_goes:
  assumes "seal_of_the_report r rep rows audit = Inr (Inr (seal_d, r'))"
  shows "dict_get rep ''ledger_seal'' = PDict seal_d \<and>
    py_str (dict_get seal_d ''report_id'') = py_str (dict_get rep ''id'') \<and>
    (vd_pending r' = None \<longrightarrow> vd_pending r = None \<and>
      (\<forall>a. audit = Some a \<longrightarrow> (\<exists>d\<in>set (ja_seals a). py_str (dict_get d ''report_id'') = py_str (dict_get rep ''id'') \<and>
        py_eq (dict_get d ''seal'') (PDict (core_of seal_d)))))"
proof -
  let ?seals = "filter (\<lambda>d. py_str (dict_get d ''report_id'') = py_str (dict_get rep ''id''))
    (case audit of Some a \<Rightarrow> ja_seals a | None \<Rightarrow> [])"
  have "seal_copies rep \<noteq> []" using assms by (auto simp: seal_of_the_report_def Let_def)
  then obtain name first rest where c: "seal_copies rep = (name, first) # rest" by (cases "seal_copies rep") auto
  let ?r = "said (CopiesAgree (sort (map fst (seal_copies rep)))) r"
  note step = assms [unfolded seal_of_the_report_def Let_def]
  have row: "map_of (seal_copies rep) ''report row'' \<noteq> None"
    and doc: "document_without_seal rep (seal_copies rep) = None"
    using step by (auto simp: c split: if_splits option.splits)
  have rid: "py_str (dict_get first ''report_id'') = py_str (dict_get rep ''id'')"
    and "bind_v (seal_on_the_chain ?r first ?seals audit) (\<lambda>r. go (first, r)) = Inr (Inr (seal_d, r'))"
    using step row doc by (auto simp: c split: if_splits)
  then have first: "first = seal_d" and s: "seal_on_the_chain ?r seal_d ?seals audit = Inr (Inr r')"
    by (auto simp: bind_v_goes)
  note c = c [unfolded first] and rid = rid [unfolded first]
  from row obtain d where d: "as_mapping (dict_get rep ''ledger_seal'') = Some d"
    using seal_copies_no_row by fastforce
  have "seal_d = d" using seal_copies_first [OF d] c by auto
  with d have "dict_get rep ''ledger_seal'' = PDict seal_d" by (simp add: as_mapping_Some)
  moreover have "vd_pending r = None \<and>
      (\<forall>a. audit = Some a \<longrightarrow> (\<exists>d\<in>set (ja_seals a). py_str (dict_get d ''report_id'') = py_str (dict_get rep ''id'') \<and>
        py_eq (dict_get d ''seal'') (PDict (core_of seal_d))))" if "vd_pending r' = None"
    using seal_on_the_chain_goes [OF s that] by auto
  ultimately show ?thesis using rid by blast
qed

lemma upto_the_chain_goes:
  assumes "upto_the_chain L job rows keys seal_d r = Inr (Inr r')"
  obtains key d start head where "key_named keys (dict_get seal_d ''key_id'') = Inr (Some key)"
    "record_digest L seal_d key = Inr d" "dict_get seal_d ''digest'' = PStr d"
    "py_str (dict_get seal_d ''job_id'') = job"
    "genesis L job key = Inr start" "chain_from L key start rows = Inr (head, rows)"
    "dict_get seal_d ''head'' = PStr head" "\<forall>row\<in>set rows. row_digested L row"
    "py_int (py_or (dict_get seal_d ''entries'') (PInt 0)) = Inr (int (length rows))"
    "vd_pending r' = vd_pending r" "vd_seal r' = vd_seal r" "vd_head r' = Some head"
proof -
  from assms obtain u key d where c: "check_digests L rows r = Inr (Inr u)"
    and k: "key_named keys (dict_get seal_d ''key_id'') = Inr (Some key)"
    and d: "record_digest L seal_d key = Inr d" "dict_get seal_d ''digest'' = PStr d"
      "py_str (dict_get seal_d ''job_id'') = job"
    and ch: "check_the_chain L (said SealVerifies (said (RowsRecompute (length rows)) r)) job rows seal_d key = Inr (Inr r')"
    by (auto simp: upto_the_chain_def Let_def bind_v_goes bind_r_eq_Inr split: option.splits if_splits)
  note dig = check_digests_goes [OF c]
  show thesis
    by (rule check_the_chain_goes [OF ch dig]) (rule that [OF k d], use dig in auto)
qed

section \<open>The ledger's link as a hash chain\<close>

text \<open>
  The values the columns of \<open>evidence_entries\<close> can hold: JSON documents whose floats are floats,
  a time, or a scalar.
\<close>

definition scalar :: "py \<Rightarrow> bool" where
  "scalar v = (case v of PFloat f \<Rightarrow> float_wf f | PList vs \<Rightarrow> False | PDict d \<Rightarrow> False | PMoment t off \<Rightarrow> False | _ \<Rightarrow> True)"

definition columns_wf :: "dict \<Rightarrow> bool" where
  "columns_wf row \<longleftrightarrow> list_all (\<lambda>name. let v = dict_get row name in
     if name \<in> set JSON_COLUMNS then floats_wf v else name = ''created_at'' \<or> scalar v) DIGESTED"

lemma timestamp_normal: "timestamp fromiso v = Inr w \<Longrightarrow> normal w"
  by (auto simp: timestamp_def Let_def result_iffs split: py.splits option.splits prod.splits)

lemma number_normal: "float_wf f \<Longrightarrow> number f = Inr w \<Longrightarrow> normal w"
  by (auto simp: number_def split: pyfloat.splits if_splits)

lemma entry_field_normal:
  assumes "columns_wf row" "name \<in> set DIGESTED" "entry_field L row name = Inr cols"
  shows "normal (PDict cols)"
proof -
  let ?v = "dict_get row name"
  have wf: "if name \<in> set JSON_COLUMNS then floats_wf ?v else name = ''created_at'' \<or> scalar ?v"
    using assms(1,2) by (auto simp: columns_wf_def list_all_iff Let_def)
  have "normal w" if "(if name \<in> set JSON_COLUMNS then json_value ?v
      else if name = ''created_at'' then timestamp (fromisoformat L) ?v
      else case ?v of PFloat f \<Rightarrow> number f | _ \<Rightarrow> Inr ?v) = Inr w" for w
    using wf that
    by (auto simp: scalar_def intro: json_value_normal timestamp_normal number_normal split: if_splits py.splits)
  with assms(3) show ?thesis
    by (fastforce simp: entry_field_def Let_def map_r_eq_Inr split: if_splits)
qed

lemma entry_fields_normal:
  assumes "columns_wf row" "entry_fields L row = Inr cols"
  shows "normal (PDict cols)"
proof -
  from assms(2) obtain parts where parts: "map (entry_field L row) DIGESTED = map Inr parts" "cols = concat parts"
    by (auto simp: entry_fields_def result_iffs sequence_r_eq_Inr)
  have "normal (PDict part)" if "part \<in> set parts" for part
  proof -
    from that have "Inr part \<in> set (map (entry_field L row) DIGESTED)" unfolding parts(1) by simp
    then obtain name where "name \<in> set DIGESTED" "entry_field L row name = Inr part" by auto
    then show ?thesis by (rule entry_field_normal [OF assms(1)])
  qed
  then show ?thesis by (auto simp: parts(2))
qed

definition entry_bytes :: "stdlib \<Rightarrow> dict \<Rightarrow> string" where
  "entry_bytes L row =
     (case bind_r (entry_fields L row) (\<lambda>cols. canonical (PDict cols)) of Inr bytes \<Rightarrow> ENTRY_TAG @ bytes | Inl e \<Rightarrow> [])"

definition same_entry :: "stdlib \<Rightarrow> dict \<Rightarrow> dict \<Rightarrow> bool" where
  "same_entry L r r' \<longleftrightarrow> (\<exists>cols cols'. entry_fields L r = Inr cols \<and> entry_fields L r' = Inr cols' \<and>
     sorted_form (PDict cols) = sorted_form (PDict cols'))"

definition sealed_row :: "stdlib \<Rightarrow> dict \<Rightarrow> bool" where
  "sealed_row L row \<longleftrightarrow> row_digested L row \<and> columns_wf row"

definition ledger_link_text :: "string \<Rightarrow> dict \<Rightarrow> string" where
  "ledger_link_text p row = LINK_TAG @ p @ '':'' @ py_str (dict_get row ''digest'')"

definition ledger_step :: "stdlib \<Rightarrow> chain_key \<Rightarrow> string \<Rightarrow> dict \<Rightarrow> string" where
  "ledger_step L key p row = hexdigest (hmac_sha256 L (ck_key key) (ledger_link_text p row))"

definition ledger_clash :: "stdlib \<Rightarrow> chain_key \<Rightarrow> string \<Rightarrow> dict \<Rightarrow> string \<Rightarrow> dict \<Rightarrow> bool" where
  "ledger_clash L key p r p' r' \<longleftrightarrow>
     collision (hmac_sha256 L (ck_key key)) (ledger_link_text p r) (ledger_link_text p' r') \<or>
     collision (sha256 L) (entry_bytes L r) (entry_bytes L r')"

lemma sealed_row_bytes:
  assumes "sealed_row L r"
  obtains cols where "entry_fields L r = Inr cols" "normal (PDict cols)"
    "dict_get r ''digest'' = PStr (hexdigest (sha256 L (entry_bytes L r)))"
    "entry_bytes L r = ENTRY_TAG @ text_of (sorted_form (PDict cols))"
proof -
  from assms obtain cols where c: "entry_fields L r = Inr cols"
    by (auto simp: sealed_row_def row_digested_def entry_digest_def result_iffs)
  have "normal (PDict cols)" using assms by (intro entry_fields_normal [OF _ c]) (simp add: sealed_row_def)
  with c canonical_text [OF this] assms show thesis
    by (intro that [of cols]) (auto simp: sealed_row_def row_digested_def entry_digest_def entry_bytes_def)
qed

lemma ledger_step_eq:
  assumes "sealed_row L r" "sealed_row L r'" and eq: "ledger_step L key p r = ledger_step L key p' r'"
  shows "(p = p' \<and> same_entry L r r') \<or> ledger_clash L key p r p' r'"
proof (cases "ledger_clash L key p r p' r'")
  case False
  obtain cols where c: "entry_fields L r = Inr cols" "normal (PDict cols)"
    "dict_get r ''digest'' = PStr (hexdigest (sha256 L (entry_bytes L r)))"
    "entry_bytes L r = ENTRY_TAG @ text_of (sorted_form (PDict cols))"
    using assms(1) by (rule sealed_row_bytes)
  obtain cols' where c': "entry_fields L r' = Inr cols'" "normal (PDict cols')"
    "dict_get r' ''digest'' = PStr (hexdigest (sha256 L (entry_bytes L r')))"
    "entry_bytes L r' = ENTRY_TAG @ text_of (sorted_form (PDict cols'))"
    using assms(2) by (rule sealed_row_bytes)
  from eq False have "ledger_link_text p r = ledger_link_text p' r'"
    by (auto simp: ledger_step_def ledger_clash_def collision_def)
  then have "p @ CHR '':'' # hexdigest (sha256 L (entry_bytes L r)) =
      p' @ CHR '':'' # hexdigest (sha256 L (entry_bytes L r'))"
    by (simp add: ledger_link_text_def c(3) c'(3))
  from split_at_last [OF hexdigest_no_colon hexdigest_no_colon this]
  have p: "p = p'" and d: "sha256 L (entry_bytes L r) = sha256 L (entry_bytes L r')"
    by simp_all
  with False have "entry_bytes L r = entry_bytes L r'" by (auto simp: ledger_clash_def collision_def)
  then have "canonical (PDict cols) = canonical (PDict cols')"
    using c(4) c'(4) canonical_text [OF c(2)] canonical_text [OF c'(2)] by simp
  then have "sorted_form (PDict cols) = sorted_form (PDict cols')"
    using canonical_inject [OF c(2) c'(2)] by simp
  with p c(1) c'(1) show ?thesis by (auto simp: same_entry_def)
qed simp

interpretation ledger: hash_chain "ledger_step L key" "sealed_row L" "same_entry L" "ledger_clash L key"
  for L key
  by unfold_locales (rule ledger_step_eq)

lemma chain_from_value:
  "chain_from L key p rows = Inr (h, rows) \<Longrightarrow> h = ledger.value_after L key p rows"
proof (induction rows arbitrary: p)
  case (Cons x rows)
  then obtain d c ds where l: "entry_digest L x = Inr d" "link L p d key = Inr c"
    and "chain_from L key c rows = Inr (h, ds)"
    and eq: "x # rows = dict_set (dict_set x ''digest'' (PStr d)) ''chain'' (PStr c) # ds"
    by (auto simp: result_iffs split: prod.splits)
  then have x: "x = dict_set (dict_set x ''digest'' (PStr d)) ''chain'' (PStr c)"
    and rest: "chain_from L key c rows = Inr (h, rows)" by auto
  have "dict_get x ''digest'' = PStr d" by (subst x) simp
  then have "ledger_step L key p x = c"
    using l(2) by (auto simp: link_def link_message_def keyed_def ledger_step_def ledger_link_text_def result_iffs
        split: if_splits)
  with Cons.IH [OF rest] show ?case by (simp add: ledger.value_after_def)
qed (simp add: ledger.value_after_def)

text \<open>Two sets of rows one head closes.\<close>

lemma same_head_entries:
  assumes "chain_from L key start rows = Inr (h, rows)" "chain_from L key start rows' = Inr (h, rows')"
    and "\<forall>row\<in>set rows \<union> set rows'. sealed_row L row" "length rows = length rows'"
  shows "list_all2 (same_entry L) rows rows' \<or>
    (\<exists>i<length rows. ledger_clash L key (ledger.value_after L key start (take i rows)) (rows ! i)
      (ledger.value_after L key start (take i rows')) (rows' ! i))"
  using ledger.same_end [OF assms(4), of L key start start] assms(3)
    chain_from_value [OF assms(1)] chain_from_value [OF assms(2)] by auto

end
