(* ===== verification/Ledger_Seal.thy ===== *)
theory Ledger_Seal
  imports Ledger_Proofs
begin

text \<open>
  The two places that write seals: the worker that stores a report
  (\<open>_seal_the_ledger\<close>, \<open>apps/api/app/worker/analysis_worker.py\<close>) and the one that changes a stored
  report afterwards (\<open>write_under_lock\<close>, \<open>apps/api/app/worker/enrich_worker.py\<close>), each with the
  audit row it appends. What they leave passes \<open>verify_ledger\<close>.
\<close>

section \<open>Sealing a report and changing a sealed one\<close>

text \<open>
  \<open>_seal_the_ledger\<close>: the seal, the rows with their chain columns, the report row with the
  three copies of the seal and the session after the audit append. An exception ends the
  caller's transaction.
\<close>

definition seal_the_ledger ::
  "stdlib \<Rightarrow> key_ring \<Rightarrow> string \<Rightarrow> dict list \<Rightarrow> dict \<Rightarrow> chain_key \<Rightarrow> py \<Rightarrow> py \<Rightarrow> session
    \<Rightarrow> py_error + (dict \<times> dict list \<times> dict \<times> session)" where
  "seal_the_ledger L known job_id rows report key sealed_at now s =
     bind_r (chain_rows L job_id rows key) (\<lambda>(head, rows').
     bind_r (report_digest L report []) (\<lambda>dig.
     let report_id = py_str (dict_get report ''id'') in
     bind_r (seal L job_id rows' head dig sealed_at key report_id) (\<lambda>core.
     let (row, s') = append L known key now LEDGER_SEAL ''job'' (Some job_id)
                       [(''report_id'', PStr report_id), (''seal'', PDict core)] None s
     in
     map_r (\<lambda>seal_d.
       (seal_d, rows',
        dict_set (dict_set (dict_set report
          ''ledger_seal'' (PDict seal_d))
          ''malware_report'' (with_seal (dict_get report ''malware_report'') seal_d))
          ''run_summary'' (with_seal (dict_get report ''run_summary'') seal_d), s'))
       (anchored L core (row \<noteq> None) key))))"

text \<open>
  \<open>write_under_lock\<close> over the report as it was read; \<open>change\<close> is the caller's, \<open>key\<close> what
  \<open>platform_key_status\<close> answers. The amendment written, the report row and the session after it.
\<close>

definition write_under_lock ::
  "stdlib \<Rightarrow> key_ring \<Rightarrow> chain_key option \<Rightarrow> (dict \<Rightarrow> py \<Rightarrow> dict \<times> py) \<Rightarrow> string \<Rightarrow> py \<Rightarrow> py \<Rightarrow> dict \<Rightarrow> session
    \<Rightarrow> py_error + (dict option \<times> dict \<times> session)" where
  "write_under_lock L known key change kind moment now report s =
     (let stored = (case as_mapping (dict_get report ''malware_report'') of Some d \<Rightarrow> d | None \<Rightarrow> []);
          (payload, column) = change stored (dict_get report ''run_summary'');
          seal_record = dict_get report ''ledger_seal'';
          key = (if as_mapping seal_record \<noteq> None then key else None)
      in
      bind_r (case key of
           Some k \<Rightarrow> amend L report payload column seal_record kind k moment
         | None \<Rightarrow> Inr (payload, column, None))
        (\<lambda>(payload, column, record).
        let report' = dict_set report ''malware_report'' (PDict payload);
            report' = (if column \<noteq> PNone then dict_set report' ''run_summary'' column else report')
        in
        Inr (record, report',
          (case (record, key) of
             (Some r, Some k) \<Rightarrow>
               snd (append L known k now REPORT_AMEND ''job'' (Some (py_str (dict_get report ''job_id'')))
                 [(''report_id'', PStr (py_str (dict_get report ''id''))), (''amendment'', PDict r)] None s)
           | _ \<Rightarrow> s))))"

section \<open>The report's digest does not cover the seal\<close>

lemma report_digest_cong:
  assumes "\<And>name. name \<in> set REPORT_DIGESTED \<Longrightarrow>
    report_field report overrides name = report_field report' overrides' name"
  shows "report_digest L report overrides = report_digest L report' overrides'"
proof -
  have "map (report_field report overrides) REPORT_DIGESTED = map (report_field report' overrides') REPORT_DIGESTED"
    using assms by (intro map_cong) auto
  then show ?thesis by (simp only: report_digest_def report_fields_def)
qed

lemma report_field_get:
  assumes "(case map_of overrides name of Some v \<Rightarrow> v | None \<Rightarrow> dict_get report name) =
      (case map_of overrides' name of Some v \<Rightarrow> v | None \<Rightarrow> dict_get report' name)"
  shows "report_field report overrides name = report_field report' overrides' name"
  unfolding report_field_def Let_def by (simp only: assms)

lemma report_field_sealed:
  assumes "name \<in> {''malware_report'', ''run_summary''}"
    and "without_seal (case map_of overrides name of Some v \<Rightarrow> v | None \<Rightarrow> dict_get report name) =
      without_seal (case map_of overrides' name of Some v \<Rightarrow> v | None \<Rightarrow> dict_get report' name)"
  shows "report_field report overrides name = report_field report' overrides' name"
proof -
  have "report_field report overrides name = map_r (Pair name)
      (without_seal (case map_of overrides name of Some v \<Rightarrow> v | None \<Rightarrow> dict_get report name))" for report overrides
    using assms(1) by (simp only: report_field_def Let_def if_True)
  then show ?thesis by (simp only: assms(2))
qed

lemma without_seal_with_seal [simp]: "without_seal (with_seal v d) = without_seal v"
  by (cases v) (simp_all add: with_seal_def without_seal_def)

lemma without_seal_set [simp]:
  "without_seal (PDict (dict_set d SEAL_KEY v)) = without_seal (PDict d)"
  "without_seal (PDict (dict_set d AMENDMENTS_KEY v)) = without_seal (PDict d)"
  by (simp_all add: without_seal_def)

lemma report_names:
  "name \<in> set REPORT_DIGESTED \<Longrightarrow> name \<noteq> ''ledger_seal''"
  by (auto simp: REPORT_DIGESTED_def)

lemma sealed_report_digest:
  "report_digest L (dict_set (dict_set (dict_set report
      ''ledger_seal'' x) ''malware_report'' (with_seal (dict_get report ''malware_report'') d))
      ''run_summary'' (with_seal (dict_get report ''run_summary'') d)) [] = report_digest L report []"
proof (rule report_digest_cong)
  fix name assume name: "name \<in> set REPORT_DIGESTED"
  let ?r = "dict_set (dict_set (dict_set report
      ''ledger_seal'' x) ''malware_report'' (with_seal (dict_get report ''malware_report'') d))
      ''run_summary'' (with_seal (dict_get report ''run_summary'') d)"
  show "report_field ?r [] name = report_field report [] name"
  proof (cases "name \<in> {''malware_report'', ''run_summary''}")
    case True
    then show ?thesis by (intro report_field_sealed) auto
  next
    case False
    then show ?thesis using report_names [OF name] by (intro report_field_get) simp
  qed
qed

section \<open>A keyed record and what a sealed report holds\<close>

lemma dict_without_digest_set [simp]:
  "dict_without [''digest''] (dict_set d ''digest'' v) = dict_without [''digest''] d"
  by (induction d) auto

lemma digestedD:
  assumes "digested L rec key = Inr r"
  obtains d where "r = dict_set rec ''digest'' (PStr d)" "record_digest L r key = Inr d" "dict_get r ''digest'' = PStr d"
  using assms by (auto simp: digested_def map_r_eq_Inr record_digest_def)

definition kept_seal :: "dict \<Rightarrow> dict \<Rightarrow> bool" where
  "kept_seal document seal_d \<longleftrightarrow> dict_get document SEAL_KEY = PDict seal_d"

text \<open>The stored report: its copies of the seal, its amendments, and the digest they end on.\<close>

definition report_carries :: "dict \<Rightarrow> dict \<Rightarrow> dict list \<Rightarrow> bool" where
  "report_carries rep seal_d ams \<longleftrightarrow>
     dict_get rep ''ledger_seal'' = PDict seal_d \<and>
     (\<exists>p. dict_get rep ''malware_report'' = PDict p \<and> kept_seal p seal_d \<and>
        py_or (dict_get p AMENDMENTS_KEY) (PList []) = PList (map PDict ams)) \<and>
     (\<forall>c. dict_get rep ''run_summary'' = PDict c \<longrightarrow> kept_seal c seal_d \<and>
        py_or (dict_get c AMENDMENTS_KEY) (PList []) = PList (map PDict ams)) \<and>
     py_str (dict_get seal_d ''report_id'') = py_str (dict_get rep ''id'')"

definition report_sealed :: "stdlib \<Rightarrow> key_ring \<Rightarrow> dict \<Rightarrow> dict \<Rightarrow> dict list \<Rightarrow> bool" where
  "report_sealed L keys rep seal_d ams \<longleftrightarrow> report_carries rep seal_d ams \<and>
     (\<exists>dig. report_digest L rep [] = Inr dig \<and>
        amended L keys (map PDict ams) 1 (dict_get seal_d ''digest'') (dict_get seal_d ''report_sha256'') (PStr dig))"

text \<open>The rows and the seal that closes them.\<close>

definition rows_sealed :: "stdlib \<Rightarrow> key_ring \<Rightarrow> string \<Rightarrow> dict list \<Rightarrow> dict \<Rightarrow> bool" where
  "rows_sealed L keys job rows seal_d \<longleftrightarrow>
     sorted (map seq_of rows) \<and> (\<forall>row\<in>set rows. row_digested L row) \<and>
     (\<exists>key d start head. key_named keys (dict_get seal_d ''key_id'') = Inr (Some key) \<and>
        record_digest L seal_d key = Inr d \<and> dict_get seal_d ''digest'' = PStr d \<and>
        genesis L job key = Inr start \<and> chain_from L key start rows = Inr (head, rows) \<and>
        dict_get seal_d ''head'' = PStr head) \<and>
     dict_get seal_d ''job_id'' = PStr job \<and> dict_get seal_d ''entries'' = PInt (int (length rows)) \<and>
     dict_get seal_d ''last_seq'' = (if rows = [] then PNone else PInt (Max (set (map seq_of rows)))) \<and>
     dict_get seal_d ''first_seq'' = (if rows = [] then PNone else PInt (Min (set (map seq_of rows))))"

text \<open>What the job's own audit rows say of the report's seal and its amendments.\<close>

definition audit_agrees :: "job_audit \<Rightarrow> string \<Rightarrow> dict \<Rightarrow> dict list \<Rightarrow> bool" where
  "audit_agrees a rid seal_d ams \<longleftrightarrow>
     broken_at (ja_check a) = None \<and> unverifiable (ja_check a) = [] \<and> \<not> head_unverifiable (ja_check a) \<and>
     (\<forall>v. ja_anchor a = Some v \<longrightarrow> v_broken v = None \<and> v_unverifiable v = None) \<and>
     (\<exists>det. filter (\<lambda>d. py_str (dict_get d ''report_id'') = rid) (ja_seals a) = [det] \<and>
        dict_get det ''seal'' = PDict (core_of seal_d)) \<and>
     recorded_amendments rid a = ams"

lemma last_seq_sorted:
  assumes "sorted (map seq_of rows)" "rows \<noteq> []"
  shows "Max (set (map seq_of rows)) = seq_of (last rows)"
proof -
  from assms(2) obtain front x where rows: "rows = front @ [x]" by (cases rows rule: rev_cases) auto
  from assms(1) show ?thesis unfolding rows by (intro Max_eqI) (auto simp: sorted_append)
qed

lemma check_the_chain_pass:
  assumes "sorted (map seq_of rows)" "\<forall>row\<in>set rows. row_digested L row"
    and "genesis L job key = Inr start" "chain_from L key start rows = Inr (head, rows)"
    and "dict_get seal_d ''head'' = PStr head" "dict_get seal_d ''entries'' = PInt (int (length rows))"
    and "dict_get seal_d ''last_seq'' = (if rows = [] then PNone else PInt (Max (set (map seq_of rows))))"
  shows "check_the_chain L r job rows seal_d key = go (said (ChainEndsOnHead (length rows)) (r\<lparr>vd_head := Some head\<rparr>))"
proof -
  have "seq_of row \<le> Max (set (map seq_of rows))" if "row \<in> set rows" for row using that by simp
  then have "filter (\<lambda>row. Max (seq_of ` set rows) < seq_of row) rows = []"
    by (auto simp: filter_empty_conv not_less)
  then show ?thesis
    using assms last_seq_sorted [OF assms(1)] walk_links_pass [OF assms(4,2)]
    by (auto simp: check_the_chain_def Let_def rows_beyond_def py_or_def)
qed

lemma upto_the_chain_pass:
  assumes "rows_sealed L keys job rows seal_d" "digests_shown L"
  shows "\<exists>r'. upto_the_chain L job rows keys seal_d r = go r' \<and> vd_pending r' = vd_pending r"
proof -
  from assms(1) obtain key d start head where k: "key_named keys (dict_get seal_d ''key_id'') = Inr (Some key)"
    "record_digest L seal_d key = Inr d" "dict_get seal_d ''digest'' = PStr d"
    and g: "genesis L job key = Inr start" "chain_from L key start rows = Inr (head, rows)"
      "dict_get seal_d ''head'' = PStr head"
    by (auto simp: rows_sealed_def)
  from assms(1) have r: "sorted (map seq_of rows)" "\<forall>row\<in>set rows. row_digested L row"
    "dict_get seal_d ''entries'' = PInt (int (length rows))"
    "dict_get seal_d ''last_seq'' = (if rows = [] then PNone else PInt (Max (set (map seq_of rows))))"
    "dict_get seal_d ''job_id'' = PStr job"
    by (simp_all add: rows_sealed_def)
  note c = check_the_chain_pass [OF r(1,2) g r(3,4)]
  show ?thesis
    using k r(5) by (simp add: upto_the_chain_def Let_def check_digests_pass [OF assms(2) r(2)] c)
qed

section \<open>The recorded amendments, walked\<close>

definition record_digests :: "py \<Rightarrow> dict list \<Rightarrow> py list" where
  "record_digests first ams = first # map (\<lambda>a. dict_get a ''digest'') ams"

lemma amended_nth:
  assumes "amended L keys (map PDict ams) n first before after" "i < length ams"
  shows "\<exists>k d. key_named keys (dict_get (ams ! i) ''key_id'') = Inr (Some k) \<and> record_digest L (ams ! i) k = Inr d \<and>
    dict_get (ams ! i) ''digest'' = PStr d \<and> py_eq (dict_get (ams ! i) ''prev'') (record_digests first ams ! i)"
  using assms
proof (induction ams arbitrary: n first before i)
  case (Cons a ams)
  then show ?case
  proof (cases i)
    case 0
    with Cons.prems show ?thesis by (auto simp: record_digests_def)
  next
    case (Suc j)
    from Cons.prems(1) obtain d where d: "dict_get a ''digest'' = PStr d"
      and rest: "amended L keys (map PDict ams) (n + 1) (PStr d) (dict_get a ''report_sha256_after'') after"
      by auto
    from Cons.IH [OF rest, of j] Cons.prems(2) Suc d show ?thesis by (simp add: record_digests_def)
  qed
qed simp

lemma amended_snoc:
  "amended L keys (vs @ [v]) n first before after \<longleftrightarrow>
    (\<exists>mid. amended L keys vs n first before mid \<and>
      amended L keys [v] (n + length vs) (if vs = [] then first else digest_of (last vs)) mid after)"
proof (induction vs arbitrary: n first before)
  case (Cons w vs)
  show ?case
  proof (cases "vs = []")
    case True
    then show ?thesis by (auto simp: digest_of_def)
  next
    case False
    then show ?thesis using Cons.IH by (simp del: amended.simps add: amended.simps(2) [of _ _ w]) blast
  qed
qed auto

lemma picked:
  "map fst (filter snd (zip xs (map (\<lambda>i. i = j) [0..<length xs]))) = (if j < length xs then [xs ! j] else [])"
proof -
  have "filter (\<lambda>i. i = j) [0..<n] = (if j < n then [j] else [])" for n by (induction n) auto
  then have "map fst (filter snd (map (\<lambda>i. (xs ! i, i = j)) [0..<length xs])) = (if j < length xs then [xs ! j] else [])"
    by (simp add: filter_map comp_def)
  moreover have "zip xs (map (\<lambda>i. i = j) [0..<length xs]) = map (\<lambda>i. (xs ! i, i = j)) [0..<length xs]"
    by (rule nth_equalityI) simp_all
  ultimately show ?thesis by simp
qed

lemma digests_str:
  assumes "amended L keys (map PDict ams) n (PStr d0) before after" "j \<le> length ams"
  shows "\<exists>s. record_digests (PStr d0) ams ! j = PStr s"
  using amended_nth [OF assms(1), of "j - 1"] assms(2) by (cases j) (auto simp: record_digests_def)

lemma follows_only_next:
  assumes walk: "amended L keys (map PDict ams) n (PStr d0) before after"
    and apart: "distinct (record_digests (PStr d0) ams)"
    and "i < length ams" "j \<le> length ams"
  shows "follows L keys (record_digests (PStr d0) ams ! j) (ams ! i) = Inr (i = j)"
proof -
  from amended_nth [OF walk assms(3)] obtain k d where k: "key_named keys (dict_get (ams ! i) ''key_id'') = Inr (Some k)"
    "record_digest L (ams ! i) k = Inr d" "dict_get (ams ! i) ''digest'' = PStr d"
    and p: "py_eq (dict_get (ams ! i) ''prev'') (record_digests (PStr d0) ams ! i)" by blast
  from digests_str [OF walk, of i] digests_str [OF walk assms(4)] assms(3) obtain s t
    where s: "record_digests (PStr d0) ams ! i = PStr s" and t: "record_digests (PStr d0) ams ! j = PStr t" by auto
  have "s = t \<longleftrightarrow> i = j"
    using nth_eq_iff_index_eq [OF apart, of i j] assms(3,4) s t by (auto simp: record_digests_def)
  with k p s t show ?thesis by (auto simp: follows_def)
qed

lemma following_next:
  assumes walk: "amended L keys (map PDict ams) n (PStr d0) before after"
    and apart: "distinct (record_digests (PStr d0) ams)" and j: "j \<le> length ams"
  shows "following L keys (record_digests (PStr d0) ams ! j) ams = Inr (if j < length ams then [ams ! j] else [])"
proof -
  have "map (follows L keys (record_digests (PStr d0) ams ! j)) ams = map Inr (map (\<lambda>i. i = j) [0..<length ams])"
    using follows_only_next [OF walk apart _ j] by (intro nth_equalityI) simp_all
  then have "sequence_r (map (follows L keys (record_digests (PStr d0) ams ! j)) ams) =
      Inr (map (\<lambda>i. i = j) [0..<length ams])"
    by (simp only: sequence_r_eq_Inr)
  then show ?thesis by (simp only: following_def map_r_Inr picked)
qed

lemma walked_from:
  assumes "amended L keys (map PDict ams) n (PStr d0) before after" "distinct (record_digests (PStr d0) ams)"
    and "j \<le> length ams"
  shows "amendment_chain L keys ams (record_digests (PStr d0) ams ! j) chain = Some (Inr (chain @ drop j ams))"
  using assms(3)
proof (induction "length ams - j" arbitrary: j chain)
  case 0
  then show ?case using following_next [OF assms(1,2), of j] by (simp add: amendment_chain.simps)
next
  case (Suc m)
  then have j: "j < length ams" "Suc j \<le> length ams" "m = length ams - Suc j" by auto
  have "dict_get (ams ! j) ''digest'' = record_digests (PStr d0) ams ! Suc j"
    using j by (simp add: record_digests_def)
  moreover have "drop j ams = ams ! j # drop (Suc j) ams" using j by (simp add: Cons_nth_drop_Suc)
  ultimately show ?case
    using following_next [OF assms(1,2), of j] j Suc.hyps(1) [OF j(3,2), of "chain @ [ams ! j]"]
    by (subst amendment_chain.simps) simp
qed

lemma recorded_walked:
  assumes "amended L keys (map PDict ams) 1 (dict_get seal_d ''digest'') before after"
    and "distinct (record_digests (dict_get seal_d ''digest'') ams)" "dict_get seal_d ''digest'' = PStr d"
    and "recorded_amendments rid a = ams"
  shows "audit_amendments L seal_d rid a keys = Some (Inr ams)"
  using walked_from [of L keys ams 1 d before after 0 "[]"] assms
  by (simp add: audit_amendments_def) (simp add: record_digests_def)

section \<open>A sealed report passes\<close>

lemma check_report_walked:
  assumes "report_carries rep seal_d ams" "audit_agrees a (py_str (dict_get rep ''id'')) seal_d ams"
    and am: "amended L keys (map PDict ams) 1 (dict_get seal_d ''digest'') (dict_get seal_d ''report_sha256'') after"
    and "distinct (record_digests (dict_get seal_d ''digest'') ams)" "dict_get seal_d ''digest'' = PStr d"
    and "vd_pending r = None"
  shows "\<exists>r'. check_report L r seal_d rep (Some a) keys = Some (report_end L rep after (length ams) r') \<and> vd_pending r' = None"
proof -
  from assms(1) obtain p where p: "dict_get rep ''malware_report'' = PDict p"
      "py_or (dict_get p AMENDMENTS_KEY) (PList []) = PList (map PDict ams)"
    by (auto simp: report_carries_def)
  have held: "stored_amendments (dict_get rep ''malware_report'') = PList (map PDict ams)"
    using p by (simp add: stored_amendments_def sub_get_def)
  have same: "\<not> (as_mapping (dict_get rep ''run_summary'') \<noteq> None \<and>
      \<not> py_eq (stored_amendments (dict_get rep ''run_summary'')) (PList (map PDict ams)))"
    using assms(1) by (auto simp: report_carries_def stored_amendments_def sub_get_def as_mapping_Some)
  have rec: "audit_amendments L seal_d (py_str (dict_get rep ''id'')) a keys = Some (Inr ams)"
    using recorded_walked [OF am assms(4,5)] assms(2) by (simp add: audit_agrees_def)
  have cmp: "compare_recorded (map PDict ams) ams 1 r = go ()" for r
    by (simp add: go_def compare_recorded_goes list_all2_conv_all_nth)
  show ?thesis
    using held walk_amendments_pass [OF am] rec cmp assms(6)
    by (simp only: check_report_def Let_def held same if_False) (auto simp: walk_stored_def audited_amendments_def go_def)
qed

lemma check_report_pass:
  assumes "report_sealed L keys rep seal_d ams" "audit_agrees a (py_str (dict_get rep ''id'')) seal_d ams"
    and "distinct (record_digests (dict_get seal_d ''digest'') ams)" "dict_get seal_d ''digest'' = PStr d"
    and "vd_pending r = None"
  shows "\<exists>r'. check_report L r seal_d rep (Some a) keys = Some (go r') \<and> vd_pending r' = None"
proof -
  from assms(1) obtain dig where rep: "report_carries rep seal_d ams" "report_digest L rep [] = Inr dig"
    and am: "amended L keys (map PDict ams) 1 (dict_get seal_d ''digest'') (dict_get seal_d ''report_sha256'') (PStr dig)"
    by (auto simp: report_sealed_def)
  from check_report_walked [OF rep(1) assms(2) am assms(3,4,5)] rep(2) show ?thesis
    by (auto simp: report_end_def)
qed

lemma sealed_copies:
  assumes "report_carries rep seal_d ams"
  shows "seal_copies rep = [(''report row'', seal_d), (''report payload'', seal_d)] @
    (if as_mapping (dict_get rep ''run_summary'') = None then [] else [(''run summary'', seal_d)])"
proof -
  from assms obtain p where p: "dict_get rep ''ledger_seal'' = PDict seal_d"
    "dict_get rep ''malware_report'' = PDict p" "dict_get p SEAL_KEY = PDict seal_d"
    by (auto simp: report_carries_def kept_seal_def)
  have "as_mapping (sub_get (dict_get rep ''run_summary'') SEAL_KEY) =
      (if as_mapping (dict_get rep ''run_summary'') = None then None else Some seal_d)"
    using assms by (auto simp: report_carries_def kept_seal_def sub_get_def as_mapping_Some)
  with p show ?thesis by (simp add: seal_copies_def sub_get_def)
qed

lemma seal_of_the_report_pass:
  assumes "report_carries rep seal_d ams" "audit_agrees a (py_str (dict_get rep ''id'')) seal_d ams"
  shows "\<exists>r'. seal_of_the_report r rep chained_rows (Some a) = go (seal_d, r') \<and> vd_pending r' = vd_pending r"
proof -
  note copies = sealed_copies [OF assms(1)]
  from assms(1) have rid: "py_str (dict_get seal_d ''report_id'') = py_str (dict_get rep ''id'')"
    by (simp add: report_carries_def)
  have doc: "document_without_seal rep (seal_copies rep) = None"
    by (simp add: document_without_seal_def copies)
  have agree: "\<not> list_ex (\<lambda>c. \<not> py_eq (PDict (snd c)) (PDict seal_d)) (seal_copies rep)"
    by (simp add: copies)
  from assms(2) obtain det where det: "filter (\<lambda>d. py_str (dict_get d ''report_id'') = py_str (dict_get rep ''id'')) (ja_seals a) = [det]"
    "dict_get det ''seal'' = PDict (core_of seal_d)"
    by (auto simp: audit_agrees_def)
  have s: "seal_on_the_chain r' seal_d [det] (Some a) = go (said SealOnAuditChain r')" for r'
    by (simp add: seal_on_the_chain_def det(2) digest_of_def)
  have ne: "seal_copies rep = (''report row'', seal_d) # tl (seal_copies rep)" by (simp add: copies)
  have row: "map_of (seal_copies rep) ''report row'' = Some seal_d" by (simp add: copies)
  show ?thesis
    unfolding seal_of_the_report_def Let_def
    by (subst (1) ne) (simp add: agree row doc rid det(1) s)
qed

lemma final_verdict_pass:
  assumes "audit_agrees a rid seal_d ams" "vd_pending r = None"
  shows "vd_status (final_verdict r (Some a)) = VERIFIED"
  using assms
  by (auto simp: final_verdict_def audit_agrees_def unverifiable_own_def anchor_unverifiable_def Let_def split: option.splits)

lemma begun_pending [simp]: "vd_pending (begun job rows audit) = None"
  by (simp add: begun_def new_result_def Let_def split: option.split)

lemma before_the_seal_pass:
  assumes "audit_agrees a rid seal_d ams"
  shows "\<exists>r. before_the_seal job rows (Some a) = Inr r \<and> vd_pending r = None"
proof -
  from assms have b: "broken_at (ja_check a) = None" "\<And>v. ja_anchor a = Some v \<Longrightarrow> v_broken v = None"
    by (auto simp: audit_agrees_def)
  show ?thesis
  proof (cases "ja_anchor a")
    case None
    then show ?thesis by (simp add: before_the_seal_def b(1) Let_def)
  next
    case (Some v)
    then show ?thesis using b(2) [OF Some] by (simp add: before_the_seal_def b(1) Let_def)
  qed
qed

lemma verify_ledger_pass:
  assumes rows: "rows_sealed L keys job rows seal_d" and rep: "report_sealed L keys rep seal_d ams"
    and audit: "audit_agrees a (py_str (dict_get rep ''id'')) seal_d ams"
    and apart: "distinct (record_digests (dict_get seal_d ''digest'') ams)"
    and L: "digests_shown L" and keys: "''status'' \<notin> fst ` set seal_d"
  shows "\<exists>v. verify_ledger L job rows (Some rep) (Some a) keys = Some (Inr (Answer v)) \<and> vd_status v = VERIFIED"
proof -
  from rows obtain d where d: "dict_get seal_d ''digest'' = PStr d" by (auto simp: rows_sealed_def)
  have so: "sort_key seq_of rows = rows" using rows by (auto simp: rows_sealed_def intro: sort_key_id_if_sorted)
  let ?chained = "filter (\<lambda>row. truthy (dict_get row ''digest'') \<or> truthy (dict_get row ''chain'')) rows"
  obtain r0 where r0: "before_the_seal job rows (Some a) = Inr r0" "vd_pending r0 = None"
    using before_the_seal_pass [OF audit] by blast
  obtain r1 where r1: "seal_of_the_report r0 rep ?chained (Some a) = go (seal_d, r1)" "vd_pending r1 = None"
    using seal_of_the_report_pass [OF _ audit, of r0 ?chained] rep r0(2) by (auto simp: report_sealed_def)
  obtain r2 where r2: "upto_the_chain L job rows keys seal_d (r1\<lparr>vd_seal := Some seal_d\<rparr>) = go r2" "vd_pending r2 = None"
    using upto_the_chain_pass [OF rows L, of "r1\<lparr>vd_seal := Some seal_d\<rparr>"] r1(2) by auto
  obtain r3 where r3: "check_report L r2 seal_d rep (Some a) keys = Some (go r3)" "vd_pending r3 = None"
    using check_report_pass [OF rep audit apart d r2(2)] by blast
  have "after_the_seal L job rows (Some rep) (Some a) keys seal_d r1 = Some (Inr (final_verdict r3 (Some a)))"
    using r2 r3 by (simp add: after_the_seal_def go_def)
  then have "verify_ledger L job rows (Some rep) (Some a) keys = Some (Inr (Answer (final_verdict r3 (Some a))))"
    using r0 r1 keys by (simp add: verify_ledger_def Let_def so go_def)
  then show ?thesis using final_verdict_pass [OF audit r3(2)] by blast
qed

end
