(* ===== verification/Ledger_Runs.thy ===== *)
theory Ledger_Runs
  imports Ledger_Seal Audit_Repair_Proofs
begin

text \<open>
  The life of a sealed report: the sealing, the enrichments that change the stored report and
  leave an amendment, and whatever else is appended to the audit log in between. Every state
  these steps can reach is one \<open>verify_job\<close> calls verified.
\<close>

section \<open>What sealing leaves\<close>

lemma seal_shape:
  assumes "seal L job rows head dig at key rid = Inr core" "anchored L core landed key = Inr seal_d"
    and "ck_key_id key \<noteq> []"
  shows "core_of seal_d = core" "dict_get seal_d ''head'' = PStr head" "dict_get seal_d ''job_id'' = PStr job"
    "dict_get seal_d ''report_id'' = PStr rid" "dict_get seal_d ''entries'' = PInt (int (length rows))"
    "dict_get seal_d ''last_seq'' = (if rows = [] then PNone else PInt (Max (set (map seq_of rows))))"
    "dict_get seal_d ''key_id'' = PStr (ck_key_id key)" "dict_get seal_d ''report_sha256'' = PStr dig"
    "dict_get seal_d ''first_seq'' = (if rows = [] then PNone else PInt (Min (set (map seq_of rows))))"
    "''status'' \<notin> fst ` set seal_d"
    "\<exists>d. record_digest L seal_d key = Inr d \<and> dict_get seal_d ''digest'' = PStr d"
proof -
  from assms(1) obtain t c where t: "digested L
          [(''version'', PInt CHAIN_VERSION), (''algorithm'', PStr ''hmac-sha256''),
           (''key_id'', py_opt_str (none_if_empty (ck_key_id key))), (''job_id'', PStr job),
           (''report_id'', PStr rid), (''entries'', PInt (int (length rows))),
           (''first_seq'', if rows = [] then PNone else PInt (Min (set (map seq_of rows)))),
           (''last_seq'', if rows = [] then PNone else PInt (Max (set (map seq_of rows)))),
           (''head'', PStr head), (''report_sha256'', PStr dig), (''sealed_at'', t)] key = Inr core"
    by (auto simp: seal_def Let_def bind_r_eq_Inr)
  then obtain c where core: "core = dict_set
          [(''version'', PInt CHAIN_VERSION), (''algorithm'', PStr ''hmac-sha256''),
           (''key_id'', py_opt_str (none_if_empty (ck_key_id key))), (''job_id'', PStr job),
           (''report_id'', PStr rid), (''entries'', PInt (int (length rows))),
           (''first_seq'', if rows = [] then PNone else PInt (Min (set (map seq_of rows)))),
           (''last_seq'', if rows = [] then PNone else PInt (Max (set (map seq_of rows)))),
           (''head'', PStr head), (''report_sha256'', PStr dig), (''sealed_at'', t)] ''digest'' (PStr c)"
    by (rule digestedD)
  from assms(2) obtain d where sealed: "seal_d = dict_set (dict_set (dict_set (dict_without [''digest''] core)
      ''core_digest'' (dict_get core ''digest'')) ''audit_anchored'' (PBool landed)) ''digest'' (PStr d)"
    and dig: "record_digest L seal_d key = Inr d" "dict_get seal_d ''digest'' = PStr d"
    unfolding anchored_def by (rule digestedD)
  have seal_d: "seal_d =
          [(''version'', PInt CHAIN_VERSION), (''algorithm'', PStr ''hmac-sha256''),
           (''key_id'', py_opt_str (none_if_empty (ck_key_id key))), (''job_id'', PStr job),
           (''report_id'', PStr rid), (''entries'', PInt (int (length rows))),
           (''first_seq'', if rows = [] then PNone else PInt (Min (set (map seq_of rows)))),
           (''last_seq'', if rows = [] then PNone else PInt (Max (set (map seq_of rows)))),
           (''head'', PStr head), (''report_sha256'', PStr dig), (''sealed_at'', t),
           (''core_digest'', PStr c), (''audit_anchored'', PBool landed), (''digest'', PStr d)]"
    unfolding sealed core by (simp add: dict_without_def)
  show "core_of seal_d = core" unfolding seal_d core by (simp add: core_of_def dict_without_def)
  show "dict_get seal_d ''head'' = PStr head" "dict_get seal_d ''job_id'' = PStr job"
    "dict_get seal_d ''report_id'' = PStr rid" "dict_get seal_d ''entries'' = PInt (int (length rows))"
    "dict_get seal_d ''last_seq'' = (if rows = [] then PNone else PInt (Max (set (map seq_of rows))))"
    "dict_get seal_d ''first_seq'' = (if rows = [] then PNone else PInt (Min (set (map seq_of rows))))"
    "dict_get seal_d ''report_sha256'' = PStr dig" "''status'' \<notin> fst ` set seal_d"
    unfolding seal_d by simp_all
  show "dict_get seal_d ''key_id'' = PStr (ck_key_id key)"
    unfolding seal_d using assms(3) by (simp add: none_if_empty_def py_opt_str_def)
  show "\<exists>d. record_digest L seal_d key = Inr d \<and> dict_get seal_d ''digest'' = PStr d"
    using dig by blast
qed

text \<open>A report to seal: a payload with no amendments, a run summary that is a document or none.\<close>

definition sealable :: "dict \<Rightarrow> bool" where
  "sealable report \<longleftrightarrow>
     (\<exists>p. dict_get report ''malware_report'' = PDict p \<and> \<not> truthy (dict_get p AMENDMENTS_KEY)) \<and>
     (\<forall>c. dict_get report ''run_summary'' = PDict c \<longrightarrow> \<not> truthy (dict_get c AMENDMENTS_KEY))"

lemma seal_keys_differ [simp]: "SEAL_KEY \<noteq> AMENDMENTS_KEY" "AMENDMENTS_KEY \<noteq> SEAL_KEY"
  by (simp_all add: SEAL_KEY_def AMENDMENTS_KEY_def)

lemma key_named_str [simp]: "key_named keys (PStr kid) = Inr (map_of keys kid)"
  by (auto simp: key_named_def py_or_def hashable_def)

lemma seal_the_ledger_parts:
  assumes run: "seal_the_ledger L known job rows report key at now s = Inr (seal_d, rows', rep', s')"
  obtains head dig core r where "chain_rows L job rows key = Inr (head, rows')"
    "report_digest L report [] = Inr dig"
    "seal L job rows' head dig at key (py_str (dict_get report ''id'')) = Inr core"
    "append L known key now LEDGER_SEAL ''job'' (Some job)
       [(''report_id'', PStr (py_str (dict_get report ''id''))), (''seal'', PDict core)] None s = (r, s')"
    "anchored L core (r \<noteq> None) key = Inr seal_d"
    "rep' = dict_set (dict_set (dict_set report ''ledger_seal'' (PDict seal_d))
          ''malware_report'' (with_seal (dict_get report ''malware_report'') seal_d))
          ''run_summary'' (with_seal (dict_get report ''run_summary'') seal_d)"
proof -
  let ?app = "\<lambda>core. append L known key now LEDGER_SEAL ''job'' (Some job)
       [(''report_id'', PStr (py_str (dict_get report ''id''))), (''seal'', PDict core)] None s"
  from run obtain head rows0 dig core where c0: "chain_rows L job rows key = Inr (head, rows0)"
    and dig: "report_digest L report [] = Inr dig"
    and core0: "seal L job rows0 head dig at key (py_str (dict_get report ''id'')) = Inr core"
    and rest: "map_r (\<lambda>seal_d. (seal_d, rows0, dict_set (dict_set (dict_set report ''ledger_seal'' (PDict seal_d))
          ''malware_report'' (with_seal (dict_get report ''malware_report'') seal_d))
          ''run_summary'' (with_seal (dict_get report ''run_summary'') seal_d), snd (?app core)))
       (anchored L core (fst (?app core) \<noteq> None) key) = Inr (seal_d, rows', rep', s')"
    by (auto simp: seal_the_ledger_def Let_def bind_r_eq_Inr case_prod_beta)
  define r where "r = fst (?app core)"
  from rest have rows0: "rows0 = rows'" and s': "s' = snd (?app core)"
    and rep': "rep' = dict_set (dict_set (dict_set report ''ledger_seal'' (PDict seal_d))
          ''malware_report'' (with_seal (dict_get report ''malware_report'') seal_d))
          ''run_summary'' (with_seal (dict_get report ''run_summary'') seal_d)"
    and sd: "anchored L core (r \<noteq> None) key = Inr seal_d"
    by (auto simp: map_r_eq_Inr r_def)
  have app: "?app core = (r, s')" by (simp add: r_def s')
  note c = c0 [unfolded rows0] and core = core0 [unfolded rows0]
  show thesis by (rule that [OF c dig core app sd rep'])
qed

lemma sealing_establishes:
  assumes run: "seal_the_ledger L known job rows report key at now s = Inr (seal_d, rows', rep', s')"
    and keys: "map_of keys (ck_key_id key) = Some key" "ck_key_id key \<noteq> []"
    and report: "sealable report"
  obtains core r where "rows_sealed L keys job rows' seal_d" "report_sealed L keys rep' seal_d []"
    "core_of seal_d = core" "''status'' \<notin> fst ` set seal_d"
    "dict_get rep' ''id'' = dict_get report ''id''" "dict_get rep' ''job_id'' = dict_get report ''job_id''"
    "append L known key now LEDGER_SEAL ''job'' (Some job)
       [(''report_id'', PStr (py_str (dict_get report ''id''))), (''seal'', PDict core)] None s = (r, s')"
proof -
  obtain head dig core r where c: "chain_rows L job rows key = Inr (head, rows')"
    and dig: "report_digest L report [] = Inr dig"
    and core: "seal L job rows' head dig at key (py_str (dict_get report ''id'')) = Inr core"
    and app: "append L known key now LEDGER_SEAL ''job'' (Some job)
       [(''report_id'', PStr (py_str (dict_get report ''id''))), (''seal'', PDict core)] None s = (r, s')"
    and sd: "anchored L core (r \<noteq> None) key = Inr seal_d"
    and rep': "rep' = dict_set (dict_set (dict_set report ''ledger_seal'' (PDict seal_d))
          ''malware_report'' (with_seal (dict_get report ''malware_report'') seal_d))
          ''run_summary'' (with_seal (dict_get report ''run_summary'') seal_d)"
    by (rule seal_the_ledger_parts [OF run])
  note shape = seal_shape [OF core sd keys(2)]
  from c obtain start where g: "genesis L job key = Inr start"
    and cf: "chain_from L key start (sort_key seq_of rows) = Inr (head, rows')"
    by (auto simp: chain_rows_def bind_r_eq_Inr)
  note made = chain_from_rows [OF cf]
  have "rows_sealed L keys job rows' seal_d"
    using made g shape keys(1) by (simp add: rows_sealed_def)
  moreover have "report_sealed L keys rep' seal_d []"
  proof -
    from report obtain p where p: "dict_get report ''malware_report'' = PDict p" "\<not> truthy (dict_get p AMENDMENTS_KEY)"
      by (auto simp: sealable_def)
    have "report_digest L rep' [] = Inr dig" unfolding rep' sealed_report_digest by (rule dig)
    moreover have "with_seal (dict_get report ''run_summary'') seal_d = PDict x \<Longrightarrow>
        dict_get x SEAL_KEY = PDict seal_d \<and> \<not> truthy (dict_get x AMENDMENTS_KEY)" for x
      using report by (auto simp: sealable_def with_seal_def as_mapping_Some split: option.splits)
    ultimately show ?thesis
      using p shape by (auto simp: report_sealed_def report_carries_def kept_seal_def rep' with_seal_def py_or_def)
  qed
  ultimately show thesis using shape app by (intro that [of core r]) (simp_all add: rep')
qed

section \<open>What a change of a sealed report leaves\<close>

definition same_records :: "dict \<Rightarrow> dict \<Rightarrow> bool" where
  "same_records d d' \<longleftrightarrow> dict_get d' SEAL_KEY = dict_get d SEAL_KEY \<and> dict_get d' AMENDMENTS_KEY = dict_get d AMENDMENTS_KEY"

text \<open>A change that keeps the seal and the amendments of the documents it rewrites.\<close>

definition keeps_records :: "(dict \<Rightarrow> py \<Rightarrow> dict \<times> py) \<Rightarrow> dict \<Rightarrow> bool" where
  "keeps_records change report \<longleftrightarrow>
     (\<forall>p p' c'. dict_get report ''malware_report'' = PDict p \<and> change p (dict_get report ''run_summary'') = (p', c') \<longrightarrow>
        same_records p p' \<and>
        (\<forall>d'. c' = PDict d' \<longrightarrow> (\<exists>d. dict_get report ''run_summary'' = PDict d \<and> same_records d d')))"

definition macs_shown :: "stdlib \<Rightarrow> bool" where
  "macs_shown L \<longleftrightarrow> (\<forall>k m. hmac_sha256 L k m \<noteq> [])"

lemma mappings_in_held:
  "py_or v (PList []) = PList (map PDict ams) \<Longrightarrow> mappings_in v = ams"
proof -
  have "List.map_filter as_mapping (map PDict xs) = xs" for xs by (induction xs) simp_all
  then show "py_or v (PList []) = PList (map PDict ams) \<Longrightarrow> mappings_in v = ams"
    by (cases v) (auto simp: py_or_def mappings_in_def split: if_splits)
qed

lemma mac_text: "macs_shown L \<Longrightarrow> record_digest L rec key = Inr d \<Longrightarrow> d \<noteq> []"
  by (auto simp: macs_shown_def record_digest_def result_iffs keyed_def hexdigest_def hex_byte_def)

lemma amendment_record:
  assumes "amendment L previous num kind before after moment key = Inr r" "ck_key_id key \<noteq> []"
  shows "dict_get r ''number'' = PInt num" "dict_get r ''prev'' = dict_get previous ''digest''"
    "dict_get r ''report_sha256_before'' = PStr before" "dict_get r ''report_sha256_after'' = PStr after"
    "dict_get r ''key_id'' = PStr (ck_key_id key)"
    "\<exists>d. record_digest L r key = Inr d \<and> dict_get r ''digest'' = PStr d"
proof -
  from assms(1) obtain t where t: "digested L
         [(''number'', PInt num), (''kind'', PStr kind), (''prev'', dict_get previous ''digest''),
          (''report_sha256_before'', PStr before), (''report_sha256_after'', PStr after),
          (''at'', t), (''key_id'', py_opt_str (none_if_empty (ck_key_id key)))] key = Inr r"
    by (auto simp: amendment_def bind_r_eq_Inr)
  then obtain d where r: "r = dict_set [(''number'', PInt num), (''kind'', PStr kind), (''prev'', dict_get previous ''digest''),
          (''report_sha256_before'', PStr before), (''report_sha256_after'', PStr after),
          (''at'', t), (''key_id'', py_opt_str (none_if_empty (ck_key_id key)))] ''digest'' (PStr d)"
    and d: "record_digest L r key = Inr d" "dict_get r ''digest'' = PStr d"
    by (rule digestedD)
  show "dict_get r ''number'' = PInt num" "dict_get r ''prev'' = dict_get previous ''digest''"
    "dict_get r ''report_sha256_before'' = PStr before" "dict_get r ''report_sha256_after'' = PStr after"
    unfolding r by simp_all
  show "dict_get r ''key_id'' = PStr (ck_key_id key)"
    unfolding r using assms(2) by (simp add: none_if_empty_def py_opt_str_def)
  show "\<exists>d. record_digest L r key = Inr d \<and> dict_get r ''digest'' = PStr d" using d by blast
qed

text \<open>The digest of the rewritten report is the one the amendment names as after.\<close>

lemma rewritten_digest:
  assumes "without_seal (PDict payload) = without_seal (PDict p')"
    and "without_seal (if column \<noteq> PNone then column else dict_get report ''run_summary'') = without_seal next_summary"
  defines "report' \<equiv> dict_set report ''malware_report'' (PDict payload)"
  shows "report_digest L (if column \<noteq> PNone then dict_set report' ''run_summary'' column else report') [] =
    report_digest L report [(''malware_report'', PDict p'), (''run_summary'', next_summary)]" (is "report_digest L ?r [] = _")
proof (rule report_digest_cong)
  fix name assume name: "name \<in> set REPORT_DIGESTED"
  consider "name = ''malware_report''" | "name = ''run_summary''" | "name \<notin> {''malware_report'', ''run_summary''}" by blast
  then show "report_field ?r [] name = report_field report [(''malware_report'', PDict p'), (''run_summary'', next_summary)] name"
  proof cases
    case 1
    then show ?thesis using assms(1) by (intro report_field_sealed) (auto simp: report'_def)
  next
    case 2
    then show ?thesis using assms(2) by (intro report_field_sealed) (auto simp: report'_def)
  next
    case 3
    then show ?thesis by (intro report_field_get) (auto simp: report'_def)
  qed
qed

lemma amended_extend:
  assumes "amended L keys (map PDict ams) 1 (dict_get seal_d ''digest'') (dict_get seal_d ''report_sha256'') (PStr before)"
    and "amendment L (if ams = [] then seal_d else last ams) (int (length ams) + 1) kind before after moment key = Inr r"
    and "map_of keys (ck_key_id key) = Some key" "ck_key_id key \<noteq> []"
  shows "amended L keys (map PDict (ams @ [r])) 1 (dict_get seal_d ''digest'') (dict_get seal_d ''report_sha256'') (PStr after)"
proof -
  note rec = amendment_record [OF assms(2,4)]
  have p: "(if map PDict ams = [] then dict_get seal_d ''digest'' else digest_of (last (map PDict ams))) =
      dict_get (if ams = [] then seal_d else last ams) ''digest''"
    by (simp add: digest_of_def last_map)
  from rec(6) obtain d where d: "record_digest L r key = Inr d" "dict_get r ''digest'' = PStr d" by blast
  have "amended L keys [PDict r] (1 + length (map PDict ams))
      (dict_get (if ams = [] then seal_d else last ams) ''digest'') (PStr before) (PStr after)"
    using rec d assms(3) by (simp add: add.commute)
  then show ?thesis using assms(1) by (simp only: map_append list.map amended_snoc p) blast
qed

lemma without_seal_falsy_summary:
  "(case as_mapping v of Some d \<Rightarrow> PDict (dict_set d AMENDMENTS_KEY x) | None \<Rightarrow> v) \<noteq> PNone \<longleftrightarrow> v \<noteq> PNone"
  "without_seal (case as_mapping v of Some d \<Rightarrow> PDict (dict_set d AMENDMENTS_KEY x) | None \<Rightarrow> v) = without_seal v"
  by (cases v; simp)+

lemma amending_preserves:
  assumes run: "write_under_lock L known (Some key) change kind moment now rep s = Inr (record, rep', s')"
    and sealed: "report_sealed L keys rep seal_d ams"
    and keys: "map_of keys (ck_key_id key) = Some key" "ck_key_id key \<noteq> []"
    and change: "keeps_records change rep" and L: "macs_shown L"
    and digest: "record_digest L seal_d key' = Inr d" "dict_get seal_d ''digest'' = PStr d"
  shows "dict_get rep' ''id'' = dict_get rep ''id'' \<and> dict_get rep' ''job_id'' = dict_get rep ''job_id'' \<and>
    (case record of
       None \<Rightarrow> report_sealed L keys rep' seal_d ams \<and> s' = s
     | Some r \<Rightarrow> report_sealed L keys rep' seal_d (ams @ [r]) \<and>
         (\<exists>row. append L known key now REPORT_AMEND ''job'' (Some (py_str (dict_get rep ''job_id'')))
           [(''report_id'', PStr (py_str (dict_get rep ''id''))), (''amendment'', PDict r)] None s = (row, s')))"
proof -
  from sealed obtain p dig where ls: "dict_get rep ''ledger_seal'' = PDict seal_d"
    and p: "dict_get rep ''malware_report'' = PDict p" "kept_seal p seal_d"
      "py_or (dict_get p AMENDMENTS_KEY) (PList []) = PList (map PDict ams)"
    and sum: "\<And>c. dict_get rep ''run_summary'' = PDict c \<Longrightarrow> kept_seal c seal_d \<and>
        py_or (dict_get c AMENDMENTS_KEY) (PList []) = PList (map PDict ams)"
    and rid: "py_str (dict_get seal_d ''report_id'') = py_str (dict_get rep ''id'')"
    and dig: "report_digest L rep [] = Inr dig"
    and am: "amended L keys (map PDict ams) 1 (dict_get seal_d ''digest'') (dict_get seal_d ''report_sha256'') (PStr dig)"
    by (auto simp: report_sealed_def report_carries_def)
  obtain p' c' where ch: "change p (dict_get rep ''run_summary'') = (p', c')" by fastforce
  from change p(1) ch have kept: "same_records p p'"
    "\<And>d'. c' = PDict d' \<Longrightarrow> \<exists>d. dict_get rep ''run_summary'' = PDict d \<and> same_records d d'"
    by (auto simp: keeps_records_def)
  have sum': "kept_seal c seal_d \<and> py_or (dict_get c AMENDMENTS_KEY) (PList []) = PList (map PDict ams)" if "c' = PDict c" for c
    using kept(2) [OF that] sum by (auto simp: same_records_def kept_seal_def)
  have p': "kept_seal p' seal_d" "py_or (dict_get p' AMENDMENTS_KEY) (PList []) = PList (map PDict ams)"
    using kept(1) p(2,3) by (auto simp: same_records_def kept_seal_def)
  let ?next = "if c' \<noteq> PNone then c' else dict_get rep ''run_summary''"
  have next_kept: "kept_seal c seal_d \<and> py_or (dict_get c AMENDMENTS_KEY) (PList []) = PList (map PDict ams)"
    if "?next = PDict c" for c using sum sum' that by (auto split: if_splits)
  have t: "truthy (dict_get seal_d ''digest'')" using mac_text [OF L digest(1)] digest(2) by simp
  from run obtain payload column where a: "amend L rep p' c' (dict_get rep ''ledger_seal'') kind key moment = Inr (payload, column, record)"
    and rep': "rep' = (if column \<noteq> PNone then dict_set (dict_set rep ''malware_report'' (PDict payload)) ''run_summary'' column
        else dict_set rep ''malware_report'' (PDict payload))"
    and s': "s' = (case record of Some r \<Rightarrow>
               snd (append L known key now REPORT_AMEND ''job'' (Some (py_str (dict_get rep ''job_id'')))
                 [(''report_id'', PStr (py_str (dict_get rep ''id''))), (''amendment'', PDict r)] None s)
           | None \<Rightarrow> s)"
    by (auto simp: write_under_lock_def Let_def ls p(1) ch bind_r_eq_Inr split: option.splits)
  have ids: "dict_get rep' ''id'' = dict_get rep ''id''" "dict_get rep' ''job_id'' = dict_get rep ''job_id''"
    "dict_get rep' ''ledger_seal'' = PDict seal_d"
    by (simp_all add: rep' ls)
  obtain after where after: "report_digest L rep [(''malware_report'', PDict p'), (''run_summary'', ?next)] = Inr after"
    using a t dig by (auto simp: amend_def ls Let_def bind_r_eq_Inr)
  show ?thesis
  proof (cases "dig = after")
    case True
    with a t dig after have out: "payload = p'" "column = c'" "record = None"
      by (auto simp: amend_def ls Let_def)
    have "report_digest L rep' [] = Inr after"
      using rewritten_digest [of p' p' c' rep ?next L] after by (simp only: rep' out refl if_True if_False split: if_splits)
    then have "report_sealed L keys rep' seal_d ams"
      using p' ids am True rid sum sum' by (auto simp: report_sealed_def report_carries_def rep' out split: if_splits)
    then show ?thesis using ids out s' by simp
  next
    case False
    have held: "mappings_in (dict_get p AMENDMENTS_KEY) = ams" using mappings_in_held p(3) .
    have a': "map_r (\<lambda>r. (dict_set p' AMENDMENTS_KEY (PList (map PDict (ams @ [r]))),
          (case as_mapping ?next of Some d \<Rightarrow> PDict (dict_set d AMENDMENTS_KEY (PList (map PDict (ams @ [r])))) | None \<Rightarrow> ?next),
          Some r)) (amendment L (if ams = [] then seal_d else last ams) (int (length ams) + 1) kind dig after moment key)
      = Inr (payload, column, record)"
      using a by (simp only: amend_def ls p(1) as_mapping_simps option.case Let_def t dig after bind_r_Inr held False
          not_True_eq_False if_False)
    then obtain r where rec:
      "amendment L (if ams = [] then seal_d else last ams) (int (length ams) + 1) kind dig after moment key = Inr r"
      and out: "payload = dict_set p' AMENDMENTS_KEY (PList (map PDict (ams @ [r])))" "record = Some r"
        "column = (case as_mapping ?next of Some d \<Rightarrow> PDict (dict_set d AMENDMENTS_KEY (PList (map PDict (ams @ [r])))) | None \<Rightarrow> ?next)"
      by (auto simp only: map_r_eq_Inr prod.inject)
    have seals: "without_seal (PDict payload) = without_seal (PDict p')"
      "without_seal (if column \<noteq> PNone then column else dict_get rep ''run_summary'') = without_seal ?next"
      unfolding out without_seal_falsy_summary by (auto simp: without_seal_falsy_summary)
    have "report_digest L rep' [] = Inr after"
      unfolding rep' by (rule trans [OF rewritten_digest [OF seals] after])
    moreover note amended_extend [OF am rec keys]
    moreover have "kept_seal payload seal_d" using p'(1) by (simp add: out kept_seal_def)
    moreover have "kept_seal c seal_d \<and> dict_get c AMENDMENTS_KEY = PList (map PDict (ams @ [r]))"
      if "dict_get rep' ''run_summary'' = PDict c" for c
      using that next_kept by (auto simp: rep' out(3) kept_seal_def as_mapping_Some split: if_splits option.splits)
    ultimately have "report_sealed L keys rep' seal_d (ams @ [r])"
      using ids rid unfolding report_sealed_def report_carries_def
      by (intro conjI exI [of _ payload] exI [of _ after]) (auto simp: rep' out(1) py_or_def)
    then show ?thesis using ids out(2) s' by (simp del: split_paired_Ex) (metis prod.collapse)
  qed
qed

section \<open>Runs\<close>

text \<open>
  The states of a job's stored ledger: its rows, its report, the seal, the amendments and the
  session. Between the steps anything else may be appended to the log, under any key of \<open>R\<close>.
  \<open>landed\<close> says the step's own audit row was written: an append that failed leaves the log as it
  was, and the seal or the amendment then cannot be confirmed.
\<close>

definition landed :: "session \<Rightarrow> session \<Rightarrow> bool" where
  "landed s s' \<longleftrightarrow> db_rows s' \<noteq> db_rows s"

inductive sealed_run ::
  "stdlib \<Rightarrow> key_ring \<Rightarrow> chain_key \<Rightarrow> string \<Rightarrow> dict list \<Rightarrow> dict \<Rightarrow> dict \<Rightarrow> dict list \<Rightarrow> session \<Rightarrow> bool"
  for L R key job where
  sealing: "log_run L R s \<Longrightarrow> \<forall>r\<in>set (chained (db_rows s)). resource_id r \<noteq> Some job \<Longrightarrow>
    sealable report \<Longrightarrow> py_str (dict_get report ''job_id'') = job \<Longrightarrow>
    seal_the_ledger L known job rows report key at now s = Inr (seal_d, rows', rep, s') \<Longrightarrow> landed s s' \<Longrightarrow>
    sealed_run L R key job rows' rep seal_d [] s'"
| changing: "sealed_run L R key job rows rep seal_d ams s \<Longrightarrow> keeps_records change rep \<Longrightarrow>
    write_under_lock L known (Some key) change kind moment now rep s = Inr (record, rep', s') \<Longrightarrow>
    record \<noteq> None \<longrightarrow> landed s s' \<Longrightarrow>
    sealed_run L R key job rows rep' seal_d (ams @ (case record of None \<Rightarrow> [] | Some r \<Rightarrow> [r])) s'"
| other_append: "sealed_run L R key job rows rep seal_d ams s \<Longrightarrow>
    map_of R (ck_key_id key') = Some key' \<Longrightarrow> ck_key_id key' \<noteq> [] \<Longrightarrow> rid \<noteq> Some job \<Longrightarrow>
    append L known key' now act rtype rid det uid s = (r, s') \<Longrightarrow>
    sealed_run L R key job rows rep seal_d ams s'"
| plain_row: "sealed_run L R key job rows rep seal_d ams s \<Longrightarrow> chain_seq row = None \<Longrightarrow> chain_key_id row = None \<Longrightarrow>
    sealed_run L R key job rows rep seal_d ams (s\<lparr>db_rows := db_rows s @ [row]\<rparr>)"
| commit: "sealed_run L R key job rows rep seal_d ams s \<Longrightarrow>
    sealed_run L R key job rows rep seal_d ams (s\<lparr>pending := p, hooked := k\<rparr>)"

definition seal_details :: "dict \<Rightarrow> dict \<Rightarrow> py" where
  "seal_details rep seal_d = PDict [(''report_id'', PStr (py_str (dict_get rep ''id''))), (''seal'', PDict (core_of seal_d))]"

definition amendment_details :: "dict \<Rightarrow> dict \<Rightarrow> py" where
  "amendment_details rep a = PDict [(''report_id'', PStr (py_str (dict_get rep ''id''))), (''amendment'', PDict a)]"

text \<open>The job's chained audit rows: one seal, then its amendments, in order.\<close>

definition job_log :: "string \<Rightarrow> audit_row list \<Rightarrow> (string \<times> py) list" where
  "job_log job rows = map (\<lambda>r. (action r, details r)) (filter (\<lambda>r. resource_id r = Some job) (chained rows))"

lemma job_log_append [simp]:
  "job_log job (rows @ [row]) = job_log job rows @
     (if chain_seq row \<noteq> None \<and> resource_id row = Some job then [(action row, details row)] else [])"
  by (auto simp: job_log_def)

lemma appended_columns:
  "appended L known key now act rtype rid det uid s = Inr (row, head) \<Longrightarrow>
    action row = act \<and> details row = PDict det \<and> resource_id row = rid \<and> chain_seq row \<noteq> None"
  by (auto simp: appended_def Let_def result_iffs)

lemma append_job_log:
  assumes "append L known key now act rtype rid det uid s = (r, s')"
  shows "job_log job (db_rows s') = job_log job (db_rows s) @
    (if landed s s' \<and> rid = Some job then [(act, PDict det)] else [])"
  using assms
proof (cases rule: append_cases)
  case (wrote row head)
  then show ?thesis using appended_columns [OF wrote(1)] by (auto simp: landed_def)
qed (simp add: landed_def)

lemma sealed_run_inv:
  assumes "sealed_run L R key job rows rep seal_d ams s"
    and R: "map_of R (ck_key_id key) = Some key" and keys: "map_of keys (ck_key_id key) = Some key" "ck_key_id key \<noteq> []"
    and L: "macs_shown L"
  shows "log_run L R s \<and> rows_sealed L keys job rows seal_d \<and> report_sealed L keys rep seal_d ams \<and>
    ''status'' \<notin> fst ` set seal_d \<and> py_str (dict_get rep ''job_id'') = job \<and>
    job_log job (db_rows s) = (LEDGER_SEAL, seal_details rep seal_d) # map (\<lambda>a. (REPORT_AMEND, amendment_details rep a)) ams"
  using assms(1)
proof induction
  case (sealing s report known rows at now seal_d rows' rep s')
  obtain core r where e: "rows_sealed L keys job rows' seal_d" "report_sealed L keys rep seal_d []"
    "core_of seal_d = core" "''status'' \<notin> fst ` set seal_d"
    "dict_get rep ''id'' = dict_get report ''id''" "dict_get rep ''job_id'' = dict_get report ''job_id''"
    "append L known key now LEDGER_SEAL ''job'' (Some job)
       [(''report_id'', PStr (py_str (dict_get report ''id''))), (''seal'', PDict core)] None s = (r, s')"
    by (rule sealing_establishes [OF sealing(5) keys sealing(3)])
  have "job_log job (db_rows s) = []" using sealing(2) by (auto simp: job_log_def filter_empty_conv)
  with append_job_log [OF e(7), of job] sealing(6) have
    "job_log job (db_rows s') = [(LEDGER_SEAL, seal_details rep seal_d)]"
    by (simp add: seal_details_def e(3,5))
  moreover have "log_run L R s'" by (rule log_run.appending [OF sealing(1) R keys(2) e(7)])
  ultimately show ?case using e sealing(4) by simp
next
  case (changing rows rep seal_d ams s change known kind moment now rec rep' s')
  then have IH: "log_run L R s" "rows_sealed L keys job rows seal_d" "report_sealed L keys rep seal_d ams"
    "''status'' \<notin> fst ` set seal_d" "py_str (dict_get rep ''job_id'') = job"
    "job_log job (db_rows s) = (LEDGER_SEAL, seal_details rep seal_d) # map (\<lambda>a. (REPORT_AMEND, amendment_details rep a)) ams"
    by blast+
  from IH(2) obtain key' d where d: "record_digest L seal_d key' = Inr d" "dict_get seal_d ''digest'' = PStr d"
    by (auto simp: rows_sealed_def)
  note p = amending_preserves [OF changing(3) IH(3) keys changing(2) L d]
  then have ids: "dict_get rep' ''id'' = dict_get rep ''id''" "dict_get rep' ''job_id'' = dict_get rep ''job_id''" by simp_all
  have same: "seal_details rep' seal_d = seal_details rep seal_d" "amendment_details rep' = amendment_details rep"
    by (auto simp: seal_details_def amendment_details_def ids)
  show ?case
  proof (cases rec)
    case None
    then show ?thesis using p IH ids by (simp add: same)
  next
    case (Some r)
    with p obtain row where a: "append L known key now REPORT_AMEND ''job'' (Some job)
       [(''report_id'', PStr (py_str (dict_get rep ''id''))), (''amendment'', PDict r)] None s = (row, s')"
      by (auto simp: IH(5))
    have "landed s s'" using changing(4) Some by simp
    with append_job_log [OF a, of job] have
      "job_log job (db_rows s') = job_log job (db_rows s) @ [(REPORT_AMEND, amendment_details rep r)]"
      by (simp add: amendment_details_def)
    moreover have "log_run L R s'" by (rule log_run.appending [OF IH(1) R keys(2) a])
    ultimately show ?thesis using p IH ids Some by (simp add: same)
  qed
next
  case (other_append rows rep seal_d ams s key' rid known now act rtype det uid r s')
  then have "log_run L R s'" by (blast intro: log_run.appending)
  then show ?case using other_append append_job_log [OF other_append(5), of job] by simp
next
  case (plain_row rows rep seal_d ams s row)
  then show ?case by (simp add: log_run.ordinary_row)
next
  case (commit rows rep seal_d ams s p k)
  then show ?case by (simp add: log_run.transaction_end)
qed

section \<open>The job's own rows, read and checked\<close>

lemma own_rows_chained: "own_rows (chained rows) head job = own_rows rows head job"
proof -
  have "filter (\<lambda>r. resource_id r = Some job \<and> within_head head r) (filter (\<lambda>r. chain_seq r \<noteq> None) rows) =
      filter (\<lambda>r. resource_id r = Some job \<and> within_head head r) rows"
    by (induction rows) (auto simp: within_head_def)
  then show ?thesis by (simp only: own_rows_def chained_def)
qed

lemma job_check_chained: "job_check L (chained rows) keys head current job = job_check L rows keys head current job"
proof -
  have "neighbours (chained rows) head own = neighbours rows head own" for own
    by (auto simp: neighbours_def chained_def within_head_def intro!: filter_cong)
  then show ?thesis by (simp add: job_check_def own_rows_chained)
qed

lemma own_rows_in_order:
  assumes "head_ok L R (chained rows) h kid key b"
  shows "own_rows rows (Some h) job = filter (\<lambda>r. resource_id r = Some job) (chained rows)"
proof -
  note head = head_okD [OF assms]
  have within: "within_head (Some h) r" if "r \<in> set (chained rows)" for r
    using that rows_ok_row [OF head(9) that] head(8) by (auto simp: within_head_def chained_def)
  have "filter (\<lambda>r. resource_id r = Some job \<and> within_head (Some h) r) (chained rows) =
      filter (\<lambda>r. resource_id r = Some job) (chained rows)"
    using within by (intro filter_cong) auto
  moreover have "sorted (map row_seq (chained rows))" by (simp add: head_ok_places [OF assms])
  then have "sorted (map row_seq (filter (\<lambda>r. resource_id r = Some job) (chained rows)))" by (rule sorted_filter)
  ultimately have "own_rows (chained rows) (Some h) job = filter (\<lambda>r. resource_id r = Some job) (chained rows)"
    by (simp add: own_rows_def sort_key_id_if_sorted)
  then show ?thesis by (simp only: own_rows_chained)
qed

lemma all_verified_details:
  assumes "\<forall>r\<in>set own. row_seq r \<in> set (verified c)"
  shows "verified_details c own act =
    map (\<lambda>x. case as_mapping (snd x) of Some d \<Rightarrow> d | None \<Rightarrow> []) (filter (\<lambda>x. fst x = act) (map (\<lambda>r. (action r, details r)) own))"
  using assms unfolding verified_details_def by (induction own) (auto simp: verified_details_def)

lemma run_job_audit:
  assumes run: "log_run L R s" and head: "db_head s = Some h" "head_key_id h = Some kid" "rotated_at_seq h = Some b"
    and keys: "map_of keys \<subseteq>\<^sub>m map_of R" "map_of keys kid = Some k"
    and job: "job \<noteq> ''None''" and b: "\<forall>r\<in>set (own_rows (db_rows s) (Some h) job). b \<le> row_seq r"
  obtains c where "job_check L (db_rows s) keys (Some h) (Some kid) job = Inr c" "broken_at c = None"
    "unverifiable c = []" "\<not> head_unverifiable c"
    "\<And>act. verified_details c (own_rows (db_rows s) (Some h) job) act =
      map (\<lambda>x. case as_mapping (snd x) of Some d \<Rightarrow> d | None \<Rightarrow> []) (filter (\<lambda>x. fst x = act) (job_log job (db_rows s)))"
proof -
  let ?rows = "chained (db_rows s)"
  from log_run_inv [OF run] head(1) obtain kid' key b' where ok: "head_ok L R ?rows h kid' key b'"
    by (auto simp: log_inv_simps)
  note hd = head_okD [OF ok]
  have kid: "kid' = kid" "b' = b" using hd(2,6) head by simp_all
  have key: "key = k" using hd(4) keys by (auto simp: kid map_le_def dom_def)
  have rok: "rows_ok L keys (Some kid) (Some b) (sort_key row_seq ?rows)"
    using rows_ok_ring [OF keys(1) hd(9)] by (simp add: kid rows_ok_sorted)
  have "sort_key row_seq ?rows = ?rows" using hd(9) by (rule rows_ok_sorted)
  then have hend: "head_at_end h (sort_key row_seq ?rows)" using hd(12) by simp
  have "\<exists>c. job_check L ?rows keys (Some h) (Some kid) job = Inr c \<and> broken_at c = None \<and>
    \<not> head_unverifiable c \<and> set (verified c) \<union> set (unverifiable c) = row_seq ` set (own_rows ?rows (Some h) job) \<and>
    (\<forall>n\<in>set (unverifiable c). n < b) \<and>
    (\<forall>r\<in>set (own_rows ?rows (Some h) job). b \<le> row_seq r \<longrightarrow> row_seq r \<in> set (verified c))"
    by (rule job_check_ok [OF _ keys(2) hd(5) [unfolded key] head(3) rok hend _ job])
      (simp_all add: head(2) chained_def)
  then obtain c where c: "job_check L (db_rows s) keys (Some h) (Some kid) job = Inr c" "broken_at c = None"
    "\<not> head_unverifiable c" "set (verified c) \<union> set (unverifiable c) = row_seq ` set (own_rows (db_rows s) (Some h) job)"
    "\<forall>n\<in>set (unverifiable c). n < b" "\<forall>r\<in>set (own_rows (db_rows s) (Some h) job). row_seq r \<in> set (verified c)"
    using b unfolding job_check_chained own_rows_chained by blast
  have "set (unverifiable c) = {}"
  proof (rule equals0I)
    fix n assume n: "n \<in> set (unverifiable c)"
    then have "n \<in> row_seq ` set (own_rows (db_rows s) (Some h) job)" using c(4) by blast
    then show False using b c(5) n by force
  qed
  then have "unverifiable c = []" by simp
  then show thesis
    by (rule that [OF c(1,2) _ c(3)])
      (simp add: all_verified_details [OF c(6) [unfolded own_rows_in_order [OF ok]]] job_log_def own_rows_in_order [OF ok])
qed

section \<open>The verdict over a run\<close>

lemma actions_differ [simp]:
  "LEDGER_SEAL \<noteq> REPORT_AMEND" "REPORT_AMEND \<noteq> LEDGER_SEAL" "LEDGER_SEAL \<noteq> REPORT_DELETE"
  "REPORT_AMEND \<noteq> REPORT_DELETE" "LEDGER_SEAL \<noteq> REPORT_FOLLOW_UP" "REPORT_AMEND \<noteq> REPORT_FOLLOW_UP"
  by (simp_all add: LEDGER_SEAL_def REPORT_AMEND_def REPORT_DELETE_def REPORT_FOLLOW_UP_def)

lemma job_past_anchor_keeps [simp]:
  "v_broken (job_past_anchor v own) = v_broken v" "v_unverifiable (job_past_anchor v own) = v_unverifiable v"
  by (simp_all add: job_past_anchor_def split: option.split)

text \<open>
  What \<open>verify_job\<close> hands to \<open>verify_ledger\<close> over the log of a run: the audit rows agree with the
  seal and the amendments, whatever rows and report it then reads.
\<close>

lemma run_audit:
  assumes run: "sealed_run L R key job rows rep seal_d ams s"
    and R: "map_of R (ck_key_id key) = Some key" "map_of keys \<subseteq>\<^sub>m map_of R"
    and keys: "map_of keys (ck_key_id key) = Some key" "ck_key_id key \<noteq> []" "map_of keys kid = Some k"
    and L: "macs_shown L"
    and head: "db_head s = Some h" "head_key_id h = Some kid" "rotated_at_seq h = Some b"
    and b: "\<forall>r\<in>set (own_rows (db_rows s) (Some h) job). b \<le> row_seq r" and job: "job \<noteq> ''None''"
    and anchor: "v_broken anchor = None" "v_unverifiable anchor = None"
  obtains a where "rows_sealed L keys job rows seal_d" "report_sealed L keys rep seal_d ams" "''status'' \<notin> fst ` set seal_d"
    "audit_agrees a (py_str (dict_get rep ''id'')) seal_d ams"
    "\<And>rows' rep'. verify_job L job rows' rep' (db_rows s) (db_head s) keys (Some kid) anchor [] =
      verify_ledger L job rows' rep' (Some a) keys"
proof -
  from sealed_run_inv [OF run R(1) keys(1,2) L] have
    inv: "log_run L R s" "rows_sealed L keys job rows seal_d" "report_sealed L keys rep seal_d ams" "''status'' \<notin> fst ` set seal_d"
    "job_log job (db_rows s) = (LEDGER_SEAL, seal_details rep seal_d) # map (\<lambda>a. (REPORT_AMEND, amendment_details rep a)) ams"
    by auto
  obtain c where c: "job_check L (db_rows s) keys (Some h) (Some kid) job = Inr c" "broken_at c = None"
    "unverifiable c = []" "\<not> head_unverifiable c"
    "\<And>act. verified_details c (own_rows (db_rows s) (Some h) job) act =
      map (\<lambda>x. case as_mapping (snd x) of Some d \<Rightarrow> d | None \<Rightarrow> []) (filter (\<lambda>x. fst x = act) (job_log job (db_rows s)))"
    by (rule run_job_audit [OF inv(1) head R(2) keys(3) job b]) (rule that)
  let ?own = "own_rows (db_rows s) (Some h) job"
  let ?rid = "py_str (dict_get rep ''id'')"
  let ?seal = "[(''report_id'', PStr ?rid), (''seal'', PDict (core_of seal_d))]"
  let ?am = "\<lambda>a. [(''report_id'', PStr ?rid), (''amendment'', PDict a)]"
  have d: "verified_details c ?own LEDGER_SEAL = [?seal]" "verified_details c ?own REPORT_AMEND = map ?am ams"
    "verified_details c ?own REPORT_DELETE = []" "verified_details c ?own REPORT_FOLLOW_UP = []"
    unfolding c(5) inv(5) by (simp_all add: seal_details_def amendment_details_def filter_map comp_def)
  let ?a = "\<lparr>ja_check = c, ja_seals = [?seal], ja_amendments = map ?am ams, ja_deletes = [],
      ja_gap = chain_gap (db_rows s) (Some h), ja_anchor = Some (job_past_anchor anchor ?own)\<rparr>"
  have a: "job_audit_of L (db_rows s) (Some h) keys (Some kid) anchor job = Inr ?a"
    by (simp add: job_audit_of_def Let_def c(1) d)
  have "recorded_amendments ?rid ?a = ams"
  proof -
    have "List.map_filter (\<lambda>d. as_mapping (dict_get d ''amendment'')) (map ?am xs) = xs" for xs
      by (induction xs) simp_all
    moreover have "filter (\<lambda>d. py_str (dict_get d ''report_id'') = ?rid) (map ?am ams) = map ?am ams"
      by (simp add: filter_map comp_def)
    ultimately show ?thesis by (simp add: recorded_amendments_def)
  qed
  then have agrees: "audit_agrees ?a ?rid seal_d ams"
    using c anchor by (simp add: audit_agrees_def)
  have "map_option (\<lambda>got. bind_r got Inr) m = m" for m :: "(py_error + answer) option"
    by (cases m; cases "the m") auto
  then have "verify_job L job rows' rep' (db_rows s) (db_head s) keys (Some kid) anchor [] =
      verify_ledger L job rows' rep' (Some ?a) keys" for rows' rep'
    by (simp add: verify_job_def head(1) a d(4))
  with inv agrees show thesis by (intro that [of ?a])
qed

text \<open>
  A run as a verification finds it: every key that matters is held, the job's own audit rows lie
  under the current key, no two of its records share a MAC, and the anchor agrees.
\<close>

definition verifiable_run ::
  "stdlib \<Rightarrow> key_ring \<Rightarrow> key_ring \<Rightarrow> chain_key \<Rightarrow> string \<Rightarrow> string \<Rightarrow> dict list \<Rightarrow> dict \<Rightarrow> dict \<Rightarrow> dict list \<Rightarrow> session
    \<Rightarrow> anchor_verdict \<Rightarrow> bool" where
  "verifiable_run L R keys key kid job rows rep seal_d ams s anchor \<longleftrightarrow>
     sealed_run L R key job rows rep seal_d ams s \<and>
     map_of R (ck_key_id key) = Some key \<and> map_of keys \<subseteq>\<^sub>m map_of R \<and>
     map_of keys (ck_key_id key) = Some key \<and> ck_key_id key \<noteq> [] \<and>
     digests_shown L \<and> macs_shown L \<and> job \<noteq> ''None'' \<and>
     (\<exists>h b k. db_head s = Some h \<and> head_key_id h = Some kid \<and> map_of keys kid = Some k \<and> rotated_at_seq h = Some b \<and>
        (\<forall>r\<in>set (own_rows (db_rows s) (Some h) job). b \<le> row_seq r)) \<and>
     distinct (record_digests (dict_get seal_d ''digest'') ams) \<and>
     v_broken anchor = None \<and> v_unverifiable anchor = None"

lemma verifiable_runE:
  assumes "verifiable_run L R keys key kid job rows rep seal_d ams s anchor"
  obtains a where "rows_sealed L keys job rows seal_d" "report_sealed L keys rep seal_d ams" "''status'' \<notin> fst ` set seal_d"
    "audit_agrees a (py_str (dict_get rep ''id'')) seal_d ams" "digests_shown L"
    "distinct (record_digests (dict_get seal_d ''digest'') ams)"
    "\<And>rows' rep'. verify_job L job rows' rep' (db_rows s) (db_head s) keys (Some kid) anchor [] =
      verify_ledger L job rows' rep' (Some a) keys"
proof -
  from assms obtain h b k where a: "sealed_run L R key job rows rep seal_d ams s"
    "map_of R (ck_key_id key) = Some key" "map_of keys \<subseteq>\<^sub>m map_of R"
    "map_of keys (ck_key_id key) = Some key" "ck_key_id key \<noteq> []" "map_of keys kid = Some k" "macs_shown L"
    "db_head s = Some h" "head_key_id h = Some kid" "rotated_at_seq h = Some b"
    "\<forall>r\<in>set (own_rows (db_rows s) (Some h) job). b \<le> row_seq r" "job \<noteq> ''None''"
    "v_broken anchor = None" "v_unverifiable anchor = None"
    unfolding verifiable_run_def by blast
  have rest: "digests_shown L" "distinct (record_digests (dict_get seal_d ''digest'') ams)"
    using assms unfolding verifiable_run_def by blast+
  show thesis
    by (rule run_audit [OF a]) (rule that, assumption+, rule rest(1), rule rest(2))
qed

end
