(* ===== verification/Ledger_Tamper.thy ===== *)
theory Ledger_Tamper
  imports Ledger_Runs
begin

text \<open>
  What a change to a sealed job's rows or report comes to: the first row that is edited, missing
  or cut off is named, and a report changed without an amendment is found.
\<close>

section \<open>Rows replaced, removed or cut off\<close>

lemma check_digests_stops:
  assumes "digests_shown L" "\<forall>x\<in>set xs. row_digested L x" "entry_digest L row = Inr d"
    and "dict_get row ''digest'' = PStr t" "t \<noteq> []" "t \<noteq> d"
  shows "check_digests L (xs @ row # ys) r = stop BROKEN_LEDGER (RowDiffersFromDigest (seq_of row)) (Some (seq_of row)) r"
  using assms(2)
proof (induction xs)
  case Nil
  then show ?case using assms by simp
next
  case (Cons x xs)
  then show ?case using shown_digest [OF assms(1)] by (auto simp: row_digested_def)
qed

lemma chain_from_split:
  assumes "chain_from L key p (xs @ ys) = Inr (h, xs @ ys)"
  obtains m where "chain_from L key p xs = Inr (m, xs)" "chain_from L key m ys = Inr (h, ys)"
  using assms
proof (induction xs arbitrary: p thesis)
  case Nil
  then show ?case by simp
next
  case (Cons x xs)
  from Cons.prems(2) obtain d c ds where l: "entry_digest L x = Inr d" "link L p d key = Inr c"
    and "chain_from L key c (xs @ ys) = Inr (h, ds)"
    and eq: "x # xs @ ys = dict_set (dict_set x ''digest'' (PStr d)) ''chain'' (PStr c) # ds"
    by (auto simp: result_iffs split: prod.splits)
  then have rest: "chain_from L key c (xs @ ys) = Inr (h, xs @ ys)" by simp
  obtain m where m: "chain_from L key c xs = Inr (m, xs)" "chain_from L key m ys = Inr (h, ys)"
    by (rule Cons.IH [OF _ rest])
  have "dict_set (dict_set x ''digest'' (PStr d)) ''chain'' (PStr c) = x" using eq by simp
  with l m(1) have "chain_from L key p (x # xs) = Inr (m, x # xs)" by simp
  then show ?case using m(2) by (rule Cons.prems(1))
qed

lemma chain_from_head:
  assumes "chain_from L key p (row # rows) = Inr (h, row # rows)"
  obtains d c where "entry_digest L row = Inr d" "link L p d key = Inr c" "dict_get row ''digest'' = PStr d"
    "dict_get row ''chain'' = PStr c" "chain_from L key c rows = Inr (h, rows)"
proof -
  from assms obtain d c ds where l: "entry_digest L row = Inr d" "link L p d key = Inr c"
    and "chain_from L key c rows = Inr (h, ds)"
    and eq: "row # rows = dict_set (dict_set row ''digest'' (PStr d)) ''chain'' (PStr c) # ds"
    by (auto simp: result_iffs split: prod.splits)
  then have x: "row = dict_set (dict_set row ''digest'' (PStr d)) ''chain'' (PStr c)"
    and rest: "chain_from L key c rows = Inr (h, rows)" by auto
  have "dict_get row ''digest'' = PStr d" by (subst x) simp
  moreover have "dict_get row ''chain'' = PStr c" by (subst x) simp
  ultimately show thesis using l rest by (intro that)
qed

lemma walk_links_split:
  assumes "chain_from L key p xs = Inr (m, xs)"
  shows "walk_links L key (xs @ ys) p r = walk_links L key ys m r"
  using assms
proof (induction xs arbitrary: p)
  case (Cons x xs)
  from Cons.prems obtain d c where l: "link L p d key = Inr c" "dict_get x ''digest'' = PStr d"
    "dict_get x ''chain'' = PStr c" "chain_from L key c xs = Inr (m, xs)"
    by (rule chain_from_head)
  then show ?case using Cons.IH [OF l(4)] by simp
qed simp

section \<open>Up to the rows\<close>

text \<open>A job whose audit rows and report agree is judged by its rows, then by its report.\<close>

lemma verify_ledger_judged:
  assumes rep: "report_carries rep seal_d ams"
    and audit: "audit_agrees a (py_str (dict_get rep ''id'')) seal_d ams"
    and keys: "''status'' \<notin> fst ` set seal_d"
  obtains r where "vd_pending r = None"
    "verify_ledger L job rows (Some rep) (Some a) keys =
      (case upto_the_chain L job (sort_key seq_of rows) keys seal_d r of
         Inl e \<Rightarrow> Some (Inl e)
       | Inr (Inl v) \<Rightarrow> Some (Inr (Answer v))
       | Inr (Inr r) \<Rightarrow>
           map_option (map_r (\<lambda>step. Answer (case step of Inl v \<Rightarrow> v | Inr r \<Rightarrow> final_verdict r (Some a))))
             (check_report L r seal_d rep (Some a) keys))"
proof -
  let ?ordered = "sort_key seq_of rows"
  let ?chained = "filter (\<lambda>row. truthy (dict_get row ''digest'') \<or> truthy (dict_get row ''chain'')) ?ordered"
  obtain r0 where r0: "before_the_seal job ?ordered (Some a) = Inr r0" "vd_pending r0 = None"
    using before_the_seal_pass [OF audit] by blast
  obtain r1 where r1: "seal_of_the_report r0 rep ?chained (Some a) = go (seal_d, r1)" "vd_pending r1 = None"
    using seal_of_the_report_pass [OF rep audit, of r0 ?chained] r0(2) by auto
  show thesis
  proof (rule that [of "r1\<lparr>vd_seal := Some seal_d\<rparr>"])
    show "vd_pending (r1\<lparr>vd_seal := Some seal_d\<rparr>) = None" using r1(2) by simp
    have "map_option (map_r Answer) (map_option (map_r g) m) = map_option (map_r (\<lambda>x. Answer (g x))) m"
      for g :: "verdict + verdict \<Rightarrow> verdict" and m :: "(py_error + (verdict + verdict)) option"
      by (cases m; cases "the m") auto
    then show "verify_ledger L job rows (Some rep) (Some a) keys =
      (case upto_the_chain L job ?ordered keys seal_d (r1\<lparr>vd_seal := Some seal_d\<rparr>) of
         Inl e \<Rightarrow> Some (Inl e)
       | Inr (Inl v) \<Rightarrow> Some (Inr (Answer v))
       | Inr (Inr r) \<Rightarrow>
           map_option (map_r (\<lambda>step. Answer (case step of Inl v \<Rightarrow> v | Inr r \<Rightarrow> final_verdict r (Some a))))
             (check_report L r seal_d rep (Some a) keys))"
      using r0(1) r1(1) keys
      by (simp add: verify_ledger_def Let_def go_def after_the_seal_def split: sum.split)
  qed
qed

lemma same_places: "map seq_of rows' = map seq_of rows \<Longrightarrow> sorted (map seq_of rows) \<Longrightarrow> sort_key seq_of rows' = rows'"
  by (rule sort_key_id_if_sorted) simp

lemma edited_row_broken:
  assumes rows: "rows_sealed L keys job rows seal_d" and rep: "report_carries rep seal_d ams"
    and audit: "audit_agrees a (py_str (dict_get rep ''id'')) seal_d ams"
    and keys: "''status'' \<notin> fst ` set seal_d" and L: "digests_shown L"
    and i: "i < length rows" and seq: "seq_of row = seq_of (rows ! i)"
    and stored: "dict_get row ''digest'' = dict_get (rows ! i) ''digest''"
    and edited: "entry_digest L row = Inr d" "entry_digest L (rows ! i) \<noteq> Inr d"
  shows "\<exists>v. verify_ledger L job (rows[i := row]) (Some rep) (Some a) keys = Some (Inr (Answer v)) \<and>
    vd_status v = BROKEN_LEDGER \<and> vd_reason v = Some (RowDiffersFromDigest (seq_of row)) \<and> vd_first v = Some (seq_of row)"
proof -
  have r: "sorted (map seq_of rows)" "\<forall>x\<in>set rows. row_digested L x" using rows by (simp_all add: rows_sealed_def)
  have so: "sort_key seq_of (rows[i := row]) = rows[i := row]"
    using i seq r(1) by (intro same_places [of _ rows]) (simp_all add: map_update list_update_same_conv)
  have "row_digested L (rows ! i)" using r(2) nth_mem [OF i] by blast
  then obtain t where t: "entry_digest L (rows ! i) = Inr t" "dict_get row ''digest'' = PStr t"
    by (auto simp: row_digested_def stored)
  have dig: "check_digests L (rows[i := row]) v = stop BROKEN_LEDGER (RowDiffersFromDigest (seq_of row)) (Some (seq_of row)) v" for v
    unfolding upd_conv_take_nth_drop [OF i]
    using shown_digest [OF L t(1)] t edited r(2)
    by (intro check_digests_stops [OF L _ edited(1) t(2)]) (auto dest: in_set_takeD)
  obtain v0 where v0: "verify_ledger L job (rows[i := row]) (Some rep) (Some a) keys =
      (case upto_the_chain L job (sort_key seq_of (rows[i := row])) keys seal_d v0 of
         Inl e \<Rightarrow> Some (Inl e)
       | Inr (Inl v) \<Rightarrow> Some (Inr (Answer v))
       | Inr (Inr r) \<Rightarrow>
           map_option (map_r (\<lambda>step. Answer (case step of Inl v \<Rightarrow> v | Inr r \<Rightarrow> final_verdict r (Some a))))
             (check_report L r seal_d rep (Some a) keys))"
    by (rule verify_ledger_judged [OF rep audit keys])
  have "upto_the_chain L job (rows[i := row]) keys seal_d v0 =
      stop BROKEN_LEDGER (RowDiffersFromDigest (seq_of row)) (Some (seq_of row)) v0"
    by (simp add: upto_the_chain_def dig)
  then show ?thesis using v0 by (simp add: so stop_def)
qed

lemma rows_sealed_parts:
  assumes "rows_sealed L keys job rows seal_d"
  obtains key d start head where "key_named keys (dict_get seal_d ''key_id'') = Inr (Some key)"
    "record_digest L seal_d key = Inr d" "dict_get seal_d ''digest'' = PStr d"
    "genesis L job key = Inr start" "chain_from L key start rows = Inr (head, rows)"
    "dict_get seal_d ''head'' = PStr head" "sorted (map seq_of rows)" "\<forall>row\<in>set rows. row_digested L row"
    "dict_get seal_d ''job_id'' = PStr job" "dict_get seal_d ''entries'' = PInt (int (length rows))"
    "dict_get seal_d ''last_seq'' = (if rows = [] then PNone else PInt (Max (set (map seq_of rows))))"
    "dict_get seal_d ''first_seq'' = (if rows = [] then PNone else PInt (Min (set (map seq_of rows))))"
  using assms by (auto simp: rows_sealed_def)

text \<open>Rows that all carry their digests: the verdict is the chain's walk over them.\<close>

lemma verify_ledger_walked:
  assumes rep: "report_carries rep seal_d ams"
    and audit: "audit_agrees a (py_str (dict_get rep ''id'')) seal_d ams"
    and keys: "''status'' \<notin> fst ` set seal_d" and L: "digests_shown L"
    and so: "sorted (map seq_of rows)" and dig: "\<forall>row\<in>set rows. row_digested L row"
    and seal: "key_named keys (dict_get seal_d ''key_id'') = Inr (Some key)" "record_digest L seal_d key = Inr d"
      "dict_get seal_d ''digest'' = PStr d" "dict_get seal_d ''job_id'' = PStr job"
    and ends: "\<And>r. check_the_chain L r job rows seal_d key = stop st why n (f r)"
  shows "\<exists>v. verify_ledger L job rows (Some rep) (Some a) keys = Some (Inr (Answer v)) \<and>
    vd_status v = st \<and> vd_reason v = Some why \<and> vd_first v = n"
proof -
  have so': "sort_key seq_of rows = rows" using so by (rule sort_key_id_if_sorted)
  obtain v0 where v0: "verify_ledger L job rows (Some rep) (Some a) keys =
      (case upto_the_chain L job (sort_key seq_of rows) keys seal_d v0 of
         Inl e \<Rightarrow> Some (Inl e)
       | Inr (Inl v) \<Rightarrow> Some (Inr (Answer v))
       | Inr (Inr r) \<Rightarrow>
           map_option (map_r (\<lambda>step. Answer (case step of Inl v \<Rightarrow> v | Inr r \<Rightarrow> final_verdict r (Some a))))
             (check_report L r seal_d rep (Some a) keys))"
    by (rule verify_ledger_judged [OF rep audit keys])
  have "\<exists>r. upto_the_chain L job rows keys seal_d v0 = stop st why n r"
    using seal by (auto simp: upto_the_chain_def Let_def check_digests_pass [OF L dig] ends)
  then show ?thesis using v0 by (auto simp: so' stop_def)
qed

lemma cut_off_broken:
  assumes rows: "rows_sealed L keys job rows seal_d" and rep: "report_carries rep seal_d ams"
    and audit: "audit_agrees a (py_str (dict_get rep ''id'')) seal_d ams"
    and keys: "''status'' \<notin> fst ` set seal_d" and L: "digests_shown L"
    and n: "0 < n" "n < length rows" and dist: "distinct (map seq_of rows)"
  shows "\<exists>v. verify_ledger L job (take n rows) (Some rep) (Some a) keys = Some (Inr (Answer v)) \<and>
    vd_status v = BROKEN_LEDGER \<and> vd_reason v = Some (RowsAfterMissing (seq_of (rows ! (n - 1)))) \<and>
    vd_first v = Some (seq_of (rows ! (n - 1)) + 1)"
proof -
  obtain key d start head where r: "key_named keys (dict_get seal_d ''key_id'') = Inr (Some key)"
    "record_digest L seal_d key = Inr d" "dict_get seal_d ''digest'' = PStr d"
    "genesis L job key = Inr start" "chain_from L key start rows = Inr (head, rows)"
    "dict_get seal_d ''head'' = PStr head" "sorted (map seq_of rows)" "\<forall>row\<in>set rows. row_digested L row"
    "dict_get seal_d ''job_id'' = PStr job" "dict_get seal_d ''entries'' = PInt (int (length rows))"
    "dict_get seal_d ''last_seq'' = (if rows = [] then PNone else PInt (Max (set (map seq_of rows))))"
    "dict_get seal_d ''first_seq'' = (if rows = [] then PNone else PInt (Min (set (map seq_of rows))))"
    by (rule rows_sealed_parts [OF rows])
  let ?xs = "take n rows"
  have ne: "?xs \<noteq> []" "rows \<noteq> []" using n by auto
  have last: "last ?xs = rows ! (n - 1)" using n last_conv_nth [OF ne(1)] by (simp add: min_def)
  have "chain_from L key start (?xs @ drop n rows) = Inr (head, ?xs @ drop n rows)" using r(5) by simp
  then obtain m where m: "chain_from L key start ?xs = Inr (m, ?xs)" by (rule chain_from_split)
  note walk = walk_links_split [OF m, of "[]", simplified]
  have "seq_of (rows ! (n - 1)) < seq_of (last rows)"
  proof -
    have "sorted_wrt (<) (map seq_of rows)" using r(7) dist by (simp add: strict_sorted_iff)
    then have "map seq_of rows ! (n - 1) < map seq_of rows ! (length rows - 1)"
      using n by (intro sorted_wrt_nth_less [where P = "(<)"]) simp_all
    then show ?thesis using n ne by (simp add: last_conv_nth)
  qed
  then have short: "seq_of (last ?xs) < Max (set (map seq_of rows))"
    using last_seq_sorted [OF r(7) ne(2)] last by simp
  have "filter (\<lambda>row. Max (set (map seq_of rows)) < seq_of row) ?xs = []"
    by (auto simp: filter_empty_conv not_less dest!: in_set_takeD)
  then have ends: "check_the_chain L v job ?xs seal_d key =
      stop BROKEN_LEDGER (RowsAfterMissing (seq_of (last ?xs))) (Some (seq_of (last ?xs) + 1)) (v\<lparr>vd_head := Some m\<rparr>)" for v
    using r(4,11) ne short by (simp add: check_the_chain_def Let_def walk rows_beyond_def)
  have so: "sorted (map seq_of ?xs)" using r(7) by (simp add: sorted_wrt_take flip: take_map)
  have dig: "\<forall>row\<in>set ?xs. row_digested L row" using r(8) by (auto dest: in_set_takeD)
  from verify_ledger_walked [OF rep audit keys L so dig r(1,2,3,9) ends] show ?thesis by (simp add: last)
qed

lemma removed_row_broken:
  assumes rows: "rows_sealed L keys job (xs @ row # nxt # ys) seal_d" and rep: "report_carries rep seal_d ams"
    and audit: "audit_agrees a (py_str (dict_get rep ''id'')) seal_d ams"
    and keys: "''status'' \<notin> fst ` set seal_d" and L: "digests_shown L"
  shows "(\<exists>v. verify_ledger L job (xs @ nxt # ys) (Some rep) (Some a) keys = Some (Inr (Answer v)) \<and>
      vd_status v = BROKEN_LEDGER \<and> vd_reason v = Some (RowNotLinkedInLedger (seq_of nxt)) \<and> vd_first v = Some (seq_of nxt)) \<or>
    (\<exists>key before. key_named keys (dict_get seal_d ''key_id'') = Inr (Some key) \<and>
      (ledger_step L key before row = before \<or>
       collision (hmac_sha256 L (ck_key key)) (ledger_link_text before nxt)
         (ledger_link_text (ledger_step L key before row) nxt)))"
proof -
  let ?rows = "xs @ row # nxt # ys"
  obtain key d start head where r: "key_named keys (dict_get seal_d ''key_id'') = Inr (Some key)"
    "record_digest L seal_d key = Inr d" "dict_get seal_d ''digest'' = PStr d"
    "genesis L job key = Inr start" "chain_from L key start ?rows = Inr (head, ?rows)"
    "dict_get seal_d ''head'' = PStr head" "sorted (map seq_of ?rows)" "\<forall>row\<in>set ?rows. row_digested L row"
    "dict_get seal_d ''job_id'' = PStr job" "dict_get seal_d ''entries'' = PInt (int (length ?rows))"
    "dict_get seal_d ''last_seq'' = (if ?rows = [] then PNone else PInt (Max (set (map seq_of ?rows))))"
    "dict_get seal_d ''first_seq'' = (if ?rows = [] then PNone else PInt (Min (set (map seq_of ?rows))))"
    by (rule rows_sealed_parts [OF rows])
  from r(5) obtain m where m: "chain_from L key start xs = Inr (m, xs)" "chain_from L key m (row # nxt # ys) = Inr (head, row # nxt # ys)"
    by (rule chain_from_split)
  from m(2) obtain d1 c1 where d1: "link L m d1 key = Inr c1" "dict_get row ''digest'' = PStr d1"
    and "chain_from L key c1 (nxt # ys) = Inr (head, nxt # ys)" by (rule chain_from_head)
  then obtain d2 c2 where d2: "link L c1 d2 key = Inr c2" "dict_get nxt ''digest'' = PStr d2" "dict_get nxt ''chain'' = PStr c2"
    by (rule_tac chain_from_head) auto
  have c1: "c1 = ledger_step L key m row" and c2: "c2 = ledger_step L key c1 nxt"
    and c': "link L m d2 key = Inr (ledger_step L key m nxt)"
    using d1 d2 by (auto simp: link_def link_message_def keyed_def ledger_step_def ledger_link_text_def result_iffs split: if_splits)
  show ?thesis
  proof (cases "ledger_step L key m nxt = c2")
    case True
    then have "ledger_step L key m row = m \<or>
       collision (hmac_sha256 L (ck_key key)) (ledger_link_text m nxt) (ledger_link_text (ledger_step L key m row) nxt)"
      by (auto simp: c2 c1 ledger_step_def [of L key _ nxt] collision_def ledger_link_text_def [of _ nxt])
    then show ?thesis using r(1) by blast
  next
    case False
    have ends: "check_the_chain L v job (xs @ nxt # ys) seal_d key =
      stop BROKEN_LEDGER (RowNotLinkedInLedger (seq_of nxt)) (Some (seq_of nxt)) v" for v
      using r(4) d2(2,3) c' False by (simp add: check_the_chain_def walk_links_split [OF m(1)])
    have so: "sorted (map seq_of (xs @ nxt # ys))" using r(7) by (auto simp: sorted_append)
    have dig: "\<forall>row\<in>set (xs @ nxt # ys). row_digested L row" using r(8) by auto
    from verify_ledger_walked [OF rep audit keys L so dig r(1,2,3,9) ends] show ?thesis by blast
  qed
qed

section \<open>The report changed\<close>

lemma changed_report_broken:
  assumes rows: "rows_sealed L keys job rows seal_d" and rep: "report_sealed L keys rep seal_d ams"
    and audit: "audit_agrees a (py_str (dict_get rep ''id'')) seal_d ams"
    and keys: "''status'' \<notin> fst ` set seal_d" and L: "digests_shown L"
    and kept: "report_carries rep' seal_d ams" "dict_get rep' ''id'' = dict_get rep ''id''"
    and changed: "report_digest L rep' [] = Inr dig'" "report_digest L rep [] \<noteq> Inr dig'"
    and apart: "distinct (record_digests (dict_get seal_d ''digest'') ams)"
  shows "\<exists>v. verify_ledger L job rows (Some rep') (Some a) keys = Some (Inr (Answer v)) \<and>
    vd_status v = BROKEN_LEDGER \<and> vd_reason v = Some ReportChanged"
proof -
  from rep obtain dig where dig: "report_digest L rep [] = Inr dig"
    and am: "amended L keys (map PDict ams) 1 (dict_get seal_d ''digest'') (dict_get seal_d ''report_sha256'') (PStr dig)"
    by (auto simp: report_sealed_def)
  from rows obtain d where d: "dict_get seal_d ''digest'' = PStr d" by (auto simp: rows_sealed_def)
  have so: "sort_key seq_of rows = rows" using rows by (auto simp: rows_sealed_def intro: sort_key_id_if_sorted)
  have audit': "audit_agrees a (py_str (dict_get rep' ''id'')) seal_d ams" using audit by (simp only: kept(2))
  obtain v0 where p0: "vd_pending v0 = None" and v0: "verify_ledger L job rows (Some rep') (Some a) keys =
      (case upto_the_chain L job (sort_key seq_of rows) keys seal_d v0 of
         Inl e \<Rightarrow> Some (Inl e)
       | Inr (Inl v) \<Rightarrow> Some (Inr (Answer v))
       | Inr (Inr r) \<Rightarrow>
           map_option (map_r (\<lambda>step. Answer (case step of Inl v \<Rightarrow> v | Inr r \<Rightarrow> final_verdict r (Some a))))
             (check_report L r seal_d rep' (Some a) keys))"
    by (rule verify_ledger_judged [OF kept(1) audit' keys])
  obtain v1 where v1: "upto_the_chain L job rows keys seal_d v0 = go v1" "vd_pending v1 = None"
    using upto_the_chain_pass [OF rows L, of v0] p0 by auto
  obtain v2 where v2: "check_report L v1 seal_d rep' (Some a) keys = Some (report_end L rep' (PStr dig) (length ams) v2)"
    using check_report_walked [OF kept(1) audit' am apart d v1(2)] by blast
  have "report_end L rep' (PStr dig) (length ams) v2 = stop BROKEN_LEDGER ReportChanged None v2"
    using changed dig by (auto simp: report_end_def)
  then show ?thesis using v0 v1 v2 by (simp add: so go_def stop_def)
qed

end
