(* ===== verification/Ledger_Demo.thy ===== *)
theory Ledger_Demo
  imports Ledger_Tamper Audit_Properties
begin

text \<open>
  Sealing goes through on any rows and report whose columns can be digested; and the small
  concrete run the witnesses of \<open>Ledger_Properties\<close> are taken at.
\<close>

section \<open>Sealing goes through\<close>

lemma keyed_ascii [simp]: "is_ascii (keyed L key tag m)"
  by (simp add: keyed_def)

lemma genesis_lands: "\<exists>g. genesis L job key = Inr g \<and> is_ascii g"
proof -
  have "normal (PDict [(''job_id'', PStr job), (''version'', PInt CHAIN_VERSION)])" by simp
  from canonical_text [OF this] show ?thesis by (auto simp: genesis_def)
qed

lemma chain_lands:
  assumes "is_ascii p" "\<forall>row\<in>set rows. \<exists>d. entry_digest L row = Inr d"
  shows "\<exists>h rows'. chain_from L key p rows = Inr (h, rows') \<and> is_ascii h"
  using assms
proof (induction rows arbitrary: p)
  case Nil
  then show ?case by simp
next
  case (Cons row rows)
  from Cons.prems(2) obtain d where d: "entry_digest L row = Inr d" by auto
  then have "is_ascii d" by (auto simp: entry_digest_def result_iffs)
  then have "is_ascii (p @ '':'' @ d)" using Cons.prems(1) by simp (simp add: is_ascii_def)
  then obtain c where c: "link L p d key = Inr c" "is_ascii c"
    by (simp add: link_def link_message_def)
  from Cons.IH [OF c(2)] Cons.prems(2) d c(1) show ?case by force
qed

lemma digested_lands:
  assumes "normal (PDict rec)"
  shows "\<exists>r. digested L rec key = Inr r \<and> normal (PDict r)"
proof -
  let ?body = "dict_without [''digest''] rec"
  have n: "normal (PDict ?body)" using assms by (rule normal_dict_without)
  have "sequence_r (map (\<lambda>kv. map_r (Pair (fst kv)) (json_value (snd kv))) ?body) = Inr (map (\<lambda>kv. kv) ?body)"
    using n by (intro sequence_r_cong_Inr) auto
  then have "record_digest L rec key = Inr (keyed L key RECORD_TAG (text_of (sorted_form (PDict ?body))))"
    using canonical_text [OF n] by (simp only: record_digest_def list.map_ident bind_r_Inr map_r_Inr)
  then show ?thesis using normal_dict_set [OF assms] by (auto simp only: digested_def map_r_Inr normal.simps)
qed

lemma seal_lands:
  assumes "timestamp (fromisoformat L) at = Inr t" "normal t"
  shows "\<exists>core seal_d. seal L job rows head dig at key rid = Inr core \<and> normal (PDict core) \<and>
    anchored L core b key = Inr seal_d"
proof -
  have "\<exists>core. seal L job rows head dig at key rid = Inr core \<and> normal (PDict core)"
    unfolding seal_def Let_def assms(1) bind_r_Inr using assms(2) by (intro digested_lands) simp
  then obtain core where core: "seal L job rows head dig at key rid = Inr core" "normal (PDict core)" by blast
  have "normal (PDict (dict_set (dict_set (dict_without [''digest''] core) ''core_digest'' (dict_get core ''digest''))
      ''audit_anchored'' (PBool b)))"
    using core(2) by (intro normal_dict_set normal_dict_without) (auto intro: normal_dict_get)
  from digested_lands [OF this, of L key] obtain seal_d where "anchored L core b key = Inr seal_d"
    by (auto simp only: anchored_def)
  with core show ?thesis by blast
qed

lemma sealing_lands:
  assumes "\<forall>row\<in>set rows. \<exists>d. entry_digest L row = Inr d" "report_digest L report [] = Inr dig"
    and "timestamp (fromisoformat L) at = Inr t" "normal t" "timestamp (fromisoformat L) now = Inr t'"
    and "log_run L R s" "map_of R (ck_key_id key) = Some key" "map_of known \<subseteq>\<^sub>m map_of R" "\<not> retired key s"
  shows "\<exists>seal_d rows' rep s'. seal_the_ledger L known job rows report key at now s = Inr (seal_d, rows', rep, s') \<and> landed s s'"
proof -
  obtain g where g: "genesis L job key = Inr g" "is_ascii g" using genesis_lands by blast
  have "\<forall>row\<in>set (sort_key seq_of rows). \<exists>d. entry_digest L row = Inr d" using assms(1) by simp
  from chain_lands [OF g(2) this] obtain h rows' where c: "chain_from L key g (sort_key seq_of rows) = Inr (h, rows')"
    by blast
  let ?rid = "py_str (dict_get report ''id'')"
  obtain core seal_d' where core: "seal L job rows' h dig at key ?rid = Inr core" "normal (PDict core)"
    using seal_lands [OF assms(3,4)] by blast
  let ?det = "[(''report_id'', PStr ?rid), (''seal'', PDict core)]"
  have "normal (PDict ?det)" using core(2) by simp
  then have "recordable L ?det now"
    using normal_json_value normal_floats_wf assms(5) by (auto simp: recordable_def)
  then have "fst (append L known key now LEDGER_SEAL ''job'' (Some job) ?det None s) \<noteq> None"
    using run_append_refused [OF assms(6) _ assms(7,8)] assms(9) by blast
  then obtain row where
    row: "fst (append L known key now LEDGER_SEAL ''job'' (Some job) ?det None s) = Some row"
    by blast
  obtain row' s' where app: "append L known key now LEDGER_SEAL ''job'' (Some job) ?det None s = (Some row', s')"
    using row by (metis prod.collapse)
  then have "landed s s'" by (cases rule: append_cases) (auto simp: landed_def)
  moreover obtain seal_d where "anchored L core True key = Inr seal_d"
    using seal_lands [OF assms(3,4), of job rows' h dig key ?rid True] core(1) by auto
  ultimately show ?thesis
    using g(1) c assms(2) core(1) app by (auto simp: seal_the_ledger_def chain_rows_def Let_def)
qed

section \<open>A run to take the witnesses at\<close>

definition demo_L :: stdlib where
  "demo_L = demo_std\<lparr>sha256 := \<lambda>m. CHR ''a'' # m, hmac_sha256 := \<lambda>k m. CHR ''h'' # m\<rparr>"

definition demo_entry :: "int \<Rightarrow> string \<Rightarrow> dict" where
  "demo_entry n t = [(''seq'', PInt n), (''tool'', PStr t)]"

definition demo_cols :: "int \<Rightarrow> string \<Rightarrow> dict" where
  "demo_cols n t = map (\<lambda>name. (name, dict_get (demo_entry n t) name))
     (filter (\<lambda>name. name \<notin> set SEALED_WHEN_SET) DIGESTED)"

lemma demo_entry_get: "dict_get (demo_entry n t) name =
    (if name = ''seq'' then PInt n else if name = ''tool'' then PStr t else PNone)"
  by (simp add: demo_entry_def)

lemma demo_entry_field:
  "entry_field L (demo_entry n t) name =
    Inr (if name \<in> set SEALED_WHEN_SET then [] else [(name, dict_get (demo_entry n t) name)])"
proof -
  have "''seq'' \<notin> set SEALED_WHEN_SET" "''tool'' \<notin> set SEALED_WHEN_SET" "''seq'' \<notin> set JSON_COLUMNS" "''tool'' \<notin> set JSON_COLUMNS"
    by (simp_all add: SEALED_WHEN_SET_def JSON_COLUMNS_def)
  then show ?thesis by (auto simp: entry_field_def demo_entry_get Let_def json_value_def timestamp_def)
qed

lemma demo_entry_fields: "entry_fields L (demo_entry n t) = Inr (demo_cols n t)"
proof -
  have "concat (map (\<lambda>name. if P name then [] else [f name]) xs) = map f (filter (\<lambda>name. \<not> P name) xs)"
    for P and f :: "string \<Rightarrow> string \<times> py" and xs by (induction xs) auto
  then show ?thesis unfolding entry_fields_def demo_entry_field demo_cols_def by simp
qed

lemma demo_cols_normal: "normal (PDict (demo_cols n t))"
  by (auto simp: demo_cols_def demo_entry_get)

lemma demo_digest:
  "entry_digest demo_L (demo_entry n t) =
    Inr (hexdigest (CHR ''a'' # ENTRY_TAG @ text_of (sorted_form (PDict (demo_cols n t)))))"
  using canonical_text [OF demo_cols_normal, of n t]
  by (simp only: entry_digest_def demo_entry_fields bind_r_Inr map_r_Inr) (simp add: demo_L_def)

lemma sorted_form_members:
  "sorted_form (PDict d) = sorted_form (PDict d') \<Longrightarrow> (k, v) \<in> set d \<Longrightarrow> \<exists>v'. (k, v') \<in> set d' \<and> sorted_form v' = sorted_form v"
proof -
  assume eq: "sorted_form (PDict d) = sorted_form (PDict d')" and m: "(k, v) \<in> set d"
  have "sort_key fst (map (map_prod id sorted_form) d) = sort_key fst (map (map_prod id sorted_form) d')"
    using eq by (simp only: sorted_form.simps py.inject)
  then have "set (map (map_prod id sorted_form) d) = set (map (map_prod id sorted_form) d')"
    by (metis (no_types) set_sort)
  moreover have "(k, sorted_form v) \<in> set (map (map_prod id sorted_form) d)" using m by force
  ultimately show ?thesis by auto
qed

lemma demo_digest_inject:
  "entry_digest demo_L (demo_entry n t) = entry_digest demo_L (demo_entry n t') \<Longrightarrow> t = t'"
proof -
  assume "entry_digest demo_L (demo_entry n t) = entry_digest demo_L (demo_entry n t')"
  then have "canonical (PDict (demo_cols n t)) = canonical (PDict (demo_cols n t'))"
    using canonical_text [OF demo_cols_normal] by (simp add: demo_digest del: sorted_form.simps text_of.simps)
  then have "sorted_form (PDict (demo_cols n t)) = sorted_form (PDict (demo_cols n t'))"
    using canonical_inject [OF demo_cols_normal demo_cols_normal] by blast
  moreover have "(''tool'', PStr t) \<in> set (demo_cols n t)"
  proof -
    have "''tool'' \<in> set DIGESTED" "''tool'' \<notin> set SEALED_WHEN_SET"
      by (simp_all add: DIGESTED_def SEALED_WHEN_SET_def)
    then show ?thesis
      unfolding demo_cols_def set_map by (intro image_eqI [of _ _ "''tool''"]) (simp_all add: demo_entry_get)
  qed
  ultimately obtain v where "(''tool'', v) \<in> set (demo_cols n t')" "sorted_form v = PStr t"
    using sorted_form_members by fastforce
  then show "t = t'" by (auto simp: demo_cols_def demo_entry_get)
qed

definition demo_report :: dict where
  "demo_report = [(''id'', PStr ''r1''), (''job_id'', PStr ''j1''), (''malware_report'', PDict []), (''run_summary'', PDict [])]"

definition demo_verdict_report :: "py \<Rightarrow> dict" where
  "demo_verdict_report v = dict_set demo_report ''verdict'' v"

definition demo_fields :: "py \<Rightarrow> dict" where
  "demo_fields v = map (\<lambda>name. (name, if name = ''verdict'' then v else dict_get demo_report name)) REPORT_DIGESTED"

lemma demo_report_get: "dict_get demo_report name =
    (if name = ''id'' then PStr ''r1'' else if name = ''job_id'' then PStr ''j1''
     else if name \<in> {''malware_report'', ''run_summary''} then PDict [] else PNone)"
  by (auto simp: demo_report_def)

lemma demo_report_field:
  assumes "v = PNone \<or> v = PStr t" "name \<noteq> ''id''"
  shows "report_field (demo_verdict_report v) [] name =
    Inr (name, if name = ''verdict'' then v else dict_get demo_report name)"
proof -
  have j: "''verdict'' \<notin> set REPORT_JSON" by (simp add: REPORT_JSON_def)
  have w: "without_seal (PDict []) = Inr (PDict [])" by (simp add: without_seal_def)
  have get: "dict_get (demo_verdict_report v) name = (if name = ''verdict'' then v else dict_get demo_report name)"
    by (simp add: demo_verdict_report_def)
  consider "name = ''verdict''" | "name \<in> {''malware_report'', ''run_summary''}" | "name = ''job_id''"
    | "name \<notin> {''verdict'', ''malware_report'', ''run_summary'', ''job_id'', ''id''}"
    using assms(2) by blast
  then show ?thesis
  proof cases
    case 1
    then show ?thesis using assms(1) j by (elim disjE) (simp_all add: report_field_def Let_def demo_verdict_report_def)
  next
    case 2
    then have "name \<noteq> ''verdict''" "dict_get demo_report name = PDict []" by (auto simp: demo_report_get)
    then show ?thesis using 2 w by (simp add: report_field_def get)
  next
    case 3
    then show ?thesis by (simp add: report_field_def Let_def demo_verdict_report_def demo_report_get REPORT_JSON_def)
  next
    case 4
    then have "dict_get demo_report name = PNone" "name \<noteq> ''verdict''" by (simp_all add: demo_report_get)
    then show ?thesis using 4 by (simp add: report_field_def get json_value_def)
  qed
qed

lemma demo_report_fields:
  assumes "v = PNone \<or> v = PStr t"
  shows "report_fields (demo_verdict_report v) [] = Inr (demo_fields v)" "normal (PDict (demo_fields v))"
proof -
  have "''id'' \<notin> set REPORT_DIGESTED" by (simp add: REPORT_DIGESTED_def)
  show "report_fields (demo_verdict_report v) [] = Inr (demo_fields v)"
    unfolding report_fields_def demo_fields_def
  proof (intro sequence_r_cong_Inr)
    fix name assume "name \<in> set REPORT_DIGESTED"
    with \<open>''id'' \<notin> set REPORT_DIGESTED\<close> have "name \<noteq> ''id''" by blast
    then show "report_field (demo_verdict_report v) [] name =
        Inr (name, if name = ''verdict'' then v else dict_get demo_report name)"
      by (rule demo_report_field [OF assms])
  qed
  show "normal (PDict (demo_fields v))" using assms by (auto simp: demo_fields_def demo_report_get)
qed

lemma demo_report_digest:
  assumes "v = PNone \<or> v = PStr t"
  shows "report_digest demo_L (demo_verdict_report v) [] =
    Inr (hexdigest (CHR ''a'' # REPORT_TAG @ text_of (sorted_form (PDict (demo_fields v)))))"
  using canonical_text [OF demo_report_fields(2) [OF assms]]
  by (simp only: report_digest_def demo_report_fields(1) [OF assms] bind_r_Inr map_r_Inr) (simp add: demo_L_def)

lemma demo_verdict_matters:
  "report_digest demo_L (demo_verdict_report PNone) [] \<noteq> report_digest demo_L (demo_verdict_report (PStr ''x'')) []"
proof
  assume "report_digest demo_L (demo_verdict_report PNone) [] = report_digest demo_L (demo_verdict_report (PStr ''x'')) []"
  then have t: "text_of (sorted_form (PDict (demo_fields PNone))) = text_of (sorted_form (PDict (demo_fields (PStr ''x''))))"
    using demo_report_digest [of PNone] demo_report_digest [of "PStr ''x''" "''x''"]
    by (simp del: sorted_form.simps text_of.simps)
  have n: "normal (PDict (demo_fields PNone))" "normal (PDict (demo_fields (PStr ''x'')))"
    by (rule demo_report_fields(2), blast)+
  have "canonical (PDict (demo_fields PNone)) = canonical (PDict (demo_fields (PStr ''x'')))"
    unfolding canonical_text [OF n(1)] canonical_text [OF n(2)] by (simp only: t)
  then have "sorted_form (PDict (demo_fields PNone)) = sorted_form (PDict (demo_fields (PStr ''x'')))"
    using canonical_inject [OF n] by blast
  moreover have "''verdict'' \<in> set REPORT_DIGESTED" by (simp add: REPORT_DIGESTED_def)
  then have "(''verdict'', PNone) \<in> set (demo_fields PNone)"
    unfolding demo_fields_def set_map by (intro image_eqI [of _ _ "''verdict''"]) simp_all
  ultimately obtain v where "(''verdict'', v) \<in> set (demo_fields (PStr ''x''))" "sorted_form v = PNone"
    using sorted_form_members by fastforce
  then show False by (auto simp: demo_fields_def)
qed

lemma demo_first_report: "report_digest L demo_report [] = report_digest L (demo_verdict_report PNone) []"
  by (rule report_digest_cong, rule report_field_get) (simp add: demo_verdict_report_def demo_report_get)

definition demo_anchor :: anchor_verdict where
  "demo_anchor = new_verdict NONE NoAnchor None"

text \<open>One report of three rows, sealed in an empty log.\<close>

lemma chain_from_shape:
  assumes "chain_from L key p rows = Inr (h, rows')" "i < length rows"
  shows "\<exists>d c. rows' ! i = dict_set (dict_set (rows ! i) ''digest'' (PStr d)) ''chain'' (PStr c)"
  using assms
proof (induction rows arbitrary: p rows' i)
  case (Cons row rows)
  then obtain d c ds where rest: "chain_from L key c rows = Inr (h, ds)"
    and rows': "rows' = dict_set (dict_set row ''digest'' (PStr d)) ''chain'' (PStr c) # ds"
    by (auto simp: result_iffs split: prod.splits)
  show ?case
  proof (cases i)
    case 0
    then show ?thesis unfolding rows' by (simp del: dict_set.simps) blast
  next
    case (Suc j)
    then show ?thesis using Cons.IH [OF rest, of j] Cons.prems(2) by (simp add: rows' del: dict_set.simps)
  qed
qed simp

lemma demo_timestamp: "timestamp (fromisoformat demo_L) (PMoment 0 None) = Inr (PStr ''1970-01-01T00:00:00.000000Z'')"
  by code_simp

lemma demo_sealable: "sealable demo_report"
  by (simp add: sealable_def demo_report_def)

lemma demo_sealing:
  obtains seal_d rows rep s where
    "seal_the_ledger demo_L demo_ring ''j1'' [demo_entry 1 ''t'', demo_entry 2 ''t'', demo_entry 3 ''t''] demo_report
       demo_key (PMoment 0 None) (PMoment 0 None) demo_session = Inr (seal_d, rows, rep, s)"
    "landed demo_session s"
proof -
  have "log_run demo_L demo_ring demo_session" by (rule empty_log) (simp_all add: demo_session_def)
  moreover have "\<not> retired demo_key demo_session" by (simp add: retired_def demo_session_def)
  moreover have "map_of demo_ring (ck_key_id demo_key) = Some demo_key" by (simp add: demo_ring_def demo_key_def)
  moreover have "\<forall>row\<in>set [demo_entry 1 ''t'', demo_entry 2 ''t'', demo_entry 3 ''t'']. \<exists>d. entry_digest demo_L row = Inr d"
    using demo_digest by auto
  moreover have "\<exists>dig. report_digest demo_L demo_report [] = Inr dig"
    unfolding demo_first_report using demo_report_digest [of PNone "[]"] by blast
  then obtain dig where "report_digest demo_L demo_report [] = Inr dig" by blast
  ultimately show thesis
    using sealing_lands [of "[demo_entry 1 ''t'', demo_entry 2 ''t'', demo_entry 3 ''t'']" demo_L demo_report dig
        "PMoment 0 None" "PStr ''1970-01-01T00:00:00.000000Z''" "PMoment 0 None" "PStr ''1970-01-01T00:00:00.000000Z''"
        demo_ring demo_session demo_key demo_ring "''j1''"] demo_timestamp that by auto
qed

lemma demo_verifiable:
  obtains seal_d rows rep s where
    "verifiable_run demo_L demo_ring demo_ring demo_key ''id1'' ''j1'' rows rep seal_d [] s demo_anchor"
    "map seq_of rows = [1, 2, 3]" "length rows = 3"
    "\<And>i. i < 3 \<Longrightarrow> \<exists>d c. rows ! i = dict_set (dict_set (demo_entry (int i + 1) ''t'') ''digest'' (PStr d)) ''chain'' (PStr c)"
    "rep = dict_set (dict_set (dict_set demo_report ''ledger_seal'' (PDict seal_d))
          ''malware_report'' (with_seal (dict_get demo_report ''malware_report'') seal_d))
          ''run_summary'' (with_seal (dict_get demo_report ''run_summary'') seal_d)"
proof -
  let ?rows = "[demo_entry 1 ''t'', demo_entry 2 ''t'', demo_entry 3 ''t'']"
  obtain seal_d rows rep s where run: "seal_the_ledger demo_L demo_ring ''j1'' ?rows demo_report
       demo_key (PMoment 0 None) (PMoment 0 None) demo_session = Inr (seal_d, rows, rep, s)" "landed demo_session s"
    by (rule demo_sealing)
  obtain head dig core r where c: "chain_rows demo_L ''j1'' ?rows demo_key = Inr (head, rows)"
    and app: "append demo_L demo_ring demo_key (PMoment 0 None) LEDGER_SEAL ''job'' (Some ''j1'')
       [(''report_id'', PStr (py_str (dict_get demo_report ''id''))), (''seal'', PDict core)] None demo_session = (r, s)"
    and rep: "rep = dict_set (dict_set (dict_set demo_report ''ledger_seal'' (PDict seal_d))
          ''malware_report'' (with_seal (dict_get demo_report ''malware_report'') seal_d))
          ''run_summary'' (with_seal (dict_get demo_report ''run_summary'') seal_d)"
    by (rule seal_the_ledger_parts [OF run(1)])
  have seqs: "map seq_of ?rows = [1, 2, 3]" by (simp add: demo_entry_def seq_of_def)
  then have so: "sort_key seq_of ?rows = ?rows" by (intro sort_key_id_if_sorted) (simp del: list.map)
  then obtain g where cf: "chain_from demo_L demo_key g ?rows = Inr (head, rows)"
    using c by (auto simp: chain_rows_def bind_r_eq_Inr simp del: sort_key_simps)
  note made = chain_from_rows [OF cf] chain_from_shape [OF cf]
  have empty: "log_run demo_L demo_ring demo_session" by (rule empty_log) (simp_all add: demo_session_def)
  have sealed: "sealed_run demo_L demo_ring demo_key ''j1'' rows rep seal_d [] s"
    by (rule sealed_run.sealing [OF empty _ demo_sealable _ run])
      (simp_all add: demo_session_def chained_def demo_report_def)
  have keys: "map_of demo_ring (ck_key_id demo_key) = Some demo_key" "ck_key_id demo_key = ''id1''" "map_of demo_ring ''id1'' = Some demo_key"
    by (simp_all add: demo_ring_def demo_key_def)
  have L: "digests_shown demo_L" "macs_shown demo_L"
    by (simp_all add: digests_shown_def macs_shown_def demo_L_def)
  have lrun: "log_run demo_L demo_ring s"
    by (rule log_run.appending [OF empty keys(1) _ app]) (simp add: demo_key_def)
  from app run(2) obtain row h where w: "appended demo_L demo_ring demo_key (PMoment 0 None) LEDGER_SEAL ''job'' (Some ''j1'')
       [(''report_id'', PStr (py_str (dict_get demo_report ''id''))), (''seal'', PDict core)] None demo_session = Inr (row, h)"
    "db_rows s = [row]" "db_head s = Some h"
    by (cases rule: append_cases) (auto simp: landed_def demo_session_def)
  have h: "chained (db_rows s) = [row]" using appended_columns [OF w(1)] w(2) by (simp add: chained_def)
  obtain kid key b where ok: "head_ok demo_L demo_ring [row] h kid key b"
    using log_run_inv [OF lrun] by (auto simp: w(3) log_inv_simps h)
  have kid: "head_key_id h = Some ''id1''"
    using w(1) by (auto simp: appended_def Let_def result_iffs demo_key_def none_if_empty_def)
  have b: "rotated_at_seq h = Some b" "b = 1" using head_okD [OF ok] by auto
  have "\<forall>r\<in>set (own_rows (db_rows s) (Some h) ''j1''). 1 \<le> row_seq r"
    using head_ok_places [OF ok] head_okD(8) [OF ok] by (auto simp: own_rows_def w(2))
  then have "verifiable_run demo_L demo_ring demo_ring demo_key ''id1'' ''j1'' rows rep seal_d [] s demo_anchor"
    unfolding verifiable_run_def using sealed keys L w(3) kid b
    by (auto simp: record_digests_def demo_anchor_def new_verdict_def)
  moreover have "\<exists>d c. rows ! i = dict_set (dict_set (demo_entry (int i + 1) ''t'') ''digest'' (PStr d)) ''chain'' (PStr c)"
    if "i < 3" for i
  proof -
    from that have "i = 0 \<or> i = 1 \<or> i = 2" by auto
    then have "?rows ! i = demo_entry (int i + 1) ''t''" by auto
    with made(2) [of i] that show ?thesis by simp
  qed
  moreover have "map seq_of rows = [1, 2, 3]" "length rows = 3" using made(1) seqs by auto
  ultimately show thesis using rep by (intro that)
qed

end
