(* ===== verification/Ledger_Properties.thy ===== *)
theory Ledger_Properties
  imports Ledger_Demo
begin

text \<open>
  The properties of the sealed ledger and of its verification, each with its witness.
\<close>

section \<open>What a verified verdict means\<close>

lemma verified_path:
  assumes "verify_ledger L job rows report audit keys = Some (Inr (Answer v))" "vd_status v = VERIFIED"
  obtains rep r0 seal_d r1 r2 r3 where "report = Some rep"
    "before_the_seal job (sort_key seq_of rows) audit = Inr r0"
    "seal_of_the_report r0 rep (filter (\<lambda>row. truthy (dict_get row ''digest'') \<or> truthy (dict_get row ''chain''))
       (sort_key seq_of rows)) audit = Inr (Inr (seal_d, r1))"
    "upto_the_chain L job (sort_key seq_of rows) keys seal_d (r1\<lparr>vd_seal := Some seal_d\<rparr>) = Inr (Inr r2)"
    "check_report L r2 seal_d rep audit keys = Some (Inr (Inr r3))"
    "v = final_verdict r3 audit"
proof -
  let ?ordered = "sort_key seq_of rows"
  let ?chained = "filter (\<lambda>row. truthy (dict_get row ''digest'') \<or> truthy (dict_get row ''chain'')) ?ordered"
  have good: "vd_status v \<in> {VERIFIED, DELETED}" using assms(2) by simp
  have "before_the_seal job ?ordered audit \<noteq> Inl v"
    using assms(2) by (auto simp: before_the_seal_def Let_def split: option.splits if_splits)
  then obtain r0 where r0: "before_the_seal job ?ordered audit = Inr r0"
    using assms(1) by (auto simp: verify_ledger_def Let_def split: sum.splits)
  let ?found = "case report of Some rep \<Rightarrow> seal_of_the_report r0 rep ?chained audit
      | None \<Rightarrow> seal_without_a_report r0 ?ordered ?chained audit"
  have "?found \<noteq> Inr (Inl v)" using good
    by (auto split: option.splits dest: bad_endD [OF bad_end_seal_of_the_report] bad_endD [OF bad_end_seal_without_a_report])
  with assms(1) r0 obtain seal_d r1 where s: "?found = Inr (Inr (seal_d, r1))"
    and after: "after_the_seal L job ?ordered report audit keys seal_d r1 = Some (Inr v)"
    by (auto simp: verify_ledger_def Let_def map_r_eq_Inr split: sum.splits if_splits)
  have "upto_the_chain L job ?ordered keys seal_d (r1\<lparr>vd_seal := Some seal_d\<rparr>) \<noteq> Inr (Inl v)"
  proof -
    have "bad_end (upto_the_chain L job ?ordered keys seal_d r)" for r
      unfolding upto_the_chain_def Let_def by (auto intro!: bad_end_bind_v bad_end_bind_r split: option.splits)
    then show ?thesis using good by (auto dest: bad_endD)
  qed
  with after obtain r2 where up: "upto_the_chain L job ?ordered keys seal_d (r1\<lparr>vd_seal := Some seal_d\<rparr>) = Inr (Inr r2)"
    by (auto simp: after_the_seal_def split: sum.splits)
  have "report \<noteq> None"
    using after up assms(2)
    by (auto simp: after_the_seal_def check_the_deletion_def Let_def split: if_splits option.splits)
  then obtain rep where rep: "report = Some rep" by blast
  with after up obtain m where m: "check_report L r2 seal_d rep audit keys = Some m"
    "map_r (\<lambda>step. case step of Inl v \<Rightarrow> v | Inr r \<Rightarrow> final_verdict r audit) m = Inr v"
    by (auto simp: after_the_seal_def)
  have "m \<noteq> Inr (Inl v)" using bad_endD [OF bad_end_check_report [OF m(1)]] good by blast
  moreover from m(2) obtain x where "m = Inr x" "v = (case x of Inl v \<Rightarrow> v | Inr r \<Rightarrow> final_verdict r audit)"
    by (auto simp: map_r_eq_Inr)
  ultimately obtain r3 where "m = Inr (Inr r3)" "v = final_verdict r3 audit" by (cases x) auto
  with rep r0 s up m(1) show thesis by (intro that) auto
qed

lemma final_verdict_verified:
  assumes "vd_status (final_verdict r audit) = VERIFIED"
  shows "vd_pending r = None" "vd_seal (final_verdict r audit) = vd_seal r" "vd_head (final_verdict r audit) = vd_head r"
    "\<And>a. audit = Some a \<Longrightarrow> \<not> head_unverifiable (ja_check a) \<and> \<not> unverifiable_own a \<and> anchor_unverifiable (Some a) = None"
  using assms by (auto simp: final_verdict_def Let_def split: option.splits if_splits)

text \<open>
  C14. What a verified verdict guarantees, where the verification came to it by its own checks
  (\<open>Answer\<close>). Left out is a stored seal that itself carries the keys \<open>status\<close> and \<open>job_id\<close>: that seal is
  handed back as the verdict, \<open>verified\<close> where it says so, with nothing of it checked (\<open>SealTaken\<close>,
  \<open>a_forged_verdict_is_handed_back\<close> of \<open>Ledger_Returns\<close>). The stored rows, in order, are
  exactly what the sealing computation makes of them under the key the seal names, down to every
  digest and chain value, and end on the head the seal holds, as many as it counts; the seal is
  the report row's own, keyed under that key, for this job and this report; the stored report's
  digest is reached from the seal's by the stored amendments, each keyed and chained onto the one
  before; and where the audit log was read, it is unbroken and verifiable for this job, it holds
  the very core of this seal for this report, and it records exactly those amendments.
\<close>

theorem verified_means_sealed:
  assumes "verify_ledger L job rows report audit keys = Some (Inr (Answer v))" "vd_status v = VERIFIED"
  shows "\<exists>rep seal_d key head.
    report = Some rep \<and> dict_get rep ''ledger_seal'' = PDict seal_d \<and> vd_seal v = Some seal_d \<and>
    key_named keys (dict_get seal_d ''key_id'') = Inr (Some key) \<and>
    map_r PStr (record_digest L seal_d key) = Inr (dict_get seal_d ''digest'') \<and>
    py_str (dict_get seal_d ''job_id'') = job \<and>
    py_str (dict_get seal_d ''report_id'') = py_str (dict_get rep ''id'') \<and>
    chain_rows L job rows key = Inr (head, sort_key seq_of rows) \<and>
    dict_get seal_d ''head'' = PStr head \<and> vd_head v = Some head \<and>
    py_int (py_or (dict_get seal_d ''entries'') (PInt 0)) = Inr (int (length rows)) \<and>
    (\<exists>held dig. py_iter (stored_amendments (dict_get rep ''malware_report'')) = Inr held \<and>
      report_digest L rep [] = Inr dig \<and>
      amended L keys held 1 (dict_get seal_d ''digest'') (dict_get seal_d ''report_sha256'') (PStr dig) \<and>
      (\<forall>a. audit = Some a \<longrightarrow> (\<exists>recorded. audit_amendments L seal_d (py_str (dict_get rep ''id'')) a keys = Some (Inr recorded) \<and>
        list_all2 (\<lambda>v d. py_eq v (PDict d)) held recorded))) \<and>
    (\<forall>a. audit = Some a \<longrightarrow> broken_at (ja_check a) = None \<and> unverifiable (ja_check a) = [] \<and>
      \<not> head_unverifiable (ja_check a) \<and> anchor_unverifiable audit = None \<and>
      (\<exists>d\<in>set (ja_seals a). py_str (dict_get d ''report_id'') = py_str (dict_get rep ''id'') \<and>
        py_eq (dict_get d ''seal'') (PDict (core_of seal_d))))"
proof -
  obtain rep r0 seal_d r1 r2 r3 where rep: "report = Some rep"
    and r0: "before_the_seal job (sort_key seq_of rows) audit = Inr r0"
    and s: "seal_of_the_report r0 rep (filter (\<lambda>row. truthy (dict_get row ''digest'') \<or> truthy (dict_get row ''chain''))
       (sort_key seq_of rows)) audit = Inr (Inr (seal_d, r1))"
    and up: "upto_the_chain L job (sort_key seq_of rows) keys seal_d (r1\<lparr>vd_seal := Some seal_d\<rparr>) = Inr (Inr r2)"
    and cr: "check_report L r2 seal_d rep audit keys = Some (Inr (Inr r3))"
    and v: "v = final_verdict r3 audit"
    by (rule verified_path [OF assms])
  note fin = final_verdict_verified [OF assms(2) [unfolded v], folded v]
  obtain vs held dig where am: "stored_amendments (dict_get rep ''malware_report'') = vs" "vd_pending r2 = None"
    "vd_seal r3 = vd_seal r2" "vd_head r3 = vd_head r2" "py_iter vs = Inr held"
    "amended L keys held 1 (dict_get seal_d ''digest'') (dict_get seal_d ''report_sha256'') (PStr dig)"
    "report_digest L rep [] = Inr dig"
    "\<And>a. audit = Some a \<Longrightarrow> \<exists>recorded. audit_amendments L seal_d (py_str (dict_get rep ''id'')) a keys = Some (Inr recorded) \<and>
      list_all2 (\<lambda>v d. py_eq v (PDict d)) held recorded"
    by (rule check_report_goes [OF cr fin(1)]) (rule that)
  obtain key d start head where up': "key_named keys (dict_get seal_d ''key_id'') = Inr (Some key)"
    "record_digest L seal_d key = Inr d" "dict_get seal_d ''digest'' = PStr d"
    "py_str (dict_get seal_d ''job_id'') = job"
    "genesis L job key = Inr start" "chain_from L key start (sort_key seq_of rows) = Inr (head, sort_key seq_of rows)"
    "dict_get seal_d ''head'' = PStr head" "\<forall>row\<in>set (sort_key seq_of rows). row_digested L row"
    "py_int (py_or (dict_get seal_d ''entries'') (PInt 0)) = Inr (int (length (sort_key seq_of rows)))"
    "vd_pending r2 = vd_pending (r1\<lparr>vd_seal := Some seal_d\<rparr>)" "vd_seal r2 = vd_seal (r1\<lparr>vd_seal := Some seal_d\<rparr>)"
    "vd_head r2 = Some head"
    by (rule upto_the_chain_goes [OF up])
  have p1: "vd_pending r1 = None" using up'(10) am(2) by simp
  note sg = seal_of_the_report_goes [OF s]
  have brk: "broken_at (ja_check a) = None" if "audit = Some a" for a
    using r0 that by (auto simp: before_the_seal_def Let_def split: if_splits)
  have own: "unverifiable (ja_check a) = []" if "audit = Some a" for a
    using fin(4) [OF that] brk [OF that] by (auto simp: unverifiable_own_def)
  show ?thesis
    using rep sg p1 up' am brk own fin
    by (intro exI [of _ rep] exI [of _ seal_d] exI [of _ key] exI [of _ head] conjI exI [of _ held] exI [of _ dig])
      (auto simp: chain_rows_def)
qed

lemma verified_rows:
  assumes "verify_ledger L job rows report audit keys = Some (Inr (Answer v))" "vd_status v = VERIFIED"
  obtains seal_d key start head where "vd_seal v = Some seal_d"
    "key_named keys (dict_get seal_d ''key_id'') = Inr (Some key)" "genesis L job key = Inr start"
    "chain_from L key start (sort_key seq_of rows) = Inr (head, sort_key seq_of rows)"
    "dict_get seal_d ''head'' = PStr head" "\<forall>row\<in>set rows. row_digested L row"
    "py_int (py_or (dict_get seal_d ''entries'') (PInt 0)) = Inr (int (length rows))"
proof -
  let ?chained = "filter (\<lambda>row. truthy (dict_get row ''digest'') \<or> truthy (dict_get row ''chain'')) (sort_key seq_of rows)"
  obtain rep r0 seal_d r1 r2 r3 where rep: "report = Some rep"
    and r0: "before_the_seal job (sort_key seq_of rows) audit = Inr r0"
    and s: "seal_of_the_report r0 rep ?chained audit = Inr (Inr (seal_d, r1))"
    and up: "upto_the_chain L job (sort_key seq_of rows) keys seal_d (r1\<lparr>vd_seal := Some seal_d\<rparr>) = Inr (Inr r2)"
    and cr: "check_report L r2 seal_d rep audit keys = Some (Inr (Inr r3))"
    and v: "v = final_verdict r3 audit"
    by (rule verified_path [OF assms])
  note fin = final_verdict_verified [OF assms(2) [unfolded v], folded v]
  have r3: "vd_seal r3 = vd_seal r2" by (rule check_report_goes [OF cr fin(1)])
  show thesis
  proof (rule upto_the_chain_goes [OF up])
    fix key d start head
    assume a: "key_named keys (dict_get seal_d ''key_id'') = Inr (Some key)" "genesis L job key = Inr start"
      "chain_from L key start (sort_key seq_of rows) = Inr (head, sort_key seq_of rows)"
      "dict_get seal_d ''head'' = PStr head" "\<forall>row\<in>set (sort_key seq_of rows). row_digested L row"
      "py_int (py_or (dict_get seal_d ''entries'') (PInt 0)) = Inr (int (length (sort_key seq_of rows)))"
      "vd_seal r2 = vd_seal (r1\<lparr>vd_seal := Some seal_d\<rparr>)"
    have "vd_seal v = Some seal_d" using fin(2) r3 a(7) by simp
    then show thesis using a by (intro that) simp_all
  qed
qed

text \<open>
  C15. A seal closes one ledger. If the verification's own checks called two ledgers of a job
  verified (\<open>Answer\<close>), at whatever times and with whatever reports and audit rows, and the two carry one
  seal, then they have the same
  rows in the same order, digested column by digested column up to the order of JSON keys, or
  the two exhibit a collision of the MAC or of the digest at a row the statement names. The columns of
  the rows hold values of their kinds (\<open>columns_wf\<close>: no list or object outside the JSON columns). Left out, as
  in the property before, is a stored seal with the keys \<open>status\<close> and \<open>job_id\<close>, which is handed back as the
  verdict unchecked over any rows (\<open>SealTaken\<close>).
\<close>

theorem one_seal_one_ledger:
  assumes "verify_ledger L job rows report audit keys = Some (Inr (Answer v))" "vd_status v = VERIFIED"
    and "verify_ledger L job rows' report' audit' keys = Some (Inr (Answer v'))" "vd_status v' = VERIFIED"
    and "vd_seal v = vd_seal v'" "\<forall>row\<in>set rows \<union> set rows'. columns_wf row"
  shows "list_all2 (same_entry L) (sort_key seq_of rows) (sort_key seq_of rows') \<or>
    (\<exists>key i before before'. i < length rows \<and>
      ledger_clash L key before (sort_key seq_of rows ! i) before' (sort_key seq_of rows' ! i))"
proof -
  obtain seal_d key start head where a: "vd_seal v = Some seal_d"
    "key_named keys (dict_get seal_d ''key_id'') = Inr (Some key)" "genesis L job key = Inr start"
    "chain_from L key start (sort_key seq_of rows) = Inr (head, sort_key seq_of rows)"
    "dict_get seal_d ''head'' = PStr head" "\<forall>row\<in>set rows. row_digested L row"
    "py_int (py_or (dict_get seal_d ''entries'') (PInt 0)) = Inr (int (length rows))"
    by (rule verified_rows [OF assms(1,2)])
  obtain seal_d' key' start' head' where a': "vd_seal v' = Some seal_d'"
    "key_named keys (dict_get seal_d' ''key_id'') = Inr (Some key')" "genesis L job key' = Inr start'"
    "chain_from L key' start' (sort_key seq_of rows') = Inr (head', sort_key seq_of rows')"
    "dict_get seal_d' ''head'' = PStr head'" "\<forall>row\<in>set rows'. row_digested L row"
    "py_int (py_or (dict_get seal_d' ''entries'') (PInt 0)) = Inr (int (length rows'))"
    by (rule verified_rows [OF assms(3,4)])
  have same: "seal_d' = seal_d" using a(1) a'(1) assms(5) by simp
  then have eq: "key' = key" "start' = start" "head' = head" "length rows = length rows'"
    using a a' by auto
  have "\<forall>row\<in>set (sort_key seq_of rows) \<union> set (sort_key seq_of rows'). sealed_row L row"
    using a(6) a'(6) assms(6) by (auto simp: sealed_row_def)
  from same_head_entries [OF a(4) a'(4) [unfolded eq] this] eq(4) show ?thesis by auto
qed

section \<open>What sealing and enriching leave is verified\<close>

text \<open>
  C16. A job's stored ledger verifies at every moment of its life. From the sealing on, through
  any changes of the stored report (each leaving its amendment), any rows other work appends to
  the audit log under any keys, and any commits, \<open>verify_job\<close> reads the stored rows, report and
  log and answers verified; provided the seal's key is still held, no rotation has put the job's
  own audit rows out of the current key's reach, no two records share a MAC, and a configured
  anchor neither contradicts the chain nor leaves it unverifiable.
\<close>

theorem sealed_run_verifies:
  assumes "verifiable_run L R keys key kid job rows rep seal_d ams s anchor"
  shows "\<exists>v. verify_job L job rows (Some rep) (db_rows s) (db_head s) keys (Some kid) anchor [] = Some (Inr (Answer v)) \<and>
    vd_status v = VERIFIED"
  using assms
proof (rule verifiable_runE)
  fix a assume a: "rows_sealed L keys job rows seal_d" "report_sealed L keys rep seal_d ams" "''status'' \<notin> fst ` set seal_d"
    "audit_agrees a (py_str (dict_get rep ''id'')) seal_d ams" "digests_shown L"
    "distinct (record_digests (dict_get seal_d ''digest'') ams)"
    and v: "\<And>rows' rep'. verify_job L job rows' rep' (db_rows s) (db_head s) keys (Some kid) anchor [] =
      verify_ledger L job rows' rep' (Some a) keys"
  show ?thesis unfolding v by (rule verify_ledger_pass [OF a(1,2,4,6,5,3)])
qed

section \<open>What a change is answered with\<close>

text \<open>
  C17. An edited row is named. Replace, in a verifiable run, one stored row by another of the same
  place and the same stored digest but with other digested columns: the job reads broken, at that
  row's \<open>seq\<close>, as differing from its digest, whatever the chain value written beside it.
\<close>

theorem edited_entry_is_named:
  assumes "verifiable_run L R keys key kid job rows rep seal_d ams s anchor"
    and "i < length rows" "seq_of row = seq_of (rows ! i)" "dict_get row ''digest'' = dict_get (rows ! i) ''digest''"
    and "entry_digest L row = Inr d" "entry_digest L (rows ! i) \<noteq> Inr d"
  shows "\<exists>v. verify_job L job (rows[i := row]) (Some rep) (db_rows s) (db_head s) keys (Some kid) anchor [] = Some (Inr (Answer v)) \<and>
    vd_status v = BROKEN_LEDGER \<and> vd_reason v = Some (RowDiffersFromDigest (seq_of row)) \<and> vd_first v = Some (seq_of row)"
  using assms(1)
proof (rule verifiable_runE)
  fix a assume a: "rows_sealed L keys job rows seal_d" "report_sealed L keys rep seal_d ams" "''status'' \<notin> fst ` set seal_d"
    "audit_agrees a (py_str (dict_get rep ''id'')) seal_d ams" "digests_shown L"
    and v: "\<And>rows' rep'. verify_job L job rows' rep' (db_rows s) (db_head s) keys (Some kid) anchor [] =
      verify_ledger L job rows' rep' (Some a) keys"
  show ?thesis unfolding v
    by (rule edited_row_broken [OF a(1) _ a(4,3,5) assms(2-)]) (use a(2) in \<open>simp add: report_sealed_def\<close>)
qed

text \<open>
  A removed row is found at the row after it, which no longer links to what comes before;
  the only way past is a clash of the MAC: a chain value that is its own successor, or two link
  texts with one MAC.
\<close>

theorem removed_entry_is_named:
  assumes "verifiable_run L R keys key kid job (xs @ row # after # ys) rep seal_d ams s anchor"
  shows "(\<exists>v. verify_job L job (xs @ after # ys) (Some rep) (db_rows s) (db_head s) keys (Some kid) anchor [] = Some (Inr (Answer v)) \<and>
      vd_status v = BROKEN_LEDGER \<and> vd_reason v = Some (RowNotLinkedInLedger (seq_of after)) \<and> vd_first v = Some (seq_of after)) \<or>
    (\<exists>key before. key_named keys (dict_get seal_d ''key_id'') = Inr (Some key) \<and>
      (ledger_step L key before row = before \<or>
       collision (hmac_sha256 L (ck_key key)) (ledger_link_text before after)
         (ledger_link_text (ledger_step L key before row) after)))"
  using assms(1)
proof (rule verifiable_runE)
  fix a assume a: "rows_sealed L keys job (xs @ row # after # ys) seal_d" "report_sealed L keys rep seal_d ams" "''status'' \<notin> fst ` set seal_d"
    "audit_agrees a (py_str (dict_get rep ''id'')) seal_d ams" "digests_shown L"
    and v: "\<And>rows' rep'. verify_job L job rows' rep' (db_rows s) (db_head s) keys (Some kid) anchor [] =
      verify_ledger L job rows' rep' (Some a) keys"
  show ?thesis unfolding v
    by (rule removed_row_broken [OF a(1) _ a(4,3,5)]) (use a(2) in \<open>simp add: report_sealed_def\<close>)
qed

text \<open>
  Rows cut off the end are found and the first missing place is named, without any
  assumption on the hashes: a proper, non-empty prefix of a sealed ledger of distinct places
  reads broken after its last row.
\<close>

theorem cut_off_entries_are_named:
  assumes "verifiable_run L R keys key kid job rows rep seal_d ams s anchor"
    and "0 < n" "n < length rows" "distinct (map seq_of rows)"
  shows "\<exists>v. verify_job L job (take n rows) (Some rep) (db_rows s) (db_head s) keys (Some kid) anchor [] = Some (Inr (Answer v)) \<and>
    vd_status v = BROKEN_LEDGER \<and> vd_reason v = Some (RowsAfterMissing (seq_of (rows ! (n - 1)))) \<and>
    vd_first v = Some (seq_of (rows ! (n - 1)) + 1)"
  using assms(1)
proof (rule verifiable_runE)
  fix a assume a: "rows_sealed L keys job rows seal_d" "report_sealed L keys rep seal_d ams" "''status'' \<notin> fst ` set seal_d"
    "audit_agrees a (py_str (dict_get rep ''id'')) seal_d ams" "digests_shown L"
    and v: "\<And>rows' rep'. verify_job L job rows' rep' (db_rows s) (db_head s) keys (Some kid) anchor [] =
      verify_ledger L job rows' rep' (Some a) keys"
  show ?thesis unfolding v
    by (rule cut_off_broken [OF a(1) _ a(4,3,5) assms(2-)]) (use a(2) in \<open>simp add: report_sealed_def\<close>)
qed

text \<open>
  C18. A report changed in silence is found. Whatever covered column of a sealed report is
  changed without an amendment (the copies of the seal, the amendments and the id left in
  place), the job reads broken, for that reason, as soon as the report's digest is another one.
\<close>

theorem silent_report_change_is_found:
  assumes "verifiable_run L R keys key kid job rows rep seal_d ams s anchor"
    and "report_carries rep' seal_d ams" "dict_get rep' ''id'' = dict_get rep ''id''"
    and "report_digest L rep' [] = Inr dig'" "report_digest L rep [] \<noteq> Inr dig'"
  shows "\<exists>v. verify_job L job rows (Some rep') (db_rows s) (db_head s) keys (Some kid) anchor [] = Some (Inr (Answer v)) \<and>
    vd_status v = BROKEN_LEDGER \<and> vd_reason v = Some ReportChanged"
  using assms(1)
proof (rule verifiable_runE)
  fix a assume a: "rows_sealed L keys job rows seal_d" "report_sealed L keys rep seal_d ams" "''status'' \<notin> fst ` set seal_d"
    "audit_agrees a (py_str (dict_get rep ''id'')) seal_d ams" "digests_shown L"
    "distinct (record_digests (dict_get seal_d ''digest'') ams)"
    and v: "\<And>rows' rep'. verify_job L job rows' rep' (db_rows s) (db_head s) keys (Some kid) anchor [] =
      verify_ledger L job rows' rep' (Some a) keys"
  show ?thesis unfolding v by (rule changed_report_broken [OF a(1,2,4,3,5) assms(2-5) a(6)])
qed

section \<open>Witnesses\<close>

lemma demo_ledger_verified:
  obtains rows rep a v where "verify_ledger demo_L ''j1'' rows (Some rep) (Some a) demo_ring = Some (Inr (Answer v))"
    "vd_status v = VERIFIED" "length rows = 3"
    "\<And>i. i < 3 \<Longrightarrow> \<exists>d c. rows ! i = dict_set (dict_set (demo_entry (int i + 1) ''t'') ''digest'' (PStr d)) ''chain'' (PStr c)"
proof (rule demo_verifiable)
  fix seal_d rows rep s
  assume run: "verifiable_run demo_L demo_ring demo_ring demo_key ''id1'' ''j1'' rows rep seal_d [] s demo_anchor"
    and len: "length rows = 3"
    and rows: "\<And>i. i < 3 \<Longrightarrow> \<exists>d c. rows ! i = dict_set (dict_set (demo_entry (int i + 1) ''t'') ''digest'' (PStr d)) ''chain'' (PStr c)"
  show thesis
  proof (rule verifiable_runE [OF run])
    fix a assume a: "rows_sealed demo_L demo_ring ''j1'' rows seal_d" "report_sealed demo_L demo_ring rep seal_d []"
      "''status'' \<notin> fst ` set seal_d" "audit_agrees a (py_str (dict_get rep ''id'')) seal_d []" "digests_shown demo_L"
      "distinct (record_digests (dict_get seal_d ''digest'') [])"
    from verify_ledger_pass [OF a(1,2,4,6,5,3)] len rows that show thesis by blast
  qed
qed

lemma demo_columns_wf: "columns_wf (dict_set (dict_set (demo_entry n ''t'') ''digest'' (PStr d)) ''chain'' (PStr c))"
  by (simp add: columns_wf_def DIGESTED_def JSON_COLUMNS_def demo_entry_def scalar_def)

theorem verified_means_sealed_witness:
  "\<exists>rows rep a v key head. verify_ledger demo_L ''j1'' rows (Some rep) (Some a) demo_ring = Some (Inr (Answer v)) \<and>
    length rows = 3 \<and> chain_rows demo_L ''j1'' rows key = Inr (head, sort_key seq_of rows) \<and> vd_head v = Some head"
proof (rule demo_ledger_verified)
  fix rows rep a v
  assume v: "verify_ledger demo_L ''j1'' rows (Some rep) (Some a) demo_ring = Some (Inr (Answer v))"
    "vd_status v = VERIFIED" "length rows = 3"
  obtain key head where "chain_rows demo_L ''j1'' rows key = Inr (head, sort_key seq_of rows)" "vd_head v = Some head"
    using verified_means_sealed [OF v(1,2)] by (elim exE conjE) (rule that)
  with v show ?thesis by blast
qed

theorem one_seal_one_ledger_witness:
  "\<exists>rows. length rows = 3 \<and> (list_all2 (same_entry demo_L) (sort_key seq_of rows) (sort_key seq_of rows) \<or>
    (\<exists>key i before before'. i < length rows \<and>
      ledger_clash demo_L key before (sort_key seq_of rows ! i) before' (sort_key seq_of rows ! i)))"
proof (rule demo_ledger_verified)
  fix rows rep a v
  assume v: "verify_ledger demo_L ''j1'' rows (Some rep) (Some a) demo_ring = Some (Inr (Answer v))"
    "vd_status v = VERIFIED" "length rows = 3"
    "\<And>i. i < 3 \<Longrightarrow> \<exists>d c. rows ! i = dict_set (dict_set (demo_entry (int i + 1) ''t'') ''digest'' (PStr d)) ''chain'' (PStr c)"
  have "columns_wf row" if row: "row \<in> set rows" for row
  proof -
    from row v(3) obtain i where "i < 3" "row = rows ! i" by (auto simp: in_set_conv_nth)
    with v(4) demo_columns_wf show ?thesis by fastforce
  qed
  then have "\<forall>row\<in>set rows \<union> set rows. columns_wf row" by blast
  from one_seal_one_ledger [OF v(1,2) v(1,2) refl this] v(3) show ?thesis by blast
qed

theorem sealed_run_verifies_witness:
  "\<exists>rows rep (s :: session) v. verify_job demo_L ''j1'' rows (Some rep) (db_rows s) (db_head s) demo_ring (Some ''id1'') demo_anchor [] =
      Some (Inr (Answer v)) \<and> vd_status v = VERIFIED \<and> length rows = 3"
proof (rule demo_verifiable)
  fix seal_d rows rep s
  assume run: "verifiable_run demo_L demo_ring demo_ring demo_key ''id1'' ''j1'' rows rep seal_d [] s demo_anchor"
    and len: "length rows = 3"
  from sealed_run_verifies [OF run] len show ?thesis by blast
qed

theorem edited_entry_is_named_witness:
  "\<exists>rows row rep (s :: session) v. length rows = 3 \<and>
    verify_job demo_L ''j1'' (rows[0 := row]) (Some rep) (db_rows s) (db_head s) demo_ring (Some ''id1'') demo_anchor [] =
      Some (Inr (Answer v)) \<and> vd_reason v = Some (RowDiffersFromDigest 1) \<and> vd_first v = Some 1"
proof (rule demo_verifiable)
  fix seal_d rows rep s
  assume run: "verifiable_run demo_L demo_ring demo_ring demo_key ''id1'' ''j1'' rows rep seal_d [] s demo_anchor"
    and len: "length rows = 3"
    and rows: "\<And>i. i < 3 \<Longrightarrow> \<exists>d c. rows ! i = dict_set (dict_set (demo_entry (int i + 1) ''t'') ''digest'' (PStr d)) ''chain'' (PStr c)"
  obtain d c where r0: "rows ! 0 = dict_set (dict_set (demo_entry 1 ''t'') ''digest'' (PStr d)) ''chain'' (PStr c)"
    using rows [of 0] by auto
  let ?row = "dict_set (dict_set (demo_entry 1 ''x'') ''digest'' (PStr d)) ''chain'' (PStr c)"
  obtain e where e: "entry_digest demo_L (demo_entry 1 ''x'') = Inr e" using demo_digest by blast
  have "entry_digest demo_L (rows ! 0) \<noteq> Inr e"
    using demo_digest_inject [of 1 "''t''" "''x''"] by (auto simp: r0 simp flip: e)
  moreover have seq: "seq_of ?row = 1" "seq_of (rows ! 0) = 1" by (simp_all add: r0) (simp_all add: demo_entry_def seq_of_def)
  ultimately have "\<exists>v. verify_job demo_L ''j1'' (rows[0 := ?row]) (Some rep) (db_rows s) (db_head s) demo_ring (Some ''id1'') demo_anchor [] =
      Some (Inr (Answer v)) \<and> vd_status v = BROKEN_LEDGER \<and> vd_reason v = Some (RowDiffersFromDigest (seq_of ?row)) \<and>
      vd_first v = Some (seq_of ?row)"
    using e len by (intro edited_entry_is_named [OF run]) (simp_all add: r0)
  then show ?thesis unfolding seq using len by blast
qed

theorem removed_entry_is_named_witness:
  "\<exists>xs row after ys rep seal_d (s :: session). length (xs @ row # after # ys) = 3 \<and>
    ((\<exists>v. verify_job demo_L ''j1'' (xs @ after # ys) (Some rep) (db_rows s) (db_head s) demo_ring (Some ''id1'') demo_anchor [] =
        Some (Inr (Answer v)) \<and> vd_first v = Some (seq_of after)) \<or>
     (\<exists>key before. key_named demo_ring (dict_get seal_d ''key_id'') = Inr (Some key) \<and>
      (ledger_step demo_L key before row = before \<or>
       collision (hmac_sha256 demo_L (ck_key key)) (ledger_link_text before after)
         (ledger_link_text (ledger_step demo_L key before row) after))))"
proof (rule demo_verifiable)
  fix seal_d rows rep s
  assume run: "verifiable_run demo_L demo_ring demo_ring demo_key ''id1'' ''j1'' rows rep seal_d [] s demo_anchor"
    and len: "length rows = 3"
  then obtain x y z where rows: "rows = [] @ x # y # [z]" by (auto simp: numeral_3_eq_3 length_Suc_conv)
  have "length ([] @ x # y # [z]) = 3" by simp
  with removed_entry_is_named [OF run [unfolded rows]] show ?thesis by blast
qed

theorem cut_off_entries_are_named_witness:
  "\<exists>rows rep (s :: session) v. length rows = 3 \<and>
    verify_job demo_L ''j1'' (take 2 rows) (Some rep) (db_rows s) (db_head s) demo_ring (Some ''id1'') demo_anchor [] =
      Some (Inr (Answer v)) \<and> vd_reason v = Some (RowsAfterMissing 2) \<and> vd_first v = Some 3"
proof (rule demo_verifiable)
  fix seal_d rows rep s
  assume run: "verifiable_run demo_L demo_ring demo_ring demo_key ''id1'' ''j1'' rows rep seal_d [] s demo_anchor"
    and seqs: "map seq_of rows = [1, 2, 3]" and len: "length rows = 3"
  have "seq_of (rows ! 1) = map seq_of rows ! 1" using len by simp
  then have "seq_of (rows ! (2 - 1)) = 2" by (simp add: seqs)
  with cut_off_entries_are_named [OF run, of 2] len seqs show ?thesis by auto
qed

theorem silent_report_change_is_found_witness:
  "\<exists>rows rep (s :: session) v. verify_job demo_L ''j1'' rows (Some (dict_set rep ''verdict'' (PStr ''x''))) (db_rows s) (db_head s) demo_ring (Some ''id1'')
      demo_anchor [] = Some (Inr (Answer v)) \<and> vd_reason v = Some ReportChanged"
proof (rule demo_verifiable)
  fix seal_d rows rep s
  assume run: "verifiable_run demo_L demo_ring demo_ring demo_key ''id1'' ''j1'' rows rep seal_d [] s demo_anchor"
    and rep: "rep = dict_set (dict_set (dict_set demo_report ''ledger_seal'' (PDict seal_d))
          ''malware_report'' (with_seal (dict_get demo_report ''malware_report'') seal_d))
          ''run_summary'' (with_seal (dict_get demo_report ''run_summary'') seal_d)"
  let ?rep = "dict_set rep ''verdict'' (PStr ''x'')"
  have carries: "report_carries rep seal_d []"
    using run by (rule verifiable_runE) (simp add: report_sealed_def)
  have "report_digest demo_L ?rep [] = report_digest demo_L (demo_verdict_report (PStr ''x'')) []"
  proof (rule report_digest_cong)
    fix name assume name: "name \<in> set REPORT_DIGESTED"
    show "report_field ?rep [] name = report_field (demo_verdict_report (PStr ''x'')) [] name"
    proof (cases "name \<in> {''malware_report'', ''run_summary''}")
      case True
      then show ?thesis by (intro report_field_sealed) (auto simp: rep demo_verdict_report_def)
    next
      case False
      then show ?thesis using report_names [OF name] by (intro report_field_get) (simp add: rep demo_verdict_report_def)
    qed
  qed
  then obtain dig where dig: "report_digest demo_L ?rep [] = Inr dig"
    "report_digest demo_L (demo_verdict_report (PStr ''x'')) [] = Inr dig"
    using demo_report_digest [of "PStr ''x''" "''x''"] by auto
  have "report_digest demo_L rep [] = report_digest demo_L (demo_verdict_report PNone) []"
    unfolding rep sealed_report_digest by (rule demo_first_report)
  then have "report_digest demo_L rep [] \<noteq> Inr dig" using demo_verdict_matters dig(2) by simp
  moreover have "report_carries ?rep seal_d []" "dict_get ?rep ''id'' = dict_get rep ''id''"
    using carries by (simp_all add: report_carries_def)
  ultimately show ?thesis using silent_report_change_is_found [OF run _ _ dig(1)] by blast
qed

end
