(* ===== verification/Ledger_Returns.thy ===== *)
theory Ledger_Returns
  imports Ledger_Proofs
begin

text \<open>
  That the verification returns. Its one unbounded loop, the \<open>while True\<close> of
  \<open>_audit_amendments\<close>, goes from each recorded amendment to one whose \<open>prev\<close> is its digest; it
  ends unless the recorded amendments, finitely many, close into a cycle.
\<close>

section \<open>Cycles of recorded amendments\<close>

text \<open>Records each of which follows the one before it, the first following the last.\<close>

definition amendment_cycle :: "stdlib \<Rightarrow> key_ring \<Rightarrow> dict list \<Rightarrow> dict list \<Rightarrow> bool" where
  "amendment_cycle L keys held as \<longleftrightarrow> as \<noteq> [] \<and> set as \<subseteq> set held \<and>
     (\<forall>i<length as. follows L keys (dict_get (as ! i) ''digest'') (as ! (Suc i mod length as)) = Inr True)"

lemma following_follows:
  assumes "following L keys p held = Inr as" "a \<in> set as"
  shows "a \<in> set held \<and> follows L keys p a = Inr True"
proof -
  from assms(1) obtain bs where bs: "map (follows L keys p) held = map Inr bs" "as = map fst (filter snd (zip held bs))"
    by (auto simp: following_def result_iffs sequence_r_eq_Inr)
  from assms(2) bs(2) obtain i where i: "i < length held" "i < length bs" "a = held ! i" "bs ! i"
    by (auto simp: set_zip)
  have "follows L keys p (held ! i) = Inr (bs ! i)"
    using bs(1) i by (metis nth_map)
  with i show ?thesis by simp
qed

text \<open>The record the loop goes to after the digest \<open>p\<close>, and the \<open>n\<close>-th it visits.\<close>

definition chosen :: "stdlib \<Rightarrow> key_ring \<Rightarrow> dict list \<Rightarrow> py \<Rightarrow> dict" where
  "chosen L keys held p = (case following L keys p held of Inr (a # _) \<Rightarrow> a | _ \<Rightarrow> [])"

primrec visited :: "stdlib \<Rightarrow> key_ring \<Rightarrow> dict list \<Rightarrow> py \<Rightarrow> nat \<Rightarrow> dict" where
  "visited L keys held p 0 = chosen L keys held p"
| "visited L keys held p (Suc n) = chosen L keys held (dict_get (visited L keys held p n) ''digest'')"

lemma amendment_chain_step:
  assumes "amendment_chain L keys held p chain = None"
  shows "chosen L keys held p \<in> set held" "follows L keys p (chosen L keys held p) = Inr True"
    "amendment_chain L keys held (dict_get (chosen L keys held p) ''digest'') (chain @ [chosen L keys held p]) = None"
proof -
  from assms obtain a as where f: "following L keys p held = Inr (a # as)"
    "amendment_chain L keys held (dict_get a ''digest'') (chain @ [a]) = None"
    by (subst (asm) amendment_chain.simps) (auto split: sum.splits list.splits)
  from following_follows [OF f(1), of a] f
  show "chosen L keys held p \<in> set held" "follows L keys p (chosen L keys held p) = Inr True"
    "amendment_chain L keys held (dict_get (chosen L keys held p) ''digest'') (chain @ [chosen L keys held p]) = None"
    by (simp_all add: chosen_def)
qed

lemma endless_visits:
  assumes "amendment_chain L keys held p [] = None"
  shows "visited L keys held p n \<in> set held \<and>
    (\<exists>chain. amendment_chain L keys held (dict_get (visited L keys held p n) ''digest'') chain = None)"
proof (induction n)
  case 0
  from amendment_chain_step(1,3) [OF assms] show ?case by auto
next
  case (Suc n)
  then obtain chain where "amendment_chain L keys held (dict_get (visited L keys held p n) ''digest'') chain = None" by blast
  from amendment_chain_step(1,3) [OF this] show ?case by auto
qed

lemma endless_cycle:
  assumes "amendment_chain L keys held p [] = None"
  shows "\<exists>as. amendment_cycle L keys held as"
proof -
  let ?v = "visited L keys held p"
  have mem: "?v n \<in> set held" for n using endless_visits [OF assms] by blast
  have step: "follows L keys (dict_get (?v n) ''digest'') (?v (Suc n)) = Inr True" for n
    using endless_visits [OF assms, of n] amendment_chain_step(2) by auto
  have "\<not> inj ?v"
    using mem finite_subset [of "range ?v" "set held"] finite_imageD infinite_UNIV_nat by blast
  then obtain i j where ij: "i < j" "?v i = ?v j"
    unfolding inj_def by (metis linorder_neqE_nat)
  let ?as = "map ?v [i..<j]"
  have "follows L keys (dict_get (?as ! k) ''digest'') (?as ! (Suc k mod length ?as)) = Inr True" if "k < length ?as" for k
  proof (cases "Suc k = length ?as")
    case True
    then have "Suc (i + k) = j" using ij by simp
    then have "?v (Suc (i + k)) = ?v i" using ij(2) by simp
    then show ?thesis using step [of "i + k"] True that by simp
  next
    case False
    then have "Suc k < j - i" using that by simp
    then show ?thesis using step [of "i + k"] by simp
  qed
  moreover have "?as \<noteq> []" "set ?as \<subseteq> set held" using ij mem by auto
  ultimately show ?thesis unfolding amendment_cycle_def by blast
qed

text \<open>A cycle of one does make the loop run forever.\<close>

lemma self_follower_never_ends:
  assumes "following L keys p held = Inr (a # as)" "dict_get a ''digest'' = p"
  shows "amendment_chain L keys held p chain = None"
proof -
  have "\<not> (following L keys p held = Inr (a # as) \<and> dict_get a ''digest'' = p)"
    if "amendment_chain L keys held p chain = Some y" for y
  proof (rule amendment_chain.raw_induct [OF _ that])
    fix f L keys held p chain y
    assume IH: "\<And>L keys held p chain y. f L keys held p chain = Some y \<Longrightarrow>
        \<not> (following L keys p held = Inr (a # as) \<and> dict_get a ''digest'' = p)"
      and y: "(case following L keys p held of Inl e \<Rightarrow> Some (Inl e) | Inr [] \<Rightarrow> Some (Inr chain)
        | Inr (a # _) \<Rightarrow> f L keys held (dict_get a ''digest'') (chain @ [a])) = Some y"
    show "\<not> (following L keys p held = Inr (a # as) \<and> dict_get a ''digest'' = p)"
    proof
      assume a: "following L keys p held = Inr (a # as) \<and> dict_get a ''digest'' = p"
      with y have "f L keys held p (chain @ [a]) = Some y" by simp
      from IH [OF this] a show False by simp
    qed
  qed
  with assms show ?thesis by (cases "amendment_chain L keys held p chain") auto
qed

section \<open>The verification returns\<close>

lemma audit_amendments_ends:
  assumes "audit_amendments L seal_d rid a keys = None"
  shows "\<exists>as. amendment_cycle L keys (recorded_amendments rid a) as"
  using endless_cycle assms unfolding audit_amendments_def by blast

lemma check_report_ends:
  assumes "check_report L r seal_d rep audit keys = None"
  shows "\<exists>a. audit = Some a \<and> audit_amendments L seal_d (py_str (dict_get rep ''id'')) a keys = None"
  using assms by (auto simp: check_report_def audited_amendments_def Let_def split: if_splits sum.splits option.splits)

text \<open>
  C19. The verification of a ledger ends, with a verdict or with the exception Python raises:
  on any rows, report and keys, it fails to return only when some report's recorded amendments
  in the audit log close into a cycle, each carrying as \<open>prev\<close> the digest of the one before and
  a digest of its own that is its MAC, which takes a fixed cycle of the MAC.
\<close>

theorem verification_returns:
  "(\<exists>ans. verify_ledger L job rows report audit keys = Some ans) \<or>
   (\<exists>a rid as. audit = Some a \<and> amendment_cycle L keys (recorded_amendments rid a) as)"
proof (cases "verify_ledger L job rows report audit keys")
  case None
  then obtain r seal_d where "after_the_seal L job (sort_key seq_of rows) report audit keys seal_d r = None"
    by (auto simp: verify_ledger_def Let_def split: sum.splits if_splits)
  then obtain r' rep where "check_report L r' seal_d rep audit keys = None"
    by (auto simp: after_the_seal_def split: sum.splits option.splits)
  from check_report_ends [OF this] audit_amendments_ends show ?thesis by blast
qed blast

section \<open>A seal that reads as a verdict\<close>

text \<open>
  \<open>verify_ledger\<close> tells the verdict that ends the search for the seal from the seal by looking
  for the keys \<open>status\<close> and \<open>job_id\<close>. A stored seal that carries both is handed back as the
  verdict, nothing else of it checked.
\<close>

lemma seal_with_a_status_is_the_verdict:
  assumes "before_the_seal job (sort_key seq_of rows) audit = Inr r0"
    and "seal_of_the_report r0 rep (filter (\<lambda>row. truthy (dict_get row ''digest'') \<or> truthy (dict_get row ''chain''))
       (sort_key seq_of rows)) audit = Inr (Inr (seal_d, r1))"
    and "{''status'', ''job_id''} \<subseteq> fst ` set seal_d"
  shows "verify_ledger L job rows (Some rep) audit keys = Some (Inr (SealTaken seal_d))"
  using assms by (simp add: verify_ledger_def Let_def)

lemma a_forged_verdict_is_handed_back:
  "verify_ledger L ''j1'' [] (Some [(''id'', PStr ''r1''), (''ledger_seal'', PDict forged),
      (''malware_report'', PDict [(SEAL_KEY, PDict forged)])]) None keys = Some (Inr (SealTaken forged))"
  if "forged = [(''status'', PStr ''verified''), (''job_id'', PStr ''j1''), (''report_id'', PStr ''r1'')]"
  unfolding that by code_simp

end
