(* ===== verification/Stage_Values.thy ===== *)
theory Stage_Values
  imports Py_Dict "HOL-Library.AList" Complex_Main
begin

text \<open>
  What a stage's condition is read over (\<open>pipeline/conditions.py\<close>): the result a stage left
  behind, the facts of the triage pack and the way they are written to the run's state and read
  back, the rule matches counted over the ledger, the context of a condition; and the values a
  condition computes with, their truth, equality, order and membership as Python has them.
\<close>

section \<open>What a stage left behind\<close>

record stage_result =
  sr_ran :: bool
  sr_reason :: string
  sr_claim_count :: int
  sr_technique_ids :: "string list"
  sr_finding_count :: int
  sr_agents :: "string list"

definition stage_result_to_dict :: "stage_result \<Rightarrow> dict" where
  "stage_result_to_dict r =
     [(''ran'', PBool (sr_ran r)), (''reason'', PStr (sr_reason r)),
      (''claim_count'', PInt (sr_claim_count r)), (''technique_ids'', PList (map PStr (sr_technique_ids r))),
      (''finding_count'', PInt (sr_finding_count r)), (''agents'', PList (map PStr (sr_agents r)))]"

text \<open>\<open>tuple(str(t) for t in (v or ()))\<close>.\<close>

definition text_tuple :: "py \<Rightarrow> py_error + string list" where
  "text_tuple v = map_r (map py_str) (py_iter (py_or v (PList [])))"

definition stage_result_from_dict :: "dict \<Rightarrow> py_error + stage_result" where
  "stage_result_from_dict data =
     bind_r (py_int (py_or (dict_get data ''claim_count'') (PInt 0))) (\<lambda>claims.
     bind_r (text_tuple (dict_get data ''technique_ids'')) (\<lambda>techniques.
     bind_r (py_int (py_or (dict_get data ''finding_count'') (PInt 0))) (\<lambda>findings.
     bind_r (text_tuple (dict_get data ''agents'')) (\<lambda>agents.
     Inr \<lparr>sr_ran = truthy (dict_get data ''ran''),
          sr_reason = py_str (py_or (dict_get data ''reason'') (PStr [])),
          sr_claim_count = claims, sr_technique_ids = techniques,
          sr_finding_count = findings, sr_agents = agents\<rparr>))))"

section \<open>The triage pack's facts\<close>

definition SIGNATURE_RULES :: string where "SIGNATURE_RULES = ''signature_rules''"
definition CAPABILITY_RULES :: string where "CAPABILITY_RULES = ''capability_rules''"
definition RULE_MATCH_KINDS :: "string list" where
  "RULE_MATCH_KINDS = [''capability_rules'', ''signature_rules'', ''event_rules'']"
definition PACK_LEFT_OUT :: string where "PACK_LEFT_OUT = ''pack_left_out''"
definition HELD_SCHEDULES :: string where "HELD_SCHEDULES = ''_held_schedules''"

record triage_facts =
  tf_has_signature :: bool
  tf_reputation_malicious :: "int option"
  tf_yara_hits :: int
  tf_capa_hits :: int
  tf_rule_hits :: int
  tf_hits :: "(string \<times> int) list"

definition TriageFacts :: triage_facts where
  "TriageFacts = \<lparr>tf_has_signature = False, tf_reputation_malicious = None, tf_yara_hits = 0,
     tf_capa_hits = 0, tf_rule_hits = 0, tf_hits = []\<rparr>"

definition triage_to_dict :: "triage_facts \<Rightarrow> dict" where
  "triage_to_dict t =
     [(''has_signature'', PBool (tf_has_signature t)),
      (''reputation_malicious'', py_opt_int (tf_reputation_malicious t)),
      (''yara_hits'', PInt (tf_yara_hits t)), (''capa_hits'', PInt (tf_capa_hits t)),
      (''rule_hits'', PInt (tf_rule_hits t)), (''hits'', PDict (map (map_prod id PInt) (tf_hits t)))]"

text \<open>\<open>int(v) if isinstance(v, int)\<close>: a bool is an int.\<close>

definition as_int :: "py \<Rightarrow> int option" where
  "as_int v = (case v of PInt i \<Rightarrow> Some i | PBool b \<Rightarrow> Some (if b then 1 else 0) | _ \<Rightarrow> None)"

definition triage_from_dict :: "dict \<Rightarrow> py_error + triage_facts" where
  "triage_from_dict data =
     bind_r (py_int (py_or (dict_get data ''yara_hits'') (PInt 0))) (\<lambda>yara.
     bind_r (py_int (py_or (dict_get data ''capa_hits'') (PInt 0))) (\<lambda>capa.
     let hits = (case as_mapping (dict_get data ''hits'') of
                   Some held \<Rightarrow> List.map_filter (\<lambda>(k, v). map_option (Pair k) (as_int v)) held
                 | None \<Rightarrow> filter (\<lambda>(k, v). v \<noteq> 0) [(SIGNATURE_RULES, yara), (CAPABILITY_RULES, capa)])
     in
     Inr \<lparr>tf_has_signature = truthy (dict_get data ''has_signature''),
          tf_reputation_malicious = as_int (dict_get data ''reputation_malicious''),
          tf_yara_hits = yara, tf_capa_hits = capa,
          tf_rule_hits = (case as_int (dict_get data ''rule_hits'') of Some i \<Rightarrow> i | None \<Rightarrow> yara + capa),
          tf_hits = hits\<rparr>))"

definition with_hits :: "triage_facts \<Rightarrow> (string \<times> int) list \<Rightarrow> int \<Rightarrow> triage_facts" where
  "with_hits t counted matched = t\<lparr>tf_hits := counted, tf_rule_hits := matched\<rparr>"

section \<open>The pack's state\<close>

definition own_keys :: "dict \<Rightarrow> string list" where
  "own_keys state = map fst state @ [PACK_LEFT_OUT, HELD_SCHEDULES]"

definition pack_facts :: "triage_facts \<Rightarrow> int \<Rightarrow> int \<Rightarrow> int \<Rightarrow> string list \<Rightarrow> dict" where
  "pack_facts facts entries failed duration_ms degradation_reasons =
     triage_to_dict facts @
     [(''entries'', PInt entries), (''failed'', PInt failed), (''duration_ms'', PInt duration_ms),
      (''degradation_reasons'', PList (map PStr degradation_reasons))]"

definition pack_state ::
  "triage_facts \<Rightarrow> int \<Rightarrow> int \<Rightarrow> int \<Rightarrow> string list \<Rightarrow> (string \<times> string) list \<Rightarrow> dict" where
  "pack_state facts entries failed duration_ms degradation_reasons schedules =
     (let state = pack_facts facts entries failed duration_ms degradation_reasons;
          own = own_keys state;
          state = foldl (\<lambda>d (step, said). dict_set d step (PStr said)) state
                    (filter (\<lambda>(step, said). step \<notin> set own) schedules);
          held = filter (\<lambda>(step, said). step \<in> set own) schedules
      in if held \<noteq> [] then dict_set state HELD_SCHEDULES (PDict (map (map_prod id PStr) held)) else state)"

definition pack_state_keys :: "string list" where
  "pack_state_keys = own_keys (pack_state TriageFacts 0 0 0 [] [])"

text \<open>How the schedules are read back out of the pack's facts (\<open>core/pack_steps.py\<close>).\<close>

definition said_texts :: "dict \<Rightarrow> (string \<times> string) list" where
  "said_texts d = List.map_filter (\<lambda>(key, v). case v of PStr s \<Rightarrow> if s \<noteq> [] then Some (key, s) else None | _ \<Rightarrow> None) d"

definition step_schedules :: "dict \<Rightarrow> (string \<times> string) list" where
  "step_schedules facts = said_texts facts"

definition held_schedules :: "dict \<Rightarrow> (string \<times> string) list" where
  "held_schedules facts =
     (case as_mapping (dict_get facts HELD_SCHEDULES) of None \<Rightarrow> [] | Some held \<Rightarrow> said_texts held)"

section \<open>Rule matches counted over the ledger\<close>

text \<open>
  What a ledger row's answer declares of itself (\<open>core.declared_reading.facts_of\<close>, which is a
  parameter): its kind, the source it corroborates for, and the path of its rows.
\<close>

record declared_facts =
  df_kind :: string
  df_source :: string
  df_rows :: string

text \<open>
  How a row is read, all of it given: what it declares, how many rows \<open>select\<close> finds at a path of
  its structured answer, and the key of the tool server that answered (empty for none).
\<close>

record row_reading =
  facts_of :: "dict \<Rightarrow> declared_facts option"
  rows_found :: "py \<Rightarrow> string \<Rightarrow> nat"
  server_of :: "dict \<Rightarrow> string"

text \<open>\<open>dict.fromkeys\<close>: the first of equal keys stays.\<close>

definition from_keys :: "'a list \<Rightarrow> 'a list" where
  "from_keys ks = rev (remdups (rev ks))"

text \<open>The rule matches of one row and the keys they count for; \<^const>\<open>None\<close> for a row passed over.\<close>

definition row_hits :: "row_reading \<Rightarrow> dict \<Rightarrow> (string list \<times> int) option" where
  "row_hits rd row =
     (if \<not> truthy (dict_get row ''ok'') \<or> truthy (dict_get row ''repeated_of'') then None
      else case facts_of rd row of
        None \<Rightarrow> None
      | Some facts \<Rightarrow>
          if df_kind facts \<notin> set RULE_MATCH_KINDS \<or> df_rows facts = [] then None
          else
            let found = rows_found rd (dict_get row ''structured'') (df_rows facts)
            in if found = 0 then None
               else Some (from_keys (filter (\<lambda>k. k \<noteq> []) [df_kind facts, df_source facts, server_of rd row]),
                          int found))"

definition count_key :: "int \<Rightarrow> (string \<times> int) list \<Rightarrow> string \<Rightarrow> (string \<times> int) list" where
  "count_key found counted key =
     AList.update key ((case map_of counted key of Some n \<Rightarrow> n | None \<Rightarrow> 0) + found) counted"

definition rule_match_hits :: "row_reading \<Rightarrow> dict list \<Rightarrow> (string \<times> int) list \<times> int" where
  "rule_match_hits rd rows =
     foldl (\<lambda>(counted, total) row.
       case row_hits rd row of
         None \<Rightarrow> (counted, total)
       | Some (keys, found) \<Rightarrow> (foldl (count_key found) counted keys, total + found)) ([], 0) rows"

section \<open>The context of a condition\<close>

record stage_ctx =
  sc_file_type :: string
  sc_platform :: string
  sc_mime :: string
  sc_size :: int
  sc_extension :: string
  sc_sandbox_available :: bool
  sc_has_pcap :: bool
  sc_has_sandbox_report :: bool
  sc_stages :: "(string \<times> stage_result) list"
  sc_triage :: triage_facts

definition StageContext :: stage_ctx where
  "StageContext = \<lparr>sc_file_type = [], sc_platform = [], sc_mime = [], sc_size = 0, sc_extension = [],
     sc_sandbox_available = False, sc_has_pcap = False, sc_has_sandbox_report = False, sc_stages = [],
     sc_triage = TriageFacts\<rparr>"

text \<open>
  \<open>stage_context\<close> (\<open>pipeline/nodes.py\<close>): the context out of the run's state and its ledger.
  \<open>lower\<close> is \<open>str.lower\<close>. The state's fields are of their declared types: a name that is no text
  or results that are no dictionary read as a \<^const>\<open>TypeError\<close> here, whatever Python raises.
\<close>

definition member_of :: "py \<Rightarrow> string \<Rightarrow> py" where
  "member_of document name = (case as_mapping document of Some d \<Rightarrow> dict_get d name | None \<Rightarrow> PNone)"

definition stage_results_of :: "dict \<Rightarrow> py_error + (string \<times> stage_result) list" where
  "stage_results_of d =
     sequence_r (List.map_filter (\<lambda>(k, v). map_option (\<lambda>e. map_r (Pair k) (stage_result_from_dict e)) (as_mapping v)) d)"

definition sample_size :: "py \<Rightarrow> py_error + int" where
  "sample_size target =
     (case py_int (py_or (member_of target ''size'') (PInt 0)) of
        Inr n \<Rightarrow> Inr n
      | Inl e \<Rightarrow> if e = TypeError \<or> e = ValueError then Inr 0 else Inl e)"

definition extension_of :: "string \<Rightarrow> string" where
  "extension_of name = (if CHR ''.'' \<in> set name then rev (takeWhile (\<lambda>c. c \<noteq> CHR ''.'') (rev name)) else [])"

definition stage_context ::
  "(string \<Rightarrow> string) \<Rightarrow> row_reading \<Rightarrow> dict \<Rightarrow> dict list \<Rightarrow> py_error + stage_ctx" where
  "stage_context lower rd state ledger =
     (let report = py_or (dict_get state ''sandbox_report'') (PDict []);
          network = member_of report ''network''; target = member_of report ''target'';
          text = (\<lambda>name. py_str (py_or (dict_get state name) (PStr [])))
      in
      bind_r (case py_or (dict_get state ''file_name'') (PStr []) of PStr name \<Rightarrow> Inr name | _ \<Rightarrow> Inl TypeError) (\<lambda>name.
      bind_r (if as_mapping target = None then Inr 0 else sample_size target) (\<lambda>bytes.
      bind_r (case as_mapping (py_or (dict_get state ''stage_results'') (PDict [])) of
                Some d \<Rightarrow> stage_results_of d | None \<Rightarrow> Inl TypeError) (\<lambda>results.
      bind_r (case as_mapping (py_or (dict_get state ''triage_facts'') (PDict [])) of
                Some d \<Rightarrow> triage_from_dict d | None \<Rightarrow> Inl TypeError) (\<lambda>triage.
      let hits = rule_match_hits rd ledger
      in Inr \<lparr>sc_file_type = text ''file_type'', sc_platform = text ''platform'',
           sc_mime = (if as_mapping target = None then []
             else py_str (py_or (member_of target ''type'') (py_or (member_of target ''mime'') (PStr [])))),
           sc_size = bytes, sc_extension = lower (extension_of name), sc_sandbox_available = truthy report,
           sc_has_pcap = (as_mapping network \<noteq> None \<and> truthy network), sc_has_sandbox_report = truthy report,
           sc_stages = results, sc_triage = with_hits triage (fst hits) (snd hits)\<rparr>)))))"

definition CONTEXT_NAMES :: "string list" where
  "CONTEXT_NAMES = [''file_type'', ''platform'', ''mime'', ''size'', ''extension'', ''sandbox_available'',
     ''has_pcap'', ''has_sandbox_report'', ''stages'', ''triage'']"

definition STAGE_RESULT_FIELDS :: "string list" where
  "STAGE_RESULT_FIELDS = [''ran'', ''reason'', ''claim_count'', ''technique_ids'', ''finding_count'', ''agents'']"

definition TRIAGE_FIELDS :: "string list" where
  "TRIAGE_FIELDS = [''has_signature'', ''reputation_malicious'', ''yara_hits'', ''capa_hits'', ''rule_hits'', ''hits'']"

section \<open>Values\<close>

text \<open>
  The values a condition can compute: those of its literals and of the context. A float is a
  literal, so it is not negative and not NaN: its exact value, or the infinity \<open>1e999\<close> reads as.
\<close>

datatype cval =
    CNone
  | CBool bool
  | CInt int
  | CFloat rat
  | CInf
  | CStr string
  | CTuple "cval list"
  | CList "cval list"
  | CStages "(string \<times> stage_result) list"
  | CHits "(string \<times> int) list"
  | CTriage triage_facts

definition name_value :: "stage_ctx \<Rightarrow> string \<Rightarrow> cval option" where
  "name_value ctx name =
     map_of [(''file_type'', CStr (sc_file_type ctx)), (''platform'', CStr (sc_platform ctx)),
       (''mime'', CStr (sc_mime ctx)), (''size'', CInt (sc_size ctx)), (''extension'', CStr (sc_extension ctx)),
       (''sandbox_available'', CBool (sc_sandbox_available ctx)), (''has_pcap'', CBool (sc_has_pcap ctx)),
       (''has_sandbox_report'', CBool (sc_has_sandbox_report ctx)), (''stages'', CStages (sc_stages ctx)),
       (''triage'', CTriage (sc_triage ctx))] name"

definition stage_field :: "stage_result \<Rightarrow> string \<Rightarrow> cval option" where
  "stage_field r name =
     map_of [(''ran'', CBool (sr_ran r)), (''reason'', CStr (sr_reason r)), (''claim_count'', CInt (sr_claim_count r)),
       (''technique_ids'', CTuple (map CStr (sr_technique_ids r))), (''finding_count'', CInt (sr_finding_count r)),
       (''agents'', CTuple (map CStr (sr_agents r)))] name"

definition triage_field :: "triage_facts \<Rightarrow> string \<Rightarrow> cval option" where
  "triage_field t name =
     map_of [(''has_signature'', CBool (tf_has_signature t)),
       (''reputation_malicious'', case tf_reputation_malicious t of None \<Rightarrow> CNone | Some i \<Rightarrow> CInt i),
       (''yara_hits'', CInt (tf_yara_hits t)), (''capa_hits'', CInt (tf_capa_hits t)),
       (''rule_hits'', CInt (tf_rule_hits t)), (''hits'', CHits (tf_hits t))] name"

fun cval_true :: "cval \<Rightarrow> bool" where
  "cval_true CNone = False"
| "cval_true (CBool b) = b"
| "cval_true (CInt i) = (i \<noteq> 0)"
| "cval_true (CFloat r) = (r \<noteq> 0)"
| "cval_true CInf = True"
| "cval_true (CStr s) = (s \<noteq> [])"
| "cval_true (CTuple vs) = (vs \<noteq> [])"
| "cval_true (CList vs) = (vs \<noteq> [])"
| "cval_true (CStages d) = (d \<noteq> [])"
| "cval_true (CHits d) = (d \<noteq> [])"
| "cval_true (CTriage t) = True"

subsection \<open>Equality\<close>

text \<open>A number on the extended line: the exact value, and infinity.\<close>

datatype cnum = Fin rat | Infinity

fun num :: "cval \<Rightarrow> cnum option" where
  "num (CBool b) = Some (Fin (if b then 1 else 0))"
| "num (CInt i) = Some (Fin (of_int i))"
| "num (CFloat r) = Some (Fin r)"
| "num CInf = Some Infinity"
| "num v = None"

text \<open>Dictionaries are equal with the same keys and equal values, in whatever order.\<close>

definition same_dict :: "(string \<times> 'a) list \<Rightarrow> (string \<times> 'a) list \<Rightarrow> bool" where
  "same_dict d e = (set (map fst d) = set (map fst e) \<and> list_all (\<lambda>k. map_of d k = map_of e k) (map fst d))"

definition same_triage :: "triage_facts \<Rightarrow> triage_facts \<Rightarrow> bool" where
  "same_triage t u =
     (tf_has_signature t = tf_has_signature u \<and> tf_reputation_malicious t = tf_reputation_malicious u \<and>
      tf_yara_hits t = tf_yara_hits u \<and> tf_capa_hits t = tf_capa_hits u \<and> tf_rule_hits t = tf_rule_hits u \<and>
      same_dict (tf_hits t) (tf_hits u))"

primrec cval_eq :: "cval \<Rightarrow> cval \<Rightarrow> bool" where
  "cval_eq CNone w = (w = CNone)"
| "cval_eq (CBool b) w = (num w = num (CBool b))"
| "cval_eq (CInt i) w = (num w = num (CInt i))"
| "cval_eq (CFloat r) w = (num w = num (CFloat r))"
| "cval_eq CInf w = (num w = num CInf)"
| "cval_eq (CStr s) w = (w = CStr s)"
| "cval_eq (CTuple vs) w = (case w of CTuple ws \<Rightarrow> list_all2 (\<lambda>eq. eq) (map cval_eq vs) ws | _ \<Rightarrow> False)"
| "cval_eq (CList vs) w = (case w of CList ws \<Rightarrow> list_all2 (\<lambda>eq. eq) (map cval_eq vs) ws | _ \<Rightarrow> False)"
| "cval_eq (CStages d) w = (case w of CStages e \<Rightarrow> same_dict d e | CHits e \<Rightarrow> d = [] \<and> e = [] | _ \<Rightarrow> False)"
| "cval_eq (CHits d) w = (case w of CHits e \<Rightarrow> same_dict d e | CStages e \<Rightarrow> d = [] \<and> e = [] | _ \<Rightarrow> False)"
| "cval_eq (CTriage t) w = (case w of CTriage u \<Rightarrow> same_triage t u | _ \<Rightarrow> False)"

subsection \<open>Order\<close>

datatype order_op = Less | LessEq | Greater | GreaterEq

fun holds :: "order_op \<Rightarrow> 'a::linorder \<Rightarrow> 'a \<Rightarrow> bool" where
  "holds Less x y = (x < y)"
| "holds LessEq x y = (x \<le> y)"
| "holds Greater x y = (y < x)"
| "holds GreaterEq x y = (y \<le> x)"

text \<open>Numbers: infinity is above every exact value.\<close>

fun num_holds :: "order_op \<Rightarrow> cnum \<Rightarrow> cnum \<Rightarrow> bool" where
  "num_holds op (Fin x) (Fin y) = holds op x y"
| "num_holds op (Fin x) Infinity = holds op (0::int) 1"
| "num_holds op Infinity (Fin y) = holds op (1::int) 0"
| "num_holds op Infinity Infinity = holds op (0::int) 0"

text \<open>
  Sequences are ordered by their first unequal members, or by their lengths when there are none;
  comparing those members may itself be a \<open>TypeError\<close> (\<^const>\<open>None\<close>).
\<close>

fun seq_order ::
  "order_op \<Rightarrow> (cval \<times> (cval \<Rightarrow> bool option)) list \<Rightarrow> cval list \<Rightarrow> bool option" where
  "seq_order op ((v, order) # vs) (w # ws) = (if cval_eq v w then seq_order op vs ws else order w)"
| "seq_order op vs ws = Some (holds op (length vs) (length ws))"

primrec cval_order :: "cval \<Rightarrow> order_op \<Rightarrow> cval \<Rightarrow> bool option" where
  "cval_order CNone = (\<lambda>op w. None)"
| "cval_order (CBool b) = (\<lambda>op w. map_option (num_holds op (Fin (if b then 1 else 0))) (num w))"
| "cval_order (CInt i) = (\<lambda>op w. map_option (num_holds op (Fin (of_int i))) (num w))"
| "cval_order (CFloat r) = (\<lambda>op w. map_option (num_holds op (Fin r)) (num w))"
| "cval_order CInf = (\<lambda>op w. map_option (num_holds op Infinity) (num w))"
| "cval_order (CStr s) = (\<lambda>op w. case w of CStr t \<Rightarrow> Some (holds op s t) | _ \<Rightarrow> None)"
| "cval_order (CTuple vs) = (\<lambda>op w. case w of
     CTuple ws \<Rightarrow> seq_order op (zip vs (map (\<lambda>order. order op) (map cval_order vs))) ws | _ \<Rightarrow> None)"
| "cval_order (CList vs) = (\<lambda>op w. case w of
     CList ws \<Rightarrow> seq_order op (zip vs (map (\<lambda>order. order op) (map cval_order vs))) ws | _ \<Rightarrow> None)"
| "cval_order (CStages d) = (\<lambda>op w. None)"
| "cval_order (CHits d) = (\<lambda>op w. None)"
| "cval_order (CTriage t) = (\<lambda>op w. None)"

subsection \<open>Membership\<close>

text \<open>A dictionary looks a value up by its hash. The triage facts hash with their dictionary of hits.\<close>

primrec cval_hashable :: "cval \<Rightarrow> bool" where
  "cval_hashable CNone = True"
| "cval_hashable (CBool b) = True"
| "cval_hashable (CInt i) = True"
| "cval_hashable (CFloat r) = True"
| "cval_hashable CInf = True"
| "cval_hashable (CStr s) = True"
| "cval_hashable (CTuple vs) = list_all (\<lambda>h. h) (map cval_hashable vs)"
| "cval_hashable (CList vs) = False"
| "cval_hashable (CStages d) = False"
| "cval_hashable (CHits d) = False"
| "cval_hashable (CTriage t) = False"

definition key_in :: "cval \<Rightarrow> string list \<Rightarrow> bool option" where
  "key_in v keys = (if cval_hashable v then Some (list_ex (\<lambda>k. v = CStr k) keys) else None)"

definition cval_in :: "cval \<Rightarrow> cval \<Rightarrow> bool option" where
  "cval_in v w =
     (case w of
        CStr text \<Rightarrow> (case v of CStr s \<Rightarrow> Some (has_infix s text) | _ \<Rightarrow> None)
      | CTuple ws \<Rightarrow> Some (list_ex (cval_eq v) ws)
      | CList ws \<Rightarrow> Some (list_ex (cval_eq v) ws)
      | CStages d \<Rightarrow> key_in v (map fst d)
      | CHits d \<Rightarrow> key_in v (map fst d)
      | _ \<Rightarrow> None)"

end
