(* ===== verification/Stage_Conditions.thy ===== *)
theory Stage_Conditions
  imports Stage_Values
begin

text \<open>
  The expression language of a stage's \<open>when\<close> (\<open>pipeline/conditions.py\<close>): the syntax trees
  Python's parser gives, the allow-list \<open>_check\<close>, the evaluator \<open>_resolve\<close>, and the calls built
  on them; and how the graph asks whether a stage runs (\<open>pipeline/nodes.py\<close>). Python's parser is a
  parameter: a function from text to a tree or to the way it failed, any exception included. The
  interpreter's stack is not modelled beyond the parser's own refusal.
\<close>

section \<open>Syntax\<close>

datatype bool_op = AndOp | OrOp

datatype cmp_op = EqOp | NotEqOp | InOp | NotInOp | LtOp | LtEOp | GtOp | GtEOp | IsOp | IsNotOp

text \<open>A literal: one of the five allowed kinds, or another with its type's name.\<close>

datatype literal =
    LNone
  | LBool bool
  | LInt int
  | LFloat rat
  | LInf
  | LStr string
  | LOther string

text \<open>
  The nodes of \<open>ast\<close>; a comparison holds each operator with its comparator. Every node type the
  module does not name is \<open>OtherNode\<close> with the type's name and the expressions below it.
\<close>

datatype node =
    Expression node
  | BoolOp bool_op "node list"
  | UnaryOp bool node  \<comment> \<open>whether the operator is \<open>not\<close>\<close>
  | Compare node "(cmp_op \<times> node) list"
  | Name string
  | Constant literal
  | TupleNode "node list"
  | ListNode "node list"
  | Attribute node string
  | Subscript node node
  | OtherNode string "node list"

datatype cond_error =
    NotAllowed string
  | OnlyNot string
  | OperatorNotAllowed string
  | UnknownName string
  | LiteralNotAllowed string
  | ConstantsOnly
  | NoTriageField string
  | HitsByLiteralKey
  | StageLookupShape
  | StageByLiteralName
  | StageResultShape
  | CannotCompare
  | EmptyCondition
  | CannotParse
  | NestedTooDeeply

definition node_type :: "node \<Rightarrow> string" where
  "node_type n =
     (case n of
        Expression _ \<Rightarrow> ''Expression'' | BoolOp _ _ \<Rightarrow> ''BoolOp'' | UnaryOp _ _ \<Rightarrow> ''UnaryOp''
      | Compare _ _ \<Rightarrow> ''Compare'' | Name _ \<Rightarrow> ''Name'' | Constant _ \<Rightarrow> ''Constant''
      | TupleNode _ \<Rightarrow> ''Tuple'' | ListNode _ \<Rightarrow> ''List'' | Attribute _ _ \<Rightarrow> ''Attribute''
      | Subscript _ _ \<Rightarrow> ''Subscript'' | OtherNode name _ \<Rightarrow> name)"

definition describe :: "node \<Rightarrow> string" where
  "describe n =
     (case map_of
        [(''Call'', ''a function call''), (''Lambda'', ''a lambda''), (''ListComp'', ''a comprehension''),
         (''SetComp'', ''a comprehension''), (''DictComp'', ''a comprehension''),
         (''GeneratorExp'', ''a comprehension''), (''JoinedStr'', ''an f-string''), (''Await'', ''an await''),
         (''IfExp'', ''a conditional expression''), (''BinOp'', ''arithmetic''),
         (''NamedExpr'', ''an assignment''), (''Starred'', ''unpacking''), (''Dict'', ''a dict literal''),
         (''Set'', ''a set literal''), (''Slice'', ''a slice'')] (node_type n) of
        Some words \<Rightarrow> words
      | None \<Rightarrow> node_type n @ '' syntax'')"

section \<open>The allow-list\<close>

fun is_triage_lookup :: "node \<Rightarrow> bool" where
  "is_triage_lookup (Attribute (Name name) attr) = (name = ''triage'')"
| "is_triage_lookup _ = False"

fun is_hits_lookup :: "node \<Rightarrow> bool" where
  "is_hits_lookup (Subscript (Attribute holder attr) key) =
     (is_triage_lookup (Attribute holder attr) \<and> attr = ''hits'')"
| "is_hits_lookup _ = False"

fun literal_key :: "node \<Rightarrow> string option" where
  "literal_key (Constant (LStr key)) = Some key"
| "literal_key _ = None"

definition check_stage_lookup :: "node \<Rightarrow> cond_error + unit" where
  "check_stage_lookup n =
     (case n of
        Attribute holder attr \<Rightarrow>
          if attr \<notin> set STAGE_RESULT_FIELDS then Inl StageLookupShape
          else
            (let stages_of = (\<lambda>key_holder. if key_holder = Name ''stages'' then Inr () else Inl StageResultShape)
             in case holder of
               Attribute key_holder _ \<Rightarrow> stages_of key_holder
             | Subscript key_holder key \<Rightarrow>
                 if literal_key key = None then Inl StageByLiteralName else stages_of key_holder
             | _ \<Rightarrow> Inl StageResultShape)
      | _ \<Rightarrow> Inl StageLookupShape)"

fun check_operator :: "cmp_op \<Rightarrow> cond_error + unit" where
  "check_operator IsOp = Inl (OperatorNotAllowed ''is'')"
| "check_operator IsNotOp = Inl (OperatorNotAllowed ''isnot'')"
| "check_operator op = Inr ()"

fun check_literal :: "literal \<Rightarrow> cond_error + unit" where
  "check_literal (LOther type_name) = Inl (LiteralNotAllowed type_name)"
| "check_literal l = Inr ()"

fun check_element :: "node \<Rightarrow> cond_error + unit" where
  "check_element (Constant l) = check_literal l"
| "check_element _ = Inl ConstantsOnly"

fun check_all :: "('a \<Rightarrow> cond_error + unit) \<Rightarrow> 'a list \<Rightarrow> cond_error + unit" where
  "check_all f [] = Inr ()"
| "check_all f (x # xs) = bind_r (f x) (\<lambda>_. check_all f xs)"

fun check :: "node \<Rightarrow> cond_error + unit"
  and check_values :: "node list \<Rightarrow> cond_error + unit"
  and check_comparators :: "(cmp_op \<times> node) list \<Rightarrow> cond_error + unit" where
  "check (Expression body) = check body"
| "check (BoolOp op vs) = check_values vs"
| "check (UnaryOp is_not operand) =
     (if \<not> is_not then Inl (OnlyNot (describe (UnaryOp is_not operand))) else check operand)"
| "check (Compare left cs) =
     bind_r (check_all check_operator (map fst cs)) (\<lambda>_. bind_r (check left) (\<lambda>_. check_comparators cs))"
| "check (Name name) = (if name \<notin> set CONTEXT_NAMES then Inl (UnknownName name) else Inr ())"
| "check (Constant l) = check_literal l"
| "check (TupleNode es) = check_all check_element es"
| "check (ListNode es) = check_all check_element es"
| "check (Attribute holder attr) =
     (if is_triage_lookup (Attribute holder attr)
      then if attr \<notin> set TRIAGE_FIELDS then Inl (NoTriageField attr) else Inr ()
      else check_stage_lookup (Attribute holder attr))"
| "check (Subscript holder key) =
     (if is_hits_lookup (Subscript holder key)
      then if literal_key key = None then Inl HitsByLiteralKey else Inr ()
      else check_stage_lookup (Subscript holder key))"
| "check (OtherNode name ns) = Inl (NotAllowed (describe (OtherNode name ns)))"
| "check_values [] = Inr ()"
| "check_values (v # vs) = bind_r (check v) (\<lambda>_. check_values vs)"
| "check_comparators [] = Inr ()"
| "check_comparators ((op, c) # cs) = bind_r (check c) (\<lambda>_. check_comparators cs)"

section \<open>Evaluation\<close>

text \<open>
  What leaves the evaluator: a condition error, the exception an unchecked tree would raise, or an
  exception of the parser that the module does not turn into a condition error.
\<close>

datatype raised = Condition cond_error | AttributeError | AssertionError | ParserError

definition or_raise :: "raised \<Rightarrow> 'a option \<Rightarrow> raised + 'a" where
  "or_raise e v = (case v of Some x \<Rightarrow> Inr x | None \<Rightarrow> Inl e)"

fun literal_value :: "literal \<Rightarrow> raised + cval" where
  "literal_value LNone = Inr CNone"
| "literal_value (LBool b) = Inr (CBool b)"
| "literal_value (LInt i) = Inr (CInt i)"
| "literal_value (LFloat r) = Inr (CFloat r)"
| "literal_value LInf = Inr CInf"
| "literal_value (LStr s) = Inr (CStr s)"
| "literal_value (LOther type_name) = Inl AssertionError"

text \<open>
  A key or a literal of another kind than the allowed ones reads as an \<open>AssertionError\<close> here; the
  allow-list lets no such tree through, which the progress lemma of \<open>Stage_Proofs\<close> rests on.
\<close>

text \<open>\<open>_compare\<close>: what Python raises over the two values is a condition error.\<close>

fun compare_raw :: "cmp_op \<Rightarrow> cval \<Rightarrow> cval \<Rightarrow> bool option" where
  "compare_raw EqOp v w = Some (cval_eq v w)"
| "compare_raw NotEqOp v w = Some (\<not> cval_eq v w)"
| "compare_raw InOp v w = cval_in v w"
| "compare_raw NotInOp v w = map_option (\<lambda>b. \<not> b) (cval_in v w)"
| "compare_raw LtOp v w = cval_order v Less w"
| "compare_raw LtEOp v w = cval_order v LessEq w"
| "compare_raw GtOp v w = cval_order v Greater w"
| "compare_raw _ v w = cval_order v GreaterEq w"

definition compare :: "cmp_op \<Rightarrow> cval \<Rightarrow> cval \<Rightarrow> raised + bool" where
  "compare op v w = or_raise (Condition CannotCompare) (compare_raw op v w)"

fun stage_key :: "node \<Rightarrow> string option" where
  "stage_key (Attribute holder attr) = Some attr"
| "stage_key (Subscript holder key) = literal_key key"
| "stage_key _ = None"

definition not_run :: stage_result where
  "not_run = \<lparr>sr_ran = False, sr_reason = ''stage did not run'', sr_claim_count = 0, sr_technique_ids = [],
     sr_finding_count = 0, sr_agents = []\<rparr>"

definition stage_of :: "stage_ctx \<Rightarrow> string \<Rightarrow> stage_result" where
  "stage_of ctx key = (case map_of (sc_stages ctx) key of Some r \<Rightarrow> r | None \<Rightarrow> not_run)"

definition hits_of :: "stage_ctx \<Rightarrow> string \<Rightarrow> int" where
  "hits_of ctx key = (case map_of (tf_hits (sc_triage ctx)) key of Some n \<Rightarrow> n | None \<Rightarrow> 0)"

definition lookup :: "stage_ctx \<Rightarrow> node \<Rightarrow> raised + cval" where
  "lookup ctx n =
     (case n of
        Subscript holder key \<Rightarrow>
          if is_hits_lookup n
          then map_r (\<lambda>k. CInt (hits_of ctx k)) (or_raise AssertionError (literal_key key))
          else Inl (Condition (NotAllowed (describe n)))
      | Attribute holder attr \<Rightarrow>
          if is_triage_lookup n then or_raise AttributeError (triage_field (sc_triage ctx) attr)
          else bind_r (or_raise AssertionError (stage_key holder)) (\<lambda>key.
               or_raise AttributeError (stage_field (stage_of ctx key) attr))
      | _ \<Rightarrow> Inl (Condition (NotAllowed (describe n))))"

fun resolve :: "stage_ctx \<Rightarrow> node \<Rightarrow> raised + cval"
  and resolve_and :: "stage_ctx \<Rightarrow> cval \<Rightarrow> node list \<Rightarrow> raised + cval"
  and resolve_or :: "stage_ctx \<Rightarrow> cval \<Rightarrow> node list \<Rightarrow> raised + cval"
  and resolve_comparisons :: "stage_ctx \<Rightarrow> cval \<Rightarrow> (cmp_op \<times> node) list \<Rightarrow> raised + bool"
  and resolve_elements :: "stage_ctx \<Rightarrow> node list \<Rightarrow> raised + cval list" where
  "resolve ctx (Expression body) = resolve ctx body"
| "resolve ctx (BoolOp op vs) =
     (case op of AndOp \<Rightarrow> resolve_and ctx (CBool True) vs | OrOp \<Rightarrow> resolve_or ctx (CBool False) vs)"
| "resolve ctx (UnaryOp is_not operand) = map_r (\<lambda>v. CBool (\<not> cval_true v)) (resolve ctx operand)"
| "resolve ctx (Compare left cs) =
     bind_r (resolve ctx left) (\<lambda>v. map_r CBool (resolve_comparisons ctx v cs))"
| "resolve ctx (Name name) = or_raise AttributeError (name_value ctx name)"
| "resolve ctx (Constant l) = literal_value l"
| "resolve ctx (TupleNode es) = map_r CTuple (resolve_elements ctx es)"
| "resolve ctx (ListNode es) = map_r CList (resolve_elements ctx es)"
| "resolve ctx (Attribute holder attr) = lookup ctx (Attribute holder attr)"
| "resolve ctx (Subscript holder key) = lookup ctx (Subscript holder key)"
| "resolve ctx (OtherNode name ns) = Inl (Condition (NotAllowed (describe (OtherNode name ns))))"
| "resolve_and ctx result [] = Inr result"
| "resolve_and ctx result (v # vs) =
     bind_r (resolve ctx v) (\<lambda>r. if \<not> cval_true r then Inr r else resolve_and ctx r vs)"
| "resolve_or ctx result [] = Inr result"
| "resolve_or ctx result (v # vs) =
     bind_r (resolve ctx v) (\<lambda>r. if cval_true r then Inr r else resolve_or ctx r vs)"
| "resolve_comparisons ctx left [] = Inr True"
| "resolve_comparisons ctx left ((op, c) # cs) =
     bind_r (resolve ctx c) (\<lambda>right.
     bind_r (compare op left right) (\<lambda>b. if \<not> b then Inr False else resolve_comparisons ctx right cs))"
| "resolve_elements ctx [] = Inr []"
| "resolve_elements ctx (e # es) =
     bind_r (resolve ctx e) (\<lambda>v. map_r (\<lambda>vs. v # vs) (resolve_elements ctx es))"

section \<open>The module's calls\<close>

text \<open>
  How Python's parser fails. The module turns the first three into condition errors; the last stands
  for every other exception, which it lets through, such as the \<open>ValueError\<close> (\<open>UnicodeEncodeError\<close>) over
  a text with a lone surrogate.
\<close>

datatype parse_failure = SyntaxError | RecursionError | MemoryError | OtherFailure

type_synonym parser = "string \<Rightarrow> parse_failure + node"

definition parse_condition :: "parser \<Rightarrow> string \<Rightarrow> raised + node" where
  "parse_condition ast_parse expr =
     (let text = strip expr
      in if text = [] then Inl (Condition EmptyCondition)
         else case ast_parse text of
           Inl SyntaxError \<Rightarrow> Inl (Condition CannotParse)
         | Inl RecursionError \<Rightarrow> Inl (Condition NestedTooDeeply)
         | Inl MemoryError \<Rightarrow> Inl (Condition NestedTooDeeply)
         | Inl OtherFailure \<Rightarrow> Inl ParserError
         | Inr tree \<Rightarrow> (case check tree of Inl e \<Rightarrow> Inl (Condition e) | Inr _ \<Rightarrow> Inr tree))"

definition evaluate :: "parser \<Rightarrow> string \<Rightarrow> stage_ctx \<Rightarrow> raised + bool" where
  "evaluate ast_parse expr ctx =
     (if strip expr = [] then Inr True
      else bind_r (parse_condition ast_parse expr) (\<lambda>tree. map_r cval_true (resolve ctx tree)))"

text \<open>What \<open>validate_condition\<close> says is wrong: a condition error, or another failure of the dry run.\<close>

datatype problem_found = Refused cond_error | CouldNotEvaluate raised

definition dry_context :: stage_ctx where
  "dry_context = StageContext\<lparr>sc_triage := TriageFacts\<lparr>tf_reputation_malicious := Some 0\<rparr>\<rparr>"

definition validate_condition :: "parser \<Rightarrow> string \<Rightarrow> raised + problem_found list" where
  "validate_condition ast_parse expr =
     (if strip expr = [] then Inr []
      else case parse_condition ast_parse expr of
        Inl (Condition e) \<Rightarrow> Inr [Refused e]
      | Inl e \<Rightarrow> Inl e
      | Inr tree \<Rightarrow>
          (case resolve dry_context tree of
             Inr v \<Rightarrow> Inr []
           | Inl (Condition e) \<Rightarrow> Inr [Refused e]
           | Inl e \<Rightarrow> Inr [CouldNotEvaluate e]))"

text \<open>\<open>ast.walk\<close>: breadth first, the queue in \<open>todo\<close>.\<close>

fun child_nodes :: "node \<Rightarrow> node list" where
  "child_nodes (Expression body) = [body]"
| "child_nodes (BoolOp op vs) = vs"
| "child_nodes (UnaryOp is_not operand) = [operand]"
| "child_nodes (Compare left cs) = left # map snd cs"
| "child_nodes (TupleNode es) = es"
| "child_nodes (ListNode es) = es"
| "child_nodes (Attribute holder attr) = [holder]"
| "child_nodes (Subscript holder key) = [holder, key]"
| "child_nodes (OtherNode name ns) = ns"
| "child_nodes _ = []"

lemma child_sizes: "sum_list (map (\<lambda>c. 2 * size c + 1) (child_nodes n)) \<le> 2 * size n"
proof -
  have list: "sum_list (map (\<lambda>c. 2 * size c + 1) ns) \<le> 2 * size_list size ns" for ns :: "node list"
    by (induction ns) auto
  have pairs: "sum_list (map (\<lambda>c. 2 * size (snd c) + 1) cs) \<le> 2 * size_list (size_prod (\<lambda>_. 0) size) cs"
    for cs :: "(cmp_op \<times> node) list"
    by (induction cs) auto
  show ?thesis
  proof (cases n)
    case (Compare left cs)
    then show ?thesis using pairs [of cs] by (simp add: comp_def)
  qed (use list in \<open>auto intro: le_SucI order_trans [OF list]\<close>)
qed

function walk :: "node list \<Rightarrow> node list" where
  "walk [] = []"
| "walk (n # todo) = n # walk (todo @ child_nodes n)"
  by pat_completeness auto
termination
  by (relation "measure (\<lambda>todo. sum_list (map (\<lambda>c. 2 * size c + 1) todo))")
    (use child_sizes in \<open>auto simp: less_Suc_eq_le\<close>)

definition read_stage :: "node \<Rightarrow> string option" where
  "read_stage n =
     (case n of
        Attribute holder attr \<Rightarrow> if is_triage_lookup n then None else stage_key holder
      | _ \<Rightarrow> None)"

definition stage_references :: "parser \<Rightarrow> string \<Rightarrow> raised + string list" where
  "stage_references ast_parse expr =
     (if strip expr = [] then Inr []
      else case parse_condition ast_parse expr of
        Inl (Condition e) \<Rightarrow> Inr []
      | Inl e \<Rightarrow> Inl e
      | Inr tree \<Rightarrow> Inr (from_keys (List.map_filter read_stage (walk [tree]))))"

definition is_name :: "node \<Rightarrow> bool" where
  "is_name n = (case n of Name _ \<Rightarrow> True | _ \<Rightarrow> False)"

definition constant_truth :: "parser \<Rightarrow> string \<Rightarrow> raised + bool option" where
  "constant_truth ast_parse expr =
     (if strip expr = [] then Inr None
      else case parse_condition ast_parse expr of
        Inl (Condition e) \<Rightarrow> Inr None
      | Inl e \<Rightarrow> Inl e
      | Inr tree \<Rightarrow>
          if list_ex is_name (walk [tree]) then Inr None
          else (case resolve StageContext tree of
                  Inr v \<Rightarrow> Inr (Some (cval_true v))
                | Inl (Condition e) \<Rightarrow> Inr None
                | Inl e \<Rightarrow> Inl e))"

section \<open>Whether a stage runs\<close>

datatype skip_reason = NoReason | ConditionProblem cond_error | ConditionNotMet string

text \<open>\<open>stage_runs\<close>: anything but a condition error leaves the call.\<close>

definition stage_runs :: "parser \<Rightarrow> string \<Rightarrow> stage_ctx \<Rightarrow> raised + bool \<times> skip_reason" where
  "stage_runs ast_parse when ctx =
     (if strip when = [] then Inr (True, NoReason)
      else case evaluate ast_parse when ctx of
        Inr True \<Rightarrow> Inr (True, NoReason)
      | Inr False \<Rightarrow> Inr (False, ConditionNotMet when)
      | Inl (Condition e) \<Rightarrow> Inr (False, ConditionProblem e)
      | Inl e \<Rightarrow> Inl e)"

end
