(* ===== verification/Stage_Proofs.thy ===== *)
theory Stage_Proofs
  imports Stage_Conditions
begin

text \<open>
  Lemmas on the condition language: a tree the allow-list lets through evaluates or fails on a
  comparison; what an evaluation depends on; the walk that collects a tree's nodes; the counting
  of rule matches; and the codec through which facts and results pass the run's state.
\<close>

section \<open>A checked tree does not get stuck\<close>

text \<open>What an evaluation may come to: a value, or a comparison Python refuses.\<close>

definition sound :: "raised + 'a \<Rightarrow> bool" where
  "sound r = (case r of Inr v \<Rightarrow> True | Inl e \<Rightarrow> e = Condition CannotCompare)"

lemma sound_simps [simp]:
  "sound (Inr v)" "sound (Inl e) \<longleftrightarrow> e = Condition CannotCompare"
  by (simp_all add: sound_def)

lemma sound_bind_r [intro]: "sound r \<Longrightarrow> (\<And>v. r = Inr v \<Longrightarrow> sound (f v)) \<Longrightarrow> sound (bind_r r f)"
  by (cases r) auto

lemma sound_map_r [simp]: "sound (map_r f r) = sound r"
  by (cases r) auto

lemma sound_compare [simp]: "sound (compare op v w)"
  by (simp add: compare_def or_raise_def split: option.splits)

lemma name_values: "name \<in> set CONTEXT_NAMES \<Longrightarrow> \<exists>v. name_value ctx name = Some v"
  by (auto simp: CONTEXT_NAMES_def name_value_def)

lemma stage_fields: "name \<in> set STAGE_RESULT_FIELDS \<Longrightarrow> \<exists>v. stage_field r name = Some v"
  by (auto simp: STAGE_RESULT_FIELDS_def stage_field_def)

lemma triage_fields: "name \<in> set TRIAGE_FIELDS \<Longrightarrow> \<exists>v. triage_field t name = Some v"
  by (auto simp: TRIAGE_FIELDS_def triage_field_def)

lemma checked_literal: "check_literal l = Inr u \<Longrightarrow> \<exists>v. literal_value l = Inr v"
  by (cases l) auto

lemma checked_elements: "check_all check_element es = Inr u \<Longrightarrow> \<exists>vs. resolve_elements ctx es = Inr vs"
proof (induction es)
  case (Cons e es)
  then obtain vs where "resolve_elements ctx es = Inr vs" by (auto simp: result_iffs)
  moreover from Cons.prems obtain l where "e = Constant l" "check_literal l = Inr ()"
    by (cases e) (auto simp: result_iffs)
  ultimately show ?case using checked_literal by fastforce
qed simp

text \<open>The shapes of the lookups the allow-list lets through.\<close>

lemma checked_attribute:
  assumes "check (Attribute holder attr) = Inr u"
  obtains (triage) "holder = Name ''triage''" "attr \<in> set TRIAGE_FIELDS"
  | (by_name) key where "holder = Attribute (Name ''stages'') key" "attr \<in> set STAGE_RESULT_FIELDS"
  | (by_key) key where "holder = Subscript (Name ''stages'') (Constant (LStr key))" "attr \<in> set STAGE_RESULT_FIELDS"
proof (cases "is_triage_lookup (Attribute holder attr)")
  case True
  then have "holder = Name ''triage''" by (cases holder) auto
  with assms triage show thesis by (auto split: if_splits)
next
  case False
  have key: "k = Constant (LStr s)" if "literal_key k = Some s" for k s
    using that by (cases k rule: literal_key.cases) auto
  from False assms have "check_stage_lookup (Attribute holder attr) = Inr u" by simp
  then show thesis
    by (cases holder) (auto simp: check_stage_lookup_def Let_def dest: key split: if_splits intro: by_name by_key)
qed

lemma checked_subscript:
  assumes "check (Subscript holder k) = Inr u"
  obtains key where "holder = Attribute (Name ''triage'') ''hits''" "k = Constant (LStr key)"
proof -
  from assms have hits: "is_hits_lookup (Subscript holder k)" "literal_key k \<noteq> None"
    by (auto simp: check_stage_lookup_def split: if_splits)
  from hits(1) obtain h where "holder = Attribute h ''hits''" "is_triage_lookup (Attribute h ''hits'')"
    by (cases holder) auto
  then have "holder = Attribute (Name ''triage'') ''hits''" by (cases h) auto
  moreover from hits(2) obtain key where "k = Constant (LStr key)" by (cases k rule: literal_key.cases) auto
  ultimately show thesis by (rule that)
qed

lemma lookup_simps:
  "lookup ctx (Attribute (Name ''triage'') attr) = or_raise AttributeError (triage_field (sc_triage ctx) attr)"
  "lookup ctx (Attribute (Attribute (Name ''stages'') key) attr) =
     or_raise AttributeError (stage_field (stage_of ctx key) attr)"
  "lookup ctx (Attribute (Subscript (Name ''stages'') (Constant (LStr key))) attr) =
     or_raise AttributeError (stage_field (stage_of ctx key) attr)"
  "lookup ctx (Subscript (Attribute (Name ''triage'') ''hits'') (Constant (LStr key))) = Inr (CInt (hits_of ctx key))"
  by (simp_all add: lookup_def or_raise_def)

lemma checked_lookup: "check (Attribute holder attr) = Inr u \<Longrightarrow> \<exists>v. lookup ctx (Attribute holder attr) = Inr v"
proof (erule checked_attribute)
  assume "holder = Name ''triage''" "attr \<in> set TRIAGE_FIELDS"
  then show ?thesis using triage_fields [of attr "sc_triage ctx"] by (auto simp: lookup_simps or_raise_def)
next
  fix key assume "holder = Attribute (Name ''stages'') key" "attr \<in> set STAGE_RESULT_FIELDS"
  then show ?thesis using stage_fields [of attr "stage_of ctx key"] by (auto simp: lookup_simps or_raise_def)
next
  fix key assume "holder = Subscript (Name ''stages'') (Constant (LStr key))" "attr \<in> set STAGE_RESULT_FIELDS"
  then show ?thesis using stage_fields [of attr "stage_of ctx key"] by (auto simp: lookup_simps or_raise_def)
qed

lemma checked_resolves:
  "check n = Inr u \<Longrightarrow> sound (resolve ctx n)"
  "check_values vs = Inr u \<Longrightarrow> sound (resolve_and ctx r vs) \<and> sound (resolve_or ctx r vs)"
  "check_comparators cs = Inr u \<Longrightarrow> sound (resolve_comparisons ctx v cs)"
proof (induction n and vs and cs arbitrary: u and u r and u v rule: check_check_values_check_comparators.induct)
  case (2 op vs)
  then show ?case by (cases op) auto
next
  case (4 left cs)
  then show ?case by (auto simp: result_iffs)
next
  case (5 name)
  then show ?case using name_values [of name ctx] by (auto simp: or_raise_def split: if_splits)
next
  case (6 l)
  then show ?case using checked_literal [of l] by auto
next
  case (7 es)
  then obtain vs where "resolve_elements ctx es = Inr vs" using checked_elements by fastforce
  then show ?case by simp
next
  case (8 es)
  then obtain vs where "resolve_elements ctx es = Inr vs" using checked_elements by fastforce
  then show ?case by simp
next
  case (9 holder attr)
  then show ?case using checked_lookup [of holder attr u ctx] by auto
next
  case (10 holder key)
  from 10 obtain k where "holder = Attribute (Name ''triage'') ''hits''" "key = Constant (LStr k)"
    by (rule checked_subscript)
  then show ?case by (simp add: lookup_simps)
next
  case (15 op c cs)
  from 15(3) obtain u' u'' where "check c = Inr u'" "check_comparators cs = Inr u''" by (auto simp: result_iffs)
  with 15 have "sound (resolve ctx c)" "\<And>v. sound (resolve_comparisons ctx v cs)" by auto
  then show ?case by (auto intro!: sound_bind_r split: if_splits)
qed (auto simp: result_iffs split: if_splits)

section \<open>What an evaluation depends on\<close>

text \<open>The names and lookups an evaluation can come to.\<close>

primrec leaves :: "node \<Rightarrow> node list" where
  "leaves (Expression body) = leaves body"
| "leaves (BoolOp op vs) = concat (map leaves vs)"
| "leaves (UnaryOp is_not operand) = leaves operand"
| "leaves (Compare left cs) = leaves left @ concat (map snd (map (map_prod id leaves) cs))"
| "leaves (Name name) = [Name name]"
| "leaves (Constant l) = []"
| "leaves (TupleNode es) = []"
| "leaves (ListNode es) = []"
| "leaves (Attribute holder attr) = [Attribute holder attr]"
| "leaves (Subscript holder key) = [Subscript holder key]"
| "leaves (OtherNode name ns) = []"

lemma elements_same: "check_all check_element es = Inr u \<Longrightarrow> resolve_elements ctx es = resolve_elements ctx' es"
proof (induction es)
  case (Cons e es)
  then show ?case by (cases e) (auto simp: result_iffs)
qed simp

lemma resolve_same:
  "check n = Inr u \<Longrightarrow> \<forall>l\<in>set (leaves n). resolve ctx l = resolve ctx' l \<Longrightarrow> resolve ctx n = resolve ctx' n"
  "check_values vs = Inr u \<Longrightarrow> \<forall>n\<in>set vs. \<forall>l\<in>set (leaves n). resolve ctx l = resolve ctx' l \<Longrightarrow>
     resolve_and ctx r vs = resolve_and ctx' r vs \<and> resolve_or ctx r vs = resolve_or ctx' r vs"
  "check_comparators cs = Inr u \<Longrightarrow> \<forall>n\<in>snd ` set cs. \<forall>l\<in>set (leaves n). resolve ctx l = resolve ctx' l \<Longrightarrow>
     resolve_comparisons ctx v cs = resolve_comparisons ctx' v cs"
proof (induction n and vs and cs arbitrary: u and u r and u v rule: check_check_values_check_comparators.induct)
  case (2 op vs)
  then show ?case by (cases op) auto
next
  case (4 left cs)
  from 4(3) obtain u' u'' where "check left = Inr u'" "check_comparators cs = Inr u''" by (auto simp: result_iffs)
  with 4 show ?case by (force simp: result_iffs)
next
  case (7 es)
  then show ?case using elements_same [of es u ctx ctx'] by auto
next
  case (8 es)
  then show ?case using elements_same [of es u ctx ctx'] by auto
next
  case (13 v vs)
  then show ?case by (auto simp: result_iffs intro!: arg_cong [where f = "bind_r (resolve ctx' v)"])
next
  case (15 op c cs)
  from 15(3) obtain u' u'' where "check c = Inr u'" "check_comparators cs = Inr u''" by (auto simp: result_iffs)
  with 15 have "resolve ctx c = resolve ctx' c" "\<And>v. resolve_comparisons ctx v cs = resolve_comparisons ctx' v cs"
    by auto
  then show ?case by (simp cong: if_cong)
qed (auto simp: result_iffs split: if_splits)

lemma leaves_checked:
  "check n = Inr u \<Longrightarrow> \<forall>l\<in>set (leaves n). check l = Inr ()"
  "check_values vs = Inr u \<Longrightarrow> \<forall>n\<in>set vs. \<forall>l\<in>set (leaves n). check l = Inr ()"
  "check_comparators cs = Inr u \<Longrightarrow> \<forall>n\<in>snd ` set cs. \<forall>l\<in>set (leaves n). check l = Inr ()"
proof (induction n and vs and cs arbitrary: u and u and u rule: check_check_values_check_comparators.induct)
  case (4 left cs)
  from 4(3) obtain u' u'' where "check left = Inr u'" "check_comparators cs = Inr u''" by (auto simp: result_iffs)
  with 4 show ?case by (force simp: result_iffs)
next
  case (9 holder attr)
  then show ?case by simp
next
  case (10 holder key)
  then show ?case by simp
qed (auto simp: result_iffs split: if_splits)

section \<open>The walk\<close>

lemma walk_todo: "set todo \<subseteq> set (walk todo)"
  by (induction todo rule: walk.induct) auto

lemma walk_closed: "n \<in> set (walk todo) \<Longrightarrow> set (child_nodes n) \<subseteq> set (walk todo)"
proof (induction todo rule: walk.induct)
  case (2 m todo)
  then show ?case using walk_todo [of "todo @ child_nodes m"] by auto
qed simp

lemma leaves_walked:
  "n \<in> set (walk todo) \<Longrightarrow> set (leaves n) \<subseteq> set (walk todo)"
proof (induction n)
  case (Expression n)
  then show ?case using walk_closed [OF Expression.prems] by simp
next
  case (BoolOp op vs)
  then show ?case using walk_closed [OF BoolOp.prems] by fastforce
next
  case (UnaryOp b n)
  then show ?case using walk_closed [OF UnaryOp.prems] by simp
next
  case (Compare left cs)
  have "set (leaves c) \<subseteq> set (walk todo)" if "(op, c) \<in> set cs" for op c
  proof (rule Compare.IH(2) [OF that])
    show "c \<in> Basic_BNFs.snds (op, c)" by simp
    show "c \<in> set (walk todo)" using walk_closed [OF Compare.prems] that by force
  qed
  moreover have "set (leaves left) \<subseteq> set (walk todo)" using Compare.IH(1) walk_closed [OF Compare.prems] by simp
  ultimately show ?case by (fastforce simp: UN_subset_iff)
qed auto

lemma walked_all:
  assumes "\<forall>n\<in>set todo. P n" "\<And>n. P n \<Longrightarrow> \<forall>c\<in>set (child_nodes n). P c"
  shows "\<forall>n\<in>set (walk todo). P n"
  using assms(1)
proof (induction todo rule: walk.induct)
  case (2 n todo)
  from 2(2) have "P n" by simp
  from assms(2) [OF this] 2(2) have "\<forall>m\<in>set (todo @ child_nodes n). P m" by auto
  from 2(1) [OF this] \<open>P n\<close> show ?case by (simp only: walk.simps set_simps ball_simps)
qed simp

text \<open>A leaf is a name or a lookup, and every lookup let through has a name in it.\<close>

lemma leaf_shape:
  assumes "l \<in> set (leaves n)"
  obtains (name) name where "l = Name name" | (attribute) holder attr where "l = Attribute holder attr"
    | (subscript) holder key where "l = Subscript holder key"
proof -
  from assms have "(\<exists>name. l = Name name) \<or> (\<exists>h a. l = Attribute h a) \<or> (\<exists>h k. l = Subscript h k)"
    by (induction n) auto
  with that show thesis by blast
qed

lemma leaf_has_name:
  assumes "l \<in> set (leaves n)" "check l = Inr ()" "l \<in> set (walk todo)"
  shows "\<exists>name. Name name \<in> set (walk todo)"
  using assms(1)
proof (cases rule: leaf_shape)
  case (name name)
  then show ?thesis using assms(3) by blast
next
  case (attribute holder attr)
  then have "holder \<in> set (walk todo)" using walk_closed [OF assms(3)] by simp
  from assms(2) [unfolded attribute] this walk_closed [OF this] show ?thesis
    by (cases rule: checked_attribute) auto
next
  case (subscript holder key)
  then have "holder \<in> set (walk todo)" using walk_closed [OF assms(3)] by simp
  from assms(2) [unfolded subscript] this walk_closed [OF this] show ?thesis
    by (cases rule: checked_subscript) auto
qed

text \<open>A checked tree without leaves has none anywhere: its nodes are operators and literals.\<close>

lemma check_all_iff: "check_all f xs = Inr u \<longleftrightarrow> (\<forall>x\<in>set xs. f x = Inr ())"
  by (induction xs) (auto simp: result_iffs)

lemma check_values_iff: "check_values vs = Inr u \<longleftrightarrow> (\<forall>v\<in>set vs. check v = Inr ())"
  by (induction vs) (auto simp: result_iffs)

lemma check_comparators_iff: "check_comparators cs = Inr u \<longleftrightarrow> (\<forall>c\<in>set cs. check (snd c) = Inr ())"
  by (induction cs) (auto simp: result_iffs)

lemma checked_element: "check_element e = Inr u \<Longrightarrow> check e = Inr () \<and> leaves e = []"
  by (cases e) auto

lemma leafless_children:
  assumes "check n = Inr () \<and> leaves n = []"
  shows "\<forall>c\<in>set (child_nodes n). check c = Inr () \<and> leaves c = []"
  using assms
  by (cases n) (auto simp: check_values_iff check_comparators_iff check_all_iff result_iffs dest: checked_element
    split: if_splits)

lemma from_keys_set [simp]: "set (from_keys ks) = set ks"
  by (simp add: from_keys_def)

section \<open>Chained comparisons\<close>

fun pairs_of :: "node \<Rightarrow> (cmp_op \<times> node) list \<Rightarrow> node list" where
  "pairs_of left [] = []"
| "pairs_of left ((op, c) # cs) = Compare left [(op, c)] # pairs_of c cs"

lemma resolve_pairs:
  "resolve ctx left = Inr v \<Longrightarrow>
   resolve_and ctx (CBool True) (pairs_of left cs) = map_r CBool (resolve_comparisons ctx v cs)"
proof (induction cs arbitrary: left v)
  case (Cons oc cs)
  obtain op c where oc: "oc = (op, c)" by (cases oc)
  show ?case
  proof (cases "resolve ctx c")
    case (Inr w)
    then show ?thesis using Cons.IH [OF Inr] Cons.prems by (cases "compare op v w") (auto simp: oc)
  qed (simp add: oc Cons.prems)
qed simp

section \<open>Rule matches\<close>

lemma count_keys:
  assumes "distinct keys"
  shows "map_of (foldl (count_key found) counted keys) k =
    (if k \<in> set keys then Some ((case map_of counted k of Some n \<Rightarrow> n | None \<Rightarrow> 0) + found) else map_of counted k)"
  using assms
proof (induction keys arbitrary: counted)
  case (Cons key keys)
  then show ?case by (auto simp: count_key_def update_conv' split: option.splits)
qed simp

lemma from_keys_distinct [simp]: "distinct (from_keys ks)"
  by (simp add: from_keys_def)

text \<open>The matches a row counts, for a key and in all.\<close>

definition matches :: "row_reading \<Rightarrow> dict \<Rightarrow> int" where
  "matches rd row = (case row_hits rd row of None \<Rightarrow> 0 | Some (keys, found) \<Rightarrow> found)"

definition matches_for :: "row_reading \<Rightarrow> string \<Rightarrow> dict \<Rightarrow> int" where
  "matches_for rd k row = (case row_hits rd row of None \<Rightarrow> 0 | Some (keys, found) \<Rightarrow> if k \<in> set keys then found else 0)"

lemma row_hits_Some: "row_hits rd row = Some (keys, found) \<Longrightarrow> 0 < found \<and> distinct keys"
  by (auto simp: row_hits_def Let_def split: if_splits option.splits)

lemma matches_for_le: "matches_for rd k row \<le> matches rd row" "0 \<le> matches_for rd k row"
  by (auto simp: matches_for_def matches_def dest: row_hits_Some split: option.splits)

definition count_row :: "row_reading \<Rightarrow> (string \<times> int) list \<times> int \<Rightarrow> dict \<Rightarrow> (string \<times> int) list \<times> int" where
  "count_row rd = (\<lambda>(counted, total) row.
       case row_hits rd row of
         None \<Rightarrow> (counted, total)
       | Some (keys, found) \<Rightarrow> (foldl (count_key found) counted keys, total + found))"

lemma rule_match_hits_fold: "rule_match_hits rd rows = foldl (count_row rd) ([], 0) rows"
  by (simp add: rule_match_hits_def count_row_def)

lemma count_rows:
  "foldl (count_row rd) (counted, n) rows = (counted', n') \<Longrightarrow>
   n' = n + (\<Sum>row\<leftarrow>rows. matches rd row) \<and>
   (case map_of counted' k of Some m \<Rightarrow> m | None \<Rightarrow> 0) =
     (case map_of counted k of Some m \<Rightarrow> m | None \<Rightarrow> 0) + (\<Sum>row\<leftarrow>rows. matches_for rd k row)"
proof (induction rows arbitrary: counted n)
  case (Cons row rows)
  obtain c m where step: "count_row rd (counted, n) row = (c, m)" by fastforce
  have "m = n + matches rd row \<and> (case map_of c k of Some m \<Rightarrow> m | None \<Rightarrow> 0) =
      (case map_of counted k of Some m \<Rightarrow> m | None \<Rightarrow> 0) + matches_for rd k row"
  proof (cases "row_hits rd row")
    case None
    then show ?thesis using step by (auto simp: count_row_def matches_def matches_for_def)
  next
    case (Some kf)
    then obtain keys found where kf: "row_hits rd row = Some (keys, found)" by (cases kf) auto
    then show ?thesis using step row_hits_Some [OF kf]
      by (auto simp: count_row_def matches_def matches_for_def count_keys)
  qed
  then show ?case using Cons.IH [of c m] Cons.prems step by simp
qed simp

section \<open>The codec of the run's state\<close>

text \<open>
  What the run's state holds of a value is a dictionary it is written as and read back from; the
  contract is that reading gives the value written.
\<close>

locale state_codec =
  fixes enc :: "'a \<Rightarrow> dict" and dec :: "dict \<Rightarrow> py_error + 'a"
  assumes reads_back: "dec (enc x) = Inr x"
begin

lemma written_apart: "enc x = enc y \<longleftrightarrow> x = y"
  by (metis reads_back sum.inject(2))

text \<open>A whole mapping of values passes through, and a key reads as what was written under it.\<close>

definition enc_all :: "(string \<times> 'a) list \<Rightarrow> dict" where
  "enc_all xs = map (\<lambda>(k, x). (k, PDict (enc x))) xs"

definition dec_all :: "dict \<Rightarrow> py_error + (string \<times> 'a) list" where
  "dec_all d = sequence_r (List.map_filter (\<lambda>(k, v). map_option (\<lambda>e. map_r (Pair k) (dec e)) (as_mapping v)) d)"

lemma dec_enc_all: "dec_all (enc_all xs) = Inr xs"
proof -
  have "List.map_filter (\<lambda>(k, v). map_option (\<lambda>e. map_r (Pair k) (dec e)) (as_mapping v)) (enc_all xs) =
      map Inr xs"
    by (induction xs) (auto simp: enc_all_def List.map_filter_def reads_back)
  then show ?thesis by (simp add: dec_all_def sequence_r_eq_Inr)
qed

end

lemma text_tuple_back: "text_tuple (PList (map PStr xs)) = Inr xs"
  by (cases xs) (auto simp: text_tuple_def py_or_def comp_def)

interpretation stage_codec: state_codec stage_result_to_dict stage_result_from_dict
proof
  fix r :: stage_result
  have "py_int (py_or (PInt i) (PInt 0)) = Inr i" for i by (simp add: py_or_def)
  moreover have "py_str (py_or (PStr s) (PStr [])) = s" for s by (simp add: py_or_def)
  ultimately show "stage_result_from_dict (stage_result_to_dict r) = Inr r"
    by (cases r) (simp add: stage_result_from_dict_def stage_result_to_dict_def text_tuple_back)
qed

text \<open>Reading the facts depends on the six columns they are written under.\<close>

lemma hits_back: "List.map_filter (\<lambda>(k, v). map_option (Pair k) (as_int v)) (map (map_prod id PInt) hits) = hits"
  by (induction hits) (auto simp: as_int_def List.map_filter_def)

lemma triage_reads:
  assumes "\<forall>name\<in>set TRIAGE_FIELDS. dict_get d name = dict_get (triage_to_dict t) name"
  shows "triage_from_dict d = Inr t"
proof -
  have "dict_get d ''has_signature'' = PBool (tf_has_signature t)"
    "dict_get d ''reputation_malicious'' = py_opt_int (tf_reputation_malicious t)"
    "dict_get d ''yara_hits'' = PInt (tf_yara_hits t)" "dict_get d ''capa_hits'' = PInt (tf_capa_hits t)"
    "dict_get d ''rule_hits'' = PInt (tf_rule_hits t)" "dict_get d ''hits'' = PDict (map (map_prod id PInt) (tf_hits t))"
    using assms by (simp_all add: TRIAGE_FIELDS_def triage_to_dict_def)
  moreover have "as_int (PInt i) = Some i" "as_int (py_opt_int r) = r" for i r
    by (simp_all add: as_int_def py_opt_int_def split: option.splits)
  moreover have "py_int (py_or (PInt i) (PInt 0)) = Inr i" for i by (simp add: py_or_def)
  ultimately show ?thesis by (simp add: triage_from_dict_def hits_back)
qed

interpretation triage_codec: state_codec triage_to_dict triage_from_dict
  by unfold_locales (simp add: triage_reads)

end
