(* ===== verification/Stage_Properties.thy ===== *)
theory Stage_Properties
  imports Stage_Proofs
begin

text \<open>
  The properties of stage conditions and of the facts they read, each with its witness.
\<close>

section \<open>The language\<close>

text \<open>What the parser lets through is checked; everything else it does is a failure of the call.\<close>

lemma parsed_tree:
  assumes "parse_condition ast_parse expr = Inr tree"
  shows "check tree = Inr ()" "strip expr \<noteq> []"
  using assms by (auto simp: parse_condition_def Let_def split: if_splits sum.splits parse_failure.splits)

lemma parse_raises:
  "parse_condition ast_parse expr = Inl r \<Longrightarrow>
   (\<exists>e. r = Condition e) \<or> (r = ParserError \<and> strip expr \<noteq> [] \<and> ast_parse (strip expr) = Inl OtherFailure)"
  by (auto simp: parse_condition_def Let_def split: if_splits sum.splits parse_failure.splits)

lemma parser_gives_up:
  "strip expr \<noteq> [] \<Longrightarrow> ast_parse (strip expr) = Inl OtherFailure \<Longrightarrow> parse_condition ast_parse expr = Inl ParserError"
  by (simp add: parse_condition_def)

lemma evaluate_raises:
  assumes "evaluate ast_parse expr ctx = Inl r"
  shows "(\<exists>e. r = Condition e) \<or> (strip expr \<noteq> [] \<and> ast_parse (strip expr) = Inl OtherFailure)"
proof (cases "parse_condition ast_parse expr")
  case (Inl r')
  then show ?thesis using assms parse_raises [OF Inl] by (auto simp: evaluate_def split: if_splits)
next
  case (Inr tree)
  from checked_resolves(1) [OF parsed_tree(1) [OF Inr], of ctx] show ?thesis
    using assms Inr by (cases "resolve ctx tree") (auto simp: evaluate_def split: if_splits)
qed

text \<open>
  C27. A condition costs the run only where Python's parser raises something other than a syntax,
  recursion or memory error over its text (it does over a lone surrogate, with a \<open>ValueError\<close>): then the
  exception leaves \<open>stage_runs\<close>, and the settings' own check. In every other case, whatever text an
  operator wrote and whatever the parser makes of it, for any sample and run, \<open>stage_runs\<close> answers: the
  stage runs exactly when the condition evaluates to true, and when it does not, the reason is that
  the condition is not met or the very condition error the evaluation gave. The evaluator itself lets
  no other exception out: the allow-list admits no name, field, lookup or literal that could
  raise one. (How deep Python's own stack is while it evaluates is not modelled.)
\<close>

theorem only_the_parser_costs_the_run:
  "if strip when \<noteq> [] \<and> ast_parse (strip when) = Inl OtherFailure
   then stage_runs ast_parse when ctx = Inl ParserError \<and> validate_condition ast_parse when = Inl ParserError
   else \<exists>runs why. stage_runs ast_parse when ctx = Inr (runs, why) \<and>
     (runs \<longleftrightarrow> why = NoReason) \<and> (runs \<longleftrightarrow> evaluate ast_parse when ctx = Inr True) \<and>
     (why = NoReason \<or> (why = ConditionNotMet when \<and> evaluate ast_parse when ctx = Inr False) \<or>
      (\<exists>e. why = ConditionProblem e \<and> evaluate ast_parse when ctx = Inl (Condition e)))"
proof (cases "strip when = []")
  case True
  then show ?thesis by (auto simp: stage_runs_def evaluate_def)
next
  case False
  show ?thesis
  proof (cases "ast_parse (strip when) = Inl OtherFailure")
    case True
    then show ?thesis using False parser_gives_up [of "when" ast_parse]
      by (simp add: stage_runs_def evaluate_def validate_condition_def)
  next
    case parser: False
    show ?thesis
    proof (cases "evaluate ast_parse when ctx")
      case (Inr b)
      with False parser show ?thesis by (cases b) (auto simp: stage_runs_def)
    next
      case (Inl r)
      with evaluate_raises [OF Inl] parser obtain e where "r = Condition e" by blast
      with False parser Inl show ?thesis by (auto simp: stage_runs_def)
    qed
  qed
qed

text \<open>
  C29. A chained comparison means the conjunction of its links: \<open>a op b op' c ...\<close> evaluates,
  to the same value or the same error, as \<open>a op b and b op' c and ...\<close> does, of any length, and
  whichever link fails first.
\<close>

theorem chains_are_conjunctions:
  "resolve ctx (Compare left ((op, c) # cs)) = resolve ctx (BoolOp AndOp (pairs_of left ((op, c) # cs)))"
proof (cases "resolve ctx left")
  case (Inr v)
  show ?thesis using resolve_pairs [OF Inr, of "(op, c) # cs"] Inr by (simp del: pairs_of.simps resolve_comparisons.simps)
qed simp

text \<open>
  C28. A condition reads no stage but those \<open>stage_references\<close> lists: unless it takes \<open>stages\<close>
  whole, as a value of its own, its evaluation is the same, value or error, over any two runs
  whose listed stages left the same results.
\<close>

theorem reads_only_its_references:
  assumes "parse_condition ast_parse expr = Inr tree" "Name ''stages'' \<notin> set (leaves tree)"
    and "stage_references ast_parse expr = Inr refs" "\<forall>key\<in>set refs. map_of done_here key = map_of done_there key"
  shows "evaluate ast_parse expr (ctx\<lparr>sc_stages := done_here\<rparr>) = evaluate ast_parse expr (ctx\<lparr>sc_stages := done_there\<rparr>)"
proof -
  note tree = parsed_tree [OF assms(1)]
  let ?c = "ctx\<lparr>sc_stages := done_here\<rparr>" and ?c' = "ctx\<lparr>sc_stages := done_there\<rparr>"
  have refs: "set refs = set (List.map_filter read_stage (walk [tree]))"
    using assms(1,3) tree(2) by (auto simp: stage_references_def simp del: walk.simps)
  have same: "stage_of ?c key = stage_of ?c' key" if "read_stage n = Some key" "n \<in> set (walk [tree])" for n key
  proof -
    have "key \<in> set (List.map_filter read_stage (walk [tree]))"
      unfolding List.map_filter_def using that by (auto simp: image_iff intro!: bexI [of _ n])
    then show ?thesis using assms(4) refs by (simp add: stage_of_def)
  qed
  have leaf: "resolve ?c l = resolve ?c' l" if l: "l \<in> set (leaves tree)" for l
  proof -
    have checked: "check l = Inr ()" using leaves_checked(1) [OF tree(1)] l by blast
    have walked: "l \<in> set (walk [tree])" using leaves_walked [of tree "[tree]"] walk_todo [of "[tree]"] l by auto
    from l show ?thesis
    proof (cases rule: leaf_shape)
      case (name name)
      then have "name \<noteq> ''stages''" using l assms(2) by auto
      then show ?thesis using name by (simp add: name_value_def)
    next
      case (attribute holder attr)
      from checked [unfolded attribute] show ?thesis
      proof (cases rule: checked_attribute)
        case (by_name key)
        then have "read_stage l = Some key" by (simp add: attribute read_stage_def)
        from same [OF this walked] show ?thesis by (simp add: attribute by_name lookup_simps)
      next
        case (by_key key)
        then have "read_stage l = Some key" by (simp add: attribute read_stage_def)
        from same [OF this walked] show ?thesis by (simp add: attribute by_key lookup_simps)
      qed (simp add: attribute lookup_simps)
    next
      case (subscript holder key)
      from checked [unfolded subscript] show ?thesis
        by (rule checked_subscript) (simp add: subscript lookup_simps hits_of_def)
    qed
  qed
  then have "resolve ?c tree = resolve ?c' tree" by (intro resolve_same(1) [OF tree(1)]) blast
  then show ?thesis using assms(1) by (simp add: evaluate_def)
qed

text \<open>
  C30. What \<open>constant_truth\<close> says of a condition is its answer for every sample and run, and
  such a condition reads no stage.
\<close>

theorem constant_truth_is_the_truth:
  assumes "constant_truth ast_parse expr = Inr (Some b)"
  shows "evaluate ast_parse expr ctx = Inr b \<and> stage_references ast_parse expr = Inr []"
proof -
  from assms obtain tree v where tree: "parse_condition ast_parse expr = Inr tree" "strip expr \<noteq> []"
    "\<forall>n\<in>set (walk [tree]). \<not> is_name n" "resolve StageContext tree = Inr v" "b = cval_true v"
    by (auto simp: constant_truth_def list_ex_iff simp del: walk.simps split: if_splits sum.splits raised.splits)
  note ok = parsed_tree [OF tree(1)]
  have no_leaf: "leaves tree = []"
  proof (rule ccontr)
    assume "leaves tree \<noteq> []"
    then obtain l where l: "l \<in> set (leaves tree)" by (cases "leaves tree") auto
    have "l \<in> set (walk [tree])" using leaves_walked [of tree "[tree]"] walk_todo [of "[tree]"] l by auto
    from leaf_has_name [OF l _ this] leaves_checked(1) [OF ok(1)] l obtain name where "Name name \<in> set (walk [tree])" by blast
    with tree(3) show False by (auto simp: is_name_def)
  qed
  have same: "resolve ctx tree = resolve StageContext tree" by (rule resolve_same(1) [OF ok(1)]) (simp add: no_leaf)
  have "\<forall>n\<in>set (walk [tree]). check n = Inr () \<and> leaves n = []"
    by (rule walked_all [OF _ leafless_children]) (use ok(1) no_leaf in \<open>simp_all del: walk.simps\<close>)
  moreover have "leaves n = [] \<Longrightarrow> read_stage n = None" for n by (cases n) (simp_all add: read_stage_def)
  ultimately have "\<forall>n\<in>set (walk [tree]). read_stage n = None" by blast
  then have "List.map_filter read_stage (walk [tree]) = []"
    by (simp add: List.map_filter_def filter_empty_conv del: walk.simps)
  then have "stage_references ast_parse expr = Inr []"
    using tree(1,2) by (simp add: stage_references_def from_keys_def del: walk.simps)
  with same show ?thesis using tree by (simp add: evaluate_def del: walk.simps)
qed

text \<open>
  The dry run of \<open>validate_condition\<close> reads only as far as the dummy context takes it: with
  \<open>has_pcap\<close> false there, \<open>has_pcap and size < "x"\<close> is accepted, and is a condition error on
  every sample that has a capture.
\<close>

definition gap_tree :: node where
  "gap_tree = Expression (BoolOp AndOp [Name ''has_pcap'', Compare (Name ''size'') [(LtOp, Constant (LStr ''x''))]])"

lemma the_dry_run_stops_early:
  "validate_condition (\<lambda>_. Inr gap_tree) ''has_pcap and size < x'' = Inr []"
  "evaluate (\<lambda>_. Inr gap_tree) ''has_pcap and size < x'' (StageContext\<lparr>sc_has_pcap := True\<rparr>) = Inl (Condition CannotCompare)"
  by code_simp+

section \<open>The facts\<close>

lemma dict_set_outside: "k \<notin> fst ` set d \<Longrightarrow> dict_set d k v = d @ [(k, v)]"
  by (induction d) auto

lemma schedules_appended:
  assumes "distinct (map fst ss)" "fst ` set ss \<inter> fst ` set d = {}"
  shows "foldl (\<lambda>d (step, said). dict_set d step (PStr said)) d ss = d @ map (map_prod id PStr) ss"
  using assms
proof (induction ss arbitrary: d)
  case (Cons s ss)
  then show ?case by (cases s) (simp add: dict_set_outside)
qed simp

lemma said_texts_append: "said_texts (d @ e) = said_texts d @ said_texts e"
  by (simp add: said_texts_def List.map_filter_def)

lemma said_texts_Cons: "said_texts ((k, PStr s) # d) = (if s = [] then said_texts d else (k, s) # said_texts d)"
  by (simp add: said_texts_def List.map_filter_def)

lemma said_texts_schedules: "set (said_texts (map (map_prod id PStr) ss)) = {(step, said) \<in> set ss. said \<noteq> []}"
proof (induction ss)
  case (Cons s ss)
  then show ?case by (cases s) (auto simp: said_texts_Cons)
qed (simp add: said_texts_def List.map_filter_def)

lemma pack_facts_texts: "said_texts (pack_facts f e n ms rs) = []"
  by (simp add: said_texts_def pack_facts_def triage_to_dict_def List.map_filter_def py_opt_int_def split: option.splits)

lemma pack_state_split:
  fixes schedules :: "(string \<times> string) list" and f :: triage_facts and e n ms :: int and rs :: "string list"
  assumes "distinct (map fst schedules)"
  defines "facts \<equiv> pack_facts f e n ms rs"
  defines "own \<equiv> set (own_keys facts)"
  shows "pack_state f e n ms rs schedules =
    facts @ map (map_prod id PStr) (filter (\<lambda>(step, said). step \<notin> own) schedules) @
    (if filter (\<lambda>(step, said). step \<in> own) schedules = [] then []
     else [(HELD_SCHEDULES, PDict (map (map_prod id PStr) (filter (\<lambda>(step, said). step \<in> own) schedules)))])"
proof -
  let ?loose = "filter (\<lambda>(step, said). step \<notin> own) schedules"
  have own: "fst ` set facts \<subseteq> own" "HELD_SCHEDULES \<in> own" by (auto simp: own_def own_keys_def)
  have "distinct (map fst ?loose)" using assms(1) by (rule distinct_map_filter)
  moreover have "fst ` set ?loose \<inter> fst ` set facts = {}" using own(1) by auto
  ultimately have loose: "foldl (\<lambda>d (step, said). dict_set d step (PStr said)) facts ?loose = facts @ map (map_prod id PStr) ?loose"
    by (rule schedules_appended)
  have "HELD_SCHEDULES \<notin> fst ` set facts"
    by (simp add: facts_def pack_facts_def triage_to_dict_def HELD_SCHEDULES_def)
  moreover have "HELD_SCHEDULES \<notin> fst ` set (map (map_prod id PStr) ?loose)" using own(2) by auto
  ultimately have "HELD_SCHEDULES \<notin> fst ` set (facts @ map (map_prod id PStr) ?loose)" by auto
  with loose show ?thesis
    unfolding pack_state_def Let_def facts_def [symmetric] own_def [symmetric] by (simp add: dict_set_outside)
qed

lemma pack_state_get:
  assumes "distinct (map fst schedules)" "name \<in> fst ` set (pack_facts f e n ms rs)"
  shows "dict_get (pack_state f e n ms rs schedules) name = dict_get (pack_facts f e n ms rs) name"
proof -
  obtain rest where rest: "pack_state f e n ms rs schedules = pack_facts f e n ms rs @ rest"
    using pack_state_split [OF assms(1)] by blast
  have "map_of (pack_facts f e n ms rs @ rest) name = map_of (pack_facts f e n ms rs) name"
    using assms(2) by (simp add: map_add_dom_app_simps dom_map_of_conv_image_fst)
  then show ?thesis by (simp only: rest dict_get_def)
qed

lemma pack_state_reads:
  assumes "distinct (map fst schedules)"
  shows "triage_from_dict (pack_state f e n ms rs schedules) = Inr f"
proof (rule triage_reads, intro ballI)
  fix name assume "name \<in> set TRIAGE_FIELDS"
  then have name: "name \<in> fst ` set (triage_to_dict f)" by (auto simp: TRIAGE_FIELDS_def triage_to_dict_def)
  then have "dict_get (pack_facts f e n ms rs) name = dict_get (triage_to_dict f) name"
    by (simp add: pack_facts_def dict_get_def map_add_dom_app_simps dom_map_of_conv_image_fst)
  with pack_state_get [OF assms, of name f e n ms rs] name
  show "dict_get (pack_state f e n ms rs schedules) name = dict_get (triage_to_dict f) name"
    by (simp add: pack_facts_def)
qed

text \<open>
  C31. The facts survive the run's state, whatever the pack's steps are named. Reading the facts
  back out of the state the pack wrote gives the facts; and the schedules read back, those beside
  the facts and those held apart, are exactly the pack's non-empty ones, so a step named as a fact
  or a count loses nothing and replaces nothing.
\<close>

theorem facts_survive_the_state:
  assumes "distinct (map fst schedules)"
  shows "triage_from_dict (pack_state facts entries failed ms reasons schedules) = Inr facts \<and>
    dict_get (pack_state facts entries failed ms reasons schedules) ''entries'' = PInt entries \<and>
    set (step_schedules (pack_state facts entries failed ms reasons schedules)) \<union>
      set (held_schedules (pack_state facts entries failed ms reasons schedules)) =
      {(step, said) \<in> set schedules. said \<noteq> []}"
proof -
  let ?facts = "pack_facts facts entries failed ms reasons"
  let ?own = "set (own_keys ?facts)"
  let ?loose = "filter (\<lambda>(step, said). step \<notin> ?own) schedules"
  let ?held = "filter (\<lambda>(step, said). step \<in> ?own) schedules"
  let ?st = "pack_state facts entries failed ms reasons schedules"
  note st = pack_state_split [OF assms, of facts entries failed ms reasons]
  note get = pack_state_get [OF assms, where f = facts and e = entries and n = failed and ms = ms and rs = reasons]
  have "triage_from_dict ?st = Inr facts" by (rule pack_state_reads [OF assms])
  moreover have "dict_get ?st ''entries'' = PInt entries"
    using get [of "''entries''"] by (simp add: pack_facts_def triage_to_dict_def)
  moreover have "set (step_schedules ?st) = {(step, said) \<in> set ?loose. said \<noteq> []}"
  proof -
    have "said_texts (if ?held = [] then [] else [(HELD_SCHEDULES, PDict (map (map_prod id PStr) ?held))]) = []"
      by (simp add: said_texts_def List.map_filter_def)
    then show ?thesis
      unfolding step_schedules_def st said_texts_append pack_facts_texts set_append said_texts_schedules by simp
  qed
  moreover have "set (held_schedules ?st) = {(step, said) \<in> set ?held. said \<noteq> []}"
  proof -
    have no: "HELD_SCHEDULES \<notin> fst ` set ?facts" by (simp add: pack_facts_def triage_to_dict_def HELD_SCHEDULES_def)
    moreover have "HELD_SCHEDULES \<in> ?own" by (simp add: own_keys_def)
    then have "HELD_SCHEDULES \<notin> fst ` set (map (map_prod id PStr) ?loose)" by auto
    ultimately have "map_of (?facts @ map (map_prod id PStr) ?loose) HELD_SCHEDULES = None"
      by (simp add: map_of_eq_None_iff)
    then have "dict_get ?st HELD_SCHEDULES = (if ?held = [] then PNone else PDict (map (map_prod id PStr) ?held))"
      unfolding st dict_get_def append_assoc [symmetric] map_of_append by (simp add: map_add_def)
    moreover have "set (said_texts (map (map_prod id PStr) [])) = {}" by (simp add: said_texts_def List.map_filter_def)
    ultimately show ?thesis
      using said_texts_schedules [of ?held] by (cases "?held = []") (simp_all add: held_schedules_def del: filter_empty_conv)
  qed
  ultimately show ?thesis by auto
qed

text \<open>
  Rule matches are counted, not guessed: \<open>rule_hits\<close> is the number of rows matched in every
  answer of a rule-matching kind that is not a repeat, each key's count the sum over the answers
  that name it, and no key counts more than the whole, however a kind, a source and a server
  coincide in one answer.
\<close>

theorem hits_are_the_matches:
  "snd (rule_match_hits rd rows) = (\<Sum>row\<leftarrow>rows. matches rd row) \<and>
   (case map_of (fst (rule_match_hits rd rows)) key of Some n \<Rightarrow> n | None \<Rightarrow> 0) = (\<Sum>row\<leftarrow>rows. matches_for rd key row) \<and>
   0 \<le> (\<Sum>row\<leftarrow>rows. matches_for rd key row) \<and>
   (\<Sum>row\<leftarrow>rows. matches_for rd key row) \<le> (\<Sum>row\<leftarrow>rows. matches rd row)"
proof -
  obtain counted n where r: "rule_match_hits rd rows = (counted, n)" by fastforce
  have "(\<Sum>row\<leftarrow>rows. matches_for rd key row) \<le> (\<Sum>row\<leftarrow>rows. matches rd row)"
    by (rule sum_list_mono) (rule matches_for_le)
  moreover have "0 \<le> (\<Sum>row\<leftarrow>rows. matches_for rd key row)"
    by (rule sum_list_nonneg) (auto simp: matches_for_le)
  ultimately show ?thesis using count_rows [OF r [unfolded rule_match_hits_fold], of key] r by simp
qed

text \<open>
  C32. What a stage left behind is what the next condition reads. Over a state that holds the
  results the stages recorded and the facts the pack wrote, a text for the file's name and a size
  in the sandbox report that converts (or none), the context a condition is given holds exactly those results, and those facts with the
  rule matches of the whole ledger in place of the pack's.
\<close>

theorem the_run_is_read_back:
  assumes "dict_get state ''stage_results'' = PDict (stage_codec.enc_all results)"
    and "dict_get state ''triage_facts'' = PDict (pack_state facts entries failed ms reasons schedules)"
    and "distinct (map fst schedules)" "dict_get state ''file_name'' = PStr name"
    and "sample_size (member_of (py_or (dict_get state ''sandbox_report'') (PDict [])) ''target'') = Inr n"
  shows "\<exists>ctx. stage_context lower rd state ledger = Inr ctx \<and> sc_stages ctx = results \<and>
    sc_triage ctx = with_hits facts (fst (rule_match_hits rd ledger)) (snd (rule_match_hits rd ledger)) \<and>
    (\<forall>key. stage_of ctx key = (case map_of results key of Some r \<Rightarrow> r | None \<Rightarrow> not_run))"
proof -
  have "stage_results_of (stage_codec.enc_all results) = Inr results"
    using stage_codec.dec_enc_all [of results] by (simp add: stage_codec.dec_all_def stage_results_of_def)
  moreover have "triage_from_dict (pack_state facts entries failed ms reasons schedules) = Inr facts"
    by (rule pack_state_reads [OF assms(3)])
  moreover have "py_or (PDict (pack_state facts entries failed ms reasons schedules)) (PDict []) =
      PDict (pack_state facts entries failed ms reasons schedules)"
    using pack_state_split [OF assms(3), of facts entries failed ms reasons]
    by (simp add: py_or_def pack_facts_def triage_to_dict_def)
  moreover have "py_or (PDict (stage_codec.enc_all results)) (PDict []) = PDict (stage_codec.enc_all results)"
    by (simp add: py_or_def)
  moreover have "py_or (PStr name) (PStr []) = PStr name" by (simp add: py_or_def)
  ultimately show ?thesis
    unfolding stage_context_def Let_def assms(1,2,4) by (simp add: stage_of_def assms(5))
qed

section \<open>Witnesses\<close>

definition demo_when :: node where
  "demo_when = Expression (BoolOp OrOp [Compare (Attribute (Attribute (Name ''stages'') ''static'') ''claim_count'')
     [(GtOp, Constant (LInt 2))], Name ''has_pcap''])"

theorem reads_only_its_references_witness:
  "evaluate (\<lambda>_. Inr demo_when) ''w'' (StageContext\<lparr>sc_stages := [(''static'', not_run), (''late'', not_run\<lparr>sr_ran := True\<rparr>)]\<rparr>) =
   evaluate (\<lambda>_. Inr demo_when) ''w'' (StageContext\<lparr>sc_stages := [(''static'', not_run)]\<rparr>)"
proof -
  have "parse_condition (\<lambda>_. Inr demo_when) ''w'' = Inr demo_when" by code_simp
  moreover have "Name ''stages'' \<notin> set (leaves demo_when)" by code_simp
  moreover have "stage_references (\<lambda>_. Inr demo_when) ''w'' = Inr [''static'']" by code_simp
  moreover have "\<forall>key\<in>set [''static''].
      map_of [(''static'', not_run), (''late'', not_run\<lparr>sr_ran := True\<rparr>)] key = map_of [(''static'', not_run)] key"
    by code_simp
  ultimately show ?thesis by (rule reads_only_its_references)
qed

theorem constant_truth_is_the_truth_witness:
  "evaluate (\<lambda>_. Inr (Expression (Compare (Constant (LInt 1)) [(LtOp, Constant (LInt 2))]))) ''1 < 2''
     (StageContext\<lparr>sc_size := 7\<rparr>) = Inr True"
proof -
  have "constant_truth (\<lambda>_. Inr (Expression (Compare (Constant (LInt 1)) [(LtOp, Constant (LInt 2))]))) ''1 < 2'' = Inr (Some True)"
    by code_simp
  from constant_truth_is_the_truth [OF this] show ?thesis by simp
qed

theorem facts_survive_the_state_witness:
  "triage_from_dict (pack_state TriageFacts 3 0 12 [] [(''hits'', ''in turn''), (''capa'', ''beside yara'')]) = Inr TriageFacts"
  using facts_survive_the_state [of "[(''hits'', ''in turn''), (''capa'', ''beside yara'')]" TriageFacts 3 0 12 "[]"] by simp

definition demo_reading :: row_reading where
  "demo_reading = \<lparr>facts_of = (\<lambda>_. None), rows_found = (\<lambda>_ _. 0), server_of = (\<lambda>_. [])\<rparr>"

theorem the_run_is_read_back_witness:
  "\<exists>ctx. stage_context id demo_reading
      [(''file_name'', PStr ''a.exe''), (''stage_results'', PDict (stage_codec.enc_all [(''static'', not_run)])),
       (''triage_facts'', PDict (pack_state TriageFacts 3 0 12 [] [(''hits'', ''in turn'')]))] [] = Inr ctx \<and>
    sc_stages ctx = [(''static'', not_run)]"
proof -
  let ?state = "[(''file_name'', PStr ''a.exe''), (''stage_results'', PDict (stage_codec.enc_all [(''static'', not_run)])),
       (''triage_facts'', PDict (pack_state TriageFacts 3 0 12 [] [(''hits'', ''in turn'')]))]"
  have "dict_get ?state ''stage_results'' = PDict (stage_codec.enc_all [(''static'', not_run)])"
    "dict_get ?state ''triage_facts'' = PDict (pack_state TriageFacts 3 0 12 [] [(''hits'', ''in turn'')])"
    "distinct (map fst [(''hits'', ''in turn'')])" "dict_get ?state ''file_name'' = PStr ''a.exe''"
    "sample_size (member_of (py_or (dict_get ?state ''sandbox_report'') (PDict [])) ''target'') = Inr 0"
    by (simp_all add: sample_size_def member_of_def py_or_def)
  from the_run_is_read_back [OF this, of id demo_reading "[]"] show ?thesis by blast
qed

end
