(* ===== verification/Upx_Decode.thy ===== *)
theory Upx_Decode
  imports Maljan_Prelude "HOL-Library.Word"
begin

text \<open>
  The UPX reader (\<open>tools/upx.py\<close>), its first half: bytes and their little-endian numbers, the
  reasons a file is not read and the damage an unpack can name, UPX's pack header, and the
  decompression of its NRV2B, NRV2D and NRV2E streams, bit by bit as the code reads them. The
  standard library's LZMA decoder is a parameter.
\<close>

section \<open>Bytes\<close>

type_synonym byte = "8 word"
type_synonym bytes = "byte list"

text \<open>\<open>int.from_bytes(b, "little")\<close>, and its inverse at a width.\<close>

fun le :: "bytes \<Rightarrow> nat" where
  "le [] = 0"
| "le (b # bs) = unat b + 256 * le bs"

definition be :: "bytes \<Rightarrow> nat" where
  "be bs = le (rev bs)"

fun le_bytes :: "nat \<Rightarrow> nat \<Rightarrow> bytes" where
  "le_bytes 0 v = []"
| "le_bytes (Suc w) v = word_of_nat v # le_bytes w (v div 256)"

text \<open>\<open>data[at : at + n]\<close>, shorter where the data ends.\<close>

definition slice_at :: "'a list \<Rightarrow> nat \<Rightarrow> nat \<Rightarrow> 'a list" where
  "slice_at data at n = take n (drop at data)"

text \<open>\<open>data.find(needle, start, stop)\<close>: the first place in the range the whole needle stands at.\<close>

definition find_bytes :: "bytes \<Rightarrow> bytes \<Rightarrow> nat \<Rightarrow> nat \<Rightarrow> nat option" where
  "find_bytes needle data start stop =
     List.find (\<lambda>at. at + length needle \<le> min stop (length data) \<and> slice_at data at (length needle) = needle)
       [start..<Suc (min stop (length data))]"

section \<open>What the header names\<close>

definition MAGIC :: bytes where "MAGIC = [0x55, 0x50, 0x58, 0x21]"
definition HEADER_SIZE :: nat where "HEADER_SIZE = 32"
definition WINDOW_BEFORE :: nat where "WINDOW_BEFORE = 64"
definition WINDOW :: nat where "WINDOW = 1024"
definition FIRST_VERSION :: nat where "FIRST_VERSION = 10"
definition REFUSED_VERSION :: nat where "REFUSED_VERSION = 255"
definition FORMAT_WIN32_PE :: nat where "FORMAT_WIN32_PE = 9"
definition FORMAT_WIN64_PEP :: nat where "FORMAT_WIN64_PEP = 36"

text \<open>The cap is the platform's sample upload cap (\<open>core/delivery_limits.py\<close>).\<close>

definition UNPACKED_CAP :: nat where "UNPACKED_CAP = 100 * 1024 * 1024"

definition FORMATS :: "nat list" where "FORMATS = [FORMAT_WIN32_PE, FORMAT_WIN64_PEP]"

definition machine_of_format :: "nat \<Rightarrow> nat" where
  "machine_of_format f = (if f = FORMAT_WIN32_PE then 0x14C else 0x8664)"

datatype nrv_kind = K2b | K2d | K2e

text \<open>The bit streams' word sizes: four, two or one bytes.\<close>

datatype word_size = W32 | W16 | W8

fun bytes_of :: "word_size \<Rightarrow> nat" where
  "bytes_of W32 = 4" | "bytes_of W16 = 2" | "bytes_of W8 = 1"

datatype decoder = Nrv nrv_kind word_size | Lzma

definition METHODS :: "(nat \<times> string \<times> decoder) list" where
  "METHODS =
     [(2, ''NRV2B_LE32'', Nrv K2b W32), (3, ''NRV2B_8'', Nrv K2b W8), (4, ''NRV2B_LE16'', Nrv K2b W16),
      (5, ''NRV2D_LE32'', Nrv K2d W32), (6, ''NRV2D_8'', Nrv K2d W8), (7, ''NRV2D_LE16'', Nrv K2d W16),
      (8, ''NRV2E_LE32'', Nrv K2e W32), (9, ''NRV2E_8'', Nrv K2e W8), (10, ''NRV2E_LE16'', Nrv K2e W16),
      (14, ''LZMA'', Lzma)]"

definition FILTERS :: "(nat \<times> byte list) list" where
  "FILTERS = [(0x24, [0xE8]), (0x25, [0xE9]), (0x26, [0xE8, 0xE9])]"

section \<open>Refusals and damage\<close>

datatype not_read =
    NotAPe
  | NoHeader
  | NoSections
  | OldVersion nat nat
  | RefusedVersion nat
  | FormatNotRead nat nat
  | MachineMismatch nat nat
  | MethodNotRead nat
  | FilterNotRead nat
  | OverCap nat
  | FileOverCap nat
  | Relocs16
  | RelocsOverlap
  | LzmaNotRead nat nat

datatype damage =
    HeaderCutOff nat
  | HeaderChecksum nat nat nat
  | HeaderSizes nat nat nat
  | StreamEnds nat
  | OffsetPastStream nat
  | LengthPastSize nat nat
  | WritesPast nat
  | ReachesBeforeStart nat nat
  | SizeDiffers nat nat
  | EndMarkerAt nat nat
  | LzmaTooShort
  | LzmaProperties bytes
  | LzmaFails
  | LzmaSize nat nat
  | MoreThanTheImage nat nat
  | CutShort nat nat
  | CompressedAdler nat nat
  | UnpackedAdler nat nat
  | OutsideData int
  | StoredHeaderOutside nat
  | StoredHeaderNotPe nat
  | SectionTableOutside nat
  | CodeRangeOutside nat nat
  | OutsideImage nat
  | RecordsPastEnd nat
  | RelocationOutside int
  | RelocTableTooLarge nat nat
  | FileAlignment nat
  | SectionInHeaders nat nat
  | SectionOutside nat nat nat

datatype upx_error = NotRead not_read | Damaged damage

section \<open>The pack header\<close>

record pack_header =
  ph_offset :: nat
  ph_version :: nat
  ph_format :: nat
  ph_method :: nat
  ph_level :: nat
  ph_u_adler :: nat
  ph_c_adler :: nat
  ph_u_len :: nat
  ph_c_len :: nat
  ph_u_file_size :: nat
  ph_filter :: nat
  ph_filter_cto :: nat
  ph_n_mru :: nat

definition data_offset :: "pack_header \<Rightarrow> nat" where
  "data_offset h = ph_offset h + HEADER_SIZE"

definition checksum_byte :: "bytes \<Rightarrow> nat" where
  "checksum_byte block = sum_list (map unat (slice_at block 4 27)) mod 251"

definition true_header :: "bytes \<Rightarrow> bool" where
  "true_header block =
     (length block = HEADER_SIZE \<and> FIRST_VERSION \<le> unat (block ! 4) \<and> unat (block ! 4) < REFUSED_VERSION \<and>
      unat (block ! 31) = checksum_byte block)"

text \<open>
  The header's errors carry the header when it was read. The four-byte numbers stand at 8, 12,
  16, 20 and 24.
\<close>

definition header_of :: "bytes \<Rightarrow> nat \<Rightarrow> pack_header" where
  "header_of block at =
     (let u32 = (\<lambda>i. le (slice_at block i 4)); b = (\<lambda>i. unat (block ! i))
      in \<lparr>ph_offset = at, ph_version = b 4, ph_format = b 5, ph_method = b 6, ph_level = b 7 mod 16,
          ph_u_adler = u32 8, ph_c_adler = u32 12, ph_u_len = u32 16, ph_c_len = u32 20,
          ph_u_file_size = u32 24, ph_filter = b 28, ph_filter_cto = b 29,
          ph_n_mru = (if b 30 = 0 then 0 else b 30 + 1)\<rparr>)"

definition parse_header :: "bytes \<Rightarrow> nat \<Rightarrow> (upx_error \<times> pack_header option) + pack_header" where
  "parse_header data at =
     (let block = slice_at data at HEADER_SIZE in
      if length block < 8 then Inl (Damaged (HeaderCutOff at), None)
      else if unat (block ! 4) = REFUSED_VERSION then Inl (NotRead (RefusedVersion at), None)
      else if unat (block ! 4) < FIRST_VERSION then Inl (NotRead (OldVersion at (unat (block ! 4))), None)
      else if length block < HEADER_SIZE then Inl (Damaged (HeaderCutOff at), None)
      else if 128 \<le> unat (block ! 5) then Inl (NotRead (FormatNotRead at (unat (block ! 5))), None)
      else
        let h = header_of block at; stated = unat (block ! 31) in
        if stated \<noteq> checksum_byte block then Inl (Damaged (HeaderChecksum at stated (checksum_byte block)), Some h)
        else if ph_c_len h < 2 \<or> ph_u_len h < 2 \<or> ph_u_len h < ph_c_len h then
          Inl (Damaged (HeaderSizes at (ph_c_len h) (ph_u_len h)), Some h)
        else Inr h)"

section \<open>Reading bits\<close>

text \<open>The bit buffer, how many of its bits are left, and where the next byte is read.\<close>

record reader =
  rd_word :: nat
  rd_left :: nat
  rd_at :: nat

definition start_reader :: reader where
  "start_reader = \<lparr>rd_word = 0, rd_left = 0, rd_at = 0\<rparr>"

type_synonym 'a read = "upx_error + 'a \<times> reader"

definition stream_ends :: "bytes \<Rightarrow> upx_error" where
  "stream_ends src = Damaged (StreamEnds (length src))"

definition refilled :: "word_size \<Rightarrow> bytes \<Rightarrow> reader \<Rightarrow> upx_error + reader" where
  "refilled w src s =
     (if rd_left s \<noteq> 0 then Inr s
      else if length src < rd_at s + bytes_of w then Inl (stream_ends src)
      else Inr \<lparr>rd_word = le (slice_at src (rd_at s) (bytes_of w)), rd_left = 8 * bytes_of w,
                rd_at = rd_at s + bytes_of w\<rparr>)"

definition bit :: "word_size \<Rightarrow> bytes \<Rightarrow> reader \<Rightarrow> bool read" where
  "bit w src s =
     map_r (\<lambda>s. let left = rd_left s - 1 in (odd (rd_word s div 2 ^ left), s\<lparr>rd_left := left\<rparr>)) (refilled w src s)"

definition byte :: "bytes \<Rightarrow> reader \<Rightarrow> byte read" where
  "byte src s =
     (if length src \<le> rd_at s then Inl (stream_ends src)
      else Inr (src ! rd_at s, s\<lparr>rd_at := rd_at s + 1\<rparr>))"

text \<open>What is left to read, in bits: every read takes some of it, so every loop ends.\<close>

definition remaining :: "bytes \<Rightarrow> reader \<Rightarrow> nat" where
  "remaining src s = rd_left s + 8 * (length src - rd_at s)"

lemma bytes_of_pos [simp]: "0 < bytes_of w"
  by (cases w) auto

lemma refilled_remaining:
  assumes "refilled w src s = Inr s'"
  shows "remaining src s' = remaining src s \<and> 0 < rd_left s'"
proof (cases "rd_left s = 0")
  case True
  with assms have "rd_at s + bytes_of w \<le> length src" by (auto simp: refilled_def split: if_splits)
  then have "8 * bytes_of w + 8 * (length src - (rd_at s + bytes_of w)) = 8 * (length src - rd_at s)" by simp
  with assms True show ?thesis by (auto simp: refilled_def remaining_def split: if_splits)
qed (use assms in \<open>auto simp: refilled_def\<close>)

lemma bit_remaining: "bit w src s = Inr (b, s') \<Longrightarrow> remaining src s' < remaining src s"
  by (auto simp: bit_def result_iffs Let_def remaining_def dest!: refilled_remaining)

lemma byte_remaining: "byte src s = Inr (b, s') \<Longrightarrow> remaining src s' < remaining src s"
  by (auto simp: byte_def remaining_def split: if_splits)

lemma bind_r_cong [fundef_cong]:
  "r = r' \<Longrightarrow> (\<And>v. r' = Inr v \<Longrightarrow> f v = g v) \<Longrightarrow> bind_r r f = bind_r r' g"
  by (cases r') auto

text \<open>
  \<open>gamma\<close>: a number whose bits come one by one, each followed by a bit that says whether it is
  the last; \<open>beyond\<close> is the error past the limit.
\<close>

function gamma :: "word_size \<Rightarrow> bytes \<Rightarrow> nat \<Rightarrow> upx_error \<Rightarrow> nat \<Rightarrow> reader \<Rightarrow> nat read" where
  "gamma w src limit beyond n s =
     bind_r (bit w src s) (\<lambda>(b, s1).
       let m = 2 * n + of_bool b in
       if limit < m then Inl beyond
       else bind_r (bit w src s1) (\<lambda>(final, s2). if final then Inr (m, s2) else gamma w src limit beyond m s2))"
  by pat_completeness auto
termination
  by (relation "measure (\<lambda>(w, src, limit, beyond, n, s). remaining src s)") (auto dest!: bit_remaining)

declare gamma.simps [simp del]

definition MAX_PREFIX :: nat where "MAX_PREFIX = 0xFFFFFF + 3"
definition END_MARKER :: nat where "END_MARKER = 0xFFFFFFFF"

text \<open>The offset prefix of NRV2D and NRV2E, from \<open>prefix\<close> on.\<close>

function prefix_de :: "word_size \<Rightarrow> bytes \<Rightarrow> nat \<Rightarrow> nat \<Rightarrow> reader \<Rightarrow> nat read" where
  "prefix_de w src olen n s =
     bind_r (bit w src s) (\<lambda>(b, s1).
       let m = 2 * n + of_bool b in
       if MAX_PREFIX < m then Inl (Damaged (OffsetPastStream olen))
       else bind_r (bit w src s1) (\<lambda>(final, s2).
         if final then Inr (m, s2)
         else bind_r (bit w src s2) (\<lambda>(c, s3).
           let k = 2 * (m - 1) + of_bool c in
           if MAX_PREFIX < k then Inl (Damaged (OffsetPastStream olen))
           else prefix_de w src olen k s3)))"
  by pat_completeness auto
termination
  by (relation "measure (\<lambda>(w, src, olen, n, s). remaining src s)") (fastforce dest!: bit_remaining)+

declare prefix_de.simps [simp del]

section \<open>The NRV decoders\<close>

definition read_prefix :: "nrv_kind \<Rightarrow> word_size \<Rightarrow> bytes \<Rightarrow> nat \<Rightarrow> reader \<Rightarrow> nat read" where
  "read_prefix kind w src olen s =
     (if kind = K2b then gamma w src MAX_PREFIX (Damaged (OffsetPastStream olen)) 1 s
      else prefix_de w src olen 1 s)"

text \<open>The offset and the length bit that comes with it; \<^const>\<open>None\<close> for the end marker.\<close>

definition read_offset ::
  "nrv_kind \<Rightarrow> word_size \<Rightarrow> bytes \<Rightarrow> nat \<Rightarrow> nat \<Rightarrow> reader \<Rightarrow> ((nat \<times> bool) option) read" where
  "read_offset kind w src last_offset prefix s =
     (if prefix = 2 then
        if kind = K2b then Inr (Some (last_offset, False), s)
        else map_r (\<lambda>(b, s). (Some (last_offset, b), s)) (bit w src s)
      else
        map_r (\<lambda>(b, s).
          let combined = (prefix - 3) * 256 + unat b in
          if combined = END_MARKER then (None, s)
          else if kind = K2b then (Some (combined + 1, False), s)
          else (Some (combined div 2 + 1, even combined), s)) (byte src s))"

definition long_length ::
  "word_size \<Rightarrow> bytes \<Rightarrow> nat \<Rightarrow> nat \<Rightarrow> nat \<Rightarrow> nat \<Rightarrow> reader \<Rightarrow> nat read" where
  "long_length w src ulen olen room extra s =
     map_r (\<lambda>(n, s). (n + extra, s)) (gamma w src (room + extra) (Damaged (LengthPastSize olen ulen)) 1 s)"

definition read_length ::
  "nrv_kind \<Rightarrow> word_size \<Rightarrow> bytes \<Rightarrow> nat \<Rightarrow> nat \<Rightarrow> bool \<Rightarrow> reader \<Rightarrow> nat read" where
  "read_length kind w src ulen olen length_bit s =
     (let room = ulen - olen in
      case kind of
        K2b \<Rightarrow>
          bind_r (bit w src s) (\<lambda>(b, s). bind_r (bit w src s) (\<lambda>(c, s).
            let n = 2 * of_bool b + of_bool c in
            if n = 0 then long_length w src ulen olen room 2 s else Inr (n, s)))
      | K2d \<Rightarrow>
          bind_r (bit w src s) (\<lambda>(c, s).
            let n = 2 * of_bool length_bit + of_bool c in
            if n = 0 then long_length w src ulen olen room 2 s else Inr (n, s))
      | K2e \<Rightarrow>
          if length_bit then map_r (\<lambda>(c, s). (1 + of_bool c, s)) (bit w src s)
          else bind_r (bit w src s) (\<lambda>(b, s).
            if b then map_r (\<lambda>(c, s). (3 + of_bool c, s)) (bit w src s)
            else long_length w src ulen olen room 3 s))"

text \<open>A back-reference copied in slices: whole repeats of the run behind it, then a part of it.\<close>

definition copy_back :: "bytes \<Rightarrow> nat \<Rightarrow> nat \<Rightarrow> bytes" where
  "copy_back dst offset count =
     (let begin = length dst - offset in
      if count \<le> offset then dst @ slice_at dst begin count
      else let run = drop begin dst
           in dst @ concat (replicate (count div offset) run) @ take (count mod offset) run)"

definition near :: "nrv_kind \<Rightarrow> nat" where
  "near kind = (if kind = K2b then 0xD00 else 0x500)"

function literals :: "word_size \<Rightarrow> bytes \<Rightarrow> nat \<Rightarrow> bytes \<Rightarrow> reader \<Rightarrow> bytes read" where
  "literals w src ulen dst s =
     bind_r (bit w src s) (\<lambda>(b, s1).
       if \<not> b then Inr (dst, s1)
       else if ulen \<le> length dst then Inl (Damaged (WritesPast ulen))
       else bind_r (byte src s1) (\<lambda>(c, s2). literals w src ulen (dst @ [c]) s2))"
  by pat_completeness auto
termination
  by (relation "measure (\<lambda>(w, src, ulen, dst, s). remaining src s)") (fastforce dest!: bit_remaining byte_remaining)+

declare literals.simps [simp del]

text \<open>One pass of the loop after its literals: \<^const>\<open>None\<close> at the end marker, else the copied output.\<close>

definition back_reference ::
  "nrv_kind \<Rightarrow> word_size \<Rightarrow> bytes \<Rightarrow> nat \<Rightarrow> nat \<Rightarrow> bytes \<Rightarrow> reader \<Rightarrow> ((nat \<times> bytes) option) read" where
  "back_reference kind w src ulen last_offset dst s =
     bind_r (read_prefix kind w src (length dst) s) (\<lambda>(prefix, s).
     bind_r (read_offset kind w src last_offset prefix s) (\<lambda>(found, s).
     case found of
       None \<Rightarrow> Inr (None, s)
     | Some (offset, length_bit) \<Rightarrow>
         bind_r (read_length kind w src ulen (length dst) length_bit s) (\<lambda>(n, s).
         let count = n + of_bool (near kind < offset) + 1 in
         if length dst < offset then Inl (Damaged (ReachesBeforeStart (length dst) offset))
         else if ulen - length dst < count then Inl (Damaged (WritesPast ulen))
         else Inr (Some (offset, copy_back dst offset count), s))))"

lemma gamma_remaining: "gamma w src limit beyond n s = Inr (m, s') \<Longrightarrow> remaining src s' < remaining src s"
proof (induction w src limit beyond n s rule: gamma.induct)
  case (1 w src limit beyond n s)
  from "1.prems" obtain b s1 final s2 where bits: "bit w src s = Inr (b, s1)" "bit w src s1 = Inr (final, s2)"
    "\<not> limit < 2 * n + of_bool b"
    and rest: "(if final then Inr (2 * n + of_bool b, s2) else gamma w src limit beyond (2 * n + of_bool b) s2) = Inr (m, s')"
    by (subst (asm) gamma.simps) (auto simp: Let_def result_iffs split: if_splits)
  from bit_remaining [OF bits(1)] bit_remaining [OF bits(2)] have "remaining src s2 < remaining src s" by simp
  then show ?case using rest "1.IH" [OF bits(1) refl refl bits(3) bits(2) refl] by (cases final) auto
qed

lemma prefix_de_remaining: "prefix_de w src olen n s = Inr (m, s') \<Longrightarrow> remaining src s' < remaining src s"
proof (induction w src olen n s rule: prefix_de.induct)
  case (1 w src olen n s)
  from "1.prems" obtain b s1 final s2 where bits: "bit w src s = Inr (b, s1)" "bit w src s1 = Inr (final, s2)"
    "\<not> MAX_PREFIX < 2 * n + of_bool b"
    and rest: "(if final then Inr (2 * n + of_bool b, s2)
       else bind_r (bit w src s2) (\<lambda>(c, s3). let k = 2 * (2 * n + of_bool b - 1) + of_bool c in
           if MAX_PREFIX < k then Inl (Damaged (OffsetPastStream olen)) else prefix_de w src olen k s3)) = Inr (m, s')"
    by (subst (asm) prefix_de.simps) (auto simp: Let_def result_iffs split: if_splits)
  from bit_remaining [OF bits(1)] bit_remaining [OF bits(2)] have less: "remaining src s2 < remaining src s" by simp
  show ?case
  proof (cases final)
    case False
    with rest obtain c s3 where c: "bit w src s2 = Inr (c, s3)" "\<not> MAX_PREFIX < 2 * (2 * n + of_bool b - 1) + of_bool c"
      "prefix_de w src olen (2 * (2 * n + of_bool b - 1) + of_bool c) s3 = Inr (m, s')"
      by (auto simp: Let_def result_iffs split: if_splits)
    from "1.IH" [OF bits(1) refl refl bits(3) bits(2) refl _ c(1) refl refl c(2) c(3)] False
      bit_remaining [OF c(1)] less show ?thesis by simp
  qed (use rest less in auto)
qed

lemma literals_remaining: "literals w src ulen dst s = Inr (dst', s') \<Longrightarrow> remaining src s' < remaining src s"
proof (induction w src ulen dst s rule: literals.induct)
  case (1 w src ulen dst s)
  from "1.prems" obtain b s1 where bits: "bit w src s = Inr (b, s1)"
    and rest: "(if \<not> b then Inr (dst, s1) else if ulen \<le> length dst then Inl (Damaged (WritesPast ulen))
       else bind_r (byte src s1) (\<lambda>(c, s2). literals w src ulen (dst @ [c]) s2)) = Inr (dst', s')"
    by (subst (asm) literals.simps) (auto simp: result_iffs)
  show ?case
  proof (cases b)
    case True
    with rest obtain c s2 where c: "byte src s1 = Inr (c, s2)" "literals w src ulen (dst @ [c]) s2 = Inr (dst', s')"
      "\<not> ulen \<le> length dst"
      by (auto simp: result_iffs split: if_splits)
    from "1.IH" [OF bits refl _ c(3) c(1) refl c(2)] True bit_remaining [OF bits] byte_remaining [OF c(1)]
    show ?thesis by simp
  qed (use rest bit_remaining [OF bits] in auto)
qed

lemma back_reference_remaining:
  assumes "back_reference kind w src ulen final dst s = Inr (found, s')"
  shows "remaining src s' < remaining src s"
proof -
  have off: "remaining src s2 \<le> remaining src s1" if "read_offset kind w src final p s1 = Inr (f, s2)" for p s1 s2 f
    using that by (auto simp: read_offset_def Let_def result_iffs split: if_splits dest!: bit_remaining byte_remaining)
  have long: "remaining src s2 < remaining src s1" if "long_length w src ulen olen room extra s1 = Inr (n, s2)"
    for olen room extra s1 s2 n
    using that by (auto simp: long_length_def result_iffs dest!: gamma_remaining)
  have len: "remaining src s2 < remaining src s1" if "read_length kind w src ulen olen lb s1 = Inr (n, s2)" for olen lb s1 s2 n
    using that
    by (cases kind) (auto simp: read_length_def Let_def result_iffs split: if_splits dest!: bit_remaining long)
  have pre: "remaining src s2 < remaining src s1" if "read_prefix kind w src olen s1 = Inr (n, s2)" for olen s1 s2 n
    using that by (auto simp: read_prefix_def split: if_splits dest: gamma_remaining prefix_de_remaining)
  from assms obtain p s1 where a: "read_prefix kind w src (length dst) s = Inr (p, s1)"
    by (auto simp: back_reference_def result_iffs)
  from assms a obtain f s2 where b: "read_offset kind w src final p s1 = Inr (f, s2)"
    by (auto simp: back_reference_def result_iffs)
  show ?thesis
  proof (cases f)
    case None
    then show ?thesis using assms a b pre [OF a] off [OF b] by (simp add: back_reference_def)
  next
    case (Some ol)
    with assms a b obtain lb n where "read_length kind w src ulen (length dst) lb s2 = Inr (n, s')"
      by (auto simp: back_reference_def Let_def result_iffs split: prod.splits if_splits)
    from pre [OF a] off [OF b] len [OF this] show ?thesis by simp
  qed
qed

text \<open>The loop, from an output and the offset last used on: the output and the reader at the end marker.\<close>

function nrv_loop :: "nrv_kind \<Rightarrow> word_size \<Rightarrow> bytes \<Rightarrow> nat \<Rightarrow> nat \<Rightarrow> bytes \<Rightarrow> reader \<Rightarrow> bytes read" where
  "nrv_loop kind w src ulen last_offset dst s =
     bind_r (literals w src ulen dst s) (\<lambda>(dst1, s1).
     bind_r (back_reference kind w src ulen last_offset dst1 s1) (\<lambda>(found, s2).
       case found of None \<Rightarrow> Inr (dst1, s2)
       | Some (offset, dst2) \<Rightarrow> nrv_loop kind w src ulen offset dst2 s2))"
  by pat_completeness auto
termination
  by (relation "measure (\<lambda>(kind, w, src, ulen, final, dst, s). remaining src s)")
    (fastforce dest!: literals_remaining back_reference_remaining)+

declare nrv_loop.simps [simp del]

definition nrv :: "nrv_kind \<Rightarrow> word_size \<Rightarrow> bytes \<Rightarrow> nat \<Rightarrow> upx_error + bytes" where
  "nrv kind w src ulen =
     bind_r (nrv_loop kind w src ulen 1 [] start_reader) (\<lambda>(dst, s).
       if length dst \<noteq> ulen then Inl (Damaged (SizeDiffers (length dst) ulen))
       else if rd_at s \<noteq> length src then Inl (Damaged (EndMarkerAt (rd_at s) (length src)))
       else Inr dst)"

section \<open>LZMA and the choice of the method\<close>

text \<open>
  \<open>lzma_raw lc lp pb dict data n\<close> is what the standard library's raw LZMA1 decoder gives of at
  most \<open>n\<close> bytes, \<^const>\<open>None\<close> where it raises.
\<close>

type_synonym lzma_raw = "nat \<Rightarrow> nat \<Rightarrow> nat \<Rightarrow> nat \<Rightarrow> bytes \<Rightarrow> nat \<Rightarrow> bytes option"

definition lzma :: "lzma_raw \<Rightarrow> bytes \<Rightarrow> nat \<Rightarrow> upx_error + bytes" where
  "lzma raw src ulen =
     (if length src < 3 then Inl (Damaged LzmaTooShort)
      else
        let b0 = unat (src ! 0); b1 = unat (src ! 1); pb = b0 mod 8; lp = b1 div 16; lc = b1 mod 16 in
        if 5 \<le> pb \<or> 5 \<le> lp \<or> 9 \<le> lc \<or> b0 div 8 \<noteq> lc + lp then Inl (Damaged (LzmaProperties (take 2 src)))
        else if 4 < lc + lp then Inl (NotRead (LzmaNotRead lc lp))
        else case raw lc lp pb (max 4096 ulen) (drop 2 src) ulen of
          None \<Rightarrow> Inl (Damaged LzmaFails)
        | Some out \<Rightarrow>
            if length out \<noteq> ulen then Inl (Damaged (LzmaSize (length out) ulen)) else Inr out)"

definition decompress :: "lzma_raw \<Rightarrow> decoder \<Rightarrow> bytes \<Rightarrow> nat \<Rightarrow> upx_error + bytes" where
  "decompress raw method src ulen = (case method of Lzma \<Rightarrow> lzma raw src ulen | Nrv kind w \<Rightarrow> nrv kind w src ulen)"

end
