(* ===== verification/Upx_Stream.thy ===== *)
theory Upx_Stream
  imports Upx_Decode
begin

text \<open>
  The NRV streams from the writer's side: a stream is a sequence of bits and bytes in the order
  they are read, the bits gathered into words where the first of each word is read. Every parse
  of an output into literals and back-references is written as such a stream, and decoding the
  stream gives the output; a back-reference copies byte by byte.
\<close>

section \<open>Numbers in bytes\<close>

lemma byte_less [simp]: "unat (b :: byte) < 256"
  using unsigned_less [of b] by simp

lemma length_le_bytes [simp]: "length (le_bytes n v) = n"
  by (induction n v rule: le_bytes.induct) auto

lemma le_append: "le (xs @ ys) = le xs + 256 ^ length xs * le ys"
  by (induction xs) (auto simp: algebra_simps)

lemma le_less: "le bs < 256 ^ length bs"
proof (induction bs)
  case (Cons b bs)
  then show ?case using byte_less [of b] by (simp del: byte_less)
qed simp

lemma le_le_bytes [simp]: "le (le_bytes n v) = v mod 256 ^ n"
proof (induction n v rule: le_bytes.induct)
  case (2 n v)
  have "v mod (256 * 256 ^ n) = 256 * (v div 256 mod 256 ^ n) + v mod 256" by (rule mod_mult2_eq)
  moreover have "unat (word_of_nat v :: byte) = v mod 256" by (simp add: unat_of_nat)
  ultimately show ?case using 2 by simp
qed simp

lemma le_bytes_le: "length bs = n \<Longrightarrow> le_bytes n (le bs) = bs"
proof (induction bs arbitrary: n)
  case (Cons b bs)
  have "(word_of_nat (unat b + 256 * le bs) :: byte) = b"
  proof -
    have zero: "(256 :: byte) = 0" by simp
    have "(word_of_nat (unat b + 256 * le bs) :: byte) = b + 256 * word_of_nat (le bs)" by simp
    then show ?thesis unfolding zero by simp
  qed
  then show ?case using Cons by auto
qed simp

section \<open>Bits and bytes in the order they are read\<close>

datatype item = Bit bool | Byt byte

fun bits :: "item list \<Rightarrow> bool list" where
  "bits [] = []"
| "bits (Bit b # is) = b # bits is"
| "bits (Byt b # is) = bits is"

text \<open>The value of the first \<open>n\<close> bits, most significant first, zeros past their end.\<close>

fun msb_value :: "nat \<Rightarrow> bool list \<Rightarrow> nat" where
  "msb_value 0 bs = 0"
| "msb_value (Suc n) [] = 0"
| "msb_value (Suc n) (b # bs) = of_bool b * 2 ^ n + msb_value n bs"

lemma msb_value_less: "msb_value n bs < 2 ^ n"
  by (induction n bs rule: msb_value.induct) auto

text \<open>The bytes of the items, when \<open>left\<close> bits of an earlier word are still to be read.\<close>

fun ser :: "word_size \<Rightarrow> nat \<Rightarrow> item list \<Rightarrow> bytes" where
  "ser w left [] = []"
| "ser w left (Byt b # is) = b # ser w left is"
| "ser w 0 (Bit b # is) =
     le_bytes (bytes_of w) (msb_value (8 * bytes_of w) (b # bits is)) @ ser w (8 * bytes_of w - 1) is"
| "ser w (Suc k) (Bit b # is) = ser w k is"

text \<open>The reader at \<open>s\<close> has exactly the items ahead of it.\<close>

definition feeds :: "word_size \<Rightarrow> bytes \<Rightarrow> item list \<Rightarrow> reader \<Rightarrow> bool" where
  "feeds w src is s \<longleftrightarrow> rd_at s \<le> length src \<and> drop (rd_at s) src = ser w (rd_left s) is \<and>
     rd_word s mod 2 ^ rd_left s = msb_value (rd_left s) (bits is)"

lemma top_bit:
  assumes "n mod 2 ^ Suc k = of_bool b * 2 ^ k + r" "r < 2 ^ k"
  shows "odd (n div 2 ^ k) = b" "n mod 2 ^ k = (r::nat)"
proof -
  have "n mod 2 ^ Suc k = 2 ^ k * (n div 2 ^ k mod 2) + n mod 2 ^ k"
    using mod_mult2_eq [of n "2 ^ k" 2] by (simp add: mult.commute)
  moreover have "n mod 2 ^ k < 2 ^ k" by simp
  ultimately have eq: "2 ^ k * (n div 2 ^ k mod 2) + n mod 2 ^ k = of_bool b * 2 ^ k + r" using assms(1) by simp
  then have "(2 ^ k * (n div 2 ^ k mod 2) + n mod 2 ^ k) div 2 ^ k = (of_bool b * 2 ^ k + r) div 2 ^ k" by simp
  then have "n div 2 ^ k mod 2 = of_bool b" using assms(2) by simp
  then show "odd (n div 2 ^ k) = b" by (cases b) (auto simp: odd_iff_mod_2_eq_one)
  with eq show "n mod 2 ^ k = r" by (cases b) (auto simp: odd_iff_mod_2_eq_one even_iff_mod_2_eq_zero)
qed

lemma feeds_step:
  assumes "feeds w src (Bit b # is) s" "rd_left s = Suc k"
  shows "odd (rd_word s div 2 ^ k) = b \<and> feeds w src is (s\<lparr>rd_left := k\<rparr>)"
proof -
  have "rd_word s mod 2 ^ Suc k = of_bool b * 2 ^ k + msb_value k (bits is)"
    using assms by (simp add: feeds_def)
  from top_bit [OF this msb_value_less] assms show ?thesis by (simp add: feeds_def)
qed

lemma feeds_bit:
  assumes "feeds w src (Bit b # is) s"
  shows "\<exists>s'. bit w src s = Inr (b, s') \<and> feeds w src is s'"
proof (cases "rd_left s")
  case (Suc k)
  with feeds_step [OF assms Suc] show ?thesis by (auto simp: bit_def refilled_def Let_def)
next
  case 0
  let ?n = "bytes_of w"
  let ?v = "msb_value (8 * ?n) (b # bits is)"
  let ?s = "\<lparr>rd_word = ?v, rd_left = 8 * ?n, rd_at = rd_at s + ?n\<rparr>"
  have d: "drop (rd_at s) src = le_bytes ?n ?v @ ser w (8 * ?n - 1) is" "rd_at s \<le> length src"
    using assms 0 by (auto simp: feeds_def)
  then have "length (drop (rd_at s) src) = ?n + length (ser w (8 * ?n - 1) is)" by simp
  then have len: "rd_at s + ?n \<le> length src" using d(2) by simp
  have "drop (rd_at s + ?n) src = drop ?n (drop (rd_at s) src)" by (simp add: add.commute)
  then have rest: "drop (rd_at s + ?n) src = ser w (8 * ?n - 1) is" by (simp add: d(1))
  have pow: "(256::nat) ^ ?n = 2 ^ (8 * ?n)" by (simp add: power_mult)
  have "?v < 2 ^ (8 * ?n)" by (rule msb_value_less)
  then have "le (slice_at src (rd_at s) ?n) = ?v" by (simp add: slice_at_def d(1) pow)
  then have r: "refilled w src s = Inr ?s" using 0 len by (simp add: refilled_def)
  obtain k where k: "8 * ?n = Suc k" using bytes_of_pos [of w] by (metis mult_pos_pos not0_implies_Suc not_gr_zero zero_less_numeral)
  have "feeds w src (Bit b # is) ?s"
    using len rest \<open>?v < 2 ^ (8 * ?n)\<close> by (simp add: feeds_def k)
  from feeds_step [OF this, of k] k r show ?thesis by (auto simp: bit_def Let_def)
qed

lemma feeds_byte:
  assumes "feeds w src (Byt b # is) s"
  shows "\<exists>s'. byte src s = Inr (b, s') \<and> feeds w src is s'"
proof -
  have d: "drop (rd_at s) src = b # ser w (rd_left s) is" using assms by (simp add: feeds_def)
  then have at: "rd_at s < length src" by (metis drop_all list.discI not_le)
  with d have "src ! rd_at s = b" "drop (Suc (rd_at s)) src = ser w (rd_left s) is"
    by (simp_all add: Cons_nth_drop_Suc [symmetric])
  with at assms show ?thesis by (auto simp: byte_def feeds_def)
qed

lemma feeds_end: "feeds w src [] s \<Longrightarrow> rd_at s = length src"
  by (auto simp: feeds_def)

lemma feeds_start: "feeds w (ser w 0 is) is start_reader"
  by (simp add: feeds_def start_reader_def)

section \<open>Writing numbers\<close>

fun gamma_bits :: "nat \<Rightarrow> bool list" where
  "gamma_bits n = (if n < 4 then [odd n] else gamma_bits (n div 2) @ [False, odd n])"

declare gamma_bits.simps [simp del]

fun prefix_de_bits :: "nat \<Rightarrow> bool list" where
  "prefix_de_bits n =
     (if n < 4 then [odd n] else prefix_de_bits (n div 2 div 2 + 1) @ [False, odd (n div 2), odd n])"

declare prefix_de_bits.simps [simp del]

lemma double_half: "2 * (n div 2) + of_bool (odd n) = (n::nat)"
  by (cases "even n") (auto elim!: evenE oddE)

lemma small_number: "2 \<le> n \<Longrightarrow> n < 4 \<Longrightarrow> 2 * 1 + of_bool (odd n) = (n::nat)"
proof -
  assume "2 \<le> n" "n < 4"
  then have "n = 2 \<or> n = 3" by linarith
  then show ?thesis by auto
qed

lemma gamma_reads:
  assumes "2 \<le> n" "n \<le> limit" "feeds w src (map Bit (gamma_bits n) @ is) s"
  shows "\<exists>s'. feeds w src is s' \<and> gamma w src limit e 1 s =
    bind_r (bit w src s') (\<lambda>(final, s2). if final then Inr (n, s2) else gamma w src limit e n s2)"
  using assms
proof (induction n arbitrary: "is" rule: gamma_bits.induct)
  case (1 n)
  show ?case
  proof (cases "n < 4")
    case True
    with "1.prems" have "feeds w src (Bit (odd n) # is) s" by (simp add: gamma_bits.simps [of n])
    then obtain s' where s': "bit w src s = Inr (odd n, s')" "feeds w src is s'" using feeds_bit by blast
    show ?thesis
      using s'(2) "1.prems"(2) unfolding gamma.simps [of w src limit e 1 s] s'(1) bind_r_Inr prod.case Let_def small_number [OF "1.prems"(1) True]
      by (intro exI [of _ s']) simp
  next
    case False
    then have "feeds w src (map Bit (gamma_bits (n div 2)) @ Bit False # Bit (odd n) # is) s"
      using "1.prems" by (simp add: gamma_bits.simps [of n])
    moreover have "2 \<le> n div 2" "n div 2 \<le> limit" using False "1.prems" by linarith+
    ultimately obtain s1 where s1: "feeds w src (Bit False # Bit (odd n) # is) s1"
      "gamma w src limit e 1 s = bind_r (bit w src s1)
         (\<lambda>(final, s2). if final then Inr (n div 2, s2) else gamma w src limit e (n div 2) s2)"
      using "1.IH" [OF False] by blast
    obtain s2 where s2: "bit w src s1 = Inr (False, s2)" "feeds w src (Bit (odd n) # is) s2"
      using feeds_bit [OF s1(1)] by blast
    obtain s3 where s3: "bit w src s2 = Inr (odd n, s3)" "feeds w src is s3" using feeds_bit [OF s2(2)] by blast
    have eq: "gamma w src limit e 1 s = gamma w src limit e (n div 2) s2" using s1(2) s2(1) by simp
    show ?thesis
      using s3(2) "1.prems"(2)
      unfolding eq gamma.simps [of w src limit e "n div 2" s2] s3(1) bind_r_Inr prod.case Let_def double_half
      by (intro exI [of _ s3]) simp
  qed
qed

lemma gamma_decodes:
  assumes "2 \<le> n" "n \<le> limit" "feeds w src (map Bit (gamma_bits n) @ Bit True # is) s"
  shows "\<exists>s'. gamma w src limit e 1 s = Inr (n, s') \<and> feeds w src is s'"
proof -
  obtain s1 where s1: "feeds w src (Bit True # is) s1" "gamma w src limit e 1 s =
      bind_r (bit w src s1) (\<lambda>(final, s2). if final then Inr (n, s2) else gamma w src limit e n s2)"
    using gamma_reads [OF assms] by blast
  with feeds_bit [OF s1(1)] show ?thesis by auto
qed

lemma prefix_de_reads:
  assumes "2 \<le> n" "n \<le> MAX_PREFIX" "feeds w src (map Bit (prefix_de_bits n) @ is) s"
  shows "\<exists>s'. feeds w src is s' \<and> prefix_de w src olen 1 s =
    bind_r (bit w src s') (\<lambda>(final, s2).
      if final then Inr (n, s2)
      else bind_r (bit w src s2) (\<lambda>(c, s3).
        let k = 2 * (n - 1) + of_bool c in
        if MAX_PREFIX < k then Inl (Damaged (OffsetPastStream olen)) else prefix_de w src olen k s3))"
  using assms
proof (induction n arbitrary: "is" rule: prefix_de_bits.induct)
  case (1 n)
  show ?case
  proof (cases "n < 4")
    case True
    with "1.prems" have "feeds w src (Bit (odd n) # is) s" by (simp add: prefix_de_bits.simps [of n])
    then obtain s' where s': "bit w src s = Inr (odd n, s')" "feeds w src is s'" using feeds_bit by blast
    show ?thesis
      using s'(2) "1.prems"(2) unfolding prefix_de.simps [of w src olen 1 s] s'(1) bind_r_Inr prod.case Let_def small_number [OF "1.prems"(1) True]
      by (intro exI [of _ s']) simp
  next
    case False
    let ?q = "n div 2 div 2 + 1" and ?p = "n div 2"
    have "feeds w src (map Bit (prefix_de_bits ?q) @ Bit False # Bit (odd ?p) # Bit (odd n) # is) s"
      using False "1.prems" by (simp add: prefix_de_bits.simps [of n])
    moreover have "2 \<le> ?q" "?q \<le> MAX_PREFIX" "?p \<le> MAX_PREFIX" using False "1.prems" by linarith+
    ultimately obtain s1 where s1: "feeds w src (Bit False # Bit (odd ?p) # Bit (odd n) # is) s1"
      "prefix_de w src olen 1 s = bind_r (bit w src s1) (\<lambda>(final, s2).
      if final then Inr (?q, s2)
      else bind_r (bit w src s2) (\<lambda>(c, s3).
        let k = 2 * (?q - 1) + of_bool c in
        if MAX_PREFIX < k then Inl (Damaged (OffsetPastStream olen)) else prefix_de w src olen k s3))"
      using "1.IH" [OF False] by blast
    obtain s2 where s2: "bit w src s1 = Inr (False, s2)" "feeds w src (Bit (odd ?p) # Bit (odd n) # is) s2"
      using feeds_bit [OF s1(1)] by blast
    obtain s3 where s3: "bit w src s2 = Inr (odd ?p, s3)" "feeds w src (Bit (odd n) # is) s3"
      using feeds_bit [OF s2(2)] by blast
    obtain s4 where s4: "bit w src s3 = Inr (odd n, s4)" "feeds w src is s4" using feeds_bit [OF s3(2)] by blast
    have "2 * (?q - 1) + of_bool (odd ?p) = ?p" using double_half [of ?p] by simp
    then have eq: "prefix_de w src olen 1 s = prefix_de w src olen ?p s3"
      using s1(2) s2(1) s3(1) \<open>?p \<le> MAX_PREFIX\<close> by (simp add: Let_def)
    show ?thesis
      using s4(2) "1.prems"(2)
      unfolding eq prefix_de.simps [of w src olen ?p s3] s4(1) bind_r_Inr prod.case Let_def double_half
      by (intro exI [of _ s4]) simp
  qed
qed

lemma prefix_de_decodes:
  assumes "2 \<le> n" "n \<le> MAX_PREFIX" "feeds w src (map Bit (prefix_de_bits n) @ Bit True # is) s"
  shows "\<exists>s'. prefix_de w src olen 1 s = Inr (n, s') \<and> feeds w src is s'"
proof -
  obtain s1 where s1: "feeds w src (Bit True # is) s1" "prefix_de w src olen 1 s =
      bind_r (bit w src s1) (\<lambda>(final, s2).
      if final then Inr (n, s2)
      else bind_r (bit w src s2) (\<lambda>(c, s3).
        let k = 2 * (n - 1) + of_bool c in
        if MAX_PREFIX < k then Inl (Damaged (OffsetPastStream olen)) else prefix_de w src olen k s3))"
    using prefix_de_reads [OF assms] by blast
  with feeds_bit [OF s1(1)] show ?thesis by auto
qed

definition prefix_items :: "nrv_kind \<Rightarrow> nat \<Rightarrow> item list" where
  "prefix_items kind n = map Bit ((if kind = K2b then gamma_bits n else prefix_de_bits n) @ [True])"

lemma prefix_decodes:
  assumes "2 \<le> n" "n \<le> MAX_PREFIX" "feeds w src (prefix_items kind n @ is) s"
  shows "\<exists>s'. read_prefix kind w src olen s = Inr (n, s') \<and> feeds w src is s'"
  using assms gamma_decodes [of n MAX_PREFIX w src "is" s] prefix_de_decodes [of n w src "is" s]
  by (simp add: read_prefix_def prefix_items_def split: if_splits)

section \<open>Back-references\<close>

text \<open>A back-reference byte by byte, each byte taken \<open>offset\<close> before the place it is written to.\<close>

primrec copy_bytes :: "nat \<Rightarrow> nat \<Rightarrow> bytes \<Rightarrow> bytes" where
  "copy_bytes offset 0 out = out"
| "copy_bytes offset (Suc n) out =
     (let r = copy_bytes offset n out in r @ [r ! (length r - offset)])"

lemma copy_bytes_run:
  assumes "0 < offset" "offset \<le> length out"
  shows "copy_bytes offset n out = out @ map (\<lambda>j. out ! (length out - offset + j mod offset)) [0..<n]"
proof (induction n)
  case (Suc n)
  let ?f = "\<lambda>j. out ! (length out - offset + j mod offset)"
  let ?r = "out @ map ?f [0..<n]"
  have "?r ! (length ?r - offset) = ?f n"
  proof (cases "n < offset")
    case True
    then have "length ?r - offset = length out - offset + n" "length out - offset + n < length out"
      using assms by auto
    then show ?thesis using True by (simp add: nth_append)
  next
    case False
    then have "length ?r - offset = length out + (n - offset)" "n - offset < n" using assms by auto
    then show ?thesis using False by (simp add: nth_append le_mod_geq)
  qed
  then show ?case using Suc by (simp add: Let_def)
qed simp

lemma repeats_run:
  assumes "r \<le> length run"
  shows "concat (replicate q run) @ take r run = map (\<lambda>j. run ! (j mod length run)) [0..<q * length run + r]"
proof (induction q)
  case 0
  have "take r run = map (\<lambda>j. run ! (j mod length run)) [0..<r]"
    using assms by (intro nth_equalityI) auto
  then show ?case by simp
next
  case (Suc q)
  let ?f = "\<lambda>j. run ! (j mod length run)"
  have "[0..<Suc q * length run + r] = [0..<length run] @ map (\<lambda>j. j + length run) [0..<q * length run + r]"
    using upt_add_eq_append [of 0 "length run" "q * length run + r"]
    by (simp add: map_add_upt add.commute add.left_commute)
  moreover have "map ?f [0..<length run] = run" by (intro nth_equalityI) auto
  moreover have "map ?f (map (\<lambda>j. j + length run) [0..<q * length run + r]) = map ?f [0..<q * length run + r]" by simp
  ultimately show ?case using Suc by simp
qed

text \<open>The slices the decoder copies in give what copying byte by byte gives.\<close>

lemma copy_back_bytes:
  assumes "0 < offset" "offset \<le> length out"
  shows "copy_back out offset n = copy_bytes offset n out"
proof (cases "n \<le> offset")
  case True
  have "slice_at out (length out - offset) n = map (\<lambda>j. out ! (length out - offset + j mod offset)) [0..<n]"
    using True assms by (intro nth_equalityI) (auto simp: slice_at_def)
  then show ?thesis using True by (simp add: copy_back_def copy_bytes_run [OF assms])
next
  case False
  let ?run = "drop (length out - offset) out"
  have len: "length ?run = offset" using assms by simp
  have "concat (replicate (n div offset) ?run) @ take (n mod offset) ?run =
      map (\<lambda>j. ?run ! (j mod offset)) [0..<n div offset * offset + n mod offset]"
    using repeats_run [of "n mod offset" ?run "n div offset"] assms len by simp
  then show ?thesis using False assms by (simp add: copy_back_def Let_def copy_bytes_run)
qed

lemma length_copy_bytes [simp]: "length (copy_bytes offset n out) = length out + n"
  by (induction n) (auto simp: Let_def)

section \<open>Writing a parse\<close>

text \<open>A parse of an output: literals, and back-references of an offset and a count.\<close>

datatype token = Lit byte | Copy nat nat

fun expand :: "bytes \<Rightarrow> token list \<Rightarrow> bytes" where
  "expand out [] = out"
| "expand out (Lit b # ts) = expand (out @ [b]) ts"
| "expand out (Copy offset count # ts) = expand (copy_bytes offset count out) ts"

text \<open>What the format can write: a reference behind the output, long enough, its offset in 31 bits.\<close>

fun writable :: "nrv_kind \<Rightarrow> nat \<Rightarrow> token list \<Rightarrow> bool" where
  "writable kind n [] = True"
| "writable kind n (Lit b # ts) = writable kind (Suc n) ts"
| "writable kind n (Copy offset count # ts) =
     (0 < offset \<and> offset \<le> n \<and> offset < 2 ^ 31 \<and> 2 + of_bool (near kind < offset) \<le> count \<and>
      writable kind (n + count) ts)"

definition length_bit_of :: "nrv_kind \<Rightarrow> nat \<Rightarrow> bool" where
  "length_bit_of kind n = (case kind of K2b \<Rightarrow> False | K2d \<Rightarrow> 2 \<le> n \<and> n < 4 | K2e \<Rightarrow> n < 3)"

definition offset_items :: "nrv_kind \<Rightarrow> nat \<Rightarrow> nat \<Rightarrow> bool \<Rightarrow> item list" where
  "offset_items kind final offset lb =
     (if offset = final then prefix_items kind 2 @ (if kind = K2b then [] else [Bit lb])
      else let combined = (if kind = K2b then offset - 1 else 2 * (offset - 1) + of_bool (\<not> lb))
           in prefix_items kind (combined div 256 + 3) @ [Byt (word_of_nat combined)])"

definition gamma_items :: "nat \<Rightarrow> item list" where
  "gamma_items n = map Bit (gamma_bits n @ [True])"

definition length_items :: "nrv_kind \<Rightarrow> nat \<Rightarrow> item list" where
  "length_items kind n =
     (case kind of
        K2b \<Rightarrow> if n < 4 then [Bit (2 \<le> n), Bit (odd n)] else [Bit False, Bit False] @ gamma_items (n - 2)
      | K2d \<Rightarrow> if n < 4 then [Bit (odd n)] else [Bit False] @ gamma_items (n - 2)
      | K2e \<Rightarrow> if n < 3 then [Bit (even n)] else if n < 5 then [Bit True, Bit (even n)]
               else [Bit False] @ gamma_items (n - 3))"

fun items_of :: "nrv_kind \<Rightarrow> nat \<Rightarrow> token list \<Rightarrow> item list" where
  "items_of kind final [] = Bit False # prefix_items kind (END_MARKER div 256 + 3) @ [Byt 255]"
| "items_of kind final (Lit b # ts) = Bit True # Byt b # items_of kind final ts"
| "items_of kind final (Copy offset count # ts) =
     (let n = count - 1 - of_bool (near kind < offset); lb = length_bit_of kind n in
      Bit False # offset_items kind final offset lb @ length_items kind n @ items_of kind offset ts)"

definition compress :: "nrv_kind \<Rightarrow> word_size \<Rightarrow> token list \<Rightarrow> bytes" where
  "compress kind w ts = ser w 0 (items_of kind 1 ts)"

section \<open>Decoding what was written\<close>

lemma length_expand: "length out \<le> length (expand out ts)"
  by (induction out ts rule: expand.induct) auto

lemma read_offset_byte:
  assumes "byte src s = Inr (b, s')" "3 \<le> prefix" "c = (prefix - 3) * 256 + unat b" "c \<noteq> END_MARKER"
  shows "read_offset kind w src final prefix s =
    Inr (Some (if kind = K2b then (c + 1, False) else (c div 2 + 1, even c)), s')"
  using assms by (auto simp: read_offset_def Let_def)

lemma offset_decodes:
  assumes "feeds w src (offset_items kind final offset lb @ is) s" "0 < offset" "offset < 2 ^ 31" "kind = K2b \<longrightarrow> \<not> lb"
  shows "\<exists>p s1 s2. read_prefix kind w src olen s = Inr (p, s1) \<and>
    read_offset kind w src final p s1 = Inr (Some (offset, lb), s2) \<and> feeds w src is s2"
proof (cases "offset = final")
  case True
  then have "feeds w src (prefix_items kind 2 @ (if kind = K2b then [] else [Bit lb]) @ is) s"
    using assms(1) by (simp add: offset_items_def)
  then obtain s1 where s1: "read_prefix kind w src olen s = Inr (2, s1)"
    "feeds w src ((if kind = K2b then [] else [Bit lb]) @ is) s1"
    using prefix_decodes [of 2] by (fastforce simp: MAX_PREFIX_def)
  show ?thesis
  proof (cases "kind = K2b")
    case True
    then show ?thesis using s1 \<open>offset = final\<close> assms(4) by (auto simp: read_offset_def)
  next
    case False
    then have "feeds w src (Bit lb # is) s1" using s1(2) by simp
    from feeds_bit [OF this] obtain s2 where "bit w src s1 = Inr (lb, s2)" "feeds w src is s2" by blast
    then show ?thesis using s1(1) False \<open>offset = final\<close> by (auto simp: read_offset_def)
  qed
next
  case False
  let ?c = "if kind = K2b then offset - 1 else 2 * (offset - 1) + of_bool (\<not> lb)"
  have c: "?c < END_MARKER" using assms(2,3) by (auto simp: END_MARKER_def)
  then have bound: "?c div 256 + 3 \<le> MAX_PREFIX" by (auto simp: END_MARKER_def MAX_PREFIX_def)
  have "feeds w src (prefix_items kind (?c div 256 + 3) @ Byt (word_of_nat ?c) # is) s"
    using assms(1) False by (simp add: offset_items_def Let_def)
  then obtain s1 where s1: "read_prefix kind w src olen s = Inr (?c div 256 + 3, s1)" "feeds w src (Byt (word_of_nat ?c) # is) s1"
    using prefix_decodes [OF _ bound] by fastforce
  obtain s2 where s2: "byte src s1 = Inr (word_of_nat ?c, s2)" "feeds w src is s2" using feeds_byte [OF s1(2)] by blast
  have split: "?c = (?c div 256 + 3 - 3) * 256 + unat (word_of_nat ?c :: byte)" by (simp add: unat_of_nat del: of_nat_add of_nat_mult)
  have "(if kind = K2b then (?c + 1, False) else (?c div 2 + 1, even ?c)) = (offset, lb)"
    using assms(2,4) by (cases lb) auto
  then have "read_offset kind w src final (?c div 256 + 3) s1 = Inr (Some (offset, lb), s2)"
    using read_offset_byte [OF s2(1) _ split] c by simp
  with s1(1) s2(2) show ?thesis by blast
qed

lemma long_decodes:
  assumes "feeds w src (gamma_items n @ is) s" "2 \<le> n" "n \<le> room + extra"
  shows "\<exists>s'. long_length w src ulen olen room extra s = Inr (n + extra, s') \<and> feeds w src is s'"
proof -
  have "feeds w src (map Bit (gamma_bits n) @ Bit True # is) s" using assms(1) by (simp add: gamma_items_def)
  from gamma_decodes [OF assms(2,3) this, of "Damaged (LengthPastSize olen ulen)"] obtain s'
    where "gamma w src (room + extra) (Damaged (LengthPastSize olen ulen)) 1 s = Inr (n, s')" "feeds w src is s'" by blast
  then show ?thesis by (simp add: long_length_def)
qed

lemma length_decodes:
  assumes "feeds w src (length_items kind n @ is) s" "0 < n" "n \<le> ulen - olen"
  shows "\<exists>s'. read_length kind w src ulen olen (length_bit_of kind n) s = Inr (n, s') \<and> feeds w src is s'"
proof (cases kind)
  case K2b
  show ?thesis
  proof (cases "n < 4")
    case True
    then have "feeds w src (Bit (2 \<le> n) # Bit (odd n) # is) s" using assms(1) K2b by (simp add: length_items_def)
    then obtain s1 s2 where "bit w src s = Inr (2 \<le> n, s1)" "bit w src s1 = Inr (odd n, s2)" "feeds w src is s2"
      using feeds_bit by metis
    moreover have "n = 1 \<or> n = 2 \<or> n = 3" using True assms(2) by linarith
    ultimately show ?thesis using K2b by (auto simp: read_length_def Let_def)
  next
    case False
    then have "feeds w src (Bit False # Bit False # gamma_items (n - 2) @ is) s" using assms(1) K2b by (simp add: length_items_def)
    then obtain s1 s2 where b: "bit w src s = Inr (False, s1)" "bit w src s1 = Inr (False, s2)" "feeds w src (gamma_items (n - 2) @ is) s2"
      using feeds_bit by metis
    have n: "2 \<le> n - 2" "n - 2 \<le> ulen - olen + 2" using False assms(3) by linarith+
    obtain s' where "long_length w src ulen olen (ulen - olen) 2 s2 = Inr (n - 2 + 2, s')" "feeds w src is s'"
      using long_decodes [OF b(3) n] by blast
    then show ?thesis using K2b b False by (auto simp: read_length_def Let_def)
  qed
next
  case K2d
  show ?thesis
  proof (cases "n < 4")
    case True
    then have "feeds w src (Bit (odd n) # is) s" using assms(1) K2d by (simp add: length_items_def)
    then obtain s1 where "bit w src s = Inr (odd n, s1)" "feeds w src is s1" using feeds_bit by metis
    moreover have "n = 1 \<or> n = 2 \<or> n = 3" using True assms(2) by linarith
    ultimately show ?thesis using K2d by (auto simp: read_length_def Let_def length_bit_of_def)
  next
    case False
    then have "feeds w src (Bit False # gamma_items (n - 2) @ is) s" using assms(1) K2d by (simp add: length_items_def)
    then obtain s1 where b: "bit w src s = Inr (False, s1)" "feeds w src (gamma_items (n - 2) @ is) s1"
      using feeds_bit by metis
    have n: "2 \<le> n - 2" "n - 2 \<le> ulen - olen + 2" using False assms(3) by linarith+
    obtain s' where "long_length w src ulen olen (ulen - olen) 2 s1 = Inr (n - 2 + 2, s')" "feeds w src is s'"
      using long_decodes [OF b(2) n] by blast
    then show ?thesis using K2d b False by (auto simp: read_length_def Let_def length_bit_of_def)
  qed
next
  case K2e
  consider "n < 3" | "\<not> n < 3" "n < 5" | "\<not> n < 5" by linarith
  then show ?thesis
  proof cases
    case 1
    then have "feeds w src (Bit (even n) # is) s" using assms(1) K2e by (simp add: length_items_def)
    then obtain s1 where "bit w src s = Inr (even n, s1)" "feeds w src is s1" using feeds_bit by metis
    moreover have "n = 1 \<or> n = 2" using 1 assms(2) by linarith
    ultimately show ?thesis using K2e by (auto simp: read_length_def Let_def length_bit_of_def)
  next
    case 2
    then have "feeds w src (Bit True # Bit (even n) # is) s" using assms(1) K2e by (simp add: length_items_def)
    then obtain s1 s2 where "bit w src s = Inr (True, s1)" "bit w src s1 = Inr (even n, s2)" "feeds w src is s2"
      using feeds_bit by metis
    moreover have "n = 3 \<or> n = 4" using 2 by linarith
    ultimately show ?thesis using K2e by (auto simp: read_length_def Let_def length_bit_of_def)
  next
    case 3
    then have "feeds w src (Bit False # gamma_items (n - 3) @ is) s" using assms(1) K2e by (simp add: length_items_def)
    then obtain s1 where b: "bit w src s = Inr (False, s1)" "feeds w src (gamma_items (n - 3) @ is) s1"
      using feeds_bit by metis
    have n: "2 \<le> n - 3" "n - 3 \<le> ulen - olen + 3" using 3 assms(3) by linarith+
    obtain s' where "long_length w src ulen olen (ulen - olen) 3 s1 = Inr (n - 3 + 3, s')" "feeds w src is s'"
      using long_decodes [OF b(2) n] by blast
    then show ?thesis using K2e b 3 by (auto simp: read_length_def Let_def length_bit_of_def)
  qed
qed

lemma end_decodes:
  assumes "feeds w src (prefix_items kind (END_MARKER div 256 + 3) @ [Byt 255]) s"
  shows "\<exists>s'. back_reference kind w src ulen final dst s = Inr (None, s') \<and> feeds w src [] s'"
proof -
  have "END_MARKER div 256 + 3 \<le> MAX_PREFIX" by (simp add: END_MARKER_def MAX_PREFIX_def)
  from prefix_decodes [OF _ this assms] obtain s1 where s1: "read_prefix kind w src (length dst) s = Inr (END_MARKER div 256 + 3, s1)"
    "feeds w src [Byt 255] s1" by fastforce
  obtain s2 where s2: "byte src s1 = Inr (255, s2)" "feeds w src [] s2" using feeds_byte [OF s1(2)] by blast
  have "read_offset kind w src final (END_MARKER div 256 + 3) s1 = Inr (None, s2)"
    by (simp add: read_offset_def s2(1) END_MARKER_def)
  with s1(1) s2(2) show ?thesis by (simp add: back_reference_def)
qed

lemma copy_decodes:
  assumes "feeds w src (offset_items kind final offset (length_bit_of kind n) @ length_items kind n @ is) s"
    and "n = count - 1 - of_bool (near kind < offset)" "2 + of_bool (near kind < offset) \<le> count"
    and "0 < offset" "offset \<le> length dst" "offset < 2 ^ 31" "length dst + count \<le> ulen"
  shows "\<exists>s'. back_reference kind w src ulen final dst s = Inr (Some (offset, copy_bytes offset count dst), s') \<and> feeds w src is s'"
proof -
  have lb: "kind = K2b \<longrightarrow> \<not> length_bit_of kind n" by (simp add: length_bit_of_def)
  obtain p s1 s2 where o: "read_prefix kind w src (length dst) s = Inr (p, s1)"
    "read_offset kind w src final p s1 = Inr (Some (offset, length_bit_of kind n), s2)" "feeds w src (length_items kind n @ is) s2"
    using offset_decodes [OF assms(1,4,6) lb, of "length dst"] by blast
  have n: "0 < n" "n \<le> ulen - length dst" "n + of_bool (near kind < offset) + 1 = count"
    using assms(2,3,7) by (auto split: if_splits)
  obtain s' where l: "read_length kind w src ulen (length dst) (length_bit_of kind n) s2 = Inr (n, s')" "feeds w src is s'"
    using length_decodes [OF o(3) n(1,2)] by blast
  have "\<not> length dst < offset" "\<not> ulen - length dst < count" using assms(5,7) by auto
  with o(1,2) l n(3) show ?thesis
    by (simp add: back_reference_def Let_def copy_back_bytes [OF assms(4,5)])
qed

lemma literal_step:
  assumes "feeds w src (Bit True # Byt b # is) s" "length dst < ulen"
  shows "\<exists>s'. nrv_loop kind w src ulen final dst s = nrv_loop kind w src ulen final (dst @ [b]) s' \<and> feeds w src is s'"
proof -
  obtain s1 s2 where s: "bit w src s = Inr (True, s1)" "byte src s1 = Inr (b, s2)" "feeds w src is s2"
    using feeds_bit [OF assms(1)] feeds_byte by metis
  then have "literals w src ulen dst s = literals w src ulen (dst @ [b]) s2"
    using assms(2) by (subst literals.simps) simp
  then have "nrv_loop kind w src ulen final dst s = nrv_loop kind w src ulen final (dst @ [b]) s2"
    by (simp only: nrv_loop.simps [of kind w src ulen final dst] nrv_loop.simps [of kind w src ulen final "dst @ [b]"])
  with s(3) show ?thesis by blast
qed

lemma literals_done:
  assumes "feeds w src (Bit False # is) s"
  shows "\<exists>s'. literals w src ulen dst s = Inr (dst, s') \<and> feeds w src is s'"
  using feeds_bit [OF assms] by (auto simp: literals.simps [of w src ulen dst])

lemma loop_decodes:
  assumes "feeds w src (items_of kind final ts) s" "writable kind (length dst) ts" "length (expand dst ts) \<le> ulen"
  shows "\<exists>s'. nrv_loop kind w src ulen final dst s = Inr (expand dst ts, s') \<and> feeds w src [] s'"
  using assms
proof (induction kind final ts arbitrary: dst s rule: items_of.induct)
  case (1 kind final)
  obtain s1 where s1: "literals w src ulen dst s = Inr (dst, s1)" "feeds w src (prefix_items kind (END_MARKER div 256 + 3) @ [Byt 255]) s1"
    using literals_done [of w src _ s] 1 by fastforce
  obtain s2 where "back_reference kind w src ulen final dst s1 = Inr (None, s2)" "feeds w src [] s2"
    using end_decodes [OF s1(2)] by blast
  with s1(1) show ?case by (simp add: nrv_loop.simps [of kind w src ulen final dst s])
next
  case (2 kind final b ts)
  have "length dst < ulen" using length_expand [of "dst @ [b]" ts] 2(4) by simp
  then obtain s1 where "nrv_loop kind w src ulen final dst s = nrv_loop kind w src ulen final (dst @ [b]) s1"
    "feeds w src (items_of kind final ts) s1"
    using literal_step [of w src b "items_of kind final ts" s] 2(2) by (simp only: items_of.simps) blast
  with 2 show ?case by fastforce
next
  case (3 kind final offset count ts)
  let ?n = "count - 1 - of_bool (near kind < offset)"
  let ?dst = "copy_bytes offset count dst"
  have ok: "0 < offset" "offset \<le> length dst" "offset < 2 ^ 31" "2 + of_bool (near kind < offset) \<le> count"
    "writable kind (length ?dst) ts" using 3(3) by auto
  have "length dst + count \<le> ulen" using length_expand [of ?dst ts] 3(4) by simp
  obtain s1 where s1: "literals w src ulen dst s = Inr (dst, s1)"
    "feeds w src (offset_items kind final offset (length_bit_of kind ?n) @ length_items kind ?n @ items_of kind offset ts) s1"
    using literals_done [of w src _ s] 3(2) by (fastforce simp: Let_def)
  obtain s2 where s2: "back_reference kind w src ulen final dst s1 = Inr (Some (offset, ?dst), s2)"
    "feeds w src (items_of kind offset ts) s2"
    using copy_decodes [OF s1(2) refl ok(4,1,2,3) \<open>length dst + count \<le> ulen\<close>] by blast
  have "nrv_loop kind w src ulen final dst s = nrv_loop kind w src ulen offset ?dst s2"
    using s1(1) s2(1) by (subst nrv_loop.simps) simp
  with "3.IH" [OF refl refl s2(2) ok(5)] 3(4) show ?case by simp
qed

end
