(* ===== verification/Upx_Rebuild.thy ===== *)
theory Upx_Rebuild
  imports Upx_Decode
begin

text \<open>
  The UPX reader, its second half: the packed file's own headers (\<open>tools/pe_image.py\<close> as far as
  the reader asks it), the code filter, the relocation records, and the file put together from
  the rebuilt image.
\<close>

unbundle bit_operations_syntax

section \<open>Reading and writing in place\<close>

text \<open>\<open>buf[at : at + len(new)] = new\<close>.\<close>

definition put_at :: "'a list \<Rightarrow> nat \<Rightarrow> 'a list \<Rightarrow> 'a list" where
  "put_at buf at new = take at buf @ new @ drop (at + length new) buf"

definition align :: "nat \<Rightarrow> nat \<Rightarrow> nat" where
  "align n alignment = (n + alignment - 1) div alignment * alignment"

definition outside :: "int \<Rightarrow> upx_error" where
  "outside at = Damaged (OutsideData at)"

text \<open>\<open>_word\<close>, \<open>_u16\<close> and \<open>_u32\<close>: a little-endian number, never past the end.\<close>

definition read_le :: "bytes \<Rightarrow> nat \<Rightarrow> nat \<Rightarrow> upx_error + nat" where
  "read_le buf at width =
     (if length buf < at + width then Inl (outside (int at)) else Inr (le (slice_at buf at width)))"

definition put :: "bytes \<Rightarrow> nat \<Rightarrow> bytes \<Rightarrow> upx_error + bytes" where
  "put buf at new = (if length buf < at + length new then Inl (outside (int at)) else Inr (put_at buf at new))"

section \<open>The packed file\<close>

record section_header =
  sh_rva :: nat
  sh_virtual_size :: nat
  sh_raw_offset :: nat
  sh_raw_size :: nat

definition mapped_size :: "section_header \<Rightarrow> nat" where
  "mapped_size s = min (sh_raw_size s) (if sh_virtual_size s = 0 then sh_raw_size s else sh_virtual_size s)"

record packed =
  pk_data :: bytes
  pk_is64 :: bool
  pk_size_of_image :: nat
  pk_sections :: "section_header list"
  pk_pe_offset :: nat
  pk_machine :: nat
  pk_flags :: nat
  pk_directories :: "(nat \<times> nat \<times> nat) list"

definition u_at :: "bytes \<Rightarrow> nat \<Rightarrow> nat \<Rightarrow> nat" where
  "u_at data at n = le (slice_at data at n)"

text \<open>
  The section table as \<open>pe_image.parse\<close> reads it: up to \<open>count\<close> entries, as many as the file
  holds; a raw size is held to what the file holds of it.
\<close>

fun section_table :: "bytes \<Rightarrow> nat \<Rightarrow> nat \<Rightarrow> section_header list" where
  "section_table data at 0 = []"
| "section_table data at (Suc n) =
     (if length data < at + 40 then []
      else
        let raw_offset = u_at data (at + 20) 4; raw_size = u_at data (at + 16) 4
        in \<lparr>sh_rva = u_at data (at + 12) 4, sh_virtual_size = u_at data (at + 8) 4, sh_raw_offset = raw_offset,
            sh_raw_size = (if raw_offset < length data then min raw_size (length data - raw_offset) else 0)\<rparr>
           # section_table data (at + 40) n)"

fun directory_table :: "bytes \<Rightarrow> nat \<Rightarrow> nat \<Rightarrow> nat \<Rightarrow> (nat \<times> nat \<times> nat) list" where
  "directory_table data at index 0 = []"
| "directory_table data at index (Suc n) =
     (if length data < at + 8 then []
      else (index, u_at data at 4, u_at data (at + 4) 4) # directory_table data (at + 8) (Suc index) n)"

definition read_packed :: "bytes \<Rightarrow> upx_error + packed" where
  "read_packed data =
     (let pe = u_at data 0x3C 4; optional = pe + 24; magic = u_at data optional 2; is64 = (magic = 0x20B);
          directories = optional + (if is64 then 112 else 96)
      in
      if length data < 0x40 \<or> take 2 data \<noteq> [0x4D, 0x5A] \<or> length data < pe + 24 \<or>
         slice_at data pe 4 \<noteq> [0x50, 0x45, 0, 0] \<or> length data < optional + 2 \<or>
         (magic \<noteq> 0x10B \<and> magic \<noteq> 0x20B) \<or> length data < directories
      then Inl (NotRead NotAPe)
      else Inr
        \<lparr>pk_data = data, pk_is64 = is64, pk_size_of_image = u_at data (optional + 56) 4,
         pk_sections = section_table data (optional + u_at data (pe + 20) 2) (u_at data (pe + 6) 2),
         pk_pe_offset = pe, pk_machine = u_at data (pe + 4) 2, pk_flags = u_at data (pe + 22) 2,
         pk_directories = directory_table data directories 0 (min (u_at data (directories - 4) 4) 16)\<rparr>)"

definition overlay_start :: "packed \<Rightarrow> nat" where
  "overlay_start pk =
     foldl max 0 (map (\<lambda>s. sh_raw_offset s + sh_raw_size s) (filter (\<lambda>s. sh_raw_size s \<noteq> 0) (pk_sections pk)))"

text \<open>Where UPX writes its header: 1024 bytes around the second section's data, or the third's.\<close>

definition windows :: "packed \<Rightarrow> nat list" where
  "windows pk =
     (case pk_sections pk of
        _ # second # rest \<Rightarrow>
          (sh_raw_offset second - WINDOW_BEFORE) # (case rest of third # _ \<Rightarrow> [sh_raw_offset third] | [] \<Rightarrow> [])
      | _ \<Rightarrow> [])"

definition first_magic :: "packed \<Rightarrow> nat option" where
  "first_magic pk =
     (case List.map_filter (\<lambda>start. find_bytes MAGIC (pk_data pk) start (start + WINDOW)) (windows pk) of
        [] \<Rightarrow> None | at # _ \<Rightarrow> Some at)"

definition has_pack_header :: "bytes \<Rightarrow> bool" where
  "has_pack_header data =
     (case read_packed data of
        Inl e \<Rightarrow> False
      | Inr pk \<Rightarrow> (case first_magic pk of None \<Rightarrow> False | Some at \<Rightarrow> true_header (slice_at data at HEADER_SIZE)))"

definition find_header :: "packed \<Rightarrow> (upx_error \<times> pack_header option) + pack_header" where
  "find_header pk =
     (if length (pk_sections pk) < 2 then Inl (NotRead NoSections, None)
      else case first_magic pk of
        None \<Rightarrow> Inl (NotRead NoHeader, None)
      | Some at \<Rightarrow> parse_header (pk_data pk) at)"

section \<open>The code filter\<close>

text \<open>
  The scan of \<open>unfilter\<close> from \<open>at\<close> on, up to \<open>stop\<close>: an opcode of the filter followed by the
  marker holds a big-endian target, put back as a little-endian displacement.
\<close>

definition displacement :: "nat \<Rightarrow> nat \<Rightarrow> nat \<Rightarrow> nat" where
  "displacement cto at stored = nat ((int stored - int at - 1 - int cto * 2 ^ 24) mod 2 ^ 32)"

function unfilter_scan :: "byte list \<Rightarrow> nat \<Rightarrow> nat \<Rightarrow> nat \<Rightarrow> bytes \<Rightarrow> nat \<Rightarrow> bytes \<times> nat" where
  "unfilter_scan ops cto stop at buf restored =
     (if stop \<le> at + 1 then (buf, restored)
      else if buf ! at \<in> set ops \<and> unat (buf ! (at + 1)) = cto then
        unfilter_scan ops cto stop (at + 5)
          (put_at buf (at + 1) (le_bytes 4 (displacement cto at (be (slice_at buf (at + 1) 4))))) (restored + 1)
      else unfilter_scan ops cto stop (at + 1) buf restored)"
  by pat_completeness auto
termination
  by (relation "measure (\<lambda>(ops, cto, stop, at, buf, restored). stop - at)") auto

declare unfilter_scan.simps [simp del]

text \<open>
  \<open>unfilter\<close> over \<open>buf[start : start + len]\<close>. The range's own offset is the value added to its
  targets, so a place's target counts from the start of the image.
\<close>

definition filter_stop :: "nat \<Rightarrow> nat \<Rightarrow> nat \<Rightarrow> nat" where
  "filter_stop buf_len start len = max start (min buf_len (start + len - 4))"

definition unfilter :: "byte list \<Rightarrow> nat \<Rightarrow> bytes \<Rightarrow> nat \<Rightarrow> nat \<Rightarrow> bytes \<times> nat" where
  "unfilter ops cto buf start len = unfilter_scan ops cto (filter_stop (length buf) start len) start buf 0"

section \<open>The stored PE header\<close>

record original =
  or_raw :: bytes
  or_is64 :: bool

definition oh_size :: "bool \<Rightarrow> nat" where "oh_size is64 = (if is64 then 264 else 248)"
definition directories_at :: "bool \<Rightarrow> nat" where "directories_at is64 = (if is64 then 136 else 120)"
definition directory_count_at :: "bool \<Rightarrow> nat" where "directory_count_at is64 = (if is64 then 132 else 116)"
definition SECTION_ENTRY :: nat where "SECTION_ENTRY = 40"
definition BASERELOC :: nat where "BASERELOC = 5"
definition RELOCS_STRIPPED :: nat where "RELOCS_STRIPPED = 1"

definition get_field :: "original \<Rightarrow> nat \<Rightarrow> nat \<Rightarrow> nat" where
  "get_field orig at n = le (slice_at (or_raw orig) at n)"

definition set_field :: "nat \<Rightarrow> nat \<Rightarrow> nat \<Rightarrow> original \<Rightarrow> original" where
  "set_field at n v orig = orig\<lparr>or_raw := put_at (or_raw orig) at (le_bytes n v)\<rparr>"

definition directory_of :: "original \<Rightarrow> nat \<Rightarrow> nat \<times> nat" where
  "directory_of orig index =
     (let at = directories_at (or_is64 orig) + 8 * index in (get_field orig at 4, get_field orig (at + 4) 4))"

definition set_directory :: "nat \<Rightarrow> nat \<Rightarrow> nat \<Rightarrow> original \<Rightarrow> original" where
  "set_directory index rva bytes orig =
     (let at = directories_at (or_is64 orig) + 8 * index in set_field (at + 4) 4 bytes (set_field at 4 rva orig))"

definition image_base :: "original \<Rightarrow> nat" where
  "image_base orig = (if or_is64 orig then get_field orig 48 8 else get_field orig 52 4)"

section \<open>The rebuild\<close>

text \<open>The unpacked data with what every step reads, and where UPX's records are read next.\<close>

record image =
  im_buf :: bytes
  im_original :: original
  im_rvamin :: nat
  im_packed :: packed
  im_records :: nat

definition im_width :: "image \<Rightarrow> nat" where
  "im_width im = (if or_is64 (im_original im) then 8 else 4)"

definition image_at :: "image \<Rightarrow> nat \<Rightarrow> upx_error + nat" where
  "image_at im rva =
     (if rva < im_rvamin im \<or> im_rvamin im + length (im_buf im) < rva then Inl (Damaged (OutsideImage rva))
      else Inr (rva - im_rvamin im))"

definition record_le :: "image \<Rightarrow> nat \<Rightarrow> upx_error + nat \<times> image" where
  "record_le im n = map_r (\<lambda>v. (v, im\<lparr>im_records := im_records im + n\<rparr>)) (read_le (im_buf im) (im_records im) n)"

subsection \<open>Relocation records\<close>

definition place :: "nat \<Rightarrow> nat \<Rightarrow> int \<Rightarrow> upx_error + unit" where
  "place image_size width v =
     check_r (0 \<le> v \<and> v + int width \<le> int image_size) (Damaged (RelocationOutside v))"

text \<open>Positions after each of a run of one-byte deltas.\<close>

fun run_positions :: "int \<Rightarrow> bytes \<Rightarrow> int list" where
  "run_positions pos [] = []"
| "run_positions pos (b # bs) = (pos + int (unat b)) # run_positions (pos + int (unat b)) bs"

definition RECORD_PIECE :: nat where "RECORD_PIECE = 2 ^ 20"

definition one_byte :: "byte \<Rightarrow> bool" where
  "one_byte b \<longleftrightarrow> b \<noteq> 0 \<and> unat b < 0xF0"

text \<open>A long form: the delta, and where the next record starts.\<close>

definition long_delta :: "bytes \<Rightarrow> nat \<Rightarrow> upx_error + nat \<times> nat" where
  "long_delta buf p =
     bind_r (read_le buf (p + 1) 2) (\<lambda>low.
       let delta = unat (buf ! p) mod 16 * 0x10000 + low in
       if delta = 0 then map_r (\<lambda>d. (d, p + 7)) (read_le buf (p + 3) 4) else Inr (delta, p + 3))"

lemma long_delta_next: "long_delta buf p = Inr (d, q) \<Longrightarrow> p < q"
  by (auto simp: long_delta_def Let_def result_iffs split: if_splits)

text \<open>
  The records from \<open>p\<close> on, read a piece at a time up to \<open>limit\<close>; of a run of one-byte deltas the
  first and the last position are held to the image.
\<close>

function reloc_scan ::
  "bytes \<Rightarrow> nat \<Rightarrow> nat \<Rightarrow> nat \<Rightarrow> nat \<Rightarrow> int \<Rightarrow> int list \<Rightarrow> upx_error + int list" where
  "reloc_scan buf image_size width limit p pos out =
     (if length buf \<le> p then Inl (Damaged (RecordsPastEnd p))
      else if limit \<le> p then reloc_scan buf image_size width (min (length buf) (p + RECORD_PIECE)) p pos out
      else
        let run = takeWhile one_byte (slice_at buf p (limit - p)) in
        if run \<noteq> [] then
          bind_r (place image_size width (pos + int (unat (hd run)))) (\<lambda>_.
          bind_r (place image_size width (last (run_positions pos run))) (\<lambda>_.
          reloc_scan buf image_size width limit (p + length run) (last (run_positions pos run)) (out @ run_positions pos run)))
        else if buf ! p = 0 then Inr out
        else
          bind_r (long_delta buf p) (\<lambda>(delta, q).
          bind_r (place image_size width (pos + int delta)) (\<lambda>_.
          reloc_scan buf image_size width limit q (pos + int delta) (out @ [pos + int delta]))))"
  by pat_completeness auto
termination
  by (relation "measures [\<lambda>(buf, image_size, width, limit, p, pos, out). length buf - p,
      \<lambda>(buf, image_size, width, limit, p, pos, out). if limit \<le> p then 1 else 0]")
    (auto simp: RECORD_PIECE_def simp flip: length_greater_0_conv dest!: long_delta_next)

declare reloc_scan.simps [simp del]

definition reloc_positions :: "bytes \<Rightarrow> nat \<Rightarrow> nat \<Rightarrow> nat \<Rightarrow> upx_error + int list" where
  "reloc_positions buf stream image_size width = reloc_scan buf image_size width stream stream (- 4) []"

subsection \<open>The relocation table\<close>

text \<open>The pages the positions fall in, each with its run of positions, in order.\<close>

fun reloc_pages :: "nat \<Rightarrow> nat list \<Rightarrow> (nat \<times> nat list) list" where
  "reloc_pages rvamin [] = []"
| "reloc_pages rvamin (p # ps) =
     (let page = (p + rvamin) div 0x1000 in
      case reloc_pages rvamin ps of
        (page', run) # pages \<Rightarrow>
          if page' = page then (page, p # run) # pages else (page, [p]) # (page', run) # pages
      | [] \<Rightarrow> [(page, [p])])"

fun gaps_at_least :: "nat \<Rightarrow> nat list \<Rightarrow> bool" where
  "gaps_at_least width (p # q # ps) = (p + width \<le> q \<and> gaps_at_least width (q # ps))"
| "gaps_at_least width _ = True"

text \<open>A value put back: read big-endian, the base added, written little-endian.\<close>

definition put_value :: "nat \<Rightarrow> nat \<Rightarrow> bytes \<Rightarrow> nat \<Rightarrow> bytes" where
  "put_value width add buf p =
     put_at buf p (le_bytes width ((be (slice_at buf p width) + add) mod 2 ^ (8 * width)))"

text \<open>A page's block; a page past 32 bits is a \<open>struct.error\<close> out of the tool.\<close>

definition page_block :: "bool \<Rightarrow> nat \<Rightarrow> nat \<times> nat list \<Rightarrow> bytes" where
  "page_block is64 rvamin pr =
     (let n = length (snd pr); padded = n + n mod 2; kind_bits = (if is64 then 10 else 3) * 0x1000
      in le_bytes 4 (fst pr * 0x1000) @ le_bytes 4 (8 + 2 * padded) @
         concat (map (\<lambda>p. le_bytes 2 ((p + rvamin) mod 0x1000 + kind_bits)) (snd pr)) @
         replicate (2 * (n mod 2)) 0)"

datatype rebuild_error = Upx upx_error | StructError

definition upx :: "upx_error + 'a \<Rightarrow> rebuild_error + 'a" where
  "upx r = (case r of Inl e \<Rightarrow> Inl (Upx e) | Inr v \<Rightarrow> Inr v)"

definition write_relocations :: "image \<Rightarrow> nat \<Rightarrow> nat list \<Rightarrow> rebuild_error + image" where
  "write_relocations im table_rva held =
     (let orig = im_original im; width = im_width im;
          pages = reloc_pages (im_rvamin im) held;
          table_bytes = sum_list (map (\<lambda>(page, run). 8 + 2 * (length run + length run mod 2)) pages)
      in
      bind_r (upx (image_at im table_rva)) (\<lambda>table_at.
      if length (im_buf im) < table_at + table_bytes then Inl (Upx (Damaged (RelocTableTooLarge table_bytes (length held))))
      else if list_ex (\<lambda>(page, run). 2 ^ 32 \<le> page * 0x1000) pages then Inl StructError
      else
        let buf = foldl (put_value width (image_base orig + im_rvamin im)) (im_buf im) held;
            table = concat (map (page_block (or_is64 orig) (im_rvamin im)) pages)
        in map_r (\<lambda>buf. im\<lparr>im_buf := buf, im_original := set_directory BASERELOC table_rva (length table) orig\<rparr>)
             (upx (put buf table_at table))))"

definition rebuild_relocations :: "image \<Rightarrow> rebuild_error + image" where
  "rebuild_relocations im =
     (let orig = im_original im; table = directory_of orig BASERELOC in
      if fst table = 0 \<or> snd table = 0 \<or> odd (get_field orig 22 2) then Inr im
      else if snd table = 8 then
        bind_r (upx (image_at im (fst table))) (\<lambda>at.
        map_r (\<lambda>buf. im\<lparr>im_buf := buf\<rparr>) (upx (put (im_buf im) at [0, 0, 0, 0, 8, 0, 0, 0])))
      else
        bind_r (upx (record_le im 4)) (\<lambda>(stream, im).
        bind_r (upx (record_le im 1)) (\<lambda>(big, im).
        if big AND 6 \<noteq> 0 then Inl (Upx (NotRead Relocs16))
        else
          bind_r (upx (reloc_positions (im_buf im) stream stream (im_width im))) (\<lambda>positions.
          let held = map nat positions in
          if \<not> gaps_at_least (im_width im) held then Inl (Upx (NotRead RelocsOverlap))
          else write_relocations im (fst table) held))))"

section \<open>The file\<close>

text \<open>
  The sections with their file offsets stated, the pieces of the file they take (file offset,
  place in the unpacked data, size), and where the last one ends. An offset past 32 bits is a
  \<open>struct.error\<close>.
\<close>

fun lay_sections ::
  "bytes \<Rightarrow> nat \<Rightarrow> nat \<Rightarrow> nat \<Rightarrow> nat \<Rightarrow> bytes list
    \<Rightarrow> rebuild_error + bytes list \<times> (nat \<times> nat \<times> nat) list \<times> nat" where
  "lay_sections buf rvamin file_alignment index cursor [] = Inr ([], [], cursor)"
| "lay_sections buf rvamin file_alignment index cursor (s # ss) =
     (let rva = le (slice_at s 12 4); bytes = le (slice_at s 16 4) in
      if le (slice_at s 20 4) = 0 then
        map_r (\<lambda>(ss', pieces, cursor'). (s # ss', pieces, cursor'))
          (lay_sections buf rvamin file_alignment (Suc index) cursor ss)
      else if rva < rvamin \<or> length buf < rva - rvamin + bytes then
        Inl (Upx (Damaged (SectionOutside (Suc index) rva bytes)))
      else if 2 ^ 32 \<le> cursor then Inl StructError
      else
        map_r (\<lambda>(ss', pieces, cursor').
          (put_at s 20 (le_bytes 4 cursor) # ss', (cursor, rva - rvamin, bytes) # pieces, cursor'))
          (lay_sections buf rvamin file_alignment (Suc index) (cursor + align bytes file_alignment) ss))"

definition headers_end :: "packed \<Rightarrow> original \<Rightarrow> bytes list \<Rightarrow> nat" where
  "headers_end pk orig sections = pk_pe_offset pk + oh_size (or_is64 orig) + SECTION_ENTRY * length sections"

definition file_start :: "packed \<Rightarrow> original \<Rightarrow> bytes list \<Rightarrow> nat" where
  "file_start pk orig sections =
     (case filter (\<lambda>v. v \<noteq> 0) (map (\<lambda>s. le (slice_at s 20 4)) sections) of
        first # _ \<Rightarrow> first
      | [] \<Rightarrow> align (headers_end pk orig sections) (get_field orig 60 4))"

definition overlay_of :: "packed \<Rightarrow> bytes" where
  "overlay_of pk = drop (overlay_start pk) (pk_data pk)"

definition finished_header :: "nat \<Rightarrow> original \<Rightarrow> original" where
  "finished_header start orig =
     set_field 84 4 start (set_field (directory_count_at (or_is64 orig)) 4 16
       (set_field 20 2 (oh_size (or_is64 orig) - 24) orig))"

definition assemble ::
  "packed \<Rightarrow> original \<Rightarrow> bytes list \<Rightarrow> bytes \<Rightarrow> nat \<Rightarrow> rebuild_error + bytes \<times> nat" where
  "assemble pk orig sections buf rvamin =
     (let file_alignment = get_field orig 60 4; start = file_start pk orig sections;
          hend = headers_end pk orig sections; pe = pk_pe_offset pk; oh = oh_size (or_is64 orig)
      in
      if file_alignment = 0 \<or> file_alignment AND (file_alignment - 1) \<noteq> 0 then
        Inl (Upx (Damaged (FileAlignment file_alignment)))
      else if start < hend then Inl (Upx (Damaged (SectionInHeaders start hend)))
      else
        bind_r (lay_sections buf rvamin file_alignment 0 start sections) (\<lambda>(sections, pieces, cursor).
        let overlay = overlay_of pk; file_bytes = cursor + length overlay in
        if UNPACKED_CAP < file_bytes then Inl (Upx (NotRead (FileOverCap file_bytes)))
        else
          let out = put_at (replicate file_bytes 0) 0 (take pe (pk_data pk));
              out = put_at out pe (or_raw (finished_header start orig));
              out = foldl (\<lambda>out (i, s). put_at out (pe + oh + SECTION_ENTRY * i) s) out (enumerate 0 sections);
              out = foldl (\<lambda>out (file_at, at, bytes). put_at out file_at (slice_at buf at bytes)) out pieces;
              out = put_at out cursor overlay
          in Inr (out, length overlay)))"

end
