(* ===== verification/Upx_Tables.thy ===== *)
theory Upx_Tables
  imports Upx_Rebuild
begin

text \<open>
  The tables UPX takes apart and the reader puts back: the import table from UPX's records and
  the packed file's own library names, the export table UPX moved out of the image, and the
  resources it kept uncompressed with their directory.
\<close>

section \<open>The packed file's places\<close>

definition section_at_rva :: "packed \<Rightarrow> nat \<Rightarrow> section_header option" where
  "section_at_rva pk rva =
     List.find (\<lambda>s. sh_rva s \<le> rva \<and> rva < sh_rva s + max (sh_virtual_size s) (sh_raw_size s)) (pk_sections pk)"

text \<open>The file offset of an address, and where its section's file bytes end.\<close>

definition mapped :: "packed \<Rightarrow> nat \<Rightarrow> (nat \<times> nat) option" where
  "mapped pk rva =
     (case section_at_rva pk rva of
        None \<Rightarrow> None
      | Some s \<Rightarrow>
          if mapped_size s \<le> rva - sh_rva s then None
          else Some (sh_raw_offset s + (rva - sh_rva s), sh_raw_offset s + mapped_size s))"

definition packed_directory :: "packed \<Rightarrow> nat \<Rightarrow> nat \<times> nat" where
  "packed_directory pk index = (case map_of (pk_directories pk) index of Some d \<Rightarrow> d | None \<Rightarrow> (0, 0))"

text \<open>What the three steps name as damaged: where the code gives a place, the place.\<close>

datatype table_damage =
    NotInPackedFile nat
  | ImportTableMissing
  | ImportRecordsPastEnd nat
  | ImportNameUnended nat
  | LibraryNameOutside nat
  | LibraryNameUnended nat
  | DescriptorsDoNotFit nat
  | ImportNamesDoNotFit nat
  | NotAnOrdinal nat
  | ExportTableNotInFile
  | ExportNoLibraryName
  | ExportOutside nat
  | ExportStringUnended nat
  | ExportTooLarge
  | ResourceTableMissing
  | ResourceOutside nat
  | ResourceTooManyEntries
  | ResourceEmptyDirectory
  | ResourceNotThreeLevels
  | ResourceNamesTooLong
  | ResourceOriginZero nat
  | ResourceMovedTooMuch
  | ResourceDirectoryDoesNotFit nat

datatype table_error = Rebuild rebuild_error | Table table_damage

definition tab :: "upx_error + 'a \<Rightarrow> table_error + 'a" where
  "tab r = (case r of Inl e \<Rightarrow> Inl (Rebuild (Upx e)) | Inr v \<Rightarrow> Inr v)"

definition packed_read :: "packed \<Rightarrow> nat \<Rightarrow> nat \<Rightarrow> table_error + bytes" where
  "packed_read pk rva n =
     (case mapped pk rva of
        None \<Rightarrow> Inl (Table (NotInPackedFile rva))
      | Some (at, end) \<Rightarrow>
          if end < at + n then Inl (Table (NotInPackedFile rva)) else Inr (slice_at (pk_data pk) at n))"

definition find_nul :: "bytes \<Rightarrow> nat \<Rightarrow> nat \<Rightarrow> nat option" where
  "find_nul data start end = List.find (\<lambda>i. data ! i = 0) [start..<min end (length data)]"

lemma find_nul_bounds:
  assumes "find_nul data start end = Some i"
  shows "start \<le> i \<and> i < length data"
proof -
  from assms have "i \<in> set [start..<min end (length data)]"
    unfolding find_nul_def find_Some_iff by (metis nth_mem)
  then show ?thesis by simp
qed

definition put_word :: "bytes \<Rightarrow> nat \<Rightarrow> nat \<Rightarrow> nat \<Rightarrow> upx_error + bytes" where
  "put_word buf at v width = put buf at (le_bytes width v)"

section \<open>Imports\<close>

definition IMPORT :: nat where "IMPORT = 1"
definition IMPORT_DESCRIPTOR :: nat where "IMPORT_DESCRIPTOR = 20"

text \<open>One library's records from \<open>p\<close> on: where the next library's start, and the bytes of its names.\<close>

function import_entries :: "bytes \<Rightarrow> nat \<Rightarrow> nat \<Rightarrow> table_error + nat \<times> nat" where
  "import_entries buf p names =
     (if length buf \<le> p then Inl (Table (ImportRecordsPastEnd p))
      else if buf ! p = 0 then Inr (p + 1, names)
      else if buf ! p = 1 then
        (case find_nul buf (p + 1) (length buf) of
           None \<Rightarrow> Inl (Table (ImportNameUnended (p + 1)))
         | Some close \<Rightarrow> import_entries buf (close + 1) (names + (3 + close - p)))
      else if buf ! p = 0xFF then import_entries buf (p + 3) names
      else import_entries buf (p + 5) names)"
  by pat_completeness auto
termination
  by (relation "measure (\<lambda>(buf, p, names). length buf - p)") (auto dest!: find_nul_bounds)

declare import_entries.simps [simp del]

lemma import_entries_next: "import_entries buf p names = Inr (q, names') \<Longrightarrow> p < q"
proof (induction buf p names rule: import_entries.induct)
  case (1 buf p names)
  note step = "1.prems" [unfolded import_entries.simps [of buf p names]]
  show ?case
  proof (cases "length buf \<le> p \<or> buf ! p = 0")
    case True
    then show ?thesis using step by (auto split: if_splits)
  next
    case False
    then show ?thesis
      using step "1.IH" by (fastforce split: if_splits option.splits dest: find_nul_bounds)
  qed
qed

text \<open>Where each library's records start, and the name bytes of all of them.\<close>

function import_starts :: "bytes \<Rightarrow> nat \<Rightarrow> nat \<Rightarrow> table_error + nat list \<times> nat" where
  "import_starts buf p names =
     bind_r (tab (read_le buf p 4)) (\<lambda>v.
       if v = 0 then Inr ([], names)
       else bind_r (import_entries buf (p + 8) names) (\<lambda>(q, names').
         map_r (\<lambda>(starts, total_names). (p # starts, total_names)) (import_starts buf q names')))"
  by pat_completeness auto
termination
proof (relation "measure (\<lambda>(buf, p, names). length buf - p)", simp)
  fix buf :: bytes and p names v x q names'
  assume "tab (read_le buf p 4) = Inr v" "import_entries buf (p + 8) names = Inr x" "(q, names') = x"
  then have "p + 4 \<le> length buf" "p + 8 < q"
    by (auto simp: tab_def read_le_def dest: import_entries_next split: sum.splits if_splits)
  then show "((buf, q, names'), (buf, p, names)) \<in> measure (\<lambda>(buf, p, names). length buf - p)" by simp
qed

text \<open>
  The second pass over one library's records, writing as it goes: the buffer, the slot and the
  place of the next name move on; \<open>blen\<close> is the buffer's length.
\<close>

definition put_name ::
  "image \<Rightarrow> bool \<Rightarrow> nat \<Rightarrow> bytes \<Rightarrow> bytes \<Rightarrow> nat \<Rightarrow> nat \<Rightarrow> table_error + bytes \<times> nat" where
  "put_name im named names_start name buf slot names_at =
     (if named then
        let names_at = (if odd (names_at - names_start) then names_at - 1 else names_at) in
        bind_r (tab (put buf (names_at + 2) name)) (\<lambda>buf.
        map_r (\<lambda>buf. (buf, names_at + 2 + length name))
          (tab (put_word buf slot (names_at + im_rvamin im) (im_width im))))
      else
        bind_r (tab (read_le buf slot (im_width im))) (\<lambda>held.
        bind_r (tab (image_at im (held + 2))) (\<lambda>at.
        map_r (\<lambda>buf. (buf, names_at)) (tab (put buf at name)))))"

definition put_far_ordinal :: "image \<Rightarrow> nat \<Rightarrow> nat \<Rightarrow> bytes \<Rightarrow> nat \<Rightarrow> table_error + bytes" where
  "put_far_ordinal im packed_rva p buf slot =
     bind_r (tab (read_le buf (p + 1) 4)) (\<lambda>where.
     bind_r (packed_read (im_packed im) (packed_rva + where) (im_width im)) (\<lambda>v.
       if le v < 2 ^ (8 * im_width im - 1) then Inl (Table (NotAnOrdinal (packed_rva + where)))
       else tab (put_word buf slot (le v) (im_width im))))"

function import_slots ::
  "image \<Rightarrow> nat \<Rightarrow> bool \<Rightarrow> nat \<Rightarrow> nat \<Rightarrow> nat \<Rightarrow> bytes \<Rightarrow> nat \<Rightarrow> nat \<Rightarrow> table_error + bytes \<times> nat \<times> nat" where
  "import_slots im packed_rva named names_start blen p buf slot names_at =
     (if blen \<le> p then Inl (Table (ImportRecordsPastEnd p))
      else if buf ! p = 0 then Inr (buf, slot, names_at)
      else if buf ! p = 1 then
        (case find_nul buf (p + 1) blen of
           None \<Rightarrow> Inl (Table (ImportNameUnended (p + 1)))
         | Some close \<Rightarrow>
             bind_r (put_name im named names_start (slice_at buf (p + 1) (close - p)) buf slot names_at) (\<lambda>(buf, names_at).
             import_slots im packed_rva named names_start blen (close + 1) buf (slot + im_width im) names_at))
      else if buf ! p = 0xFF then
        bind_r (tab (read_le buf (p + 1) 2)) (\<lambda>ordinal.
        bind_r (tab (put_word buf slot (ordinal + 2 ^ (8 * im_width im - 1)) (im_width im))) (\<lambda>buf.
        import_slots im packed_rva named names_start blen (p + 3) buf (slot + im_width im) names_at))
      else
        bind_r (put_far_ordinal im packed_rva p buf slot) (\<lambda>buf.
        import_slots im packed_rva named names_start blen (p + 5) buf (slot + im_width im) names_at))"
  by pat_completeness auto
termination
  by (relation "measure (\<lambda>(im, packed_rva, named, names_start, blen, p, buf, slot, names_at). blen - p)")
    (auto dest!: find_nul_bounds)

declare import_slots.simps [simp del]

text \<open>The libraries in turn: records' start, and the library's name.\<close>

fun import_libraries ::
  "image \<Rightarrow> nat \<Rightarrow> bool \<Rightarrow> nat \<Rightarrow> (nat \<times> bytes) list \<Rightarrow> bytes \<Rightarrow> nat \<Rightarrow> nat \<Rightarrow> nat \<Rightarrow> table_error + bytes" where
  "import_libraries im packed_rva named names_start [] buf dll_at descriptor names_at = Inr buf"
| "import_libraries im packed_rva named names_start ((start, dll) # libs) buf dll_at descriptor names_at =
     bind_r (tab (read_le buf (start + 4) 4)) (\<lambda>iat.
     let iat_rva = iat + im_rvamin im in
     bind_r (if named then
          bind_r (tab (put buf dll_at (dll @ [0]))) (\<lambda>buf.
          map_r (\<lambda>buf. (buf, dll_at + length dll + 1)) (tab (put_word buf (descriptor + 12) (dll_at + im_rvamin im) 4)))
        else
          bind_r (tab (read_le buf (descriptor + 12) 4)) (\<lambda>held.
          bind_r (tab (image_at im held)) (\<lambda>at. map_r (\<lambda>buf. (buf, dll_at)) (tab (put buf at (dll @ [0]))))))
       (\<lambda>(buf, dll_at).
     bind_r (tab (put_word buf (descriptor + 16) iat_rva 4)) (\<lambda>buf.
     bind_r (tab (image_at im iat_rva)) (\<lambda>slot.
     bind_r (import_slots im packed_rva named names_start (length buf) (start + 8) buf slot names_at)
       (\<lambda>(buf, slot, names_at).
     bind_r (tab (put_word buf slot 0 (im_width im))) (\<lambda>buf.
     import_libraries im packed_rva named names_start libs buf dll_at (descriptor + IMPORT_DESCRIPTOR) names_at))))))"

text \<open>The library names of the packed import table, for the records' starts.\<close>

definition library_names :: "packed \<Rightarrow> bytes \<Rightarrow> nat \<Rightarrow> nat \<Rightarrow> nat list \<Rightarrow> table_error + (nat \<times> bytes) list" where
  "library_names pk buf base end starts =
     (let offsets = map (\<lambda>p. le (slice_at buf p 4) + base) starts;
          ends = map (\<lambda>o'. find_nul (pk_data pk) o' end) offsets
      in
      case List.find (\<lambda>o'. end \<le> o') offsets of
        Some o' \<Rightarrow> Inl (Table (LibraryNameOutside o'))
      | None \<Rightarrow>
          (case List.find (\<lambda>(o', e). e = None) (zip offsets ends) of
             Some (o', e) \<Rightarrow> Inl (Table (LibraryNameUnended o'))
           | None \<Rightarrow> Inr (zip starts (map (\<lambda>(o', e). slice_at (pk_data pk) o' (the e - o')) (zip offsets ends)))))"

definition rebuild_imports :: "image \<Rightarrow> table_error + image" where
  "rebuild_imports im =
     (let table = directory_of (im_original im) IMPORT; table_rva = fst table; buf = im_buf im;
          packed_rva = fst (packed_directory (im_packed im) IMPORT)
      in
      if table_rva = 0 \<or> snd table \<le> IMPORT_DESCRIPTOR then Inr im
      else
        bind_r (tab (record_le im 4)) (\<lambda>(idata, im).
        bind_r (tab (record_le im 4)) (\<lambda>(names_rva, im).
        case (if packed_rva = 0 then None else mapped (im_packed im) packed_rva) of
          None \<Rightarrow> Inl (Table ImportTableMissing)
        | Some (base, end) \<Rightarrow>
            bind_r (import_starts buf idata 0) (\<lambda>(starts, name_bytes).
            bind_r (library_names (im_packed im) buf base end starts) (\<lambda>libs.
            let total_dll = align (sum_list (map (\<lambda>l. length (snd l)) libs) + length libs) 2 in
            bind_r (tab (image_at im table_rva)) (\<lambda>descriptor.
            if length buf < descriptor + IMPORT_DESCRIPTOR * length libs then Inl (Table (DescriptorsDoNotFit table_rva))
            else
              bind_r (if names_rva = 0 then Inr 0 else tab (image_at im names_rva)) (\<lambda>dll_at.
              if names_rva \<noteq> 0 \<and> length buf < dll_at + total_dll + name_bytes then Inl (Table (ImportNamesDoNotFit names_rva))
              else map_r (\<lambda>buf. im\<lparr>im_buf := buf\<rparr>)
                (import_libraries im packed_rva (names_rva \<noteq> 0) (dll_at + total_dll) libs buf dll_at descriptor
                  (dll_at + total_dll)))))))))"

section \<open>Exports\<close>

definition EXPORT :: nat where "EXPORT = 0"
definition EXPORT_DIRECTORY :: nat where "EXPORT_DIRECTORY = 40"

text \<open>The packed file's export table as read: its directory, the functions, names and ordinals.\<close>

record exports =
  ex_directory :: bytes
  ex_library :: bytes
  ex_functions :: "(nat \<times> bytes option) list"  \<comment> \<open>a forwarder with its text\<close>
  ex_names :: "bytes list"
  ex_ordinals :: bytes

definition u32s :: "bytes \<Rightarrow> nat \<Rightarrow> nat \<Rightarrow> nat list" where
  "u32s data at n = map (\<lambda>i. le (slice_at data (at + 4 * i) 4)) [0..<n]"

definition read_exports :: "packed \<Rightarrow> nat \<Rightarrow> nat \<Rightarrow> table_error + exports" where
  "read_exports pk packed_rva packed_size =
     (case mapped pk packed_rva of
        None \<Rightarrow> Inl (Table ExportTableNotInFile)
      | Some (base, end) \<Rightarrow>
          if end < base + packed_size \<or> packed_size < EXPORT_DIRECTORY then Inl (Table ExportTableNotInFile)
          else
            let data = pk_data pk; limit = base + packed_size; field = (\<lambda>i. le (slice_at data (base + i) 4));
                count = field 20; names = field 24;
                offset_of = (\<lambda>rva n. if rva < packed_rva \<or> limit < base + (rva - packed_rva) + n
                  then Inl (Table (ExportOutside rva)) else Inr (base + (rva - packed_rva)))
            in
            if field 12 = 0 then Inl (Table ExportNoLibraryName)
            else
              bind_r (offset_of (field 12) 1) (\<lambda>name_at.
              bind_r (offset_of (field 28) (4 * count)) (\<lambda>functions_at.
              bind_r (offset_of (field 32) (4 * names)) (\<lambda>pointers_at.
              bind_r (offset_of (field 36) (2 * names)) (\<lambda>ordinals_at.
              let functions = u32s data functions_at count; name_rvas = u32s data pointers_at names;
                  forwarded = (\<lambda>f. packed_rva \<le> f \<and> f < packed_rva + packed_size);
                  offset = (\<lambda>rva. base + (rva - packed_rva));
                  starts = [name_at] @ map offset (filter forwarded functions) @ map offset name_rvas;
                  text = (\<lambda>at. slice_at data at (case find_nul data at limit of Some e \<Rightarrow> e - at | None \<Rightarrow> 0))
              in
              case List.find (\<lambda>r. r < packed_rva) name_rvas of
                Some r \<Rightarrow> Inl (Table (ExportOutside r))
              | None \<Rightarrow>
                  (case List.find (\<lambda>r. limit \<le> offset r) name_rvas of
                     Some r \<Rightarrow> Inl (Table (ExportOutside r))
                   | None \<Rightarrow>
                       (case List.find (\<lambda>at. find_nul data at limit = None) starts of
                          Some at \<Rightarrow> Inl (Table (ExportStringUnended at))
                        | None \<Rightarrow> Inr
                            \<lparr>ex_directory = slice_at data base EXPORT_DIRECTORY, ex_library = text name_at,
                             ex_functions = map (\<lambda>f. (f, if forwarded f then Some (text (offset f)) else None)) functions,
                             ex_names = map (\<lambda>r. text (offset r)) name_rvas,
                             ex_ordinals = slice_at data ordinals_at (2 * names)\<rparr>)))))))"

text \<open>Texts laid one after another from \<open>cursor\<close> on: where each starts.\<close>

fun text_places :: "nat \<Rightarrow> bytes list \<Rightarrow> nat list" where
  "text_places cursor [] = []"
| "text_places cursor (t # ts) = cursor # text_places (cursor + length t + 1) ts"

definition laid_texts :: "bytes list \<Rightarrow> bytes" where
  "laid_texts ts = concat (map (\<lambda>t. t @ [0]) ts)"

fun function_values :: "(nat \<times> bytes option) list \<Rightarrow> nat list \<Rightarrow> nat list" where
  "function_values ((f, Some t) # fs) (p # ps) = p # function_values fs ps"
| "function_values ((f, None) # fs) ps = f # function_values fs ps"
| "function_values _ _ = []"

text \<open>The table UPX moved, laid out at \<open>table_rva\<close>; a place past 32 bits is a \<open>struct.error\<close>.\<close>

definition lay_exports :: "nat \<Rightarrow> exports \<Rightarrow> table_error + bytes" where
  "lay_exports table_rva ex =
     (let count = length (ex_functions ex); names = length (ex_names ex);
          functions_new = table_rva + EXPORT_DIRECTORY; pointers_new = functions_new + 4 * count;
          ordinals_new = pointers_new + 4 * names; name_new = ordinals_new + 2 * names;
          forwards = List.map_filter snd (ex_functions ex);
          texts = ex_library ex # forwards @ ex_names ex;
          places = text_places name_new texts;
          functions = function_values (ex_functions ex) (slice_at places 1 (length forwards));
          pointers = drop (1 + length forwards) places;
          directory = put_at (put_at (ex_directory ex) 12 (le_bytes 4 name_new)) 28
            (le_bytes 4 functions_new @ le_bytes 4 pointers_new @ le_bytes 4 ordinals_new);
          out = directory @ concat (map (le_bytes 4) functions) @ concat (map (le_bytes 4) pointers) @
            ex_ordinals ex @ laid_texts texts
      in if list_ex (\<lambda>v. 2 ^ 32 \<le> v) ([name_new, functions_new, pointers_new, ordinals_new] @ functions @ pointers)
         then Inl (Rebuild StructError)
         else Inr (out @ replicate (align (length out) 4 - length out) 0))"

definition rebuild_exports :: "image \<Rightarrow> table_error + image" where
  "rebuild_exports im =
     (let table = directory_of (im_original im) EXPORT; pd = packed_directory (im_packed im) EXPORT in
      if snd table = 0 \<or> fst table = fst pd \<or> align (snd pd) 4 = 0 then Inr im
      else
        bind_r (read_exports (im_packed im) (fst pd) (snd pd)) (\<lambda>ex.
        if length (im_buf im) < EXPORT_DIRECTORY + 4 * length (ex_functions ex) + 6 * length (ex_names ex) +
             length (laid_texts (ex_library ex # List.map_filter snd (ex_functions ex) @ ex_names ex))
        then Inl (Table ExportTooLarge)
        else
          bind_r (lay_exports (fst table) ex) (\<lambda>out.
          bind_r (tab (image_at im (fst table))) (\<lambda>at.
          map_r (\<lambda>buf. im\<lparr>im_buf := buf\<rparr>) (tab (put (im_buf im) at out))))))"

section \<open>Resources\<close>

definition RESOURCE :: nat where "RESOURCE = 2"
definition RT_GROUP_ICON :: nat where "RT_GROUP_ICON = 14"

text \<open>The packed file's resource tree, read in place: where it starts and where its section's bytes end.\<close>

record resources =
  rs_packed :: packed
  rs_start :: nat
  rs_end :: nat
  rs_packed_rva :: nat

definition open_resources :: "packed \<Rightarrow> nat \<Rightarrow> nat \<Rightarrow> table_error + resources" where
  "open_resources pk root_rva packed_rva =
     (case mapped pk root_rva of
        None \<Rightarrow> Inl (Table ResourceTableMissing)
      | Some (start, end) \<Rightarrow>
          Inr \<lparr>rs_packed = pk, rs_start = start, rs_end = end, rs_packed_rva = packed_rva\<rparr>)"

definition rs_held :: "resources \<Rightarrow> nat" where "rs_held r = rs_end r - rs_start r"
definition rs_data :: "resources \<Rightarrow> bytes" where "rs_data r = pk_data (rs_packed r)"

definition rs_at :: "resources \<Rightarrow> nat \<Rightarrow> nat \<Rightarrow> table_error + nat" where
  "rs_at r offset n =
     (if rs_end r < rs_start r + offset + n then Inl (Table (ResourceOutside offset)) else Inr (rs_start r + offset))"

definition rs_count :: "resources \<Rightarrow> nat \<Rightarrow> table_error + nat" where
  "rs_count r offset =
     bind_r (rs_at r offset 16) (\<lambda>at.
       let n = u_at (rs_data r) (at + 12) 2 + u_at (rs_data r) (at + 14) 2 in
       map_r (\<lambda>_. n) (rs_at r (offset + 16) (8 * n)))"

text \<open>A directory's entries: a name (or number) and a child.\<close>

definition rs_entry :: "resources \<Rightarrow> nat \<Rightarrow> nat \<Rightarrow> nat \<times> nat" where
  "rs_entry r offset index =
     (let at = rs_start r + offset + 16 + 8 * index in (u_at (rs_data r) at 4, u_at (rs_data r) (at + 4) 4))"

definition rs_entries :: "resources \<Rightarrow> nat \<Rightarrow> nat \<Rightarrow> (nat \<times> nat) list" where
  "rs_entries r offset n = map (rs_entry r offset) [0..<n]"

definition high :: "nat \<Rightarrow> bool" where "high v \<longleftrightarrow> odd (v div 2 ^ 31)"
definition low31 :: "nat \<Rightarrow> nat" where "low31 v = v mod 2 ^ 31"

definition rs_name_length :: "resources \<Rightarrow> nat \<Rightarrow> table_error + nat" where
  "rs_name_length r name =
     bind_r (rs_at r (low31 name) 2) (\<lambda>at.
       let n = 2 + 2 * u_at (rs_data r) at 2 in map_r (\<lambda>_. n) (rs_at r (low31 name) n))"

text \<open>The steps of a list in turn, the first error ending them.\<close>

primrec fold_r :: "('a \<Rightarrow> 's \<Rightarrow> 'e + 's) \<Rightarrow> 'a list \<Rightarrow> 's \<Rightarrow> 'e + 's" where
  "fold_r f [] s = Inr s"
| "fold_r f (x # xs) s = bind_r (f x s) (fold_r f xs)"

text \<open>
  \<open>measure\<close>: what is left of the budget, and the sizes counted. The tree's depth is at most
  three levels below the root, so the walk recurses on the levels left.
\<close>

record sizes =
  sz_budget :: nat
  sz_directory :: nat
  sz_names :: nat

definition count_name :: "resources \<Rightarrow> nat \<Rightarrow> sizes \<Rightarrow> table_error + sizes" where
  "count_name r name sz =
     (if \<not> high name then Inr sz
      else bind_r (rs_name_length r name) (\<lambda>n.
        if rs_held r < sz_names sz + n then Inl (Table ResourceNamesTooLong)
        else Inr (sz\<lparr>sz_names := sz_names sz + n\<rparr>)))"

primrec measure_walk :: "nat \<Rightarrow> resources \<Rightarrow> nat \<Rightarrow> sizes \<Rightarrow> table_error + sizes" where
  "measure_walk 0 r offset sz =
     (if sz_budget sz = 0 then Inl (Table ResourceTooManyEntries)
      else map_r (\<lambda>_. sz\<lparr>sz_budget := sz_budget sz - 1, sz_directory := sz_directory sz + 16\<rparr>) (rs_at r offset 16))"
| "measure_walk (Suc levels) r offset sz =
     (if sz_budget sz = 0 then Inl (Table ResourceTooManyEntries)
      else
        bind_r (rs_count r offset) (\<lambda>n.
        if n = 0 then Inl (Table ResourceEmptyDirectory)
        else
          map_r (\<lambda>sz. sz\<lparr>sz_directory := sz_directory sz + (16 + 8 * n)\<rparr>)
            (fold_r (\<lambda>(name, child) sz.
               if high child \<noteq> (0 < levels) then Inl (Table ResourceNotThreeLevels)
               else bind_r (count_name r name sz) (measure_walk levels r (low31 child)))
             (rs_entries r offset n) (sz\<lparr>sz_budget := sz_budget sz - 1\<rparr>))))"

text \<open>Whether the tree holds anything, and its sizes.\<close>

definition measure_tree :: "resources \<Rightarrow> table_error + bool \<times> sizes" where
  "measure_tree r =
     (let sz = \<lparr>sz_budget = rs_held r div 8 + 1, sz_directory = 0, sz_names = 0\<rparr> in
      bind_r (rs_count r 0) (\<lambda>n.
        if n = 0 then Inr (False, sz) else map_r (\<lambda>sz. (True, sz)) (measure_walk 3 r 0 sz)))"

text \<open>\<open>leaves\<close>: each data entry's offset and the number of its type.\<close>

primrec leaves_walk :: "nat \<Rightarrow> resources \<Rightarrow> nat option \<Rightarrow> nat \<Rightarrow> table_error + (nat \<times> nat) list" where
  "leaves_walk 0 r type_id offset = Inr [(offset, case type_id of Some t \<Rightarrow> t | None \<Rightarrow> 0)]"
| "leaves_walk (Suc levels) r type_id offset =
     bind_r (rs_count r offset) (\<lambda>n.
       fold_r (\<lambda>(name, child) found.
           map_r (\<lambda>new. found @ new)
             (leaves_walk levels r (Some (case type_id of Some t \<Rightarrow> t | None \<Rightarrow> name)) (low31 child)))
         (rs_entries r offset n) [])"

definition leaves :: "resources \<Rightarrow> table_error + (nat \<times> nat) list" where
  "leaves r = leaves_walk 3 r None 0"

text \<open>Where the data of an entry came from; \<^const>\<open>None\<close> where UPX did not move it.\<close>

definition moved_origin :: "resources \<Rightarrow> nat \<Rightarrow> table_error + nat option" where
  "moved_origin r offset =
     (let data_rva = u_at (rs_data r) (rs_start r + offset) 4 in
      if data_rva \<le> rs_packed_rva r then Inr None
      else if data_rva < 4 then Inl (Table (NotInPackedFile 0))
      else bind_r (packed_read (rs_packed r) (data_rva - 4) 4) (\<lambda>b.
        if le b = 0 then Inl (Table (ResourceOriginZero data_rva)) else Inr (Some (le b))))"

text \<open>\<open>build\<close>: the bytes written so far, the next directory byte and the next name byte.\<close>

record built =
  bd_out :: bytes
  bd_next :: nat
  bd_name :: nat

definition emit_name :: "resources \<Rightarrow> nat \<Rightarrow> built \<Rightarrow> table_error + nat \<times> built" where
  "emit_name r name bd =
     (if \<not> high name then Inr (name, bd)
      else map_r (\<lambda>n. (bd_name bd + 2 ^ 31,
          bd\<lparr>bd_out := put_at (bd_out bd) (bd_name bd) (slice_at (rs_data r) (rs_start r + low31 name) n),
             bd_name := bd_name bd + n\<rparr>)) (rs_name_length r name))"

definition emit_leaf :: "resources \<Rightarrow> nat \<Rightarrow> built \<Rightarrow> table_error + built" where
  "emit_leaf r offset bd =
     map_r (\<lambda>origin.
       let entry = slice_at (rs_data r) (rs_start r + offset) 16;
           entry = (case origin of Some v \<Rightarrow> put_at entry 0 (le_bytes 4 v) | None \<Rightarrow> entry)
       in bd\<lparr>bd_out := put_at (bd_out bd) (bd_next bd) entry, bd_next := bd_next bd + 16\<rparr>) (moved_origin r offset)"

primrec emit :: "nat \<Rightarrow> resources \<Rightarrow> nat \<Rightarrow> built \<Rightarrow> table_error + built" where
  "emit 0 r offset bd = emit_leaf r offset bd"
| "emit (Suc levels) r offset bd =
     bind_r (rs_count r offset) (\<lambda>n.
       let at = bd_next bd in
       fold_r (\<lambda>(index, name, child) bd.
           bind_r (emit_name r name bd) (\<lambda>(tag, bd).
             let pointer = bd_next bd + (if 0 < levels then 2 ^ 31 else 0) in
             emit levels r (low31 child)
               (bd\<lparr>bd_out := put_at (bd_out bd) (at + 16 + 8 * index) (le_bytes 4 tag @ le_bytes 4 pointer)\<rparr>)))
         (enumerate 0 (rs_entries r offset n))
         (bd\<lparr>bd_out := put_at (bd_out bd) at (slice_at (rs_data r) (rs_start r + offset) 16),
             bd_next := at + 16 + 8 * n\<rparr>))"

definition tree_bytes :: "sizes \<Rightarrow> nat" where
  "tree_bytes sz = align (sz_directory sz + sz_names sz) 4"

definition build :: "resources \<Rightarrow> sizes \<Rightarrow> table_error + bytes" where
  "build r sz =
     map_r bd_out (emit 3 r 0 \<lparr>bd_out = replicate (tree_bytes sz) 0, bd_next = 0, bd_name = sz_directory sz\<rparr>)"

text \<open>
  One data entry moved back: the buffer, the bytes moved so far and the icon count still to be
  written into the first group icon.
\<close>

definition move_leaf ::
  "image \<Rightarrow> resources \<Rightarrow> nat \<times> nat \<Rightarrow> bytes \<times> nat \<times> nat \<Rightarrow> table_error + bytes \<times> nat \<times> nat" where
  "move_leaf im r leaf st =
     (case (leaf, st) of ((offset, type_id), (buf, moved, icons)) \<Rightarrow>
        bind_r (moved_origin r offset) (\<lambda>found.
        case found of
          None \<Rightarrow> Inr (buf, moved, icons)
        | Some origin \<Rightarrow>
            let data_rva = u_at (rs_data r) (rs_start r + offset) 4;
                n = u_at (rs_data r) (rs_start r + offset + 4) 4
            in
            if rs_held r < moved + n then Inl (Table ResourceMovedTooMuch)
            else
              bind_r (tab (image_at im origin)) (\<lambda>at.
              bind_r (packed_read (rs_packed r) data_rva n) (\<lambda>new.
              bind_r (tab (put buf at new)) (\<lambda>buf.
              if icons \<noteq> 0 \<and> type_id = RT_GROUP_ICON then
                map_r (\<lambda>buf. (buf, moved + n, 0)) (tab (put_word buf (at + 4) icons 2))
              else Inr (buf, moved + n, icons))))))"

definition rebuild_resources :: "image \<Rightarrow> table_error + image" where
  "rebuild_resources im =
     (let table = directory_of (im_original im) RESOURCE; pd = packed_directory (im_packed im) RESOURCE in
      if snd table = 0 \<or> snd pd = 0 then Inr im
      else
        bind_r (tab (record_le im 2)) (\<lambda>(icons, im).
        bind_r (open_resources (im_packed im) (fst pd) (fst pd)) (\<lambda>r.
        bind_r (measure_tree r) (\<lambda>(holds, sz).
        bind_r (if holds then leaves r else Inr []) (\<lambda>ls.
        bind_r (fold_r (move_leaf im r) ls (im_buf im, 0, icons)) (\<lambda>(buf, moved, icons).
        let im = im\<lparr>im_buf := buf\<rparr> in
        if \<not> holds then Inr im
        else
          bind_r (tab (image_at im (fst table))) (\<lambda>directory_at.
          bind_r (tab (read_le buf (directory_at + 12) 4)) (\<lambda>held.
          if held \<noteq> 0 then Inr im
          else if length buf < directory_at + tree_bytes sz then Inl (Table (ResourceDirectoryDoesNotFit (fst table)))
          else
            bind_r (build r sz) (\<lambda>out.
            map_r (\<lambda>buf. im\<lparr>im_buf := buf\<rparr>) (tab (put buf directory_at out)))))))))))"

end
