(* ===== verification/Upx_Unpack.thy ===== *)
theory Upx_Unpack
  imports Upx_Tables
begin

text \<open>
  The whole unpack (\<open>_unpack\<close> and \<open>unpack\<close> of \<open>tools/upx.py\<close>): what is held against the pack
  header before and after the data is decompressed, the stored headers, the code filter, the
  rebuild steps in the code's order, and the file put together. The LZMA decoder stays a
  parameter.
\<close>

section \<open>Adler-32\<close>

text \<open>\<open>zlib.adler32\<close>.\<close>

definition adler_step :: "nat \<times> nat \<Rightarrow> byte \<Rightarrow> nat \<times> nat" where
  "adler_step ab x = (let a = (fst ab + unat x) mod 65521 in (a, (snd ab + a) mod 65521))"

definition adler32 :: "bytes \<Rightarrow> nat" where
  "adler32 data = (let ab = foldl adler_step (1, 0) data in snd ab * 2 ^ 16 + fst ab)"

section \<open>Before the data is read\<close>

definition known_method :: "nat \<Rightarrow> decoder option" where
  "known_method m = map_option snd (map_of METHODS m)"

text \<open>The refusals and the damage the header and the packed file show, in the code's order.\<close>

definition check_header :: "packed \<Rightarrow> pack_header \<Rightarrow> upx_error + unit" where
  "check_header pk h =
     (if ph_format h \<notin> set FORMATS then Inl (NotRead (FormatNotRead (ph_offset h) (ph_format h)))
      else if pk_machine pk \<noteq> machine_of_format (ph_format h) then
        Inl (NotRead (MachineMismatch (ph_format h) (pk_machine pk)))
      else if known_method (ph_method h) = None then Inl (NotRead (MethodNotRead (ph_method h)))
      else if ph_filter h \<noteq> 0 \<and> map_of FILTERS (ph_filter h) = None then Inl (NotRead (FilterNotRead (ph_filter h)))
      else if UNPACKED_CAP < ph_u_len h then Inl (NotRead (OverCap (ph_u_len h)))
      else if pk_size_of_image pk < ph_u_len h then
        Inl (Damaged (MoreThanTheImage (ph_u_len h) (pk_size_of_image pk)))
      else if length (pk_data pk) < data_offset h + ph_c_len h then
        Inl (Damaged (CutShort (data_offset h + ph_c_len h) (length (pk_data pk))))
      else Inr ())"

text \<open>The decompressed data, both checksums held to the header's.\<close>

definition checked_data :: "lzma_raw \<Rightarrow> packed \<Rightarrow> pack_header \<Rightarrow> upx_error + bytes" where
  "checked_data raw pk h =
     (let stream = slice_at (pk_data pk) (data_offset h) (ph_c_len h) in
      if adler32 stream \<noteq> ph_c_adler h then Inl (Damaged (CompressedAdler (adler32 stream) (ph_c_adler h)))
      else
        bind_r (case known_method (ph_method h) of
            Some d \<Rightarrow> decompress raw d stream (ph_u_len h)
          | None \<Rightarrow> Inl (NotRead (MethodNotRead (ph_method h)))) (\<lambda>buf.
        if adler32 buf \<noteq> ph_u_adler h then Inl (Damaged (UnpackedAdler (adler32 buf) (ph_u_adler h))) else Inr buf))"

section \<open>The stored headers\<close>

text \<open>The stored PE header, the section table after it, and where the records start.\<close>

definition stored_headers :: "pack_header \<Rightarrow> bytes \<Rightarrow> upx_error + original \<times> bytes list \<times> nat" where
  "stored_headers h buf =
     (let is64 = (ph_format h = FORMAT_WIN64_PEP); u_len = ph_u_len h in
      if u_len < 4 then Inl (outside (int u_len - 4))
      else
        bind_r (read_le buf (u_len - 4) 4) (\<lambda>records_at.
        if u_len < records_at + oh_size is64 then Inl (Damaged (StoredHeaderOutside records_at))
        else
          let orig = \<lparr>or_raw = slice_at buf records_at (oh_size is64), or_is64 = is64\<rparr>;
              objects = get_field orig 6 2; table_at = records_at + oh_size is64
          in
          if take 4 (or_raw orig) \<noteq> [0x50, 0x45, 0, 0] \<or> get_field orig 24 2 \<noteq> (if is64 then 0x20B else 0x10B) then
            Inl (Damaged (StoredHeaderNotPe records_at))
          else if objects = 0 \<or> u_len < table_at + SECTION_ENTRY * objects then
            Inl (Damaged (SectionTableOutside table_at))
          else Inr (orig, map (\<lambda>i. slice_at buf (table_at + SECTION_ENTRY * i) SECTION_ENTRY) [0..<objects],
                    table_at + SECTION_ENTRY * objects)))"

text \<open>The code filter undone over the stored header's code range; how many targets were put back.\<close>

definition undo_filter :: "pack_header \<Rightarrow> original \<Rightarrow> nat \<Rightarrow> bytes \<Rightarrow> upx_error + bytes \<times> nat" where
  "undo_filter h orig rvamin buf =
     (if ph_filter h = 0 then Inr (buf, 0)
      else
        let code_base = get_field orig 44 4; code_bytes = get_field orig 28 4 in
        if code_base < rvamin \<or> ph_u_len h < code_base - rvamin + code_bytes then
          Inl (Damaged (CodeRangeOutside code_base code_bytes))
        else
          case map_of FILTERS (ph_filter h) of
            None \<Rightarrow> Inl (NotRead (FilterNotRead (ph_filter h)))
          | Some ops \<Rightarrow> Inr (unfilter ops (ph_filter_cto h) buf (code_base - rvamin) code_bytes))"

text \<open>A packed file whose relocations are stripped strips them of the program too.\<close>

definition strip_relocations :: "packed \<Rightarrow> original \<Rightarrow> original" where
  "strip_relocations pk orig =
     (if odd (pk_flags pk)
      then set_directory BASERELOC 0 0 (set_field 22 2 (get_field orig 22 2 OR RELOCS_STRIPPED) orig)
      else orig)"

section \<open>The steps\<close>

definition reb :: "rebuild_error + 'a \<Rightarrow> table_error + 'a" where
  "reb r = (case r of Inl e \<Rightarrow> Inl (Rebuild e) | Inr v \<Rightarrow> Inr v)"

definition rebuild :: "image \<Rightarrow> table_error + image" where
  "rebuild im =
     bind_r (rebuild_imports im) (\<lambda>im.
     bind_r (reb (rebuild_relocations im)) (\<lambda>im.
     bind_r (rebuild_exports im) rebuild_resources))"

definition DEBUG :: nat where "DEBUG = 6"
definition IAT :: nat where "IAT = 12"
definition BOUND_IMPORT :: nat where "BOUND_IMPORT = 11"

text \<open>The directories that no longer hold, and the checksum.\<close>

definition clear_directories :: "original \<Rightarrow> original" where
  "clear_directories orig =
     set_field 88 4 0 (set_directory BOUND_IMPORT 0 0 (set_directory IAT 0 0 (set_directory DEBUG 0 0 orig)))"

record unpacked =
  un_header :: pack_header
  un_image :: bytes
  un_u_adler :: nat
  un_c_adler :: nat
  un_over_filtered :: bool  \<comment> \<open>what the unpacked checksum was computed over\<close>
  un_entry_point :: nat
  un_targets :: "nat option"  \<comment> \<open>the filter's targets put back, when there is a filter\<close>
  un_overlay :: nat

definition unpack_with :: "lzma_raw \<Rightarrow> packed \<Rightarrow> pack_header \<Rightarrow> table_error + unpacked" where
  "unpack_with raw pk h =
     bind_r (tab (check_header pk h)) (\<lambda>_.
     bind_r (tab (checked_data raw pk h)) (\<lambda>plain.
     bind_r (tab (stored_headers h plain)) (\<lambda>(orig, sections, records).
     let rvamin = le (slice_at (hd sections) 12 4) in
     bind_r (tab (undo_filter h orig rvamin plain)) (\<lambda>(buf, targets).
     bind_r (rebuild \<lparr>im_buf = buf, im_original = strip_relocations pk orig, im_rvamin = rvamin,
         im_packed = pk, im_records = records\<rparr>) (\<lambda>im.
     let orig = clear_directories (im_original im) in
     map_r (\<lambda>(file, overlay).
         \<lparr>un_header = h, un_image = file, un_u_adler = adler32 plain,
          un_c_adler = adler32 (slice_at (pk_data pk) (data_offset h) (ph_c_len h)),
          un_over_filtered = (ph_filter h \<noteq> 0), un_entry_point = get_field orig 40 4,
          un_targets = (if ph_filter h = 0 then None else Some targets), un_overlay = overlay\<rparr>)
       (reb (assemble pk orig sections (im_buf im) rvamin)))))))"

text \<open>The errors the code raises itself carry the header once it is read; a \<open>struct.error\<close> does not.\<close>

definition with_header :: "pack_header \<Rightarrow> table_error + 'a \<Rightarrow> table_error \<times> pack_header option + 'a" where
  "with_header h r =
     (case r of Inr v \<Rightarrow> Inr v
      | Inl e \<Rightarrow> Inl (e, if e = Rebuild StructError then None else Some h))"

definition unpack :: "lzma_raw \<Rightarrow> bytes \<Rightarrow> table_error \<times> pack_header option + unpacked" where
  "unpack raw data =
     (case read_packed data of
        Inl e \<Rightarrow> Inl (Rebuild (Upx e), None)
      | Inr pk \<Rightarrow>
          (case find_header pk of
             Inl (e, h) \<Rightarrow> Inl (Rebuild (Upx e), h)
           | Inr h \<Rightarrow> with_header h (unpack_with raw pk h)))"

end
