(* ===== verification/Upx_Proofs.thy ===== *)
theory Upx_Proofs
  imports Upx_Stream Upx_Unpack
begin

text \<open>
  What the UPX properties share: writing in place, the code filter against the packer's filter,
  and the relocation records read a piece at a time against the records read one by one.
\<close>

section \<open>Writing in place\<close>

lemma length_slice_at [simp]: "length (slice_at buf at n) = min n (length buf - at)"
  by (auto simp: slice_at_def)

lemma nth_slice_at [simp]: "i < n \<Longrightarrow> at + i < length buf \<Longrightarrow> slice_at buf at n ! i = buf ! (at + i)"
  by (simp add: slice_at_def)

lemma length_put_at [simp]: "at + length new \<le> length buf \<Longrightarrow> length (put_at buf at new) = length buf"
  by (simp add: put_at_def)

lemma nth_put_at:
  assumes "at + length new \<le> length buf" "i < length buf"
  shows "put_at buf at new ! i = (if at \<le> i \<and> i < at + length new then new ! (i - at) else buf ! i)"
  using assms by (auto simp: put_at_def nth_append)

lemma slice_at_eqI:
  assumes "at + n \<le> length a" "at + n \<le> length b" "\<And>i. at \<le> i \<Longrightarrow> i < at + n \<Longrightarrow> a ! i = b ! i"
  shows "slice_at a at n = slice_at b at n"
  using assms by (intro nth_equalityI) auto

lemma slice_put_at:
  assumes "at + length new \<le> length buf" "n = length new"
  shows "slice_at (put_at buf at new) at n = new"
  using assms by (intro nth_equalityI) (auto simp: nth_put_at)

lemma slice_put_at_apart:
  assumes "at + length new \<le> length buf" "p + n \<le> at \<or> at + length new \<le> p" "p + n \<le> length buf"
  shows "slice_at (put_at buf at new) p n = slice_at buf p n"
  using assms by (intro slice_at_eqI) (auto simp: nth_put_at)

lemma put_at_again:
  assumes "at + length new \<le> length buf" "length new' = length new"
  shows "put_at (put_at buf at new) at new' = put_at buf at new'"
  using assms by (intro nth_equalityI) (auto simp: nth_put_at)

lemma put_at_slice: "at + n \<le> length buf \<Longrightarrow> put_at buf at (slice_at buf at n) = buf"
  by (intro nth_equalityI) (auto simp: nth_put_at)

lemma put_at_commute:
  assumes "p + length a \<le> q" "q + length b \<le> length buf"
  shows "put_at (put_at buf p a) q b = put_at (put_at buf q b) p a"
  using assms by (intro nth_equalityI) (auto simp: nth_put_at)

section \<open>The code filter\<close>

text \<open>
  The packer's filter: an opcode's little-endian displacement becomes the big-endian target from
  the start of the image with the marker in its top byte, where the target leaves that byte free.
  A marker must follow no other opcode: \<^const>\<open>None\<close> where one does.
\<close>

function filter_scan :: "byte list \<Rightarrow> nat \<Rightarrow> nat \<Rightarrow> nat \<Rightarrow> bytes \<Rightarrow> nat \<Rightarrow> (bytes \<times> nat) option" where
  "filter_scan ops cto stop at buf written =
     (if stop \<le> at + 1 then Some (buf, written)
      else if buf ! at \<in> set ops then
        let target = (le (slice_at buf (at + 1) 4) + at + 1) mod 2 ^ 32 in
        if target < 2 ^ 24 then
          filter_scan ops cto stop (at + 5)
            (put_at buf (at + 1) (rev (le_bytes 4 (target + cto * 2 ^ 24)))) (written + 1)
        else if unat (buf ! (at + 1)) = cto then None
        else filter_scan ops cto stop (at + 1) buf written
      else filter_scan ops cto stop (at + 1) buf written)"
  by pat_completeness auto
termination
  by (relation "measure (\<lambda>(ops, cto, stop, at, buf, written). stop - at)") auto

declare filter_scan.simps [simp del]

definition filter_code :: "byte list \<Rightarrow> nat \<Rightarrow> bytes \<Rightarrow> nat \<Rightarrow> nat \<Rightarrow> (bytes \<times> nat) option" where
  "filter_code ops cto buf start len = filter_scan ops cto (filter_stop (length buf) start len) start buf 0"

lemma filter_scan_before:
  assumes "filter_scan ops cto stop at buf n = Some (buf', n')" "stop + 3 \<le> length buf"
  shows "length buf' = length buf \<and> (\<forall>i \<le> at. i < length buf \<longrightarrow> buf' ! i = buf ! i)"
  using assms
proof (induction ops cto stop at buf n rule: filter_scan.induct)
  case (1 ops cto stop at buf n)
  note step = "1.prems"(1) [unfolded filter_scan.simps [of ops cto stop at buf n] Let_def]
  show ?case
    using step "1.IH" "1.prems"(2) by (auto simp: nth_put_at split: if_splits)
qed

lemma displacement_of_target:
  assumes "d < 2 ^ 32" "cto < 256" "(d + at + 1) mod 2 ^ 32 < 2 ^ 24"
  shows "displacement cto at ((d + at + 1) mod 2 ^ 32 + cto * 2 ^ 24) = d"
proof -
  have "(int ((d + at + 1) mod 2 ^ 32 + cto * 2 ^ 24) - int at - 1 - int cto * 2 ^ 24) mod 2 ^ 32
      = (int (d + at + 1) mod 2 ^ 32 - (int at + 1)) mod 2 ^ 32"
    by (simp add: of_nat_mod algebra_simps)
  also have "\<dots> = (int (d + at + 1) - (int at + 1)) mod 2 ^ 32" by (rule mod_diff_left_eq)
  also have "\<dots> = int d" using assms(1) by simp
  finally show ?thesis unfolding displacement_def by simp
qed

lemma unfilter_scan_put:
  assumes "p + length new \<le> at" "stop + 3 \<le> length buf"
  shows "unfilter_scan ops cto stop at (put_at buf p new) n =
    map_prod (\<lambda>b. put_at b p new) id (unfilter_scan ops cto stop at buf n)"
  using assms
proof (induction ops cto stop at buf n rule: unfilter_scan.induct)
  case (1 ops cto stop at buf n)
  show ?case
  proof (cases "stop \<le> at + 1")
    case True
    then show ?thesis by (simp add: unfilter_scan.simps [of _ _ _ at])
  next
    case False
    with "1.prems" have in_buf: "put_at buf p new ! at = buf ! at" "put_at buf p new ! (at + 1) = buf ! (at + 1)"
      "slice_at (put_at buf p new) (at + 1) 4 = slice_at buf (at + 1) 4"
      by (auto simp: nth_put_at intro!: slice_put_at_apart)
    show ?thesis
    proof (cases "buf ! at \<in> set ops \<and> unat (buf ! (at + 1)) = cto")
      case True
      let ?d = "le_bytes 4 (displacement cto at (be (slice_at buf (at + 1) 4)))"
      have c: "put_at (put_at buf p new) (at + 1) ?d = put_at (put_at buf (at + 1) ?d) p new"
        using False "1.prems" by (intro put_at_commute) auto
      have l: "stop + 3 \<le> length (put_at buf (at + 1) ?d)" using False "1.prems" by simp
      show ?thesis
        using "1.IH"(1) [OF False True _ l] "1.prems"(1) False True
        unfolding unfilter_scan.simps [of ops cto stop at buf] unfilter_scan.simps [of ops cto stop at "put_at buf p new"] in_buf c
        by simp
    next
      case other: False
      show ?thesis
        using "1.IH"(2) [OF False other _ "1.prems"(2)] "1.prems"(1) False other
        unfolding unfilter_scan.simps [of ops cto stop at buf] unfilter_scan.simps [of ops cto stop at "put_at buf p new"] in_buf
        by (cases "buf ! at \<in> set ops") auto
    qed
  qed
qed

lemma first_of_four: "rev (le_bytes 4 v) ! 0 = word_of_nat (v div 2 ^ 24)"
proof -
  have four: "4 = Suc (Suc (Suc (Suc 0)))" by simp
  have "rev (le_bytes 4 v) ! 0 = word_of_nat (v div 256 div 256 div 256)"
    unfolding four le_bytes.simps rev.simps append.simps nth_Cons_0 ..
  also have "v div 256 div 256 div 256 = v div 2 ^ 24" unfolding div_mult2_eq [symmetric] by simp
  finally show ?thesis .
qed

lemma unfilter_filter_scan:
  assumes "filter_scan ops cto stop at buf n = Some (buf', n')" "stop + 3 \<le> length buf" "cto < 256"
  shows "unfilter_scan ops cto stop at buf' m = (buf, m + (n' - n)) \<and> n \<le> n'"
  using assms
proof (induction ops cto stop at buf n arbitrary: m rule: filter_scan.induct)
  case (1 ops cto stop at buf n)
  note step = "1.prems"(1) [unfolded filter_scan.simps [of ops cto stop at buf n] Let_def]
  note un = unfilter_scan.simps [of ops cto stop at buf' m]
  show ?case
  proof (cases "stop \<le> at + 1")
    case True
    with step show ?thesis by (simp add: un)
  next
    case False
    note inside = this "1.prems"(2)
    have same: "buf' ! i = buf ! i" if "i \<le> at" for i
      using filter_scan_before [OF "1.prems"(1,2)] that inside by simp
    let ?t = "(le (slice_at buf (at + 1) 4) + at + 1) mod 2 ^ 32"
    let ?new = "rev (le_bytes 4 (?t + cto * 2 ^ 24))"
    let ?buf1 = "put_at buf (at + 1) ?new"
    show ?thesis
    proof (cases "buf ! at \<in> set ops \<and> ?t < 2 ^ 24")
      case True
      then have rest: "filter_scan ops cto stop (at + 5) ?buf1 (n + 1) = Some (buf', n')" using step False by simp
      have len1: "stop + 3 \<le> length ?buf1" using inside by simp
      from filter_scan_before [OF rest len1] have len': "length buf' = length buf"
        and same1: "\<And>i. i \<le> at + 5 \<Longrightarrow> i < length buf \<Longrightarrow> buf' ! i = ?buf1 ! i"
        using inside by auto
      have "slice_at buf' (at + 1) 4 = slice_at ?buf1 (at + 1) 4"
        using inside len' same1 by (intro slice_at_eqI) auto
      also have "\<dots> = ?new" using inside by (intro slice_put_at) auto
      finally have s4: "slice_at buf' (at + 1) 4 = ?new" .
      have "?t + cto * 2 ^ 24 < 256 ^ 4" using True \<open>cto < 256\<close> by simp
      then have stored: "be (slice_at buf' (at + 1) 4) = ?t + cto * 2 ^ 24"
        unfolding s4 be_def rev_rev_ident le_le_bytes by (rule mod_less)
      have "buf' ! (at + 1) = slice_at buf' (at + 1) 4 ! 0" using inside len' by simp
      also have "\<dots> = word_of_nat ((?t + cto * 2 ^ 24) div 2 ^ 24)"
        unfolding s4 by (rule first_of_four)
      also have "(?t + cto * 2 ^ 24) div 2 ^ 24 = cto" using True by simp
      finally have marker: "unat (buf' ! (at + 1)) = cto" using \<open>cto < 256\<close> by (simp add: unat_of_nat)
      have d: "displacement cto at (be (slice_at buf' (at + 1) 4)) = le (slice_at buf (at + 1) 4)"
        unfolding stored using True \<open>cto < 256\<close> le_less [of "slice_at buf (at + 1) 4"] inside
        by (intro displacement_of_target) auto
      have old: "le_bytes 4 (le (slice_at buf (at + 1) 4)) = slice_at buf (at + 1) 4"
        using inside by (intro le_bytes_le) simp
      have ih: "unfilter_scan ops cto stop (at + 5) buf' (m + 1) = (?buf1, m + 1 + (n' - (n + 1))) \<and> n + 1 \<le> n'"
        using "1.IH"(1) [OF False _ refl _ rest len1 \<open>cto < 256\<close>, of "m + 1"] True by simp
      have "unfilter_scan ops cto stop at buf' m
          = unfilter_scan ops cto stop (at + 5) (put_at buf' (at + 1) (slice_at buf (at + 1) 4)) (m + 1)"
        unfolding un d old using False True marker same [of at] by simp
      also have "\<dots> = map_prod (\<lambda>b. put_at b (at + 1) (slice_at buf (at + 1) 4)) id (unfilter_scan ops cto stop (at + 5) buf' (m + 1))"
        using inside len' by (intro unfilter_scan_put) auto
      also have "\<dots> = (put_at ?buf1 (at + 1) (slice_at buf (at + 1) 4), m + (n' - n))" using ih by auto
      also have "put_at ?buf1 (at + 1) (slice_at buf (at + 1) 4) = buf"
        using inside by (simp add: put_at_again put_at_slice)
      finally show ?thesis using ih by simp
    next
      case other: False
      then have rest: "filter_scan ops cto stop (at + 1) buf n = Some (buf', n')"
        and free: "buf ! at \<in> set ops \<Longrightarrow> unat (buf ! (at + 1)) \<noteq> cto"
        using step False by (auto split: if_splits)
      have "buf' ! (at + 1) = buf ! (at + 1)" using filter_scan_before [OF rest inside(2)] inside by simp
      then have "unfilter_scan ops cto stop at buf' m = unfilter_scan ops cto stop (at + 1) buf' m"
        unfolding un using False free same [of at] by auto
      then show ?thesis
        using "1.IH"(2) [OF False _ refl _ _ rest inside(2) \<open>cto < 256\<close>] "1.IH"(3) [OF False _ rest inside(2) \<open>cto < 256\<close>] other free
        by (cases "buf ! at \<in> set ops") auto
    qed
  qed
qed

section \<open>Relocation records\<close>

text \<open>The records read one at a time, every position held to the image as it is reached.\<close>

function reloc_each :: "bytes \<Rightarrow> nat \<Rightarrow> nat \<Rightarrow> nat \<Rightarrow> int \<Rightarrow> int list \<Rightarrow> upx_error + int list" where
  "reloc_each buf image_size width p pos out =
     (if length buf \<le> p then Inl (Damaged (RecordsPastEnd p))
      else if buf ! p = 0 then Inr out
      else
        bind_r (if one_byte (buf ! p) then Inr (unat (buf ! p), p + 1) else long_delta buf p) (\<lambda>(delta, q).
        bind_r (place image_size width (pos + int delta)) (\<lambda>_.
        reloc_each buf image_size width q (pos + int delta) (out @ [pos + int delta]))))"
  by pat_completeness auto
termination
  by (relation "measure (\<lambda>(buf, image_size, width, p, pos, out). length buf - p)")
    (auto split: if_splits dest!: long_delta_next)

declare reloc_each.simps [simp del]

text \<open>A position outside the image, whichever is named.\<close>

fun blurred :: "upx_error + 'a \<Rightarrow> upx_error + 'a" where
  "blurred (Inl (Damaged (RelocationOutside v))) = Inl (Damaged (RelocationOutside 0))"
| "blurred r = r"

lemma blurred_Inr [simp]: "blurred r = Inr v \<longleftrightarrow> r = Inr v"
  by (cases r rule: blurred.cases) auto

definition inside_image :: "nat \<Rightarrow> nat \<Rightarrow> int \<Rightarrow> bool" where
  "inside_image image_size width v \<longleftrightarrow> 0 \<le> v \<and> v + int width \<le> int image_size"

lemma place_inside: "place image_size width v = (if inside_image image_size width v then Inr () else Inl (Damaged (RelocationOutside v)))"
  by (simp add: place_def inside_image_def check_r_def)

lemma run_positions_last: "pos \<le> last (pos # run_positions pos run)"
proof (induction run arbitrary: pos)
  case (Cons b bs)
  let ?v = "pos + int (unat b)"
  have "pos \<le> ?v" by simp
  also have "\<dots> \<le> last (?v # run_positions ?v bs)" by (rule Cons.IH)
  finally show ?case by (simp only: run_positions.simps last.simps list.distinct if_False)
qed simp

lemma run_positions_range: "v \<in> set (run_positions pos run) \<Longrightarrow> pos \<le> v \<and> v \<le> last (run_positions pos run)"
proof (induction run arbitrary: pos)
  case (Cons b bs)
  let ?v = "pos + int (unat b)"
  have le: "pos \<le> ?v" by simp
  from Cons.prems consider "v = ?v" | "v \<in> set (run_positions ?v bs)" by auto
  then show ?case
  proof cases
    case 1
    with le run_positions_last [of ?v bs] show ?thesis by (simp only: run_positions.simps simp_thms)
  next
    case 2
    then have "run_positions ?v bs \<noteq> []" by auto
    with Cons.IH [OF 2] le show ?thesis by (auto simp only: run_positions.simps last.simps if_False intro: order_trans)
  qed
qed simp

lemma run_positions_first: "v \<in> set (run_positions pos run) \<Longrightarrow> pos + int (unat (hd run)) \<le> v"
  using run_positions_range by (cases run) fastforce+

lemma run_inside:
  assumes "run \<noteq> []"
  shows "(\<forall>v \<in> set (run_positions pos run). inside_image image_size width v) \<longleftrightarrow>
    inside_image image_size width (pos + int (unat (hd run))) \<and> inside_image image_size width (last (run_positions pos run))"
proof -
  have ne: "run_positions pos run \<noteq> []" "pos + int (unat (hd run)) \<in> set (run_positions pos run)"
    using assms by (cases run; simp)+
  have "inside_image image_size width v"
    if "inside_image image_size width (pos + int (unat (hd run)))" "inside_image image_size width (last (run_positions pos run))"
      "v \<in> set (run_positions pos run)" for v
    using that(1,2) run_positions_first [OF that(3)] run_positions_range [OF that(3)] by (auto simp: inside_image_def)
  with ne show ?thesis by auto
qed

lemma each_run:
  assumes "list_all one_byte run" "p + length run \<le> length buf" "\<And>i. i < length run \<Longrightarrow> buf ! (p + i) = run ! i"
  shows "if \<forall>v \<in> set (run_positions pos run). inside_image image_size width v
    then reloc_each buf image_size width p pos out =
      reloc_each buf image_size width (p + length run) (last (pos # run_positions pos run)) (out @ run_positions pos run)
    else \<exists>v. reloc_each buf image_size width p pos out = Inl (Damaged (RelocationOutside v))"
  using assms
proof (induction run arbitrary: p pos out)
  case (Cons b bs)
  have b: "\<not> length buf \<le> p" "buf ! p = b" "one_byte b" "b \<noteq> 0" using Cons.prems(1,2) Cons.prems(3) [of 0] by (auto simp: one_byte_def)
  have rest: "buf ! (p + 1 + i) = bs ! i" if "i < length bs" for i using Cons.prems(3) [of "Suc i"] that by simp
  let ?v = "pos + int (unat b)"
  have step: "reloc_each buf image_size width p pos out =
      (if inside_image image_size width ?v then reloc_each buf image_size width (p + 1) ?v (out @ [?v])
       else Inl (Damaged (RelocationOutside ?v)))"
    using b by (subst reloc_each.simps) (simp add: place_inside)
  show ?case
    using Cons.IH [of "p + 1" ?v "out @ [?v]"] Cons.prems(1,2) rest unfolding step by (auto split: if_splits)
qed simp

lemma scan_each:
  "limit \<le> length buf \<Longrightarrow>
    blurred (reloc_scan buf image_size width limit p pos out) = blurred (reloc_each buf image_size width p pos out)"
proof (induction buf image_size width limit p pos out rule: reloc_scan.induct)
  case (1 buf image_size width limit p pos out)
  note scan = reloc_scan.simps [of buf image_size width limit p pos out]
  let ?run = "takeWhile one_byte (slice_at buf p (limit - p))"
  show ?case
  proof (cases "length buf \<le> p \<or> limit \<le> p")
    case True
    then show ?thesis using "1.IH"(1) by (auto simp: scan reloc_each.simps [of buf image_size width p])
  next
    case False
    then have inside: "\<not> length buf \<le> p" "\<not> limit \<le> p" by auto
    have len: "length ?run \<le> limit - p" using length_takeWhile_le [of one_byte "slice_at buf p (limit - p)"] by simp
    show ?thesis
    proof (cases "?run = []")
      case False
      have run: "list_all one_byte ?run" "p + length ?run \<le> length buf"
        "\<And>i. i < length ?run \<Longrightarrow> buf ! (p + i) = ?run ! i"
        using inside len "1.prems" by (auto simp: list_all_iff takeWhile_nth dest: set_takeWhileD)
      note each = each_run [OF run, of pos image_size width out]
      have l: "run_positions pos ?run \<noteq> []" using False by (cases ?run) auto
      show ?thesis
      proof (cases "\<forall>v \<in> set (run_positions pos ?run). inside_image image_size width v")
        case True
        with run_inside [OF False, of pos image_size width]
        have ok: "place image_size width (pos + int (unat (hd ?run))) = Inr ()"
          "place image_size width (last (run_positions pos ?run)) = Inr ()"
          by (simp_all add: place_inside)
        have "reloc_scan buf image_size width limit p pos out = reloc_scan buf image_size width limit (p + length ?run)
            (last (run_positions pos ?run)) (out @ run_positions pos ?run)"
          unfolding scan Let_def ok using inside False by simp
        then show ?thesis
          using "1.IH"(2) [OF inside refl False ok "1.prems"] each True by (simp add: l)
      next
        case outside: False
        with each obtain v where v: "reloc_each buf image_size width p pos out = Inl (Damaged (RelocationOutside v))" by auto
        from outside run_inside [OF False, of pos image_size width]
        have "\<exists>u. reloc_scan buf image_size width limit p pos out = Inl (Damaged (RelocationOutside u))"
          unfolding scan Let_def place_inside using inside False by auto
        with v show ?thesis by auto
      qed
    next
      case True
      then have many: "\<not> one_byte (buf ! p)"
        using inside "1.prems" by (auto simp: slice_at_def Cons_nth_drop_Suc [symmetric] take_Cons' split: if_splits)
      show ?thesis
      proof (cases "buf ! p = 0")
        case True
        then show ?thesis using inside \<open>?run = []\<close> by (simp add: scan reloc_each.simps [of buf image_size width p])
      next
        case False
        show ?thesis
        proof (cases "long_delta buf p")
          case (Inl e)
          then show ?thesis
            using inside \<open>?run = []\<close> False many by (simp add: scan reloc_each.simps [of buf image_size width p])
        next
          case (Inr dq)
          obtain d q where dq: "dq = (d, q)" by (cases dq)
          have "blurred (reloc_scan buf image_size width limit q (pos + int d) (out @ [pos + int d])) =
              blurred (reloc_each buf image_size width q (pos + int d) (out @ [pos + int d]))"
            if "place image_size width (pos + int d) = Inr ()"
            using "1.IH"(3) [OF inside refl _ False Inr dq [symmetric] that "1.prems"] True by simp
          then show ?thesis
            using inside \<open>?run = []\<close> False many
            by (simp add: scan reloc_each.simps [of buf image_size width p] Inr dq place_inside)
        qed
      qed
    qed
  qed
qed

lemma positions_each:
  assumes "stream \<le> length buf"
  shows "blurred (reloc_positions buf stream image_size width) = blurred (reloc_each buf image_size width stream (- 4) [])"
  unfolding reloc_positions_def by (rule scan_each [OF assms])

text \<open>Every position read lies inside the image.\<close>

lemma each_inside:
  assumes "reloc_each buf image_size width p pos out = Inr r" "\<forall>v \<in> set out. inside_image image_size width v"
  shows "\<forall>v \<in> set r. inside_image image_size width v"
  using assms
proof (induction buf image_size width p pos out rule: reloc_each.induct)
  case (1 buf image_size width p pos out)
  note step = "1.prems"(1) [unfolded reloc_each.simps [of buf image_size width p pos out]]
  show ?case
  proof (cases "length buf \<le> p \<or> buf ! p = 0")
    case True
    then show ?thesis using step "1.prems"(2) by (auto split: if_splits)
  next
    case False
    then have inside: "\<not> length buf \<le> p" "buf ! p \<noteq> 0" by auto
    let ?entry = "if one_byte (buf ! p) then Inr (unat (buf ! p), p + 1) else long_delta buf p"
    obtain d q where d: "?entry = Inr (d, q)"
      using step False by (cases ?entry) auto
    have placed: "bind_r (place image_size width (pos + int d)) (\<lambda>_.
        reloc_each buf image_size width q (pos + int d) (out @ [pos + int d])) = Inr r"
      using step False unfolding d by simp
    then have place: "place image_size width (pos + int d) = Inr ()"
      by (cases "place image_size width (pos + int d)") auto
    with placed have rest: "reloc_each buf image_size width q (pos + int d) (out @ [pos + int d]) = Inr r" by simp
    from place have "inside_image image_size width (pos + int d)" by (auto simp: place_inside split: if_splits)
    with "1.prems"(2) have "\<forall>v \<in> set (out @ [pos + int d]). inside_image image_size width v" by simp
    with "1.IH" [OF inside d refl place rest] show ?thesis by blast
  qed
qed

lemma positions_inside:
  assumes "reloc_positions buf stream image_size width = Inr r" "stream \<le> length buf"
  shows "\<forall>v \<in> set r. inside_image image_size width v"
  using assms positions_each [of stream buf image_size width] each_inside [of buf image_size width stream "- 4" "[]" r]
  by (metis blurred_Inr empty_iff list.set(1))

text \<open>The records of strictly increasing positions: one byte, three bytes or seven.\<close>

definition delta_bytes :: "nat \<Rightarrow> bytes" where
  "delta_bytes d =
     (if d < 0xF0 then [word_of_nat d]
      else if d < 2 ^ 20 then word_of_nat (0xF0 + d div 2 ^ 16) # le_bytes 2 (d mod 2 ^ 16)
      else [0xF0, 0, 0] @ le_bytes 4 d)"

fun reloc_bytes :: "int \<Rightarrow> nat list \<Rightarrow> bytes" where
  "reloc_bytes pos [] = [0]"
| "reloc_bytes pos (p # ps) = delta_bytes (nat (int p - pos)) @ reloc_bytes (int p) ps"

lemma slice_of_drop:
  assumes "drop p buf = pre @ mid @ rest"
  shows "slice_at buf (p + length pre) (length mid) = mid" "p + length pre + length mid \<le> length buf \<or> mid = []"
proof -
  have "drop (p + length pre) buf = drop (length pre) (drop p buf)" by (simp add: add.commute)
  then have d: "drop (p + length pre) buf = mid @ rest" by (simp add: assms)
  then show "slice_at buf (p + length pre) (length mid) = mid" by (simp add: slice_at_def)
  from arg_cong [OF d, of length] show "p + length pre + length mid \<le> length buf \<or> mid = []" by (cases mid) auto
qed

lemma read_le_of_drop:
  assumes "drop p buf = pre @ le_bytes n v @ rest" "0 < n" "v < 256 ^ n"
  shows "read_le buf (p + length pre) n = Inr v"
proof -
  have "le_bytes n v \<noteq> []" using assms(2) by (cases n) auto
  with slice_of_drop [OF assms(1)] assms(3) show ?thesis by (auto simp: read_le_def)
qed

lemma delta_read:
  assumes "drop p buf = delta_bytes d @ rest" "0 < d" "d < 2 ^ 32"
  shows "\<not> length buf \<le> p \<and> buf ! p \<noteq> 0 \<and>
    (if one_byte (buf ! p) then Inr (unat (buf ! p), p + 1) else long_delta buf p) = Inr (d, p + length (delta_bytes d))"
proof -
  have "delta_bytes d \<noteq> []" by (simp add: delta_bytes_def)
  then obtain b bs where b: "delta_bytes d = b # bs" by (cases "delta_bytes d") auto
  have at: "\<not> length buf \<le> p" using assms(1) b by auto
  then have head: "buf ! p = b" using assms(1) b by (simp add: Cons_nth_drop_Suc [symmetric])
  consider "d < 0xF0" | "\<not> d < 0xF0" "d < 2 ^ 20" | "\<not> d < 2 ^ 20" by blast
  then show ?thesis
  proof cases
    case 1
    then have "b = word_of_nat d" "bs = []" using b by (auto simp: delta_bytes_def)
    moreover from this(1) 1 have "unat b = d" by (simp add: unat_of_nat)
    moreover from this \<open>0 < d\<close> have "b \<noteq> 0" by auto
    ultimately show ?thesis using 1 at head b by (simp add: one_byte_def)
  next
    case 2
    then have bb: "b = word_of_nat (0xF0 + d div 2 ^ 16)" "bs = le_bytes 2 (d mod 2 ^ 16)" using b by (auto simp: delta_bytes_def)
    have "d div 2 ^ 16 < 16" using 2 by (simp add: less_mult_imp_div_less)
    then have u: "unat b = 0xF0 + d div 2 ^ 16" unfolding bb(1) unat_of_nat by simp
    then have m: "unat b mod 16 = d div 2 ^ 16" using \<open>d div 2 ^ 16 < 16\<close> by (simp add: mod_add_left_eq [symmetric])
    have "drop p buf = [b] @ le_bytes 2 (d mod 2 ^ 16) @ rest" using assms(1) b bb(2) by simp
    from read_le_of_drop [OF this] have "read_le buf (p + 1) 2 = Inr (d mod 2 ^ 16)" by simp
    moreover have "unat b mod 16 * 0x10000 + d mod 2 ^ 16 = d" unfolding m using div_mult_mod_eq [of d "2 ^ 16"] by simp
    ultimately have "long_delta buf p = Inr (d, p + 3)" using \<open>0 < d\<close> head by (auto simp: long_delta_def)
    moreover have "\<not> one_byte b" "b \<noteq> 0" using u by (auto simp: one_byte_def)
    ultimately show ?thesis using at head b bb(2) by simp
  next
    case 3
    then have bb: "b = 0xF0" "bs = [0, 0] @ le_bytes 4 d" using b by (auto simp: delta_bytes_def)
    have drops: "drop p buf = [b] @ le_bytes 2 0 @ (le_bytes 4 d @ rest)" "drop p buf = [b, 0, 0] @ le_bytes 4 d @ rest"
      using assms(1) b bb(2) by (simp_all add: numeral_2_eq_2)
    have lengths: "p + length [b] = p + 1" "p + length [b, 0, 0] = p + 3" by simp_all
    have "read_le buf (p + 1) 2 = Inr 0" using read_le_of_drop [OF drops(1)] unfolding lengths by simp
    moreover have "read_le buf (p + 3) 4 = Inr d"
      using read_le_of_drop [OF drops(2)] \<open>d < 2 ^ 32\<close> unfolding lengths by simp
    ultimately have "long_delta buf p = Inr (d, p + 7)"
      unfolding long_delta_def head bb(1) by simp
    then show ?thesis using at head b bb by (simp add: one_byte_def)
  qed
qed

lemma each_reads:
  assumes "drop p buf = reloc_bytes pos ps @ rest" "- 4 \<le> pos" "sorted_wrt (<) ps" "\<forall>v \<in> set ps. pos < int v"
    "\<forall>v \<in> set ps. v + width \<le> image_size \<and> v + 4 < 2 ^ 32"
  shows "reloc_each buf image_size width p pos out = Inr (out @ map int ps)"
  using assms
proof (induction ps arbitrary: p pos out)
  case Nil
  then have "\<not> length buf \<le> p" "buf ! p = 0"
    by auto (metis Cons_nth_drop_Suc drop_all list.inject list.distinct(1) not_le)
  then show ?case by (simp add: reloc_each.simps [of buf image_size width p])
next
  case (Cons v vs)
  let ?d = "nat (int v - pos)"
  have d: "0 < ?d" "?d < 2 ^ 32" "pos + int ?d = int v" using Cons.prems by auto
  have bytes: "drop p buf = delta_bytes ?d @ (reloc_bytes (int v) vs @ rest)" using Cons.prems(1) by simp
  have "drop (p + length (delta_bytes ?d)) buf = drop (length (delta_bytes ?d)) (drop p buf)" by (simp add: add.commute)
  then have after: "drop (p + length (delta_bytes ?d)) buf = reloc_bytes (int v) vs @ rest" by (simp add: bytes)
  note read = delta_read [OF bytes d(1,2)]
  have "place image_size width (int v) = Inr ()" using Cons.prems(5) by (simp add: place_inside inside_image_def)
  then have "reloc_each buf image_size width p pos out =
      reloc_each buf image_size width (p + length (delta_bytes ?d)) (int v) (out @ [int v])"
    unfolding reloc_each.simps [of buf image_size width p] using read d(3) by simp
  then show ?case using Cons.IH [OF after, of "out @ [int v]"] Cons.prems by simp
qed

lemma positions_read_back:
  assumes "drop stream buf = reloc_bytes (- 4) ps @ rest" "sorted_wrt (<) ps"
    "\<forall>v \<in> set ps. v + width \<le> image_size" "image_size + 4 < 2 ^ 32 + width"
  shows "reloc_positions buf stream image_size width = Inr (map int ps)"
proof -
  have "drop stream buf \<noteq> []" unfolding assms(1) by (cases ps) (auto simp: delta_bytes_def)
  then have "stream \<le> length buf" by auto
  have "reloc_each buf image_size width stream (- 4) [] = Inr ([] @ map int ps)"
    using assms by (intro each_reads [OF assms(1)]) fastforce+
  with positions_each [OF \<open>stream \<le> length buf\<close>, of image_size width] show ?thesis
    by (metis append_Nil blurred_Inr)
qed

end
