(* ===== verification/Upx_Rebuild_Proofs.thy ===== *)
theory Upx_Rebuild_Proofs
  imports Upx_Proofs
begin

text \<open>
  The rebuild steps never grow or shrink the unpacked data, and the file is put together from
  pieces that do not overlap: the two facts the properties of the rebuilt file rest on.
\<close>

section \<open>Results\<close>

lemma tab_Inr [simp]: "tab r = Inr v \<longleftrightarrow> r = Inr v"
  by (auto simp: tab_def split: sum.splits)

lemma reb_Inr [simp]: "reb r = Inr v \<longleftrightarrow> r = Inr v"
  by (auto simp: reb_def split: sum.splits)

lemma upx_Inr [simp]: "upx r = Inr v \<longleftrightarrow> r = Inr v"
  by (auto simp: upx_def split: sum.splits)

text \<open>What holds of a step's result when it has one, passed through the steps before it.\<close>

definition all_r :: "('a \<Rightarrow> bool) \<Rightarrow> 'e + 'a \<Rightarrow> bool" where
  "all_r P r \<longleftrightarrow> (\<forall>v. r = Inr v \<longrightarrow> P v)"

lemma all_r_Inl [intro, simp]: "all_r P (Inl e)" by (simp add: all_r_def)
lemma all_r_Inr [simp]: "all_r P (Inr v) \<longleftrightarrow> P v" by (simp add: all_r_def)
lemma all_r_InrI: "P v \<Longrightarrow> all_r P (Inr v)" by simp

lemma all_r_triple: "(\<And>a b c. r = Inr (a, b, c) \<Longrightarrow> all_r P (f a b c)) \<Longrightarrow> all_r P (bind_r r (\<lambda>(a, b, c). f a b c))"
  by (cases r) auto

lemma all_r_pair: "(\<And>a b. r = Inr (a, b) \<Longrightarrow> all_r P (f a b)) \<Longrightarrow> all_r P (bind_r r (\<lambda>(a, b). f a b))"
  by (cases r) auto

lemma all_r_bind: "(\<And>x. r = Inr x \<Longrightarrow> all_r P (f x)) \<Longrightarrow> all_r P (bind_r r f)"
  by (cases r) auto

lemma all_r_map: "(\<And>x. r = Inr x \<Longrightarrow> P (f x)) \<Longrightarrow> all_r P (map_r f r)"
  by (cases r) auto

lemma all_r_if: "(b \<Longrightarrow> all_r P r) \<Longrightarrow> (\<not> b \<Longrightarrow> all_r P q) \<Longrightarrow> all_r P (if b then r else q)"
  by auto

lemma all_r_option: "all_r P r \<Longrightarrow> (\<And>x. v = Some x \<Longrightarrow> all_r P (f x)) \<Longrightarrow> all_r P (case v of None \<Rightarrow> r | Some x \<Rightarrow> f x)"
  by (cases v) auto

lemma all_r_option_pair:
  "all_r P r \<Longrightarrow> (\<And>x y. v = Some (x, y) \<Longrightarrow> all_r P (f x y)) \<Longrightarrow>
    all_r P (case v of None \<Rightarrow> r | Some (x, y) \<Rightarrow> f x y)"
  by (cases v) auto

lemma all_r_let: "all_r P (f v) \<Longrightarrow> all_r P (let x = v in f x)"
  by simp

lemmas steps = all_r_triple all_r_pair all_r_bind all_r_map all_r_if all_r_option_pair all_r_option all_r_let all_r_Inl all_r_InrI

section \<open>The length of the buffer\<close>

named_theorems keeps \<open>operations that leave the buffer's length as it is\<close>

lemma put_keeps [keeps]: "put buf at new = Inr buf' \<Longrightarrow> length buf' = length buf"
  by (auto simp: put_def split: if_splits)

lemma put_word_keeps [keeps]: "put_word buf at v w = Inr buf' \<Longrightarrow> length buf' = length buf"
  unfolding put_word_def by (rule put_keeps)

lemma put_name_keeps [keeps]:
  "put_name im named names_start name buf slot names_at = Inr (buf', names_at') \<Longrightarrow> length buf' = length buf"
  by (auto simp: put_name_def Let_def result_iffs dest!: keeps split: if_splits)

lemma put_far_ordinal_keeps [keeps]: "put_far_ordinal im rva p buf slot = Inr buf' \<Longrightarrow> length buf' = length buf"
  by (auto simp: put_far_ordinal_def result_iffs dest!: keeps split: if_splits)

lemma import_slots_keeps [keeps]:
  "import_slots im rva named names_start blen p buf slot names_at = Inr (buf', r) \<Longrightarrow> length buf' = length buf"
proof (induction im rva named names_start blen p buf slot names_at rule: import_slots.induct)
  case (1 im rva named names_start blen p buf slot names_at)
  note step = "1.prems" [unfolded import_slots.simps [of im rva named names_start blen p buf slot names_at]]
  consider "blen \<le> p \<or> buf ! p = 0" | "\<not> blen \<le> p" "buf ! p \<noteq> 0" "buf ! p = 1"
    | "\<not> blen \<le> p" "buf ! p \<noteq> 0" "buf ! p \<noteq> 1" "buf ! p = 0xFF"
    | "\<not> blen \<le> p" "buf ! p \<noteq> 0" "buf ! p \<noteq> 1" "buf ! p \<noteq> 0xFF" by blast
  then show ?case
  proof cases
    case 1
    then show ?thesis using step by (auto split: if_splits)
  next
    case 2
    with step obtain close where close: "find_nul buf (p + 1) blen = Some close" by (auto split: option.splits)
    with step 2 obtain b n where put: "put_name im named names_start (slice_at buf (p + 1) (close - p)) buf slot names_at = Inr (b, n)"
      and rest: "import_slots im rva named names_start blen (close + 1) b (slot + im_width im) n = Inr (buf', r)"
      by (auto simp: result_iffs)
    from "1.IH"(1) [OF 2 close put refl rest] put_name_keeps [OF put] show ?thesis by simp
  next
    case 3
    with step obtain ordinal b where "read_le buf (p + 1) 2 = Inr ordinal" and ordinal: "tab (read_le buf (p + 1) 2) = Inr ordinal"
      and put: "put_word buf slot (ordinal + 2 ^ (8 * im_width im - 1)) (im_width im) = Inr b"
      and rest: "import_slots im rva named names_start blen (p + 3) b (slot + im_width im) names_at = Inr (buf', r)"
      by (auto simp: result_iffs)
    from put have "tab (put_word buf slot (ordinal + 2 ^ (8 * im_width im - 1)) (im_width im)) = Inr b" by simp
    from "1.IH"(2) [OF 3 ordinal this rest] put_word_keeps [OF put] show ?thesis by simp
  next
    case 4
    with step obtain b where put: "put_far_ordinal im rva p buf slot = Inr b"
      and rest: "import_slots im rva named names_start blen (p + 5) b (slot + im_width im) names_at = Inr (buf', r)"
      by (auto simp: result_iffs)
    from "1.IH"(3) [OF 4 put rest] put_far_ordinal_keeps [OF put] show ?thesis by simp
  qed
qed

lemma import_libraries_keeps [keeps]:
  "import_libraries im rva named names_start libs buf dll_at descriptor names_at = Inr buf' \<Longrightarrow> length buf' = length buf"
proof (induction libs arbitrary: named buf dll_at descriptor names_at)
  case (Cons lib libs)
  show ?case
    using Cons.prems by (cases lib; cases named) (auto simp: result_iffs Let_def dest!: keeps Cons.IH)
qed simp

text \<open>
  A step keeps the buffer's length and all of the image but its buffer, its records' place and
  the stored header, which keeps its length and its width.
\<close>

definition kept :: "image \<Rightarrow> image \<Rightarrow> bool" where
  "kept im im' \<longleftrightarrow> length (im_buf im') = length (im_buf im) \<and> im_rvamin im' = im_rvamin im \<and> im_packed im' = im_packed im \<and>
     or_is64 (im_original im') = or_is64 (im_original im) \<and>
     length (or_raw (im_original im')) = length (or_raw (im_original im))"

lemma kept_refl [simp]: "kept im im"
  by (simp add: kept_def)

lemma kept_trans: "kept a b \<Longrightarrow> kept b c \<Longrightarrow> kept a c"
  by (simp add: kept_def)

lemma record_kept: "record_le im n = Inr (v, im') \<Longrightarrow> kept im im' \<and> im_original im' = im_original im \<and> im_buf im' = im_buf im"
  by (auto simp: record_le_def result_iffs kept_def)

lemma kept_buf: "length buf = length (im_buf im') \<Longrightarrow> kept im im' \<Longrightarrow> kept im (im'\<lparr>im_buf := buf\<rparr>)"
  by (simp add: kept_def)

lemma rebuild_imports_kept: "all_r (kept im) (rebuild_imports im)"
  unfolding rebuild_imports_def
  by (intro steps) (auto dest!: record_kept keeps intro!: kept_buf elim!: kept_trans)

lemma rebuild_exports_kept: "all_r (kept im) (rebuild_exports im)"
  unfolding rebuild_exports_def
  by (intro steps) (auto dest!: keeps intro!: kept_buf)

lemma put_value_length: "p + width \<le> length buf \<Longrightarrow> length (put_value width add buf p) = length buf"
  by (simp add: put_value_def)

lemma put_values_length: "\<forall>p \<in> set ps. p + width \<le> length buf \<Longrightarrow> length (foldl (put_value width add) buf ps) = length buf"
  by (induction ps arbitrary: buf) (auto simp: put_value_length)

definition full_header :: "original \<Rightarrow> bool" where
  "full_header orig \<longleftrightarrow> length (or_raw orig) = oh_size (or_is64 orig)"

lemma set_field_full: "full_header orig \<Longrightarrow> at + n \<le> 248 \<Longrightarrow> full_header (set_field at n v orig)"
  by (simp add: full_header_def set_field_def oh_size_def)

lemma set_field_is64 [simp]: "or_is64 (set_field at n v orig) = or_is64 orig"
  by (simp add: set_field_def)

lemma set_directory_is64 [simp]: "or_is64 (set_directory i rva n orig) = or_is64 orig"
  by (simp add: set_directory_def Let_def)

lemma set_directory_full:
  assumes "full_header orig" "index \<le> 13"
  shows "full_header (set_directory index rva n orig)"
  using assms by (auto simp: set_directory_def Let_def directories_at_def intro!: set_field_full)

lemma write_relocations_kept:
  assumes "\<forall>p \<in> set held. p + im_width im \<le> length (im_buf im)" "full_header (im_original im)"
  shows "all_r (kept im) (write_relocations im table_rva held)"
proof -
  have full: "full_header (set_directory BASERELOC table_rva n (im_original im))" for n
    using assms(2) by (intro set_directory_full) (simp_all add: BASERELOC_def)
  have header: "length (or_raw (set_directory BASERELOC table_rva n (im_original im))) = length (or_raw (im_original im))" for n
    using full [of n] assms(2) by (simp add: full_header_def)
  show ?thesis
    unfolding write_relocations_def
    by (intro steps) (auto simp: kept_def header put_values_length [OF assms(1)] dest!: keeps)
qed

lemma positions_start: "reloc_positions buf stream image_size width = Inr r \<Longrightarrow> stream < length buf"
  by (rule ccontr) (simp add: reloc_positions_def reloc_scan.simps [of buf image_size width stream])

lemma held_inside:
  assumes "reloc_positions buf stream stream width = Inr positions"
  shows "\<forall>p \<in> set (map nat positions). p + width \<le> length buf"
  using positions_inside [OF assms] positions_start [OF assms] by (fastforce simp: inside_image_def)

lemma kept_width: "kept im im' \<Longrightarrow> im_width im' = im_width im"
  by (simp add: kept_def im_width_def)

lemma rebuild_relocations_kept:
  assumes "full_header (im_original im)"
  shows "all_r (kept im) (rebuild_relocations im)"
proof -
  have small: "all_r (kept im) (bind_r (upx (image_at im (fst table))) (\<lambda>at.
        map_r (\<lambda>buf. im\<lparr>im_buf := buf\<rparr>) (upx (put (im_buf im) at [0, 0, 0, 0, 8, 0, 0, 0]))))" for table
    by (intro steps) (auto dest!: keeps intro!: kept_buf)
  have large: "all_r (kept im) (write_relocations im2 table_rva (map nat positions))"
    if "record_le im 4 = Inr (stream, im1)" "record_le im1 1 = Inr (big, im2)"
      "reloc_positions (im_buf im2) stream stream (im_width im2) = Inr positions"
    for im1 im2 stream big positions table_rva
  proof -
    have k: "kept im im2" "im_original im2 = im_original im"
      using record_kept [OF that(1)] record_kept [OF that(2)] kept_trans by auto
    from write_relocations_kept [OF held_inside [OF that(3)], of table_rva] assms k(2)
    show ?thesis using kept_trans [OF k(1)] by (auto simp: all_r_def)
  qed
  show ?thesis
    unfolding rebuild_relocations_def Let_def
    by (intro all_r_if all_r_InrI small all_r_pair all_r_bind all_r_Inl) (auto intro: large)
qed

section \<open>Resources\<close>

lemma fold_r_all:
  assumes "\<And>x s s'. f x s = Inr s' \<Longrightarrow> P s \<Longrightarrow> P s'" "P s"
  shows "all_r P (fold_r f xs s)"
  using assms(2)
proof (induction xs arbitrary: s)
  case (Cons x xs)
  show ?case unfolding fold_r.simps
    by (rule all_r_bind) (use Cons assms(1) in blast)
qed simp

lemma move_leaf_length: "all_r (\<lambda>(buf', st). length buf' = length buf) (move_leaf im r leaf (buf, st))"
  unfolding move_leaf_def prod.case_distrib
  by (cases leaf; cases st) (auto simp: all_r_def Let_def result_iffs dest!: keeps split: option.splits if_splits)

lemma move_leaves_length:
  assumes "fold_r (move_leaf im r) ls (buf, st) = Inr (buf', st')"
  shows "length buf' = length buf"
proof -
  have "all_r (\<lambda>(b, _). length b = length buf) (fold_r (move_leaf im r) ls (buf, st))"
    by (rule fold_r_all) (use move_leaf_length in \<open>fastforce simp: all_r_def\<close>)+
  with assms show ?thesis by (simp add: all_r_def)
qed

lemma rebuild_resources_kept: "all_r (kept im) (rebuild_resources im)"
  unfolding rebuild_resources_def
  by (intro steps) (auto dest!: record_kept keeps move_leaves_length intro!: kept_buf)

lemma rebuild_kept:
  assumes "full_header (im_original im)"
  shows "all_r (kept im) (rebuild im)"
proof -
  have "kept im im3" if "rebuild_imports im = Inr im1" "rebuild_relocations im1 = Inr im2" "rebuild_exports im2 = Inr im3"
    for im1 im2 im3
  proof -
    have k1: "kept im im1" using rebuild_imports_kept [of im] that(1) by (simp add: all_r_def)
    then have "full_header (im_original im1)" using assms by (simp add: kept_def full_header_def)
    then have "kept im1 im2" using rebuild_relocations_kept that(2) by (simp add: all_r_def)
    moreover have "kept im2 im3" using rebuild_exports_kept [of im2] that(3) by (simp add: all_r_def)
    ultimately show ?thesis using k1 kept_trans by blast
  qed
  then show ?thesis
    using rebuild_resources_kept kept_trans unfolding rebuild_def all_r_def by (fastforce simp: result_iffs)
qed

section \<open>The file\<close>

text \<open>Writes in rising order that do not overlap, from \<open>lo\<close> up to \<open>hi\<close>.\<close>

fun ordered :: "nat \<Rightarrow> (nat \<times> bytes) list \<Rightarrow> nat \<Rightarrow> bool" where
  "ordered lo [] hi \<longleftrightarrow> lo \<le> hi"
| "ordered lo ((at, new) # ws) hi \<longleftrightarrow> lo \<le> at \<and> ordered (at + length new) ws hi"

definition put_all :: "bytes \<Rightarrow> (nat \<times> bytes) list \<Rightarrow> bytes" where
  "put_all out ws = foldl (\<lambda>out (at, new). put_at out at new) out ws"

lemma put_all_Cons [simp]: "put_all out ((at, new) # ws) = put_all (put_at out at new) ws"
  by (simp add: put_all_def)

lemma put_all_Nil [simp]: "put_all out [] = out"
  by (simp add: put_all_def)

lemma put_all_append: "put_all out (ws @ vs) = put_all (put_all out ws) vs"
  by (simp add: put_all_def)

lemma ordered_bounds: "ordered lo ws hi \<Longrightarrow> lo \<le> hi"
  by (induction lo ws hi rule: ordered.induct) auto

lemma ordered_append: "ordered lo ws mid \<Longrightarrow> ordered mid vs hi \<Longrightarrow> ordered lo (ws @ vs) hi"
proof (induction lo ws mid rule: ordered.induct)
  case (1 lo mid)
  then show ?case by (cases vs) (auto dest: ordered_bounds)
qed auto

lemma put_all_below:
  assumes "ordered lo ws (length out)"
  shows "length (put_all out ws) = length out \<and> take lo (put_all out ws) = take lo out"
  using assms
proof (induction ws arbitrary: lo out)
  case (Cons w ws)
  obtain at new where w: "w = (at, new)" by (cases w)
  have at: "lo \<le> at" "ordered (at + length new) ws (length out)" using Cons.prems w by auto
  have len: "length (put_at out at new) = length out" using ordered_bounds [OF at(2)] by simp
  from Cons.IH [of "at + length new" "put_at out at new"] at(2) len
  have ih: "length (put_all out (w # ws)) = length out"
    "take (at + length new) (put_all out (w # ws)) = take (at + length new) (put_at out at new)"
    by (simp_all add: w)
  have "take lo (put_all out (w # ws)) = take lo (take (at + length new) (put_all out (w # ws)))" using at(1) by simp
  also have "\<dots> = take lo (put_at out at new)" unfolding ih(2) using at(1) by simp
  also have "\<dots> = take lo out" using at(1) ordered_bounds [OF at(2)] by (simp add: put_at_def)
  finally show ?case using ih(1) by simp
qed simp

lemma put_all_holds:
  assumes "ordered lo ws (length out)" "(at, new) \<in> set ws"
  shows "slice_at (put_all out ws) at (length new) = new"
  using assms
proof (induction ws arbitrary: lo out)
  case (Cons w ws)
  obtain a n where w: "w = (a, n)" by (cases w)
  have a: "ordered (a + length n) ws (length out)" using Cons.prems w by auto
  have len: "a + length n \<le> length out" using ordered_bounds [OF a] .
  then have l: "length (put_at out a n) = length out" by simp
  show ?case
  proof (cases "(at, new) = w")
    case True
    have "take (a + length n) (put_all out (w # ws)) = take (a + length n) (put_at out a n)"
      using put_all_below [of "a + length n" ws "put_at out a n"] a l by (simp add: w)
    then have "slice_at (put_all out (w # ws)) a (length n) = slice_at (put_at out a n) a (length n)"
      unfolding slice_at_def by (metis add.commute drop_take diff_add_inverse2)
    then show ?thesis using True w len by (simp add: slice_put_at)
  next
    case False
    then show ?thesis using Cons.IH [of "a + length n" "put_at out a n"] Cons.prems a l by (auto simp: w)
  qed
qed simp

lemma align_enough: "0 < a \<Longrightarrow> n \<le> align n a"
proof -
  assume "0 < a"
  have "(n + a - 1) div a * a + (n + a - 1) mod a = n + a - 1" by (rule div_mult_mod_eq)
  moreover have "(n + a - 1) mod a < a" using \<open>0 < a\<close> by simp
  ultimately show "n \<le> align n a" using \<open>0 < a\<close> unfolding align_def by linarith
qed

text \<open>The fields of a section header the file is put together by.\<close>

definition raw_at :: "bytes \<Rightarrow> nat" where "raw_at s = le (slice_at s 20 4)"
definition raw_length :: "bytes \<Rightarrow> nat" where "raw_length s = le (slice_at s 16 4)"
definition rva_of :: "bytes \<Rightarrow> nat" where "rva_of s = le (slice_at s 12 4)"

lemma raw_at_put: "length s = 40 \<Longrightarrow> raw_at (put_at s 20 (le_bytes 4 v)) = v mod 2 ^ 32"
  unfolding raw_at_def by (subst slice_put_at) auto

text \<open>What \<^const>\<open>lay_sections\<close> gives of each section: its header with the place stated, and its piece.\<close>

definition laid :: "bytes \<Rightarrow> nat \<Rightarrow> (nat \<times> nat \<times> nat) list \<Rightarrow> bytes \<Rightarrow> bytes \<Rightarrow> bool" where
  "laid buf rvamin pieces s s' \<longleftrightarrow>
     (if raw_at s = 0 then s' = s
      else rvamin \<le> rva_of s \<and> rva_of s - rvamin + raw_length s \<le> length buf \<and>
        (\<exists>at < 2 ^ 32. s' = put_at s 20 (le_bytes 4 at) \<and> (at, rva_of s - rvamin, raw_length s) \<in> set pieces))"

definition piece_writes :: "bytes \<Rightarrow> (nat \<times> nat \<times> nat) list \<Rightarrow> (nat \<times> bytes) list" where
  "piece_writes buf = map (\<lambda>(file_at, at, n). (file_at, slice_at buf at n))"

lemma laid_more: "laid buf rvamin pieces s s' \<Longrightarrow> laid buf rvamin (piece # pieces) s s'"
  by (auto simp: laid_def split: if_splits)

lemma list_all2_laid: "list_all2 (laid buf rvamin pieces) ss ss' \<Longrightarrow> list_all2 (laid buf rvamin (piece # pieces)) ss ss'"
  by (erule list_all2_mono) (rule laid_more)

lemma lay_sections_laid:
  assumes "lay_sections buf rvamin fa index cursor ss = Inr (ss', pieces, cursor')" "0 < fa"
  shows "list_all2 (laid buf rvamin pieces) ss ss' \<and> ordered cursor (piece_writes buf pieces) cursor'"
  using assms(1)
proof (induction ss arbitrary: index cursor ss' pieces)
  case (Cons s ss)
  show ?case
  proof (cases "raw_at s = 0")
    case True
    with Cons.prems obtain ss2 where "lay_sections buf rvamin fa (Suc index) cursor ss = Inr (ss2, pieces, cursor')" "ss' = s # ss2"
      by (auto simp: raw_at_def Let_def result_iffs)
    with Cons.IH [OF this(1)] True show ?thesis by (simp add: laid_def)
  next
    case False
    let ?at = "rva_of s - rvamin"
    from False Cons.prems obtain ss2 pieces2 where rest:
      "lay_sections buf rvamin fa (Suc index) (cursor + align (raw_length s) fa) ss = Inr (ss2, pieces2, cursor')"
      "ss' = put_at s 20 (le_bytes 4 cursor) # ss2" "pieces = (cursor, ?at, raw_length s) # pieces2"
      "rvamin \<le> rva_of s" "?at + raw_length s \<le> length buf" "cursor < 2 ^ 32"
      by (auto simp: raw_at_def rva_of_def raw_length_def Let_def result_iffs split: if_splits)
    from Cons.IH [OF rest(1)] have ih: "list_all2 (laid buf rvamin pieces2) ss ss2"
      "ordered (cursor + align (raw_length s) fa) (piece_writes buf pieces2) cursor'" by auto
    have "ordered (cursor + raw_length s) (piece_writes buf pieces2) cursor'"
      using ih(2) align_enough [OF assms(2), of "raw_length s"] by (cases "piece_writes buf pieces2") auto
    then have "ordered cursor (piece_writes buf pieces) cursor'" using rest(5) by (simp add: rest(3) piece_writes_def)
    moreover have "laid buf rvamin pieces s (put_at s 20 (le_bytes 4 cursor))"
      unfolding laid_def rest(3) using False rest(4-6) by auto
    ultimately show ?thesis using list_all2_laid [OF ih(1)] by (simp add: rest(2,3))
  qed
qed (simp add: piece_writes_def)

definition rows :: "nat \<Rightarrow> nat \<Rightarrow> bytes list \<Rightarrow> (nat \<times> bytes) list" where
  "rows base n ss = map (\<lambda>(i, s). (base + SECTION_ENTRY * i, s)) (enumerate n ss)"

lemma ordered_rows:
  "\<forall>s \<in> set ss. length s = SECTION_ENTRY \<Longrightarrow>
    ordered (base + SECTION_ENTRY * n) (rows base n ss) (base + SECTION_ENTRY * (n + length ss))"
proof (induction ss arbitrary: n)
  case (Cons s ss)
  then show ?case using Cons.IH [of "Suc n"] by (simp add: rows_def algebra_simps)
qed (simp add: rows_def)

lemma row_in: "i < length ss \<Longrightarrow> (base + SECTION_ENTRY * i, ss ! i) \<in> set (rows base 0 ss)"
  by (force simp: rows_def in_set_enumerate_eq intro: image_eqI [of _ _ "(i, ss ! i)"])

text \<open>The writes the file is made of, in rising order.\<close>

definition file_writes :: "packed \<Rightarrow> original \<Rightarrow> bytes list \<Rightarrow> bytes \<Rightarrow> (nat \<times> nat \<times> nat) list \<Rightarrow> nat \<Rightarrow> (nat \<times> bytes) list" where
  "file_writes pk orig ss buf pieces cursor =
     [(0, take (pk_pe_offset pk) (pk_data pk)), (pk_pe_offset pk, or_raw orig)] @
     rows (pk_pe_offset pk + oh_size (or_is64 orig)) 0 ss @ piece_writes buf pieces @ [(cursor, overlay_of pk)]"

lemma put_all_indexed:
  "foldl (\<lambda>out (i, s). put_at out (base + SECTION_ENTRY * i) s) out xs = put_all out (map (\<lambda>(i, s). (base + SECTION_ENTRY * i, s)) xs)"
  by (induction xs arbitrary: out) auto

lemma put_all_rows: "foldl (\<lambda>out (i, s). put_at out (base + SECTION_ENTRY * i) s) out (enumerate 0 ss) = put_all out (rows base 0 ss)"
  unfolding rows_def by (rule put_all_indexed)

lemma put_all_pieces:
  "foldl (\<lambda>out (file_at, at, n). put_at out file_at (slice_at buf at n)) out pieces = put_all out (piece_writes buf pieces)"
  unfolding piece_writes_def by (induction pieces arbitrary: out) auto

lemma set_field_header: "full_header orig \<Longrightarrow> full_header (finished_header start orig) \<and> or_is64 (finished_header start orig) = or_is64 orig"
  by (auto simp: finished_header_def directory_count_at_def intro!: set_field_full)

lemma laid_length: "laid buf rvamin pieces s s' \<Longrightarrow> length s = SECTION_ENTRY \<Longrightarrow> length s' = SECTION_ENTRY"
  by (auto simp: laid_def SECTION_ENTRY_def split: if_splits)

lemma laid_lengths:
  "list_all2 (laid buf rvamin pieces) ss ss' \<Longrightarrow> \<forall>s \<in> set ss. length s = SECTION_ENTRY \<Longrightarrow> \<forall>s \<in> set ss'. length s = SECTION_ENTRY"
  by (induction rule: list_all2_induct) (auto dest: laid_length)

lemma assemble_writes:
  assumes "assemble pk orig ss buf rvamin = Inr (file, n)" "full_header orig"
    and "\<forall>s \<in> set ss. length s = SECTION_ENTRY" "pk_pe_offset pk \<le> length (pk_data pk)"
  shows "\<exists>ss' pieces cursor.
    list_all2 (laid buf rvamin pieces) ss ss' \<and> n = length (overlay_of pk) \<and> length file = cursor + n \<and>
    length file \<le> UNPACKED_CAP \<and>
    ordered 0 (file_writes pk (finished_header (file_start pk orig ss) orig) ss' buf pieces cursor) (length file) \<and>
    file = put_all (replicate (length file) 0) (file_writes pk (finished_header (file_start pk orig ss) orig) ss' buf pieces cursor)"
proof -
  let ?start = "file_start pk orig ss" and ?fa = "get_field orig 60 4" and ?oh = "oh_size (or_is64 orig)"
  let ?head = "finished_header ?start orig"
  note def = assms(1) [unfolded assemble_def Let_def put_all_rows put_all_pieces]
  have fa: "0 < ?fa" and hend: "headers_end pk orig ss \<le> ?start" using def by (auto split: if_splits)
  have no: "\<not> (?fa = 0 \<or> ?fa AND (?fa - 1) \<noteq> 0)" "\<not> ?start < headers_end pk orig ss"
    using def by (auto split: if_splits)
  obtain ss' pieces cursor where lay: "lay_sections buf rvamin ?fa 0 ?start ss = Inr (ss', pieces, cursor)"
    using def unfolding if_not_P [OF no(1)] if_not_P [OF no(2)] by (cases "lay_sections buf rvamin ?fa 0 ?start ss") auto
  note def' = def [unfolded if_not_P [OF no(1)] if_not_P [OF no(2)] lay bind_r_Inr prod.case]
  have cap: "\<not> UNPACKED_CAP < cursor + length (overlay_of pk)" using def' by (auto split: if_splits)
  have is64: "or_is64 ?head = or_is64 orig" using set_field_header [OF assms(2)] by simp
  have n: "n = length (overlay_of pk)"
    and file_eq: "file = put_all (replicate (cursor + length (overlay_of pk)) 0) (file_writes pk ?head ss' buf pieces cursor)"
    using def' unfolding if_not_P [OF cap] file_writes_def put_all_append is64 put_all_Cons put_all_Nil by auto
  from lay_sections_laid [OF lay fa] have laid: "list_all2 (laid buf rvamin pieces) ss ss'"
    and pieces: "ordered ?start (piece_writes buf pieces) cursor" by auto
  have forty: "\<forall>s \<in> set ss'. length s = SECTION_ENTRY"
    using laid_lengths [OF laid assms(3)] .
  have count: "length ss' = length ss" using laid by (simp add: list_all2_lengthD)
  have "ordered (pk_pe_offset pk + ?oh) (rows (pk_pe_offset pk + ?oh) 0 ss') (headers_end pk orig ss)"
    using ordered_rows [OF forty, of "pk_pe_offset pk + ?oh" 0] by (simp add: headers_end_def count)
  moreover have "ordered (headers_end pk orig ss) (piece_writes buf pieces @ [(cursor, overlay_of pk)]) (cursor + length (overlay_of pk))"
    using pieces hend ordered_append [of "headers_end pk orig ss" "piece_writes buf pieces" cursor]
    by (cases "piece_writes buf pieces") auto
  ultimately have tail: "ordered (pk_pe_offset pk + ?oh)
      (rows (pk_pe_offset pk + ?oh) 0 ss' @ piece_writes buf pieces @ [(cursor, overlay_of pk)]) (cursor + length (overlay_of pk))"
    by (rule ordered_append)
  have "length (or_raw ?head) = ?oh" using set_field_header [OF assms(2), of ?start] by (simp add: full_header_def)
  then have all: "ordered 0 (file_writes pk ?head ss' buf pieces cursor) (cursor + length (overlay_of pk))"
    using tail assms(4) set_field_header [OF assms(2), of ?start] by (simp add: file_writes_def)
  then have "length file = cursor + length (overlay_of pk)" using put_all_below [of 0 _ "replicate (cursor + length (overlay_of pk)) 0"]
    unfolding file_eq by simp
  then show ?thesis using laid n cap all file_eq by (intro exI [of _ ss'] exI [of _ pieces] exI [of _ cursor]) auto
qed

end
