(* ===== verification/Upx_Properties.thy ===== *)
theory Upx_Properties
  imports Upx_Rebuild_Proofs
begin

text \<open>
  The properties of the UPX reader: its decoders and its code filter undo what a packer does,
  the relocation records are read as if one by one, the rebuild never leaves the unpacked data,
  what is unpacked was checked, and the file that comes out holds the pieces its headers state.
\<close>

section \<open>The decoders\<close>

text \<open>
  C33. Every parse of an output into literal bytes and back-references (each copied byte by
  byte, overlaps included) written as an NRV2B, NRV2D or NRV2E stream with words of any of the
  three sizes is decoded to exactly that output, with every byte of the stream used.
\<close>

theorem nrv_decodes_what_was_written:
  assumes "writable kind 0 ts"
  shows "nrv kind w (compress kind w ts) (length (expand [] ts)) = Inr (expand [] ts)"
proof -
  obtain s where "nrv_loop kind w (compress kind w ts) (length (expand [] ts)) 1 [] start_reader = Inr (expand [] ts, s)"
    "feeds w (compress kind w ts) [] s"
    using loop_decodes [of w "compress kind w ts" kind 1 ts start_reader "[]" "length (expand [] ts)"] feeds_start assms
    by (auto simp: compress_def)
  with feeds_end [OF this(2)] show ?thesis by (simp add: nrv_def)
qed

section \<open>The code filter\<close>

lemma unfilter_short: "stop \<le> at + 1 \<Longrightarrow> unfilter_scan ops cto stop at buf n = (buf, n)"
  by (simp add: unfilter_scan.simps [of _ _ _ at])

lemma filter_stop_cases:
  assumes "start + len \<le> blen"
  shows "filter_stop blen start len + 3 \<le> blen \<or> filter_stop blen start len \<le> start + 1"
  using assms by (auto simp: filter_stop_def)

text \<open>
  C34. Undoing a code filter over a range gives back the code the packer's filter changed there:
  every target it wrote is found again and none other, whatever bytes stand between them.
\<close>

theorem unfilter_undoes_the_filter:
  assumes "filter_code ops cto buf start len = Some (buf', n)" "start + len \<le> length buf" "cto < 256"
  shows "unfilter ops cto buf' start len = (buf, n)"
proof -
  let ?stop = "filter_stop (length buf) start len"
  have scan: "filter_scan ops cto ?stop start buf 0 = Some (buf', n)" using assms(1) by (simp add: filter_code_def)
  from filter_stop_cases [OF assms(2)] show ?thesis
  proof
    assume in_buf: "?stop + 3 \<le> length buf"
    from filter_scan_before [OF scan in_buf] have "length buf' = length buf" by simp
    then show ?thesis using unfilter_filter_scan [OF scan in_buf assms(3), of 0] by (simp add: unfilter_def)
  next
    assume "?stop \<le> start + 1"
    then show ?thesis using scan by (simp add: unfilter_def unfilter_short filter_scan.simps [of _ _ _ start])
  qed
qed

lemma unfilter_scan_length:
  "stop + 3 \<le> length buf \<Longrightarrow> length (fst (unfilter_scan ops cto stop at buf n)) = length buf"
proof (induction ops cto stop at buf n rule: unfilter_scan.induct)
  case (1 ops cto stop at buf n)
  then show ?case by (subst unfilter_scan.simps) auto
qed

lemma unfilter_length: "start + len \<le> length buf \<Longrightarrow> length (fst (unfilter ops cto buf start len)) = length buf"
  using filter_stop_cases [of start len "length buf"] by (auto simp: unfilter_def unfilter_scan_length unfilter_short)

lemma undo_filter_length:
  assumes "undo_filter h orig rvamin buf = Inr (buf', n)" "length buf = ph_u_len h"
  shows "length buf' = length buf"
proof (cases "ph_filter h = 0")
  case False
  with assms obtain ops where
    "unfilter ops (ph_filter_cto h) buf (get_field orig 44 4 - rvamin) (get_field orig 28 4) = (buf', n)"
    "get_field orig 44 4 - rvamin + get_field orig 28 4 \<le> length buf"
    by (auto simp: undo_filter_def Let_def split: if_splits option.splits)
  with unfilter_length [OF this(2), of ops "ph_filter_cto h"] show ?thesis by simp
qed (use assms in \<open>simp add: undo_filter_def\<close>)

section \<open>Relocation records\<close>

text \<open>
  C35. Reading the relocation records a piece at a time, the one-byte deltas of a run summed
  together and only the run's first and last position held to the image, is reading them one by
  one with every position held to it: the same positions, and the same errors but for which
  position outside the image an error names.
\<close>

theorem records_are_read_one_by_one:
  assumes "stream \<le> length buf"
  shows "blurred (reloc_positions buf stream image_size width) = blurred (reloc_each buf image_size width stream (- 4) [])"
  by (rule positions_each [OF assms])

section \<open>The rebuild\<close>

text \<open>
  C36. No rebuild step writes outside the unpacked data or moves its ends: after the imports,
  relocations, exports and resources are put back, the data is as long as it was, and so is the
  stored header.
\<close>

theorem rebuild_stays_inside:
  assumes "rebuild im = Inr im'" "full_header (im_original im)"
  shows "length (im_buf im') = length (im_buf im) \<and> full_header (im_original im') \<and>
    im_rvamin im' = im_rvamin im \<and> im_packed im' = im_packed im"
  using rebuild_kept [OF assms(2)] assms by (auto simp: all_r_def kept_def full_header_def)

section \<open>The unpack\<close>

lemma decompress_length: "decompress raw d src ulen = Inr out \<Longrightarrow> length out = ulen"
  by (cases d) (auto simp: decompress_def nrv_def lzma_def Let_def result_iffs split: if_splits option.splits prod.splits)

lemma checked_data_Inr:
  assumes "checked_data raw pk h = Inr plain"
  shows "\<exists>d. known_method (ph_method h) = Some d \<and>
    decompress raw d (slice_at (pk_data pk) (data_offset h) (ph_c_len h)) (ph_u_len h) = Inr plain \<and>
    adler32 (slice_at (pk_data pk) (data_offset h) (ph_c_len h)) = ph_c_adler h \<and> adler32 plain = ph_u_adler h"
  using assms by (auto simp: checked_data_def Let_def result_iffs split: if_splits option.splits)

lemma check_header_Inr:
  assumes "check_header pk h = Inr ()"
  shows "ph_format h \<in> set FORMATS \<and> pk_machine pk = machine_of_format (ph_format h) \<and>
    (ph_filter h \<noteq> 0 \<longrightarrow> map_of FILTERS (ph_filter h) \<noteq> None) \<and> ph_u_len h \<le> UNPACKED_CAP \<and>
    ph_u_len h \<le> pk_size_of_image pk \<and> data_offset h + ph_c_len h \<le> length (pk_data pk)"
  using assms by (auto simp: check_header_def split: if_splits)

lemma stored_headers_Inr:
  assumes "stored_headers h buf = Inr (orig, sections, records)" "length buf = ph_u_len h"
  shows "full_header orig \<and> (\<forall>s \<in> set sections. length s = SECTION_ENTRY) \<and> sections \<noteq> []"
proof -
  let ?is64 = "ph_format h = FORMAT_WIN64_PEP"
  from assms(1) obtain at where at: "at + oh_size ?is64 \<le> ph_u_len h"
    "orig = \<lparr>or_raw = slice_at buf at (oh_size ?is64), or_is64 = ?is64\<rparr>"
    "get_field orig 6 2 \<noteq> 0" "at + oh_size ?is64 + SECTION_ENTRY * get_field orig 6 2 \<le> ph_u_len h"
    "sections = map (\<lambda>i. slice_at buf (at + oh_size ?is64 + SECTION_ENTRY * i) SECTION_ENTRY) [0..<get_field orig 6 2]"
    by (auto simp: stored_headers_def Let_def result_iffs split: if_splits)
  have "SECTION_ENTRY * i + SECTION_ENTRY \<le> SECTION_ENTRY * get_field orig 6 2" if "i < get_field orig 6 2" for i
    using mult_le_mono2 [of "Suc i" "get_field orig 6 2" SECTION_ENTRY] that by simp
  then show ?thesis using at assms(2) by (fastforce simp: full_header_def)
qed

lemma read_packed_data: "read_packed data = Inr pk \<Longrightarrow> pk_data pk = data \<and> pk_pe_offset pk \<le> length data"
  by (auto simp: read_packed_def Let_def split: if_splits)

lemma unpack_with_Inr:
  assumes "unpack_with raw pk h = Inr u"
  shows "\<exists>plain orig sections records buf targets im. check_header pk h = Inr () \<and> checked_data raw pk h = Inr plain \<and>
    stored_headers h plain = Inr (orig, sections, records) \<and>
    undo_filter h orig (le (slice_at (hd sections) 12 4)) plain = Inr (buf, targets) \<and>
    rebuild \<lparr>im_buf = buf, im_original = strip_relocations pk orig, im_rvamin = le (slice_at (hd sections) 12 4),
      im_packed = pk, im_records = records\<rparr> = Inr im \<and>
    assemble pk (clear_directories (im_original im)) sections (im_buf im) (le (slice_at (hd sections) 12 4))
      = Inr (un_image u, un_overlay u) \<and>
    un_header u = h \<and> un_u_adler u = adler32 plain \<and>
    un_c_adler u = adler32 (slice_at (pk_data pk) (data_offset h) (ph_c_len h))"
  using assms unfolding unpack_with_def by (auto simp: Let_def result_iffs)

lemma strip_relocations_full: "full_header orig \<Longrightarrow> full_header (strip_relocations pk orig)"
  by (auto simp: strip_relocations_def BASERELOC_def intro!: set_directory_full set_field_full)

lemma clear_directories_full: "full_header orig \<Longrightarrow> full_header (clear_directories orig)"
  by (auto simp: clear_directories_def DEBUG_def IAT_def BOUND_IMPORT_def intro!: set_directory_full set_field_full)

text \<open>
  C37. A program is unpacked only where everything the pack header states was held to the data:
  the format, machine, method and filter are ones the reader knows, the compressed and the
  decompressed data have the stated lengths and adler32, no more is unpacked than the packed
  file maps or the cap allows, and the written file is put together from rebuilt data of exactly
  the stated length and is itself within the cap.
\<close>

theorem unpacked_is_checked:
  assumes "unpack raw data = Inr u"
  shows "\<exists>pk d plain. read_packed data = Inr pk \<and> find_header pk = Inr (un_header u) \<and>
    known_method (ph_method (un_header u)) = Some d \<and> ph_format (un_header u) \<in> set FORMATS \<and>
    pk_machine pk = machine_of_format (ph_format (un_header u)) \<and>
    (ph_filter (un_header u) \<noteq> 0 \<longrightarrow> map_of FILTERS (ph_filter (un_header u)) \<noteq> None) \<and>
    data_offset (un_header u) + ph_c_len (un_header u) \<le> length data \<and>
    adler32 (slice_at data (data_offset (un_header u)) (ph_c_len (un_header u))) = ph_c_adler (un_header u) \<and>
    decompress raw d (slice_at data (data_offset (un_header u)) (ph_c_len (un_header u))) (ph_u_len (un_header u)) = Inr plain \<and>
    adler32 plain = ph_u_adler (un_header u) \<and> length plain = ph_u_len (un_header u) \<and>
    ph_u_len (un_header u) \<le> min UNPACKED_CAP (pk_size_of_image pk) \<and>
    un_u_adler u = ph_u_adler (un_header u) \<and> un_c_adler u = ph_c_adler (un_header u) \<and>
    length (un_image u) \<le> UNPACKED_CAP \<and>
    (\<exists>orig sections buf. length buf = ph_u_len (un_header u) \<and>
      assemble pk orig sections buf (le (slice_at (hd sections) 12 4)) = Inr (un_image u, un_overlay u))"
proof -
  from assms obtain pk h where pk: "read_packed data = Inr pk" and h: "find_header pk = Inr h"
    and u: "unpack_with raw pk h = Inr u"
    by (auto simp: unpack_def with_header_def split: sum.splits)
  from unpack_with_Inr [OF u] obtain plain orig sections records buf targets im where
    parts: "check_header pk h = Inr ()" "checked_data raw pk h = Inr plain"
    "stored_headers h plain = Inr (orig, sections, records)"
    "undo_filter h orig (le (slice_at (hd sections) 12 4)) plain = Inr (buf, targets)"
    and built: "rebuild \<lparr>im_buf = buf, im_original = strip_relocations pk orig, im_rvamin = le (slice_at (hd sections) 12 4),
      im_packed = pk, im_records = records\<rparr> = Inr im"
    and file_eq: "assemble pk (clear_directories (im_original im)) sections (im_buf im) (le (slice_at (hd sections) 12 4))
      = Inr (un_image u, un_overlay u)"
    and said: "un_header u = h" "un_u_adler u = adler32 plain"
      "un_c_adler u = adler32 (slice_at (pk_data pk) (data_offset h) (ph_c_len h))" by blast
  from checked_data_Inr [OF parts(2)] obtain d where d: "known_method (ph_method h) = Some d"
    "decompress raw d (slice_at (pk_data pk) (data_offset h) (ph_c_len h)) (ph_u_len h) = Inr plain"
    "adler32 (slice_at (pk_data pk) (data_offset h) (ph_c_len h)) = ph_c_adler h" "adler32 plain = ph_u_adler h" by blast
  have plain: "length plain = ph_u_len h" using decompress_length [OF d(2)] .
  from stored_headers_Inr [OF parts(3) plain] have orig: "full_header orig"
    and forty: "\<forall>s \<in> set sections. length s = SECTION_ENTRY" by auto
  have data: "pk_data pk = data" "pk_pe_offset pk \<le> length data" using read_packed_data [OF pk] by auto
  let ?im = "\<lparr>im_buf = buf, im_original = strip_relocations pk orig, im_rvamin = le (slice_at (hd sections) 12 4),
      im_packed = pk, im_records = records\<rparr>"
  have "full_header (im_original ?im)" using strip_relocations_full [OF orig] by simp
  from rebuild_kept [OF this] built this have kept: "length (im_buf im) = ph_u_len h \<and> full_header (im_original im)"
    using undo_filter_length [OF parts(4) plain] plain by (simp add: all_r_def kept_def full_header_def)
  obtain n where "length (un_image u) \<le> UNPACKED_CAP"
    using assemble_writes [OF file_eq clear_directories_full forty] kept data by blast
  with pk h d plain check_header_Inr [OF parts(1)] data said kept file_eq show ?thesis by auto
qed

section \<open>The file put together\<close>

text \<open>A section as the file states it: its header, and at the place and of the length it states, its data.\<close>

definition section_stands :: "bytes \<Rightarrow> bytes \<Rightarrow> nat \<Rightarrow> bytes \<Rightarrow> bytes \<Rightarrow> bool" where
  "section_stands out buf rvamin s s' \<longleftrightarrow>
     (if raw_at s = 0 then s' = s
      else s' = put_at s 20 (le_bytes 4 (raw_at s')) \<and> rvamin \<le> rva_of s' \<and>
        rva_of s' - rvamin + raw_length s' \<le> length buf \<and>
        slice_at out (raw_at s') (raw_length s') = slice_at buf (rva_of s' - rvamin) (raw_length s'))"

lemma section_from_piece:
  assumes "laid buf rvamin pieces s s'" "length s = SECTION_ENTRY"
    and "\<And>at from n. (at, from, n) \<in> set pieces \<Longrightarrow> from + n \<le> length buf \<Longrightarrow> slice_at out at n = slice_at buf from n"
  shows "section_stands out buf rvamin s s'"
proof (cases "raw_at s = 0")
  case True
  then show ?thesis using assms(1) by (simp add: laid_def section_stands_def)
next
  case False
  with assms(1) obtain at where at: "at < 2 ^ 32" "s' = put_at s 20 (le_bytes 4 at)"
    "(at, rva_of s - rvamin, raw_length s) \<in> set pieces" "rvamin \<le> rva_of s" "rva_of s - rvamin + raw_length s \<le> length buf"
    by (auto simp: laid_def)
  have s: "length s = 40" using assms(2) by (simp add: SECTION_ENTRY_def)
  have "raw_at s' = at" unfolding at(2) using raw_at_put [OF s] at(1) by simp
  moreover have "rva_of s' = rva_of s" "raw_length s' = raw_length s"
    unfolding at(2) rva_of_def raw_length_def using s by (simp_all add: slice_put_at_apart)
  ultimately show ?thesis using False at assms(3) [OF at(3,5)] by (simp add: section_stands_def)
qed

text \<open>
  C38. The rebuilt file begins with the packed file's DOS header and the stored PE header,
  states a section table whose every section with file data has its data at the place and of the
  length its entry states, and ends in the packed file's overlay; nothing overlaps anything.
\<close>

theorem the_file_holds_its_sections:
  assumes "assemble pk orig ss buf rvamin = Inr (out, n)" "full_header orig"
    and "\<forall>s \<in> set ss. length s = SECTION_ENTRY" "pk_pe_offset pk \<le> length (pk_data pk)"
  shows "take (pk_pe_offset pk) out = take (pk_pe_offset pk) (pk_data pk) \<and>
    slice_at out (pk_pe_offset pk) (oh_size (or_is64 orig)) = or_raw (finished_header (file_start pk orig ss) orig) \<and>
    (\<forall>i < length ss. section_stands out buf rvamin (ss ! i)
      (slice_at out (pk_pe_offset pk + oh_size (or_is64 orig) + SECTION_ENTRY * i) SECTION_ENTRY)) \<and>
    drop (length out - n) out = overlay_of pk \<and> length out \<le> UNPACKED_CAP"
proof -
  let ?head = "finished_header (file_start pk orig ss) orig" and ?pe = "pk_pe_offset pk" and ?oh = "oh_size (or_is64 orig)"
  from assemble_writes [OF assms] obtain ss' pieces cursor where
    laid: "list_all2 (laid buf rvamin pieces) ss ss'" and n: "n = length (overlay_of pk)" "length out = cursor + n"
    and cap: "length out \<le> UNPACKED_CAP"
    and ordered: "ordered 0 (file_writes pk ?head ss' buf pieces cursor) (length (replicate (length out) (0 :: byte)))"
    and out: "out = put_all (replicate (length out) 0) (file_writes pk ?head ss' buf pieces cursor)" by auto
  have holds: "slice_at out at (length new) = new" if "(at, new) \<in> set (file_writes pk ?head ss' buf pieces cursor)" for at new
    by (subst out) (rule put_all_holds [OF ordered that])
  have head: "length (or_raw ?head) = ?oh" "or_is64 ?head = or_is64 orig"
    using set_field_header [OF assms(2)] by (simp_all add: full_header_def)
  have "slice_at out 0 ?pe = take ?pe (pk_data pk)"
    using holds [of 0 "take ?pe (pk_data pk)"] assms(4) by (simp add: file_writes_def)
  moreover have "slice_at out ?pe ?oh = or_raw ?head" using holds [of ?pe "or_raw ?head"] head by (simp add: file_writes_def)
  moreover have "slice_at out cursor n = overlay_of pk" using holds [of cursor "overlay_of pk"] by (simp add: file_writes_def n(1))
  moreover have "section_stands out buf rvamin (ss ! i) (slice_at out (?pe + ?oh + SECTION_ENTRY * i) SECTION_ENTRY)"
    if i: "i < length ss" for i
  proof -
    have l: "laid buf rvamin pieces (ss ! i) (ss' ! i)" "i < length ss'"
      using laid i by (auto simp: list_all2_conv_all_nth)
    have "length (ss' ! i) = SECTION_ENTRY" using laid_length [OF l(1)] assms(3) i by simp
    moreover have "(?pe + ?oh + SECTION_ENTRY * i, ss' ! i) \<in> set (file_writes pk ?head ss' buf pieces cursor)"
      using row_in [OF l(2)] by (simp add: file_writes_def head(2))
    ultimately have row: "slice_at out (?pe + ?oh + SECTION_ENTRY * i) SECTION_ENTRY = ss' ! i" using holds by fastforce
    show ?thesis unfolding row
    proof (rule section_from_piece [OF l(1)])
      show "length (ss ! i) = SECTION_ENTRY" using assms(3) i by simp
      fix at "from" m assume piece: "(at, from, m) \<in> set pieces" "from + m \<le> length buf"
      then have "(at, slice_at buf from m) \<in> set (file_writes pk ?head ss' buf pieces cursor)"
        by (force simp: file_writes_def piece_writes_def)
      from holds [OF this] piece(2) show "slice_at out at m = slice_at buf from m" by simp
    qed
  qed
  ultimately show ?thesis using cap n by (simp add: slice_at_def)
qed

end
