(* ===== verification/Upx_Witnesses.thy ===== *)
theory Upx_Witnesses
  imports Upx_Properties
begin

text \<open>
  Concrete inputs of the UPX reader, each property applied to one: a stream with an overlapping
  copy, a filtered call, a relocation stream, an image whose relocation table is written, and a
  packed file with the file it unpacks to. Long runs of zeros stay \<^const>\<open>replicate\<close>, so the
  simplifier reads the fields without listing them.
\<close>

section \<open>A stream, a call, three relocations\<close>

definition demo_tokens :: "token list" where
  "demo_tokens = [Lit 65, Lit 66, Copy 2 3, Lit 67]"

theorem nrv_decodes_what_was_written_witness:
  "nrv K2e W16 (compress K2e W16 demo_tokens) 6 = Inr [65, 66, 65, 66, 65, 67]"
proof -
  have w: "writable K2e 0 demo_tokens" by (simp add: demo_tokens_def near_def)
  have e: "expand [] demo_tokens = [65, 66, 65, 66, 65, 67]" by (simp add: demo_tokens_def numeral_3_eq_3)
  then have "length (expand [] demo_tokens) = 6" by simp
  with nrv_decodes_what_was_written [OF w, of W16] show ?thesis unfolding e by metis
qed

lemma le_zeros [simp]: "le (replicate n 0) = 0"
  by (induction n) auto

lemma le_bytes_four:
  "le_bytes 4 v = [word_of_nat v, word_of_nat (v div 256), word_of_nat (v div 65536), word_of_nat (v div 16777216)]"
proof -
  have four: "4 = Suc (Suc (Suc (Suc 0)))" by simp
  show ?thesis unfolding four le_bytes.simps by (simp add: div_mult2_eq [symmetric])
qed

definition demo_code :: bytes where
  "demo_code = [0x90, 0xE8, 0x10, 0, 0, 0, 0x90, 0x90, 0x90, 0x90]"

definition demo_filtered :: bytes where
  "demo_filtered = [0x90, 0xE8, 0x33, 0, 0, 0x12, 0x90, 0x90, 0x90, 0x90]"

lemma demo_is_filtered: "filter_code [0xE8] 0x33 demo_code 0 10 = Some (demo_filtered, 1)"
  by (simp add: filter_code_def filter_stop_def filter_scan.simps demo_code_def demo_filtered_def slice_at_def put_at_def le_bytes_four)

theorem unfilter_undoes_the_filter_witness:
  "unfilter [0xE8] 0x33 demo_filtered 0 10 = (demo_code, 1)"
  by (rule unfilter_undoes_the_filter [OF demo_is_filtered]) (simp_all add: demo_code_def)

definition demo_records :: bytes where
  "demo_records = replicate 512 0 @ reloc_bytes (- 4) [8, 16, 400]"

theorem records_are_read_one_by_one_witness:
  "blurred (reloc_each demo_records 512 4 512 (- 4) []) = Inr [8, 16, 400]"
proof -
  have "reloc_positions demo_records 512 512 4 = Inr (map int [8, 16, 400])"
    by (rule positions_read_back [where rest = "[]"]) (simp_all add: demo_records_def)
  moreover have "512 \<le> length demo_records" by (simp add: demo_records_def)
  ultimately show ?thesis using records_are_read_one_by_one [of 512 demo_records 512 4] by simp
qed

section \<open>A rebuilt table\<close>

definition demo_image :: image where
  "demo_image = \<lparr>im_buf = replicate 16 0,
     im_original = \<lparr>or_raw = replicate 160 0 @ [4, 0x10, 0, 0, 8, 0, 0, 0] @ replicate 80 0, or_is64 = False\<rparr>,
     im_rvamin = 0x1000,
     im_packed = \<lparr>pk_data = [], pk_is64 = False, pk_size_of_image = 0, pk_sections = [], pk_pe_offset = 0,
       pk_machine = 0, pk_flags = 0, pk_directories = []\<rparr>, im_records = 0\<rparr>"

lemma demo_rebuilds:
  "rebuild demo_image = Inr (demo_image\<lparr>im_buf := replicate 4 0 @ [0, 0, 0, 0, 8, 0, 0, 0] @ replicate 4 0\<rparr>)"
  by (simp add: rebuild_def rebuild_imports_def rebuild_relocations_def rebuild_exports_def rebuild_resources_def
      directory_of_def directories_at_def get_field_def slice_at_def demo_image_def IMPORT_def EXPORT_def RESOURCE_def
      BASERELOC_def image_at_def put_def put_at_def upx_def reb_def)

theorem rebuild_stays_inside_witness:
  "length (im_buf (demo_image\<lparr>im_buf := replicate 4 0 @ [0, 0, 0, 0, 8, 0, 0, 0] @ replicate 4 0\<rparr>)) = length (im_buf demo_image)"
  using rebuild_stays_inside [OF demo_rebuilds] by (simp add: full_header_def oh_size_def demo_image_def)

section \<open>A packed file\<close>

definition demo_header :: bytes where
  "demo_header =
     [0x50, 0x45, 0, 0, 0x4C, 0x01, 1, 0] @ replicate 16 0 @ [0x0B, 0x01] @ replicate 34 0 @ [1, 0, 0, 0] @ replicate 184 0"

definition demo_section :: bytes where
  "demo_section = replicate 12 0 @ [0, 0x10, 0, 0, 4, 0, 0, 0, 0, 2, 0, 0] @ replicate 16 0"

definition demo_plain :: bytes where
  "demo_plain = demo_header @ demo_section @ [0, 0, 0, 0]"

definition demo_lzma :: lzma_raw where
  "demo_lzma lc lp pb dict src n = Some demo_plain"

definition demo_file :: bytes where
  "demo_file =
     [0x4D, 0x5A] @ replicate 58 0 @ [64, 0, 0, 0] @
     [0x50, 0x45, 0, 0, 0x4C, 0x01, 2, 0] @ replicate 12 0 @ [96, 0, 0, 0] @
     [0x0B, 0x01] @ replicate 54 0 @ [0, 0x10, 0, 0] @ replicate 36 0 @
     replicate 16 0 @ [35, 0, 0, 0, 8, 1, 0, 0] @ replicate 16 0 @
     replicate 20 0 @ [0x44, 1, 0, 0] @ replicate 16 0 @
     [0x55, 0x50, 0x58, 0x21, 13, 9, 14, 8, 7, 1, 164, 18, 30, 0, 87, 0, 36, 1, 0, 0, 3, 0, 0, 0, 0, 0, 0, 0, 0, 0, 0, 140] @
     [0x1A, 3, 0] @ [1, 2]"

definition demo_packed :: packed where
  "demo_packed = \<lparr>pk_data = demo_file, pk_is64 = False, pk_size_of_image = 4096,
     pk_sections = [\<lparr>sh_rva = 0, sh_virtual_size = 0, sh_raw_offset = 264, sh_raw_size = 35\<rparr>,
       \<lparr>sh_rva = 0, sh_virtual_size = 0, sh_raw_offset = 324, sh_raw_size = 0\<rparr>],
     pk_pe_offset = 64, pk_machine = 0x14C, pk_flags = 0, pk_directories = []\<rparr>"

lemma length_demo_file: "length demo_file = 301"
  by (simp add: demo_file_def)

lemma demo_read_packed: "read_packed demo_file = Inr demo_packed"
proof -
  have u: "u_at demo_file 60 4 = 64" "u_at demo_file 88 2 = 0x10B" "u_at demo_file 144 4 = 4096" "u_at demo_file 84 2 = 96"
    "u_at demo_file 70 2 = 2" "u_at demo_file 68 2 = 0x14C" "u_at demo_file 86 2 = 0" "u_at demo_file 180 4 = 0"
    "u_at demo_file 196 4 = 0" "u_at demo_file 192 4 = 0" "u_at demo_file 200 4 = 35" "u_at demo_file 204 4 = 264"
    "u_at demo_file 236 4 = 0" "u_at demo_file 232 4 = 0" "u_at demo_file 240 4 = 0" "u_at demo_file 244 4 = 324"
    by (simp_all add: u_at_def demo_file_def slice_at_def)
  have s: "take 2 demo_file = [0x4D, 0x5A]" "slice_at demo_file 64 4 = [0x50, 0x45, 0, 0]"
    by (simp_all add: demo_file_def slice_at_def)
  have t: "section_table demo_file 184 2 = pk_sections demo_packed"
    by (simp add: numeral_2_eq_2 u length_demo_file demo_packed_def)
  show ?thesis
    unfolding read_packed_def by (simp add: u s t length_demo_file demo_packed_def)
qed

definition demo_pack :: pack_header where
  "demo_pack = \<lparr>ph_offset = 264, ph_version = 13, ph_format = 9, ph_method = 14, ph_level = 8, ph_u_adler = 0x12a40107,
     ph_c_adler = 0x57001e, ph_u_len = 292, ph_c_len = 3, ph_u_file_size = 0, ph_filter = 0, ph_filter_cto = 0, ph_n_mru = 0\<rparr>"

definition demo_block :: bytes where
  "demo_block = [0x55, 0x50, 0x58, 0x21, 13, 9, 14, 8, 7, 1, 164, 18, 30, 0, 87, 0, 36, 1, 0, 0, 3, 0, 0, 0, 0, 0, 0, 0, 0, 0, 0, 140]"

lemma demo_find_magic: "find_bytes MAGIC demo_file 260 1284 = Some 264"
proof -
  have range: "[260..<302] = [260, 261, 262, 263, 264] @ [265..<302]" by (simp add: upt_rec_numeral)
  have slices: "slice_at demo_file 260 4 = [0, 0, 0, 0]" "slice_at demo_file 261 4 = [0, 0, 0, 0x55]"
    "slice_at demo_file 262 4 = [0, 0, 0x55, 0x50]" "slice_at demo_file 263 4 = [0, 0x55, 0x50, 0x58]"
    "slice_at demo_file 264 4 = [0x55, 0x50, 0x58, 0x21]"
    by (simp_all add: demo_file_def slice_at_def numeral_eq_Suc)
  have magic: "length MAGIC = 4" "slice_at demo_file 260 4 \<noteq> MAGIC" "slice_at demo_file 261 4 \<noteq> MAGIC"
    "slice_at demo_file 262 4 \<noteq> MAGIC" "slice_at demo_file 263 4 \<noteq> MAGIC" "slice_at demo_file 264 4 = MAGIC"
    unfolding slices by (simp_all add: MAGIC_def)
  then show ?thesis by (simp add: find_bytes_def length_demo_file range)
qed

lemma demo_find_header: "find_header demo_packed = Inr demo_pack"
proof -
  have "first_magic demo_packed = Some 264"
    by (simp add: first_magic_def windows_def demo_packed_def WINDOW_BEFORE_def WINDOW_def demo_find_magic)
  moreover have "slice_at demo_file 264 32 = demo_block"
    by (simp add: demo_file_def slice_at_def demo_block_def)
  moreover have "parse_header demo_file 264 = Inr demo_pack" if "slice_at demo_file 264 32 = demo_block"
    using that
    by (simp add: parse_header_def HEADER_SIZE_def header_of_def demo_block_def demo_pack_def REFUSED_VERSION_def
        FIRST_VERSION_def checksum_byte_def slice_at_def)
  ultimately show ?thesis by (simp add: find_header_def demo_packed_def)
qed

lemma demo_check_header: "check_header demo_packed demo_pack = Inr ()"
  by (simp add: check_header_def demo_packed_def demo_pack_def FORMATS_def FORMAT_WIN32_PE_def machine_of_format_def
      known_method_def METHODS_def UNPACKED_CAP_def data_offset_def HEADER_SIZE_def length_demo_file)

text \<open>The checksum of zeros: only the second sum moves.\<close>

lemma adler_zeros:
  "a < 65521 \<Longrightarrow> b < 65521 \<Longrightarrow> foldl adler_step (a, b) (replicate n 0) = (a, (b + n * a) mod 65521)"
proof (induction n arbitrary: b)
  case (Suc n)
  have "((b + a) mod 65521 + n * a) mod 65521 = (b + Suc n * a) mod 65521" by (simp add: mod_simps algebra_simps)
  then show ?case using Suc by (simp add: adler_step_def Let_def)
qed simp

lemma demo_adler: "adler32 demo_plain = 0x12a40107"
  by (simp add: adler32_def demo_plain_def demo_header_def demo_section_def adler_zeros adler_step_def Let_def)

lemma demo_stream: "slice_at demo_file 296 3 = [0x1A, 3, 0]"
  by (simp add: demo_file_def slice_at_def)

lemma length_demo_plain: "length demo_plain = 292" "length demo_header = 248" "length demo_section = 40"
  by (simp_all add: demo_plain_def demo_header_def demo_section_def)

lemma demo_checked_data: "checked_data demo_lzma demo_packed demo_pack = Inr demo_plain"
proof -
  have "adler32 [0x1A, 3, 0] = 0x57001e" by (simp add: adler32_def adler_step_def Let_def)
  moreover have "decompress demo_lzma Lzma [0x1A, 3, 0] 292 = Inr demo_plain"
    by (simp add: decompress_def lzma_def demo_lzma_def length_demo_plain)
  ultimately show ?thesis
    by (simp add: checked_data_def demo_packed_def demo_pack_def data_offset_def HEADER_SIZE_def demo_stream known_method_def
        METHODS_def demo_adler)
qed

definition demo_original :: original where
  "demo_original = \<lparr>or_raw = demo_header, or_is64 = False\<rparr>"

lemma demo_fields:
  "get_field demo_original 6 2 = 1" "get_field demo_original 24 2 = 0x10B" "get_field demo_original 60 4 = 1"
  "get_field demo_original 120 4 = 0" "get_field demo_original 124 4 = 0" "get_field demo_original 128 4 = 0"
  "get_field demo_original 132 4 = 0" "get_field demo_original 136 4 = 0" "get_field demo_original 140 4 = 0"
  "get_field demo_original 160 4 = 0"
  "take 4 (or_raw demo_original) = [0x50, 0x45, 0, 0]"
  by (simp_all add: get_field_def demo_original_def demo_header_def slice_at_def)

lemma demo_stored_headers: "stored_headers demo_pack demo_plain = Inr (demo_original, [demo_section], 288)"
proof -
  have s: "slice_at demo_plain 0 248 = demo_header" "slice_at demo_plain 248 40 = demo_section" "slice_at demo_plain 288 4 = [0, 0, 0, 0]"
    by (simp_all add: demo_plain_def slice_at_def length_demo_plain)
  have o: "\<lparr>or_raw = demo_header, or_is64 = False\<rparr> = demo_original" by (simp add: demo_original_def)
  show ?thesis
    by (simp add: stored_headers_def demo_pack_def FORMAT_WIN64_PEP_def read_le_def length_demo_plain s oh_size_def o
        demo_fields SECTION_ENTRY_def)
qed

lemma demo_rebuild:
  "rebuild \<lparr>im_buf = demo_plain, im_original = demo_original, im_rvamin = 0x1000, im_packed = demo_packed, im_records = 288\<rparr>
    = Inr \<lparr>im_buf = demo_plain, im_original = demo_original, im_rvamin = 0x1000, im_packed = demo_packed, im_records = 288\<rparr>"
proof -
  have narrow: "or_is64 demo_original = False" by (simp add: demo_original_def)
  show ?thesis
    by (simp add: rebuild_def rebuild_imports_def rebuild_relocations_def rebuild_exports_def rebuild_resources_def
        directory_of_def directories_at_def narrow demo_fields IMPORT_def EXPORT_def RESOURCE_def BASERELOC_def reb_def)
qed

lemma set_field_same: "slice_at (or_raw orig) at n = le_bytes n v \<Longrightarrow> at + n \<le> length (or_raw orig) \<Longrightarrow> set_field at n v orig = orig"
  using put_at_slice [of at n "or_raw orig"] by (simp add: set_field_def)

lemma demo_cleared: "clear_directories demo_original = demo_original"
proof -
  have "replicate 4 (0 :: byte) = [0, 0, 0, 0]" by (simp add: numeral_eq_Suc)
  then have zero: "le_bytes 4 0 = replicate 4 0" unfolding le_bytes_four by simp
  have zeros: "slice_at demo_header 88 4 = replicate 4 0" "slice_at demo_header 168 4 = replicate 4 0"
    "slice_at demo_header 172 4 = replicate 4 0" "slice_at demo_header 208 4 = replicate 4 0"
    "slice_at demo_header 212 4 = replicate 4 0" "slice_at demo_header 216 4 = replicate 4 0"
    "slice_at demo_header 220 4 = replicate 4 0"
    by (simp_all add: demo_header_def slice_at_def)
  have same: "set_field at 4 0 demo_original = demo_original" if "slice_at demo_header at 4 = replicate 4 0" "at + 4 \<le> 248" for at
    using that by (intro set_field_same) (auto simp: demo_original_def length_demo_plain zero)
  have narrow: "or_is64 demo_original = False" by (simp add: demo_original_def)
  show ?thesis
    by (simp add: clear_directories_def set_directory_def directories_at_def narrow DEBUG_def IAT_def BOUND_IMPORT_def same zeros)
qed

lemma demo_assembles: "\<exists>out. assemble demo_packed demo_original [demo_section] demo_plain 0x1000 = Inr (out, 2)"
proof -
  have s: "slice_at demo_section 12 4 = [0, 0x10, 0, 0]" "slice_at demo_section 16 4 = [4, 0, 0, 0]"
    "slice_at demo_section 20 4 = [0, 2, 0, 0]"
    by (simp_all add: demo_section_def slice_at_def)
  have start: "file_start demo_packed demo_original [demo_section] = 512" by (simp add: file_start_def s)
  have hend: "headers_end demo_packed demo_original [demo_section] = 352"
    by (simp add: headers_end_def demo_packed_def demo_original_def oh_size_def SECTION_ENTRY_def)
  have lay: "lay_sections demo_plain 0x1000 1 0 512 [demo_section] =
      Inr ([put_at demo_section 20 (le_bytes 4 512)], [(512, 0, 4)], 516)"
    by (simp add: s length_demo_plain align_def)
  have overlay: "overlay_of demo_packed = [1, 2]"
    by (simp add: overlay_of_def overlay_start_def demo_packed_def demo_file_def)
  show ?thesis
    unfolding assemble_def Let_def start hend demo_fields lay bind_r_Inr prod.case overlay
    by (simp add: UNPACKED_CAP_def)
qed

lemma demo_unpacks: "\<exists>u. unpack demo_lzma demo_file = Inr u \<and> un_header u = demo_pack \<and> un_overlay u = 2"
proof -
  obtain out where out: "assemble demo_packed demo_original [demo_section] demo_plain 0x1000 = Inr (out, 2)"
    using demo_assembles by blast
  have "odd (pk_flags demo_packed) = False" "ph_filter demo_pack = 0" by (simp_all add: demo_packed_def demo_pack_def)
  moreover have "le (slice_at demo_section 12 4) = 0x1000" by (simp add: demo_section_def slice_at_def)
  ultimately have "\<exists>u. unpack_with demo_lzma demo_packed demo_pack = Inr u \<and> un_header u = demo_pack \<and> un_overlay u = 2"
    by (simp add: unpack_with_def tab_def demo_check_header demo_checked_data demo_stored_headers undo_filter_def
        strip_relocations_def demo_rebuild demo_cleared out reb_def)
  then show ?thesis by (auto simp: unpack_def demo_read_packed demo_find_header with_header_def)
qed

theorem unpacked_is_checked_witness:
  "\<exists>u plain. unpack demo_lzma demo_file = Inr u \<and> adler32 plain = ph_u_adler demo_pack \<and> length plain = 292 \<and>
     length (un_image u) \<le> UNPACKED_CAP"
proof -
  obtain u where u: "unpack demo_lzma demo_file = Inr u" "un_header u = demo_pack" using demo_unpacks by blast
  have "ph_u_len demo_pack = 292" by (simp add: demo_pack_def)
  with unpacked_is_checked [OF u(1)] u show ?thesis by auto
qed

theorem the_file_holds_its_sections_witness:
  "\<exists>out. assemble demo_packed demo_original [demo_section] demo_plain 0x1000 = Inr (out, 2) \<and>
     section_stands out demo_plain 0x1000 demo_section (slice_at out 312 40) \<and> drop (length out - 2) out = overlay_of demo_packed"
proof -
  obtain out where out: "assemble demo_packed demo_original [demo_section] demo_plain 0x1000 = Inr (out, 2)"
    using demo_assembles by blast
  have "full_header demo_original" "\<forall>s \<in> set [demo_section]. length s = SECTION_ENTRY"
    "pk_pe_offset demo_packed \<le> length (pk_data demo_packed)"
    by (simp_all add: full_header_def demo_original_def oh_size_def length_demo_plain SECTION_ENTRY_def demo_packed_def length_demo_file)
  note stands = the_file_holds_its_sections [OF out this]
  moreover have "pk_pe_offset demo_packed + oh_size (or_is64 demo_original) + SECTION_ENTRY * 0 = 312"
    by (simp add: demo_packed_def demo_original_def oh_size_def)
  ultimately have "section_stands out demo_plain 0x1000 demo_section (slice_at out 312 40)"
    by (simp add: SECTION_ENTRY_def)
  with out stands show ?thesis by blast
qed

end
