(* ===== verification/Upx_Tool.thy ===== *)
theory Upx_Tool
  imports Upx_Unpack
begin

text \<open>
  The two callers of the UPX reader: the test the triage pack asks of a file before it runs the
  unpacker (\<open>has_pack_header_at\<close>), and the tool itself (\<open>unpack_upx\<close>), with the file system, the
  digest and the import reader of the rebuilt file as parameters.
\<close>

definition HEADER_BYTES :: nat where "HEADER_BYTES = 0x1000 + 24 + 0xF0 + 40 * 0xFFFF"

text \<open>Over the bytes of a file that opens: its headers and UPX's windows only.\<close>

definition has_pack_header_at :: "bytes \<Rightarrow> bool" where
  "has_pack_header_at data =
     (case read_packed (take HEADER_BYTES data) of
        Inl e \<Rightarrow> False
      | Inr pk \<Rightarrow>
          (case List.map_filter (\<lambda>start.
               let window = slice_at data start (WINDOW + HEADER_SIZE) in
               map_option (\<lambda>at. slice_at window at HEADER_SIZE) (find_bytes MAGIC window 0 WINDOW)) (windows pk) of
             [] \<Rightarrow> False
           | block # _ \<Rightarrow> true_header block))"

section \<open>The tool\<close>

definition TOOL :: string where "TOOL = ''unpack_upx''"
definition UNPACKED_LABEL :: string where "UNPACKED_LABEL = ''upx-unpacked''"

text \<open>
  What the tool answers. The text of the errors and of the pack header's facts is the caller's
  to print; the answer holds what it is printed from.
\<close>

record unpacked_answer =
  ua_header :: pack_header
  ua_compressed :: "nat \<times> nat"  \<comment> \<open>adler32 stated and computed\<close>
  ua_unpacked :: "nat \<times> nat"
  ua_over_filtered :: bool
  ua_sha256 :: string
  ua_bytes :: nat
  ua_path :: string
  ua_entry_point :: nat
  ua_imports :: "nat \<times> nat \<times> string"
  ua_overlay :: nat
  ua_sections :: "section_header list"

datatype tool_answer =
    NoSuchFile string
  | Unreadable string
  | NotUnpacked not_read "pack_header option"
  | ToolFailed table_error "pack_header option"
  | NotWritten string
  | Unpacked unpacked_answer

datatype tool_result = Answers tool_answer | Raises table_error

text \<open>
  \<open>read path\<close> is \<^const>\<open>None\<close> for what is no file, the exception's name or the bytes otherwise;
  \<open>write path bytes\<close> gives why it was not written, \<open>imports\<close> the counts of the rebuilt file's
  own import table and its note. A rebuilt file that is no PE image would be raised after it is
  written.
\<close>

definition unpack_upx ::
  "lzma_raw \<Rightarrow> (bytes \<Rightarrow> string) \<Rightarrow> (string \<Rightarrow> string \<Rightarrow> string) \<Rightarrow> (bytes \<Rightarrow> nat \<times> nat \<times> string) \<Rightarrow>
   (string \<Rightarrow> bytes \<Rightarrow> string option) \<Rightarrow> (string \<Rightarrow> (string + bytes) option) \<Rightarrow> string \<Rightarrow> string \<Rightarrow> tool_result" where
  "unpack_upx raw sha256 carved_file_name imports write_carved read_file path destination =
     (case read_file path of
        None \<Rightarrow> Answers (NoSuchFile path)
      | Some (Inl exn) \<Rightarrow> Answers (Unreadable exn)
      | Some (Inr data) \<Rightarrow>
          (case unpack raw data of
             Inl (Rebuild (Upx (NotRead why)), h) \<Rightarrow> Answers (NotUnpacked why h)
           | Inl (Rebuild StructError, h) \<Rightarrow> Raises (Rebuild StructError)
           | Inl (e, h) \<Rightarrow> Answers (ToolFailed e h)
           | Inr u \<Rightarrow>
               let digest = sha256 (un_image u); child = destination @ ''/'' @ carved_file_name UNPACKED_LABEL digest in
               case write_carved child (un_image u) of
                 Some why \<Rightarrow> Answers (NotWritten why)
               | None \<Rightarrow>
                   (case read_packed (un_image u) of
                      Inl e \<Rightarrow> Raises (Rebuild (Upx e))
                    | Inr pk \<Rightarrow> Answers (Unpacked
                   \<lparr>ua_header = un_header u, ua_compressed = (ph_c_adler (un_header u), un_c_adler u),
                    ua_unpacked = (ph_u_adler (un_header u), un_u_adler u), ua_over_filtered = un_over_filtered u,
                    ua_sha256 = digest, ua_bytes = length (un_image u), ua_path = child,
                    ua_entry_point = un_entry_point u, ua_imports = imports (un_image u), ua_overlay = un_overlay u,
                    ua_sections = pk_sections pk\<rparr>))))"

end
