(* ===== verification/Debate_Routing.thy ===== *)
theory Debate_Routing
  imports Maljan_Prelude Complex_Main
begin

text \<open>
  The routing of a debate (\<open>pipeline/routing.py\<close>): where a debate stage began, its own rounds,
  confidences and mediations, every rule that ends it, and the loop of mediation and revision the
  graph runs (\<open>pipeline/builder.py\<close>, the negotiation node's updates in \<open>pipeline/nodes.py\<close>). What
  a listed line is about is read from its text by \<open>pipeline/debate_facts.py\<close>: those readings are
  parameters, the comparisons made with them are translated. Confidences are exact rationals or
  not finite; the rounding of the floats is not modelled.
\<close>

section \<open>The state a router reads\<close>

definition MEDIATOR_AGENT_NAME :: string where "MEDIATOR_AGENT_NAME = ''Mediator''"

record argument =
  ag_agent :: string
  ag_finding :: string
  ag_status :: string
  ag_contradictions :: "string list"
  ag_carried :: "(string \<times> int) list"
  ag_place_facts :: "string list"
  ag_ledger_stated :: "string list"
  ag_revise :: "string list option"

text \<open>What a revision round recorded on a blocking line; its places as the numbers they name.\<close>

record line_fact =
  lf_entries :: "string list"
  lf_places :: "nat list"
  lf_named :: "string list"
  lf_revised :: "string list"
  lf_changed :: bool

text \<open>A round's record; \<^const>\<open>None\<close> where a key is absent or holds no list.\<close>

record round_record =
  rr_round :: int
  rr_stage :: "string option"
  rr_made :: "int option"
  rr_identical :: bool
  rr_reworded :: bool
  rr_revised :: "string list option"
  rr_not_revised :: "string list"
  rr_lines :: "line_fact option list option"

record debate_began =
  st_mediations :: nat
  st_confidences :: nat
  st_arguments :: nat

datatype reading = Number rat | NotFinite

text \<open>A row of \<open>debate_starts\<close> or \<open>revision_rounds\<close> that is no dictionary is \<^const>\<open>None\<close>.\<close>

record debate_state =
  ds_iterations :: nat
  ds_confidences :: "reading list"
  ds_discussion :: "argument list"
  ds_starts :: "(string \<times> debate_began option) list"
  ds_consensus :: bool
  ds_applicable :: bool
  ds_rounds :: "round_record option list"

section \<open>Stable confidence\<close>

definition CONFIDENCE_WINDOW :: nat where "CONFIDENCE_WINDOW = 3"
definition CONVERGENCE_STD_THRESHOLD :: rat where "CONVERGENCE_STD_THRESHOLD = 4 / 100"
definition MIN_CONVERGENCE_CONFIDENCE :: rat where "MIN_CONVERGENCE_CONFIDENCE = 70 / 100"

definition finite_readings :: "reading list \<Rightarrow> rat list" where
  "finite_readings = List.map_filter (\<lambda>r. case r of Number x \<Rightarrow> Some x | NotFinite \<Rightarrow> None)"

text \<open>The square of \<open>_sample_std\<close>; \<^const>\<open>None\<close> is its infinity.\<close>

definition sample_variance :: "rat list \<Rightarrow> rat option" where
  "sample_variance xs =
     (if length xs < 2 then None
      else let mean = sum_list xs / of_nat (length xs)
           in Some (sum_list (map (\<lambda>x. (x - mean) ^ 2) xs) / of_nat (length xs - 1)))"

text \<open>A deviation below the (positive) threshold is a variance below its square.\<close>

definition is_confidence_stable :: "reading list \<Rightarrow> bool" where
  "is_confidence_stable history =
     (let finite = finite_readings history; recent = drop (length finite - CONFIDENCE_WINDOW) finite in
      CONFIDENCE_WINDOW \<le> length finite \<and>
      (case sample_variance recent of None \<Rightarrow> False | Some v \<Rightarrow> v < CONVERGENCE_STD_THRESHOLD ^ 2) \<and>
      MIN_CONVERGENCE_CONFIDENCE \<le> sum_list recent / of_nat (length recent))"

section \<open>Where a debate began\<close>

text \<open>The row with the most mediations, the first of equals.\<close>

fun latest_start :: "(string \<times> debate_began) list \<Rightarrow> (string \<times> debate_began) option" where
  "latest_start [] = None"
| "latest_start (r # rs) =
     (case latest_start rs of
        None \<Rightarrow> Some r
      | Some b \<Rightarrow> if st_mediations (snd r) < st_mediations (snd b) then Some b else Some r)"

definition debate_start :: "debate_state \<Rightarrow> string option \<Rightarrow> string \<times> debate_began option" where
  "debate_start s stage =
     (case stage of
        Some key \<Rightarrow> (case map_of (ds_starts s) key of Some (Some row) \<Rightarrow> (key, Some row) | _ \<Rightarrow> ('''', None))
      | None \<Rightarrow>
          (case latest_start (List.map_filter (\<lambda>(key, row). map_option (Pair key) row) (ds_starts s)) of
             None \<Rightarrow> ('''', None)
           | Some (key, row) \<Rightarrow> (key, Some row)))"

text \<open>The start a node output adds: once per stage, and only where it held a mediation.\<close>

definition with_debate_start :: "debate_state \<Rightarrow> string option \<Rightarrow> bool \<Rightarrow> (string \<times> debate_began option) list" where
  "with_debate_start s stage held =
     (case stage of
        None \<Rightarrow> []
      | Some key \<Rightarrow>
          if key = '''' \<or> \<not> held \<or> key \<in> fst ` set (ds_starts s) then []
          else [(key, Some \<lparr>st_mediations = ds_iterations s, st_confidences = length (ds_confidences s),
            st_arguments = length (ds_discussion s)\<rparr>)])"

definition began_at :: "debate_began option \<Rightarrow> nat" where
  "began_at start = (case start of None \<Rightarrow> 0 | Some row \<Rightarrow> st_mediations row)"

definition debate_rounds :: "debate_state \<Rightarrow> string option \<Rightarrow> nat" where
  "debate_rounds s stage = ds_iterations s - began_at (snd (debate_start s stage))"

definition rounds_held_before :: "debate_state \<Rightarrow> string option \<Rightarrow> nat" where
  "rounds_held_before s stage =
     (case stage of
        None \<Rightarrow> ds_iterations s
      | Some key \<Rightarrow>
          if key = '''' then ds_iterations s
          else if ds_starts s \<noteq> [] \<and> key \<notin> fst ` set (ds_starts s) then 0
          else debate_rounds s (Some key))"

definition debate_view :: "debate_state \<Rightarrow> string option \<Rightarrow> debate_state" where
  "debate_view s stage =
     (case snd (debate_start s stage) of
        None \<Rightarrow> s
      | Some row \<Rightarrow> s\<lparr>ds_confidences := drop (st_confidences row) (ds_confidences s),
          ds_discussion := drop (st_arguments row) (ds_discussion s)\<rparr>)"

definition last_of :: "'a list \<Rightarrow> 'a option" where
  "last_of xs = (if xs = [] then None else Some (last xs))"

text \<open>The record of the round right before mediation \<open>mediations\<close>; a stage of \<open>''''\<close> is none.\<close>

definition revision_round_before :: "debate_state \<Rightarrow> nat option \<Rightarrow> string option \<Rightarrow> round_record option" where
  "revision_round_before s mediations stage =
     (let held = (case mediations of None \<Rightarrow> ds_iterations s | Some n \<Rightarrow> n) in
      case last_of (ds_rounds s) of
        Some (Some r) \<Rightarrow>
          if rr_round r \<noteq> int held - 1 then None
          else
            (case (stage, rr_stage r) of
               (Some key, Some of_stage) \<Rightarrow>
                 if key \<noteq> '''' \<and> of_stage \<noteq> '''' \<and> of_stage \<noteq> key then None else Some r
             | _ \<Rightarrow> Some r)
      | _ \<Rightarrow> None)"

definition revised_in :: "round_record option \<Rightarrow> string set option" where
  "revised_in r = (case r of None \<Rightarrow> None | Some row \<Rightarrow> map_option set (rr_revised row))"

section \<open>Contested points\<close>

text \<open>The readings of a listed line: its point's key, its content words, what it is about, whom it names.\<close>

record 'k line_reading =
  lr_key :: "string \<Rightarrow> 'k"
  lr_words :: "string \<Rightarrow> string list"
  lr_about :: "string \<Rightarrow> string list \<Rightarrow> string list \<times> nat list"
  lr_named :: "string \<Rightarrow> string list \<Rightarrow> string list option"

text \<open>Words are sets: listed in their order, without repetitions.\<close>

definition word_set :: "'k line_reading \<Rightarrow> string \<Rightarrow> string list" where
  "word_set lr line = sort (remdups (lr_words lr line))"

definition one_point :: "string list \<Rightarrow> string list \<Rightarrow> bool" where
  "one_point a b =
     (if a = [] \<or> b = [] then a = b
      else min (length a) (length b) \<le> 2 * length (filter (\<lambda>w. w \<in> set b) a))"

definition words_of_key :: "'k line_reading \<Rightarrow> string list \<Rightarrow> 'k \<Rightarrow> string list list" where
  "words_of_key lr lines key = sort (map (word_set lr) (filter (\<lambda>line. lr_key lr line = key) lines))"

definition same_points :: "'k line_reading \<Rightarrow> string list \<Rightarrow> string list \<Rightarrow> bool" where
  "same_points lr before after =
     (if before = [] \<or> after = [] \<or> length before \<noteq> length after then False
      else set (map (lr_key lr) before) = set (map (lr_key lr) after) \<and>
        (\<forall>key \<in> set (map (lr_key lr) before).
           length (words_of_key lr before key) = length (words_of_key lr after key) \<and>
           list_all (\<lambda>(a, b). one_point a b) (zip (words_of_key lr before key) (words_of_key lr after key))))"

definition line_unmoved ::
  "'k line_reading \<Rightarrow> (string \<times> int) list \<Rightarrow> line_fact option list \<Rightarrow> string list \<Rightarrow> string list \<Rightarrow> string \<Rightarrow> bool" where
  "line_unmoved lr carried facts participants facts_now line =
     (case map_of carried line of
        None \<Rightarrow> False
      | Some n \<Rightarrow>
          1 \<le> n \<and> n \<le> int (length facts) \<and>
          (case facts ! nat (n - 1) of
             None \<Rightarrow> False
           | Some earlier \<Rightarrow>
               (let ids = fst (lr_about lr line facts_now); places = snd (lr_about lr line facts_now) in
                set ids \<inter> set (map (map lower_char) (lf_entries earlier)) \<noteq> {} \<or> set places \<inter> set (lf_places earlier) \<noteq> {}) \<and>
               (case lr_named lr line participants of
                  None \<Rightarrow> False
                | Some named \<Rightarrow> named \<noteq> [] \<and> set named \<subseteq> set (lf_named earlier)) \<and>
               set (lf_named earlier) \<subseteq> set (lf_revised earlier) \<and> \<not> lf_changed earlier))"

definition carried_unmoved ::
  "'k line_reading \<Rightarrow> string list \<Rightarrow> (string \<times> int) list \<Rightarrow> round_record option \<Rightarrow> string list \<Rightarrow> bool" where
  "carried_unmoved lr lines carried r facts_now =
     (case r of
        None \<Rightarrow> False
      | Some row \<Rightarrow>
          (case rr_lines row of
             None \<Rightarrow> False
           | Some facts \<Rightarrow>
               lines \<noteq> [] \<and> facts \<noteq> [] \<and>
               list_all (line_unmoved lr carried facts
                 ((case rr_revised row of None \<Rightarrow> [] | Some names \<Rightarrow> names) @ rr_not_revised row) facts_now) lines))"

definition last_two_mediations :: "argument list \<Rightarrow> (argument \<times> argument) option" where
  "last_two_mediations history =
     (case filter (\<lambda>a. ag_agent a = MEDIATOR_AGENT_NAME) (rev history) of
        after # before # _ \<Rightarrow> Some (before, after)
      | _ \<Rightarrow> None)"

definition points_unchanged :: "'k line_reading \<Rightarrow> debate_state \<Rightarrow> round_record option \<Rightarrow> bool" where
  "points_unchanged lr s r =
     (case last_two_mediations (ds_discussion s) of
        None \<Rightarrow> False
      | Some (before, after) \<Rightarrow>
          ag_status before = ''complete'' \<and> ag_status after = ''complete'' \<and>
          (same_points lr (ag_contradictions before) (ag_contradictions after) \<or>
           carried_unmoved lr (ag_contradictions after) (ag_carried after) r (ag_place_facts after)))"

definition only_ledger_stated :: "debate_state \<Rightarrow> bool" where
  "only_ledger_stated s =
     (case last_of (ds_discussion s) of
        None \<Rightarrow> False
      | Some a \<Rightarrow>
          ag_agent a = MEDIATOR_AGENT_NAME \<and> ag_status a = ''complete'' \<and> ag_contradictions a \<noteq> [] \<and>
          length (ag_ledger_stated a) = length (remdups (ag_contradictions a)))"

section \<open>The decision\<close>

datatype route = Judge | Revise

datatype reason =
    HARD_LIMIT | CONSENSUS | CONVERGED | CONVERGENCE | MEDIATION_FAILED | NOT_MEDIATED | NOT_APPLICABLE
  | NOT_REVISED | NO_CONTESTED_POINT | POINTS_UNCHANGED | REWORDED | LEDGER_STATED | NO_CONSENSUS

definition errored :: "argument \<Rightarrow> bool" where
  "errored a \<longleftrightarrow> ag_status a \<in> {''failed'', ''timeout''} \<or> take 17 (ag_finding a) = ''[ERROR] Mediation''"

definition made :: "round_record \<Rightarrow> int" where
  "made r = (case rr_made r of None \<Rightarrow> 0 | Some n \<Rightarrow> n)"

definition some_with :: "'a option \<Rightarrow> ('a \<Rightarrow> bool) \<Rightarrow> bool" where
  "some_with v p = (case v of None \<Rightarrow> False | Some x \<Rightarrow> p x)"

definition route_within_limit :: "'k line_reading \<Rightarrow> debate_state \<Rightarrow> string option \<Rightarrow> route \<times> reason" where
  "route_within_limit lr s0 stage =
     (let key = fst (debate_start s0 stage);
          revised = revision_round_before s0 None (if key = '''' then None else Some key);
          s = debate_view s0 stage;
          latest = last_of (ds_discussion s)
      in
      if some_with latest errored then (Judge, MEDIATION_FAILED)
      else if some_with latest (\<lambda>a. ag_status a = ''no_answer'') then (Judge, NOT_MEDIATED)
      else if \<not> ds_applicable s then (Judge, NOT_APPLICABLE)
      else if some_with revised (\<lambda>r. 0 < made r \<and> rr_identical r) then (Judge, CONVERGED)
      else if some_with revised (\<lambda>r. rr_made r \<noteq> None \<and> made r = 0) then
        if ds_consensus s then (Judge, CONSENSUS) else (Judge, NOT_REVISED)
      else if some_with revised (\<lambda>r. 0 < made r \<and> points_unchanged lr s (Some r)) then (Judge, POINTS_UNCHANGED)
      else if only_ledger_stated s then (Judge, LEDGER_STATED)
      else if ds_consensus s then (Judge, CONSENSUS)
      else if some_with revised (\<lambda>r. 0 < made r \<and> rr_reworded r) then (Judge, REWORDED)
      else if \<not> some_with latest (\<lambda>a. ag_contradictions a \<noteq> [] \<and> ag_agent a = MEDIATOR_AGENT_NAME) \<and>
        is_confidence_stable (ds_confidences s) then (Judge, CONVERGENCE)
      else if some_with latest (\<lambda>a. ag_agent a = MEDIATOR_AGENT_NAME \<and> ag_revise a = Some []) then
        (Judge, NO_CONTESTED_POINT)
      else (Revise, NO_CONSENSUS))"

definition debate_route :: "'k line_reading \<Rightarrow> debate_state \<Rightarrow> nat \<Rightarrow> string option \<Rightarrow> route \<times> reason" where
  "debate_route lr s max_rounds stage =
     (let r = route_within_limit lr s stage in
      if max_rounds \<le> debate_rounds s stage then (Judge, if fst r = Judge then snd r else HARD_LIMIT) else r)"

text \<open>A stage's own limit and key, or the negotiation settings' limit and no key.\<close>

record debate_stage =
  dg_key :: "string option"
  dg_max_rounds :: "nat option"

definition max_rounds_of :: "nat \<Rightarrow> debate_stage option \<Rightarrow> nat" where
  "max_rounds_of max_iterations stage =
     (case stage of None \<Rightarrow> max_iterations
      | Some g \<Rightarrow> (case dg_max_rounds g of None \<Rightarrow> max_iterations | Some n \<Rightarrow> n))"

definition should_continue :: "'k line_reading \<Rightarrow> nat \<Rightarrow> debate_stage option \<Rightarrow> debate_state \<Rightarrow> route" where
  "should_continue lr max_iterations stage s =
     fst (debate_route lr s (max_rounds_of max_iterations stage) (case stage of None \<Rightarrow> None | Some g \<Rightarrow> dg_key g))"

section \<open>The loop\<close>

text \<open>
  What a mediation node writes. A mediation that is held counts one more iteration and adds its
  argument; one that is not (the stage is skipped, has nobody to ask or the spend ceiling is
  reached) only says that consensus does not apply.
\<close>

datatype mediation = Held argument "reading list" bool bool | NotHeld

fun negotiate :: "string option \<Rightarrow> mediation \<Rightarrow> debate_state \<Rightarrow> debate_state" where
  "negotiate stage (Held a confidences consensus applicable) s =
     s\<lparr>ds_iterations := ds_iterations s + 1, ds_discussion := ds_discussion s @ [a],
       ds_confidences := ds_confidences s @ confidences, ds_consensus := consensus, ds_applicable := applicable,
       ds_starts := ds_starts s @ with_debate_start s stage True\<rparr>"
| "negotiate stage NotHeld s = s\<lparr>ds_consensus := False, ds_applicable := False\<rparr>"

text \<open>What a revision round adds to the state: its record, where it writes one.\<close>

definition revise :: "round_record list \<Rightarrow> debate_state \<Rightarrow> debate_state" where
  "revise rs s = s\<lparr>ds_rounds := ds_rounds s @ map Some rs\<rparr>"

text \<open>
  The debate over the mediations and rounds that come: its state, and why it ended, \<^const>\<open>None\<close>
  when it is still going on where they end.
\<close>

fun debate ::
  "'k line_reading \<Rightarrow> nat \<Rightarrow> string option \<Rightarrow> (mediation \<times> round_record list) list \<Rightarrow> debate_state \<Rightarrow>
    debate_state \<times> reason option" where
  "debate lr max_rounds stage [] s = (s, None)"
| "debate lr max_rounds stage ((m, rs) # rest) s =
     (let s1 = negotiate stage m s in
      case debate_route lr s1 max_rounds stage of
        (Judge, why) \<Rightarrow> (s1, Some why)
      | (Revise, _) \<Rightarrow> debate lr max_rounds stage rest (revise rs s1))"

end
