(* ===== verification/Debate_Properties.thy ===== *)
theory Debate_Properties
  imports Debate_Routing
begin

text \<open>
  The properties of the debate's routing: every debate ends within its rounds, whatever is
  mediated and revised, and a debate is decided by its own rounds, confidences and mediations.
\<close>

section \<open>A debate's own start\<close>

lemma started [simp]:
  "map_of (ds_starts s) key = Some (Some row) \<Longrightarrow> debate_start s (Some key) = (key, Some row)"
  by (simp add: debate_start_def)

lemma rounds_of_started:
  "map_of (ds_starts s) key = Some (Some row) \<Longrightarrow> debate_rounds s (Some key) = ds_iterations s - st_mediations row"
  by (simp add: debate_rounds_def began_at_def)

lemma negotiate_keeps_start:
  "map_of (ds_starts s) key = Some (Some row) \<Longrightarrow> map_of (ds_starts (negotiate stage m s)) key = Some (Some row)"
  by (cases m) (auto simp: map_add_Some_iff map_add_def with_debate_start_def split: option.splits)

lemma revise_keeps [simp]:
  "ds_starts (revise rs s) = ds_starts s" "ds_iterations (revise rs s) = ds_iterations s"
  by (simp_all add: revise_def)

lemma not_held_ends: "fst (debate_route lr (negotiate stage NotHeld s) n stage') = Judge"
proof -
  have "ds_applicable (debate_view (negotiate stage NotHeld s) stage') = False"
    by (simp add: debate_view_def split: option.splits)
  then have "fst (route_within_limit lr (negotiate stage NotHeld s) stage') = Judge"
    by (simp add: route_within_limit_def Let_def)
  then show ?thesis by (simp add: debate_route_def Let_def)
qed

lemma at_the_limit: "n \<le> debate_rounds s stage \<Longrightarrow> fst (debate_route lr s n stage) = Judge"
  by (simp add: debate_route_def Let_def)

lemma hard_limit_only_at_it:
  assumes "debate_route lr s n stage = (Judge, HARD_LIMIT)"
  shows "n \<le> debate_rounds s stage"
proof (rule ccontr)
  assume "\<not> n \<le> debate_rounds s stage"
  with assms have "route_within_limit lr s stage = (Judge, HARD_LIMIT)" by (simp add: debate_route_def Let_def)
  then show False by (auto simp: route_within_limit_def Let_def split: if_splits)
qed

text \<open>A debate that has begun and held some rounds, the rest of its mediations to come.\<close>

lemma begun_debate_ends:
  assumes "map_of (ds_starts s) key = Some (Some row)" "ds_iterations s = st_mediations row + k"
    and "ms \<noteq> []" "n \<le> k + length ms"
  shows "\<exists>why. snd (debate lr n (Some key) ms s) = Some why \<and>
    ds_iterations (fst (debate lr n (Some key) ms s)) \<le> st_mediations row + max (Suc k) n \<and>
    (why = HARD_LIMIT \<longrightarrow> st_mediations row + n \<le> ds_iterations (fst (debate lr n (Some key) ms s)))"
  using assms
proof (induction ms arbitrary: s k)
  case (Cons m ms)
  obtain md rs where m: "m = (md, rs)" by (cases m)
  let ?s = "negotiate (Some key) md s"
  have start: "map_of (ds_starts ?s) key = Some (Some row)" using negotiate_keeps_start [OF Cons.prems(1)] .
  obtain r why where r: "debate_route lr ?s n (Some key) = (r, why)" by (cases "debate_route lr ?s n (Some key)")
  show ?case
  proof (cases r)
    case Judge
    have "ds_iterations ?s \<le> st_mediations row + Suc k" using Cons.prems(2) by (cases md) simp_all
    moreover have "st_mediations row + n \<le> ds_iterations ?s \<or> n = 0" if "why = HARD_LIMIT"
      using hard_limit_only_at_it [of lr ?s n "Some key"] r Judge that rounds_of_started [OF start] by auto
    moreover have "st_mediations row \<le> ds_iterations ?s" using Cons.prems(2) by (cases md) simp_all
    ultimately show ?thesis using r Judge by (auto simp: m)
  next
    case Revise
    then obtain a cs c ap where md: "md = Held a cs c ap" using not_held_ends [of lr "Some key" s n "Some key"] r
      by (cases md) auto
    have next_iterations: "ds_iterations (revise rs ?s) = st_mediations row + Suc k" using Cons.prems(2) md by simp
    have "\<not> n \<le> Suc k"
      using at_the_limit [of n ?s "Some key" lr] r Revise rounds_of_started [OF start] Cons.prems(2) md by auto
    then have "ms \<noteq> []" "n \<le> Suc k + length ms" using Cons.prems(4) by auto
    from Cons.IH [OF _ next_iterations this] start Revise r \<open>\<not> n \<le> Suc k\<close> show ?thesis by (fastforce simp: m)
  qed
qed simp

text \<open>
  C39. A debate ends: from a state in which its stage has held no mediation, whatever the
  mediator answers, fails to answer or is not asked, whatever the analysts revise and whatever
  earlier debates left behind, the router hands over to the judge within the stage's round limit
  (one mediation where the limit is less), and it names the limit as the reason only where that
  many rounds were held.
\<close>

theorem every_debate_ends:
  assumes "key \<noteq> ''''" "key \<notin> fst ` set (ds_starts s)" "max 1 n \<le> length ms"
  shows "\<exists>why. snd (debate lr n (Some key) ms s) = Some why \<and>
    ds_iterations (fst (debate lr n (Some key) ms s)) \<le> ds_iterations s + max 1 n \<and>
    (why = HARD_LIMIT \<longrightarrow> ds_iterations s + n \<le> ds_iterations (fst (debate lr n (Some key) ms s)))"
proof -
  obtain md rs rest where ms: "ms = (md, rs) # rest" using assms(3) by (cases ms) auto
  let ?s = "negotiate (Some key) md s"
  obtain r why where r: "debate_route lr ?s n (Some key) = (r, why)" by (cases "debate_route lr ?s n (Some key)")
  show ?thesis
  proof (cases md)
    case NotHeld
    have judge: "r = Judge" using not_held_ends [of lr "Some key" s n "Some key"] r NotHeld by simp
    have "n \<le> debate_rounds ?s (Some key)" if "why = HARD_LIMIT"
      using hard_limit_only_at_it [of lr ?s n "Some key"] r judge that by simp
    moreover have "debate_rounds ?s (Some key) \<le> ds_iterations s" using NotHeld by (simp add: debate_rounds_def)
    moreover have "why \<noteq> HARD_LIMIT"
    proof
      assume "why = HARD_LIMIT"
      have "fst (route_within_limit lr ?s (Some key)) = Judge"
        using not_held_ends [of lr "Some key" s "Suc (debate_rounds ?s (Some key))" "Some key"] NotHeld
        by (simp add: debate_route_def Let_def)
      then have "snd (route_within_limit lr ?s (Some key)) = HARD_LIMIT"
        using r \<open>why = HARD_LIMIT\<close> judge by (auto simp: debate_route_def Let_def split: if_splits)
      then show False by (auto simp: route_within_limit_def Let_def split: if_splits)
    qed
    ultimately show ?thesis using r judge NotHeld by (simp add: ms)
  next
    case (Held a cs c ap)
    let ?row = "\<lparr>st_mediations = ds_iterations s, st_confidences = length (ds_confidences s),
      st_arguments = length (ds_discussion s)\<rparr>"
    have "map_of (ds_starts s) key = None" using assms(2) by (simp add: map_of_eq_None_iff)
    then have start: "map_of (ds_starts ?s) key = Some (Some ?row)"
      using assms(1,2) Held by (simp add: with_debate_start_def map_add_def)
    show ?thesis
    proof (cases r)
      case Judge
      have "why = HARD_LIMIT \<Longrightarrow> n \<le> debate_rounds ?s (Some key)"
        using hard_limit_only_at_it [of lr ?s n "Some key"] r Judge by simp
      then show ?thesis using r Judge Held rounds_of_started [OF start] by (auto simp: ms)
    next
      case Revise
      then have "\<not> n \<le> 1" using at_the_limit [of n ?s "Some key" lr] r rounds_of_started [OF start] Held by auto
      then have rest: "rest \<noteq> []" "n \<le> 1 + length rest" using assms(3) ms by auto
      have "map_of (ds_starts (revise rs ?s)) key = Some (Some ?row)" "ds_iterations (revise rs ?s) = st_mediations ?row + 1"
        using start Held by simp_all
      from begun_debate_ends [OF this rest, of lr] show ?thesis using r Revise \<open>\<not> n \<le> 1\<close> by (auto simp: ms)
    qed
  qed
qed

section \<open>Debates do not mix\<close>

text \<open>The state as if the debate were the run's only one: its own counts, series and arguments.\<close>

definition renumbered :: "nat \<Rightarrow> round_record \<Rightarrow> round_record" where
  "renumbered n r = r\<lparr>rr_round := rr_round r - int n\<rparr>"

definition alone :: "string \<Rightarrow> debate_began \<Rightarrow> debate_state \<Rightarrow> debate_state" where
  "alone key row s = s\<lparr>ds_iterations := ds_iterations s - st_mediations row,
     ds_confidences := drop (st_confidences row) (ds_confidences s),
     ds_discussion := drop (st_arguments row) (ds_discussion s),
     ds_starts := [(key, Some \<lparr>st_mediations = 0, st_confidences = 0, st_arguments = 0\<rparr>)],
     ds_rounds := map (map_option (renumbered (st_mediations row))) (ds_rounds s)\<rparr>"

lemma alone_round_before:
  assumes "st_mediations row \<le> ds_iterations s"
  shows "revision_round_before (alone key row s) None stage =
    map_option (renumbered (st_mediations row)) (revision_round_before s None stage)"
  using assms
  by (auto simp: revision_round_before_def Let_def last_of_def alone_def renumbered_def last_map
      split: option.splits)

lemma some_with_map: "some_with (map_option f v) p = some_with v (\<lambda>x. p (f x))"
  by (cases v) (auto simp: some_with_def)

lemma renumbered_facts [simp]:
  "made (renumbered n r) = made r" "rr_identical (renumbered n r) = rr_identical r"
  "rr_reworded (renumbered n r) = rr_reworded r" "rr_made (renumbered n r) = rr_made r"
  "rr_lines (renumbered n r) = rr_lines r" "rr_revised (renumbered n r) = rr_revised r"
  "rr_not_revised (renumbered n r) = rr_not_revised r"
  by (simp_all add: renumbered_def made_def)

text \<open>The rules read of a view only its series, its arguments and what consensus it states.\<close>

lemma points_of_view:
  assumes "ds_discussion s = ds_discussion s'"
  shows "points_unchanged lr s (Some (renumbered n r)) = points_unchanged lr s' (Some r)"
    "only_ledger_stated s = only_ledger_stated s'"
  using assms by (auto simp: points_unchanged_def carried_unmoved_def only_ledger_stated_def split: option.splits prod.splits)

text \<open>
  C40. A debate that has begun is decided by itself: in a run of several debates, the route and the
  reason the router gives for a debate with a name whose start is recorded, at no more mediations
  than the run has held, are those of the run in which it is the only one, with the mediations,
  the confidences and the arguments of the others taken away and its own rounds counted from its
  start. A start is recorded with a debate's first mediation; a debate whose first mediation was not
  held has none and is left out: it does read the debate before
  (\<open>a_debate_never_held_reads_the_last_one\<close>).
\<close>

theorem debates_do_not_mix:
  assumes "map_of (ds_starts s) key = Some (Some row)" "st_mediations row \<le> ds_iterations s" "key \<noteq> ''''"
  shows "debate_route lr s n (Some key) = debate_route lr (alone key row s) n (Some key)"
proof -
  let ?a = "alone key row s"
  have start: "debate_start ?a (Some key) = (key, Some \<lparr>st_mediations = 0, st_confidences = 0, st_arguments = 0\<rparr>)"
    by (simp add: debate_start_def alone_def)
  have view: "debate_view ?a (Some key) = ?a" by (simp add: debate_view_def start)
  have same: "ds_discussion (debate_view s (Some key)) = ds_discussion ?a"
    "ds_confidences (debate_view s (Some key)) = ds_confidences ?a"
    "ds_consensus (debate_view s (Some key)) = ds_consensus ?a" "ds_applicable (debate_view s (Some key)) = ds_applicable ?a"
    using assms(1) by (simp_all add: debate_view_def alone_def)
  have rounds: "debate_rounds s (Some key) = debate_rounds ?a (Some key)"
    using rounds_of_started [OF assms(1)] start by (simp add: debate_rounds_def began_at_def alone_def)
  have "route_within_limit lr s (Some key) = route_within_limit lr ?a (Some key)"
    unfolding route_within_limit_def Let_def view start started [OF assms(1)] prod.sel if_not_P [OF assms(3)]
      alone_round_before [OF assms(2)] some_with_map renumbered_facts same
      points_of_view(1) [OF same(1) [symmetric]] points_of_view(2) [OF same(1)] ..
  with rounds show ?thesis by (simp add: debate_route_def)
qed

section \<open>Two debates\<close>

text \<open>A mediator that goes on listing a point, lines read as they are written, and a run of two debates.\<close>

definition demo_reading :: "string line_reading" where
  "demo_reading = \<lparr>lr_key = (\<lambda>line. line), lr_words = (\<lambda>line. [line]), lr_about = (\<lambda>line facts. ([], [])),
     lr_named = (\<lambda>line names. None)\<rparr>"

definition demo_argument :: "string \<Rightarrow> string \<Rightarrow> argument" where
  "demo_argument status line = \<lparr>ag_agent = ''Mediator'', ag_finding = ''a point'', ag_status = status,
     ag_contradictions = [line], ag_carried = [], ag_place_facts = [], ag_ledger_stated = [], ag_revise = Some [''static'']\<rparr>"

definition demo_fresh :: debate_state where
  "demo_fresh = \<lparr>ds_iterations = 0, ds_confidences = [], ds_discussion = [], ds_starts = [], ds_consensus = False,
     ds_applicable = True, ds_rounds = []\<rparr>"

definition demo_mediations :: "(mediation \<times> round_record list) list" where
  "demo_mediations = [(Held (demo_argument ''complete'' ''one'') [Number 1] False True, []),
     (Held (demo_argument ''complete'' ''two'') [Number 1] False True, [])]"

theorem every_debate_ends_witness:
  "\<exists>why. snd (debate demo_reading 2 (Some ''d'') demo_mediations demo_fresh) = Some why \<and>
    ds_iterations (fst (debate demo_reading 2 (Some ''d'') demo_mediations demo_fresh)) \<le> 2"
  using every_debate_ends [of "''d''" demo_fresh 2 demo_mediations demo_reading]
  by (auto simp: demo_fresh_def demo_mediations_def)

text \<open>The first debate ended on a mediation that failed; the second has held one.\<close>

definition demo_second :: debate_state where
  "demo_second = negotiate (Some ''b'') (Held (demo_argument ''complete'' ''one'') [] False True)
     (negotiate (Some ''a'') (Held (demo_argument ''failed'' ''one'') [] False True) demo_fresh)"

theorem debates_do_not_mix_witness:
  "debate_route demo_reading demo_second 3 (Some ''b'') =
   debate_route demo_reading (alone ''b'' \<lparr>st_mediations = 1, st_confidences = 0, st_arguments = 1\<rparr> demo_second) 3 (Some ''b'')"
  by (rule debates_do_not_mix) (simp_all add: demo_second_def demo_fresh_def with_debate_start_def)

text \<open>
  A debate that holds no mediation (the spend ceiling was reached) records no start, and then does
  read the last debate's mediation: its reason is the failure of a mediation it never held.
\<close>

lemma a_debate_never_held_reads_the_last_one:
  "debate_route demo_reading
     (negotiate (Some ''b'') NotHeld (negotiate (Some ''a'') (Held (demo_argument ''failed'' ''one'') [] False True) demo_fresh))
     3 (Some ''b'') = (Judge, MEDIATION_FAILED)"
  by (simp add: debate_route_def route_within_limit_def Let_def debate_view_def debate_start_def with_debate_start_def
      demo_fresh_def demo_argument_def some_with_def last_of_def errored_def debate_rounds_def began_at_def)

end
