(* ===== verification/Spend_Prices.thy ===== *)
theory Spend_Prices
  imports Py_Dict Complex_Main
begin

text \<open>
  What a model call costs (\<open>core/spend.py\<close>, \<open>PriceWindow\<close>, \<open>Price\<close> and the functions that read price
  rows): a model's prices with the windows of the day and the lengths of prompt at which they
  are others, the prices in force at an instant and over a span, the prices a call is admitted
  at, and the cost of a reported usage. Amounts are exact rationals where the code has floats; an
  instant is its microseconds since 1970-01-01 00:00 UTC, and no instant past the last year a
  \<open>datetime\<close> can hold is reached.
\<close>

section \<open>Instants\<close>

type_synonym instant = int

definition MINUTE :: int where "MINUTE = 60000000"
definition DAY :: int where "DAY = 86400000000"

text \<open>\<open>when.hour * 60 + when.minute\<close> and \<open>when.weekday()\<close>; 1970-01-01 was a Thursday.\<close>

definition minute_of :: "instant \<Rightarrow> int" where
  "minute_of t = t mod DAY div MINUTE"

definition weekday :: "instant \<Rightarrow> int" where
  "weekday t = (t div DAY + 3) mod 7"

text \<open>\<open>round\<close>: to the nearest integer, to the even one of two that are as near.\<close>

definition round_even :: "rat \<Rightarrow> int" where
  "round_even x =
     (let n = \<lfloor>x\<rfloor>; r = x - of_int n in
      if r < 1 / 2 then n else if 1 / 2 < r then n + 1 else if even n then n else n + 1)"

text \<open>The microseconds of a number of seconds, as \<open>timedelta\<close> and \<open>fromtimestamp\<close> take them.\<close>

definition micros :: "rat \<Rightarrow> int" where
  "micros s = round_even (s * 1000000)"

section \<open>Prices\<close>

definition MILLION :: rat where "MILLION = 1000000"

datatype price =
    Price (p_input: rat) (p_output: rat) (p_cached_input: "rat option") (p_source: string)
      (p_windows: "window list") (p_cache_write: "rat option") (p_cache_write_1h: "rat option")
      (p_tiers: "(int \<times> price) list")
  and window = Window (w_start: int) (w_end: int) (w_days: "int list") (w_price: price)

text \<open>\<open>Price.__init__\<close>: the tiers in the order of their thresholds.\<close>

definition new_price ::
  "rat \<Rightarrow> rat \<Rightarrow> rat option \<Rightarrow> string \<Rightarrow> window list \<Rightarrow> rat option \<Rightarrow> rat option \<Rightarrow> (int \<times> price) list \<Rightarrow> price" where
  "new_price inp out cached source windows write write_1h tiers =
     Price inp out cached source windows write write_1h (sort_key fst tiers)"

definition set_tiers :: "(int \<times> price) list \<Rightarrow> price \<Rightarrow> price" where
  "set_tiers tiers p =
     Price (p_input p) (p_output p) (p_cached_input p) (p_source p) (p_windows p) (p_cache_write p)
       (p_cache_write_1h p) tiers"

definition p_cached :: "price \<Rightarrow> rat" where
  "p_cached p = (case p_cached_input p of None \<Rightarrow> p_input p | Some x \<Rightarrow> x)"

definition p_written :: "price \<Rightarrow> rat" where
  "p_written p = (case p_cache_write p of None \<Rightarrow> p_input p | Some x \<Rightarrow> x)"

definition p_written_1h :: "price \<Rightarrow> rat" where
  "p_written_1h p = (case p_cache_write_1h p of None \<Rightarrow> p_written p | Some x \<Rightarrow> x)"

text \<open>The tier a prompt falls in, \<^const>\<open>None\<close> for the prices of the row itself.\<close>

definition tier_of :: "price \<Rightarrow> int \<Rightarrow> price option" where
  "tier_of p n = foldl (\<lambda>found (over, q). if n > over then Some q else found) None (p_tiers p)"

definition for_prompt :: "price \<Rightarrow> int \<Rightarrow> price" where
  "for_prompt p n = (case tier_of p n of None \<Rightarrow> p | Some q \<Rightarrow> q)"

definition TIER_COUNT_MARGIN :: rat where "TIER_COUNT_MARGIN = 3 / 2"

definition for_admission :: "price \<Rightarrow> int \<Rightarrow> bool \<Rightarrow> price" where
  "for_admission p n hour_writes =
     (let counted = (if p_tiers p \<noteq> [] then \<lceil>of_int n * TIER_COUNT_MARGIN\<rceil> else n);
          tier = for_prompt p counted;
          dearest = max (max (p_input tier) (p_written tier)) (if hour_writes then p_written_1h tier else 0)
      in if dearest = p_input tier \<and> tier_of p counted = None then p
         else new_price dearest (p_output tier) (p_cached_input tier) (p_source tier) (p_windows tier) None None [])"

definition prompt_tier_tokens :: "price option \<Rightarrow> int option" where
  "prompt_tier_tokens price =
     (case price of None \<Rightarrow> None | Some p \<Rightarrow> (case p_tiers p of [] \<Rightarrow> None | (over, q) # _ \<Rightarrow> Some over))"

section \<open>The prices in force\<close>

definition on_day :: "window \<Rightarrow> int \<Rightarrow> bool" where
  "on_day w d \<longleftrightarrow> w_days w = [] \<or> d \<in> set (w_days w)"

definition covers :: "window \<Rightarrow> instant \<Rightarrow> bool" where
  "covers w t =
     (let minute = minute_of t; day = weekday t in
      if w_start w < w_end w then on_day w day \<and> w_start w \<le> minute \<and> minute < w_end w
      else if w_start w \<le> minute then on_day w day
      else minute < w_end w \<and> on_day w ((day - 1) mod 7))"

text \<open>The instants in \<open>(start, until]\<close> where a window opens or closes, day by day from \<open>day\<close> on.\<close>

function edges_from :: "window \<times> instant \<times> instant \<times> instant \<Rightarrow> instant list" where
  "edges_from (w, start, until, day) =
     (if day \<le> until then
        filter (\<lambda>edge. start < edge \<and> edge \<le> until) [day + w_start w * MINUTE, day + w_end w * MINUTE]
          @ edges_from (w, start, until, day + DAY)
      else [])"
  by pat_completeness auto
termination
  by (relation "measure (\<lambda>(w, start, until, day). nat (until + 1 - day))") (auto simp: DAY_def)

declare edges_from.simps [simp del]

definition edges :: "window \<Rightarrow> instant \<Rightarrow> instant \<Rightarrow> instant list" where
  "edges w start until = edges_from (w, start, until, start - start mod DAY)"

text \<open>
  Which prices are in force: the place of the first window that covers the instant, \<^const>\<open>None\<close> for
  the row's own. The code tells price objects apart by their identity; the place is that identity.
\<close>

definition window_at :: "price \<Rightarrow> instant \<Rightarrow> nat option" where
  "window_at p t = List.find (\<lambda>i. covers (p_windows p ! i) t) [0..<length (p_windows p)]"

definition numbered :: "price \<Rightarrow> nat option \<Rightarrow> price" where
  "numbered p i = (case i of None \<Rightarrow> p | Some k \<Rightarrow> w_price (p_windows p ! k))"

definition price_at :: "price \<Rightarrow> instant \<Rightarrow> price" where
  "price_at p t = numbered p (window_at p t)"

section \<open>The dearest of several prices\<close>

definition thresholds :: "price list \<Rightarrow> int list" where
  "thresholds rows = sorted_list_of_set (set (concat (map (\<lambda>row. map fst (p_tiers row)) rows)))"

lemma tier_of_mem: "tier_of p n = Some q \<Longrightarrow> \<exists>over. (over, q) \<in> set (p_tiers p) \<and> over < n"
proof -
  have "foldl (\<lambda>found (over, q). if n > over then Some q else found) f ts = Some q \<Longrightarrow>
      f = Some q \<or> (\<exists>over. (over, q) \<in> set ts \<and> over < n)" for f and ts :: "(int \<times> price) list"
    by (induction ts arbitrary: f) (fastforce split: if_splits)+
  then show "tier_of p n = Some q \<Longrightarrow> \<exists>over. (over, q) \<in> set (p_tiers p) \<and> over < n"
    by (fastforce simp: tier_of_def)
qed

lemma tier_of_None: "tier_of p n = None \<longleftrightarrow> (\<forall>tier\<in>set (p_tiers p). n \<le> fst tier)"
proof -
  have "foldl (\<lambda>found (over, q). if n > over then Some q else found) f ts = None \<longleftrightarrow>
      f = None \<and> (\<forall>tier\<in>set ts. n \<le> fst tier)" for f and ts :: "(int \<times> price) list"
    by (induction ts arbitrary: f) (auto split: if_splits)
  then show ?thesis by (simp add: tier_of_def)
qed

lemma tier_smaller: "(over, q) \<in> set (p_tiers p) \<Longrightarrow> size q < size p"
  by (cases p) (auto simp: less_Suc_eq_le intro!: trans_le_add2 size_list_estimation')

lemma for_prompt_size: "size (for_prompt p n) \<le> size p"
  using tier_of_mem [of p n] tier_smaller [of _ _ p]
  by (fastforce simp: for_prompt_def split: option.split)

lemma for_prompt_smaller:
  assumes "(over, q) \<in> set (p_tiers p)" "over < n"
  shows "size (for_prompt p n) < size p"
proof -
  have "tier_of p n \<noteq> None" using assms by (auto simp: tier_of_None not_le intro!: bexI [of _ "(over, q)"])
  then obtain r where r: "tier_of p n = Some r" by auto
  then show ?thesis
    using tier_of_mem [OF r] tier_smaller [of _ r p] by (auto simp: for_prompt_def)
qed

lemma sum_list_less:
  fixes f g :: "'a \<Rightarrow> nat"
  shows "x \<in> set xs \<Longrightarrow> f x < g x \<Longrightarrow> (\<And>y. f y \<le> g y) \<Longrightarrow> sum_list (map f xs) < sum_list (map g xs)"
  by (induction xs) (auto intro: add_less_le_mono add_le_less_mono sum_list_mono)

lemma thresholds_smaller:
  assumes "over \<in> set (thresholds rows)"
  shows "(\<Sum>row\<leftarrow>rows. size (for_prompt row (over + 1))) < sum_list (map size rows)"
proof -
  obtain row q where row: "row \<in> set rows" "(over, q) \<in> set (p_tiers row)"
    using assms by (auto simp: thresholds_def)
  then have "size (for_prompt row (over + 1)) < size row" by (auto intro: for_prompt_smaller)
  then show ?thesis
    using row(1) by (intro sum_list_less [of row]) (auto intro: for_prompt_size)
qed

text \<open>Each figure the highest of the rows' own; the tiers merged at every threshold a row names.\<close>

function dearest_of :: "price list \<Rightarrow> price" where
  "dearest_of rows =
     (let tiers = map (\<lambda>over. (over, dearest_of (map (\<lambda>row. for_prompt row (over + 1)) rows))) (thresholds rows);
          base = (if tiers \<noteq> [] then map (\<lambda>row. for_prompt row 0) rows else rows)
      in new_price (Max (p_input ` set base)) (Max (p_output ` set base)) (Some (Max (p_cached ` set base)))
           (p_source (hd rows)) [] (Some (Max (p_written ` set base))) (Some (Max (p_written_1h ` set base))) tiers)"
  by pat_completeness auto
termination
  by (relation "measure (\<lambda>rows. sum_list (map size rows))") (auto simp: comp_def thresholds_smaller)

declare dearest_of.simps [simp del]

text \<open>The same, evaluated no further than the thresholds go.\<close>

lemma dearest_of_code [code]:
  "dearest_of rows =
     (case thresholds rows of
        [] \<Rightarrow> new_price (Max (p_input ` set rows)) (Max (p_output ` set rows)) (Some (Max (p_cached ` set rows)))
                (p_source (hd rows)) [] (Some (Max (p_written ` set rows))) (Some (Max (p_written_1h ` set rows))) []
      | overs \<Rightarrow>
          (let tiers = map (\<lambda>over. (over, dearest_of (map (\<lambda>row. for_prompt row (over + 1)) rows))) overs;
               base = map (\<lambda>row. for_prompt row 0) rows
           in new_price (Max (p_input ` set base)) (Max (p_output ` set base)) (Some (Max (p_cached ` set base)))
                (p_source (hd rows)) [] (Some (Max (p_written ` set base))) (Some (Max (p_written_1h ` set base))) tiers))"
  by (subst dearest_of.simps) (simp add: Let_def split: list.split)

definition highest_over :: "price \<Rightarrow> instant \<Rightarrow> rat \<Rightarrow> price" where
  "highest_over p start seconds =
     (let until = start + micros (max 0 seconds);
          found = window_at p start #
            concat (map (\<lambda>w. map (window_at p) (edges w start until)) (p_windows p));
          distinct = map (numbered p) (rev (remdups (rev found)))
      in if length distinct = 1 then hd distinct else dearest_of distinct)"

section \<open>Usage and cost\<close>

text \<open>
  The token counts of a usage as read (a count that is missing or null reads 0); whether the
  usage splits its cache writes by their lifetime is whether the hour's count is there at all.
\<close>

record usage =
  u_input :: int
  u_output :: int
  u_cached :: int
  u_written :: int
  u_written_1h :: "int option"
  u_cost :: "rat option"
  u_sent_at :: "rat option"

definition cost :: "price \<Rightarrow> usage \<Rightarrow> rat" where
  "cost row u =
     (let total_in = u_input u;
          p = for_prompt row total_in;
          cached = min total_in (u_cached u);
          written = min (total_in - cached) (u_written u);
          written_1h = min written (int_or_0 (u_written_1h u));
          out = u_output u
      in if written = 0 then
           (of_int (total_in - cached) * p_input p + of_int cached * p_cached p + of_int out * p_output p) / MILLION
         else
           (of_int (total_in - cached - written) * p_input p + of_int cached * p_cached p
             + of_int (written - written_1h) * p_written p + of_int written_1h * p_written_1h p
             + of_int out * p_output p) / MILLION)"

end
