(* ===== verification/Spend_Price_Proofs.thy ===== *)
theory Spend_Price_Proofs
  imports Spend_Prices
begin

text \<open>
  What the prices promise: the prices in force change only at an edge of a window, so the highest
  price over a span is at least every price in force in it; and a call priced for admission covers
  every usage within its prompt and its cap, however its prompt is cached.
\<close>

section \<open>Prices compared figure by figure\<close>

definition no_dearer :: "price \<Rightarrow> price \<Rightarrow> bool" where
  "no_dearer p q \<longleftrightarrow> p_input p \<le> p_input q \<and> p_output p \<le> p_output q \<and> p_cached p \<le> p_cached q \<and>
     p_written p \<le> p_written q \<and> p_written_1h p \<le> p_written_1h q"

lemma no_dearer_refl [simp]: "no_dearer p p"
  by (simp add: no_dearer_def)

lemma no_dearer_trans [trans]: "no_dearer p q \<Longrightarrow> no_dearer q r \<Longrightarrow> no_dearer p r"
  unfolding no_dearer_def by (meson order_trans)

text \<open>
  A row as vendors state them: no figure is negative, a token read from the cache costs no more
  than one that is not, a longer prompt's tier costs no less than a shorter one's, and a tier has
  no tiers of its own.
\<close>

definition fair_rates :: "price \<Rightarrow> bool" where
  "fair_rates p \<longleftrightarrow> 0 \<le> p_input p \<and> 0 \<le> p_output p \<and> 0 \<le> p_cached p \<and> 0 \<le> p_written p \<and>
     0 \<le> p_written_1h p \<and> p_cached p \<le> p_input p"

definition fair_row :: "price \<Rightarrow> bool" where
  "fair_row p \<longleftrightarrow>
     list_all fair_rates (p # map snd (p_tiers p)) \<and>
     sorted_wrt no_dearer (p # map snd (p_tiers p)) \<and>
     list_all (\<lambda>(over, q). 0 \<le> over \<and> p_tiers q = []) (p_tiers p) \<and> sorted (map fst (p_tiers p))"

definition fair_window :: "window \<Rightarrow> bool" where
  "fair_window w \<longleftrightarrow>
     0 \<le> w_start w \<and> w_start w < 1440 \<and> 0 \<le> w_end w \<and> w_end w < 1440 \<and> w_start w \<noteq> w_end w \<and> fair_row (w_price w)"

definition fair_price :: "price \<Rightarrow> bool" where
  "fair_price p \<longleftrightarrow> fair_row p \<and> list_all fair_window (p_windows p)"

section \<open>Tiers\<close>

lemma tier_of_filter:
  "tier_of p n = (case filter (\<lambda>tier. fst tier < n) (p_tiers p) of [] \<Rightarrow> None | tiers \<Rightarrow> Some (snd (last tiers)))"
proof -
  have "foldl (\<lambda>found (over, q). if n > over then Some q else found) f ts =
      (case filter (\<lambda>tier. fst tier < n) ts of [] \<Rightarrow> f | tiers \<Rightarrow> Some (snd (last tiers)))"
    for f and ts :: "(int \<times> price) list"
    by (induction ts arbitrary: f) (auto split: list.split)
  then show ?thesis by (simp add: tier_of_def)
qed

lemma for_prompt_filter:
  "for_prompt p n = (let tiers = filter (\<lambda>tier. fst tier < n) (p_tiers p) in if tiers = [] then p else snd (last tiers))"
  by (simp add: for_prompt_def tier_of_filter Let_def split: list.split)

lemma for_prompt_cong:
  assumes "\<And>tier. tier \<in> set (p_tiers p) \<Longrightarrow> fst tier < n \<longleftrightarrow> fst tier < n'"
  shows "for_prompt p n = for_prompt p n'"
proof -
  have "filter (\<lambda>tier. fst tier < n) (p_tiers p) = filter (\<lambda>tier. fst tier < n') (p_tiers p)"
    using assms by (intro filter_cong) auto
  then show ?thesis by (simp add: for_prompt_def tier_of_filter)
qed

lemma for_prompt_below: "(\<And>tier. tier \<in> set (p_tiers p) \<Longrightarrow> n \<le> fst tier) \<Longrightarrow> for_prompt p n = p"
  using tier_of_None [of p n] by (auto simp: for_prompt_def split: option.split)

lemma for_prompt_mem: "for_prompt p n \<in> set (p # map snd (p_tiers p))"
  using tier_of_mem [of p n] by (force simp: for_prompt_def split: option.split)

lemma fair_rates_for_prompt: "fair_row p \<Longrightarrow> fair_rates (for_prompt p n)"
  using for_prompt_mem [of p n] by (auto simp: fair_row_def list_all_iff)

lemma sorted_filter_split:
  assumes "sorted (map fst ts)" "n \<le> (n' :: int)"
  shows "\<exists>more. filter (\<lambda>t. fst t < n') ts = filter (\<lambda>t. fst t < n) ts @ more"
proof -
  have "ts = filter (\<lambda>t. fst t < n) ts @ filter (\<lambda>t. n \<le> fst t) ts"
    using assms(1)
  proof (induction ts)
    case (Cons t ts)
    then show ?case
    proof (cases "fst t < n")
      case False
      then have "filter (\<lambda>t. fst t < n) ts = []" using Cons.prems by (auto simp: filter_empty_conv)
      with False Cons show ?thesis by simp
    qed auto
  qed simp
  then have "filter (\<lambda>t. fst t < n') ts =
      filter (\<lambda>t. fst t < n') (filter (\<lambda>t. fst t < n) ts) @ filter (\<lambda>t. fst t < n') (filter (\<lambda>t. n \<le> fst t) ts)"
    by (metis filter_append)
  moreover have "filter (\<lambda>t. fst t < n') (filter (\<lambda>t. fst t < n) ts) = filter (\<lambda>t. fst t < n) ts"
    using assms(2) by (intro filter_True) auto
  ultimately show ?thesis by auto
qed

text \<open>A longer prompt costs no less.\<close>

lemma for_prompt_rises:
  assumes "fair_row p" "n \<le> n'"
  shows "no_dearer (for_prompt p n) (for_prompt p n')"
proof -
  let ?fn = "filter (\<lambda>t. fst t < n) (p_tiers p)" and ?fm = "filter (\<lambda>t. fst t < n') (p_tiers p)"
  obtain more where more: "?fm = ?fn @ more"
    using sorted_filter_split [of "p_tiers p" n n'] assms by (auto simp: fair_row_def)
  have rising: "sorted_wrt no_dearer (p # map snd (p_tiers p))" using assms(1) by (simp add: fair_row_def)
  have "sorted_wrt no_dearer (map snd ?fm)"
    using rising by (auto simp: sorted_wrt_map intro: sorted_wrt_filter)
  then have fm: "sorted_wrt no_dearer (map snd ?fn @ map snd more)" by (simp add: more)
  have first: "no_dearer p (snd t)" if "t \<in> set ?fm" for t using rising that by auto
  show ?thesis
  proof (cases "more = []")
    case True
    then show ?thesis using more by (simp add: for_prompt_filter)
  next
    case False
    then have m: "for_prompt p n' = snd (last more)"
      by (simp add: for_prompt_filter more)
    have "last more \<in> set ?fm" using False more by simp
    show ?thesis
    proof (cases "?fn = []")
      case True
      then have "for_prompt p n = p" by (simp add: for_prompt_filter)
      then show ?thesis using first [OF \<open>last more \<in> set ?fm\<close>] m by simp
    next
      case fn: False
      then have "for_prompt p n = snd (last ?fn)"
        by (simp add: for_prompt_filter)
      moreover have "no_dearer (snd a) (snd b)" if "a \<in> set ?fn" "b \<in> set more" for a b
        using fm that by (cases a) (auto simp: sorted_wrt_append)
      then have "no_dearer (snd (last ?fn)) (snd (last more))" using fn False by (meson last_in_set)
      ultimately show ?thesis using m by simp
    qed
  qed
qed

section \<open>The dearest of several\<close>

lemma new_price_sel [simp]:
  "p_input (new_price i out c s ws w w1 ts) = i" "p_output (new_price i out c s ws w w1 ts) = out"
  "p_cached_input (new_price i out c s ws w w1 ts) = c" "p_cache_write (new_price i out c s ws w w1 ts) = w"
  "p_cache_write_1h (new_price i out c s ws w w1 ts) = w1" "p_tiers (new_price i out c s ws w w1 ts) = sort_key fst ts"
  "p_windows (new_price i out c s ws w w1 ts) = ws" "p_source (new_price i out c s ws w w1 ts) = s"
  by (simp_all add: new_price_def)

lemma thresholds_iff: "over \<in> set (thresholds rows) \<longleftrightarrow> (\<exists>row\<in>set rows. over \<in> fst ` set (p_tiers row))"
  by (auto simp: thresholds_def)

lemma sorted_thresholds: "sorted (thresholds rows)"
  by (simp add: thresholds_def)

lemma dearest_tiers:
  "p_tiers (dearest_of rows) =
     map (\<lambda>over. (over, dearest_of (map (\<lambda>row. for_prompt row (over + 1)) rows))) (thresholds rows)"
proof -
  let ?ts = "map (\<lambda>over. (over, dearest_of (map (\<lambda>row. for_prompt row (over + 1)) rows))) (thresholds rows)"
  have "sort_key fst ?ts = ?ts"
    using sorted_thresholds [of rows] by (intro sort_key_id_if_sorted) (simp add: comp_def)
  then show ?thesis by (subst dearest_of.simps) (simp add: Let_def)
qed

text \<open>No tier of a row starts below an empty prompt.\<close>

definition from_zero :: "price \<Rightarrow> bool" where
  "from_zero p \<longleftrightarrow> (\<forall>tier\<in>set (p_tiers p). 0 \<le> fst tier)"

lemma for_prompt_zero: "from_zero p \<Longrightarrow> for_prompt p 0 = p"
  by (rule for_prompt_below) (simp add: from_zero_def)

lemma dearest_base:
  assumes "row \<in> set rows" "\<forall>row\<in>set rows. from_zero row"
  shows "no_dearer row (dearest_of rows)"
proof -
  have base: "(if thresholds rows \<noteq> [] then map (\<lambda>row. for_prompt row 0) rows else rows) = rows"
    using assms(2) by (auto simp: for_prompt_zero intro: map_idI)
  have "p_input (dearest_of rows) = Max (p_input ` set rows)" "p_output (dearest_of rows) = Max (p_output ` set rows)"
    "p_cached (dearest_of rows) = Max (p_cached ` set rows)" "p_written (dearest_of rows) = Max (p_written ` set rows)"
    "p_written_1h (dearest_of rows) = Max (p_written_1h ` set rows)"
    by (subst dearest_of.simps; simp add: Let_def base p_cached_def p_written_def p_written_1h_def)+
  with assms(1) show ?thesis by (simp add: no_dearer_def)
qed

text \<open>Whatever the prompt's length, the dearest of several prices costs at least what each costs.\<close>

lemma dearest_dominates:
  assumes "row \<in> set rows" "\<forall>row\<in>set rows. fair_row row"
  shows "no_dearer (for_prompt row n) (for_prompt (dearest_of rows) n)"
proof -
  define below where "below = filter (\<lambda>over. over < n) (thresholds rows)"
  have zero: "\<forall>row\<in>set rows. from_zero row"
    using assms(2) by (fastforce simp: fair_row_def from_zero_def list_all_iff)
  have below_set: "over \<in> set below \<longleftrightarrow> over < n \<and> over \<in> set (thresholds rows)" for over
    by (auto simp: below_def)
  have tier: "fst t \<in> set (thresholds rows)" if "t \<in> set (p_tiers row)" for t
    using that assms(1) by (auto simp: thresholds_iff)
  have dear: "filter (\<lambda>t. fst t < n) (p_tiers (dearest_of rows)) =
      map (\<lambda>over. (over, dearest_of (map (\<lambda>row. for_prompt row (over + 1)) rows))) below"
    by (simp add: dearest_tiers filter_map comp_def below_def)
  show ?thesis
  proof (cases "below = []")
    case True
    then have "for_prompt (dearest_of rows) n = dearest_of rows" by (simp add: for_prompt_filter dear)
    moreover have "for_prompt row n = row"
    proof (rule for_prompt_below)
      fix t assume "t \<in> set (p_tiers row)"
      then show "n \<le> fst t" using tier below_set [of "fst t"] True by (simp add: not_le [symmetric])
    qed
    ultimately show ?thesis using dearest_base [OF assms(1) zero] by simp
  next
    case False
    define over where "over = last below"
    have over: "over < n" "over \<in> set (thresholds rows)"
      using False below_set [of over] last_in_set [of below] by (simp_all add: over_def)
    have "sorted below" using sorted_thresholds by (simp add: below_def sorted_wrt_filter)
    then have latest: "t \<le> over" if "t \<in> set below" for t
      using that False by (cases below rule: rev_cases) (auto simp: over_def sorted_append)
    let ?rows = "map (\<lambda>row. for_prompt row (over + 1)) rows"
    have "for_prompt (dearest_of rows) n = dearest_of ?rows"
      using False by (simp add: for_prompt_filter dear last_map over_def)
    moreover have "for_prompt row n = for_prompt row (over + 1)"
      using tier latest over(1) below_set by (intro for_prompt_cong) (smt (verit, best))
    moreover have "\<forall>row\<in>set ?rows. from_zero row"
    proof
      fix r assume "r \<in> set ?rows"
      then obtain q where q: "q \<in> set rows" "r = for_prompt q (over + 1)" by auto
      then show "from_zero r"
        using for_prompt_mem [of q "over + 1"] assms(2) by (fastforce simp: fair_row_def from_zero_def list_all_iff)
    qed
    moreover have "for_prompt row (over + 1) \<in> set ?rows" using assms(1) by auto
    ultimately show ?thesis using dearest_base [of "for_prompt row (over + 1)" ?rows] by simp
  qed
qed

section \<open>The prices change at the edges of a window\<close>

lemma div_before:
  fixes t d :: int
  assumes "0 < d"
  shows "t mod d \<noteq> 0 \<Longrightarrow> (t - 1) div d = t div d \<and> (t - 1) mod d = t mod d - 1"
    and "t mod d = 0 \<Longrightarrow> (t - 1) div d = t div d - 1 \<and> (t - 1) mod d = d - 1"
proof -
  have t: "t = d * (t div d) + t mod d" by simp
  have r: "0 \<le> t mod d" "t mod d < d" using assms by simp_all
  show "(t - 1) div d = t div d \<and> (t - 1) mod d = t mod d - 1" if "t mod d \<noteq> 0"
    using t r that int_div_pos_eq [of "t - 1" d "t div d" "t mod d - 1"]
      int_mod_pos_eq [of "t - 1" d "t div d" "t mod d - 1"] by linarith
  show "(t - 1) div d = t div d - 1 \<and> (t - 1) mod d = d - 1" if "t mod d = 0"
  proof -
    have "t - 1 = d * (t div d - 1) + (d - 1)" using t that by (simp add: algebra_simps)
    then show ?thesis
      using assms int_div_pos_eq [of "t - 1" d "t div d - 1" "d - 1"]
        int_mod_pos_eq [of "t - 1" d "t div d - 1" "d - 1"] by simp
  qed
qed

lemma units_pos [simp]: "0 < DAY" "0 < MINUTE"
  by (simp_all add: DAY_def MINUTE_def)

lemma time_before:
  "t mod DAY \<noteq> 0 \<Longrightarrow> (t - 1) div DAY = t div DAY \<and> (t - 1) mod DAY = t mod DAY - 1"
  "t mod DAY = 0 \<Longrightarrow> (t - 1) div DAY = t div DAY - 1 \<and> (t - 1) mod DAY = DAY - 1"
  using div_before [of DAY t] by simp_all

lemma minute_before:
  "(r - 1) div MINUTE = (if r mod MINUTE = 0 then r div MINUTE - 1 else r div MINUTE)"
  using div_before [of MINUTE r] by simp

lemma covers_changes:
  assumes "fair_window w" "covers w t \<noteq> covers w (t - 1)"
  shows "t mod DAY = w_start w * MINUTE \<or> t mod DAY = w_end w * MINUTE"
proof (cases "t mod DAY = 0")
  case True
  then have m: "minute_of t = 0" "minute_of (t - 1) = 1439"
    using time_before(2) [OF True] by (simp_all add: minute_of_def DAY_def MINUTE_def)
  have "weekday (t - 1) = (weekday t - 1) mod 7"
    using time_before(2) [OF True] by (simp add: weekday_def mod_simps)
  then show ?thesis
    using assms True m by (auto simp: covers_def fair_window_def Let_def split: if_splits)
next
  case False
  let ?r = "t mod DAY"
  have w: "weekday (t - 1) = weekday t" using time_before(1) [OF False] by (simp add: weekday_def)
  have "minute_of (t - 1) = (if ?r mod MINUTE = 0 then minute_of t - 1 else minute_of t)"
    using time_before(1) [OF False] minute_before [of ?r] by (simp add: minute_of_def)
  then have whole: "?r mod MINUTE = 0" and m: "minute_of (t - 1) = minute_of t - 1"
    using assms(2) w by (auto simp: covers_def Let_def split: if_splits)
  have "minute_of t = w_start w \<or> minute_of t = w_end w"
    using assms w m by (auto simp: covers_def fair_window_def Let_def split: if_splits)
  moreover have "?r = minute_of t * MINUTE"
    using whole div_mult_mod_eq [of ?r MINUTE] by (simp add: minute_of_def)
  ultimately show ?thesis by auto
qed

lemma edges_from_mem:
  assumes "start < t" "t \<le> until" "t mod DAY = w_start w * MINUTE \<or> t mod DAY = w_end w * MINUTE"
    and "t - t mod DAY = day + int k * DAY"
  shows "t \<in> set (edges_from (w, start, until, day))"
  using assms(4)
proof (induction k arbitrary: day)
  case 0
  have "0 \<le> t mod DAY" by (simp add: DAY_def)
  then have "day \<le> until" using 0 assms(2) by linarith
  moreover have "t = day + t mod DAY" using 0 by simp
  ultimately show ?case
    using assms(1-3) by (subst edges_from.simps) auto
next
  case (Suc k)
  then have "t \<in> set (edges_from (w, start, until, day + DAY))" by (simp add: algebra_simps)
  moreover have "day \<le> until"
  proof -
    have "0 \<le> t mod DAY" "0 \<le> int (Suc k) * DAY" by (simp_all add: DAY_def)
    with Suc.prems assms(2) show ?thesis by linarith
  qed
  ultimately show ?case by (subst edges_from.simps) simp
qed

lemma edges_mem:
  assumes "start < t" "t \<le> until" "t mod DAY = w_start w * MINUTE \<or> t mod DAY = w_end w * MINUTE"
  shows "t \<in> set (edges w start until)"
proof -
  have day: "s - s mod DAY = s div DAY * DAY" for s by (simp add: minus_mod_eq_div_mult)
  have "start div DAY \<le> t div DAY" using assms(1) by (intro zdiv_mono1) (simp_all add: DAY_def)
  then have "t - t mod DAY = start - start mod DAY + int (nat (t div DAY - start div DAY)) * DAY"
    by (simp add: day algebra_simps)
  then show ?thesis unfolding edges_def by (rule edges_from_mem [OF assms])
qed

lemma window_at_cong:
  assumes "\<And>w. w \<in> set (p_windows p) \<Longrightarrow> covers w t = covers w t'"
  shows "window_at p t = window_at p t'"
  unfolding window_at_def using assms by (intro find_cong) auto

lemma window_found:
  assumes "list_all fair_window (p_windows p)" "start \<le> t" "t \<le> until"
  shows "window_at p t \<in> insert (window_at p start)
    (\<Union>w\<in>set (p_windows p). window_at p ` set (edges w start until))"
  using assms(2,3)
proof (induction t rule: int_ge_induct)
  case (step t)
  show ?case
  proof (cases "\<exists>w\<in>set (p_windows p). covers w (t + 1) \<noteq> covers w t")
    case True
    then obtain w where w: "w \<in> set (p_windows p)" "covers w (t + 1) \<noteq> covers w (t + 1 - 1)" by auto
    then have "t + 1 \<in> set (edges w start until)"
      using covers_changes [OF _ w(2)] assms(1) step by (intro edges_mem) (auto simp: list_all_iff)
    with w(1) show ?thesis by blast
  next
    case False
    then have "window_at p (t + 1) = window_at p t" by (intro window_at_cong) blast
    with step show ?thesis by simp
  qed
qed simp

lemma numbered_fair:
  assumes "fair_price p"
  shows "fair_row (numbered p (window_at p t))"
proof (cases "window_at p t")
  case None
  then show ?thesis using assms by (simp add: numbered_def fair_price_def)
next
  case (Some i)
  then have "i < length (p_windows p)"
    by (auto simp: window_at_def find_Some_iff)
  then have "fair_window (p_windows p ! i)" using assms by (simp add: fair_price_def list_all_iff)
  with Some show ?thesis by (simp add: numbered_def fair_window_def)
qed

lemma highest_dominates:
  assumes fair: "fair_price p" and t: "start \<le> t" "t \<le> start + micros (max 0 seconds)"
  shows "no_dearer (for_prompt (price_at p t) n) (for_prompt (highest_over p start seconds) n)"
proof -
  define until where "until = start + micros (max 0 seconds)"
  define found where "found = window_at p start # concat (map (\<lambda>w. map (window_at p) (edges w start until)) (p_windows p))"
  define rows where "rows = map (numbered p) (rev (remdups (rev found)))"
  have rows: "set rows = numbered p ` set found" by (simp add: rows_def)
  have highest: "highest_over p start seconds = (if length rows = 1 then hd rows else dearest_of rows)"
    by (simp add: highest_over_def Let_def rows_def found_def until_def)
  have "window_at p t \<in> set found"
    using window_found [of p start t until] fair t by (auto simp: found_def until_def fair_price_def)
  then have "price_at p t \<in> set rows" by (simp add: rows price_at_def)
  moreover have "\<forall>row\<in>set rows. fair_row row"
    using numbered_fair [OF fair] by (auto simp: rows found_def)
  ultimately show ?thesis
    using dearest_dominates [of "price_at p t" rows n] by (cases rows) (auto simp: highest)
qed

end
