(* ===== verification/Spend_Table.thy ===== *)
theory Spend_Table
  imports Spend_Prices "HOL-Library.AList"
begin

text \<open>
  Where prices are read from (\<open>core/spend.py\<close>, \<open>_number\<close> to \<open>price_key\<close>): the rows of the operator's
  \<open>llm.model_prices\<close> and of the vendored table, as JSON values, and the names models are priced
  under. The figures of a row are finite; a time of day is written in ASCII digits.
\<close>

section \<open>Figures\<close>

definition rat_of_float :: "pyfloat \<Rightarrow> rat option" where
  "rat_of_float f =
     (case f of
        FDec s m e \<Rightarrow>
          Some ((if s then - 1 else 1) * (if 0 \<le> e then of_nat m * 10 ^ nat e else of_nat m / 10 ^ nat (- e)))
      | _ \<Rightarrow> None)"

definition amount :: "py \<Rightarrow> rat option" where
  "amount v =
     (let given = (case v of PInt i \<Rightarrow> Some (of_int i) | PFloat f \<Rightarrow> rat_of_float f | _ \<Rightarrow> None)
      in case given of None \<Rightarrow> None | Some x \<Rightarrow> if x < 0 then None else Some x)"

text \<open>\<open>HH:MM\<close>, as the minutes of the day.\<close>

definition minutes :: "py \<Rightarrow> int option" where
  "minutes v =
     (case strip (py_str (py_or v (PStr []))) of
        [a, b, c, d, e] \<Rightarrow>
          if list_all is_digit [a, b, d, e] \<and> c = CHR '':'' \<and> digit_val d \<le> 5
             \<and> (digit_val a \<le> 1 \<or> digit_val a = 2 \<and> digit_val b \<le> 3)
          then Some (int (nat_of_text [a, b]) * 60 + int (nat_of_text [d, e])) else None
      | _ \<Rightarrow> None)"

definition DAYS :: "string list" where
  "DAYS = [''mon'', ''tue'', ''wed'', ''thu'', ''fri'', ''sat'', ''sun'']"

definition day_named :: "py \<Rightarrow> int option" where
  "day_named v =
     (let name = take 3 (map lower_char (strip (py_str v))) in
      map_option int (List.find (\<lambda>i. DAYS ! i = name) [0..<length DAYS]))"

text \<open>\<open>f"{n:,}"\<close>.\<close>

fun grouped :: "nat \<Rightarrow> string" where
  "grouped n =
     (if n < 1000 then nat_text n
      else grouped (n div 1000) @ '','' @ (let low = nat_text (n mod 1000) in replicate (3 - length low) (CHR ''0'') @ low))"

declare grouped.simps [simp del]

section \<open>A price row\<close>

text \<open>
  \<open>_price_from\<close>, the readers of a row's windows and tiers given. A window's row is read
  without the key \<open>windows\<close> and a tier's without both keys, so the readers nest no deeper than
  the three below.
\<close>

definition price_row ::
  "(py \<Rightarrow> string \<Rightarrow> py_error + window option) \<Rightarrow> (py \<Rightarrow> string \<Rightarrow> py_error + (int \<times> price) option)
    \<Rightarrow> py \<Rightarrow> string \<Rightarrow> py_error + price option" where
  "price_row window_reader tier_reader row source =
     (case row of
        PDict d \<Rightarrow>
          (case (amount (dict_get d ''input_usd_per_mtok''), amount (dict_get d ''output_usd_per_mtok'')) of
             (Some given_in, Some given_out) \<Rightarrow>
               let said = py_str (py_or (dict_get d ''source'') (PStr source)) in
               bind_r (py_iter (py_or (dict_get d ''windows'') (PList []))) (\<lambda>window_rows.
               bind_r (sequence_r (map (\<lambda>r. window_reader r said) window_rows)) (\<lambda>windows.
               bind_r (py_iter (py_or (dict_get d ''tiers'') (PList []))) (\<lambda>tier_rows.
               map_r (\<lambda>found.
                 let tiers = List.map_filter id found;
                     kept = map (\<lambda>w. if tiers \<noteq> [] \<and> p_tiers (w_price w) = []
                         then Window (w_start w) (w_end w) (w_days w) (set_tiers (sort_key fst tiers) (w_price w))
                         else w) (List.map_filter id windows)
                 in Some (new_price given_in given_out (amount (dict_get d ''cached_input_usd_per_mtok'')) said kept
                      (amount (dict_get d ''cache_write_input_usd_per_mtok''))
                      (amount (dict_get d ''cache_write_1h_input_usd_per_mtok'')) tiers))
                 (sequence_r (map (\<lambda>r. tier_reader r said) tier_rows)))))
           | _ \<Rightarrow> Inr None)
      | _ \<Rightarrow> Inr None)"

definition no_reader :: "py \<Rightarrow> string \<Rightarrow> py_error + 'a option" where
  "no_reader row source = Inr None"

definition tier_from :: "py \<Rightarrow> string \<Rightarrow> py_error + (int \<times> price) option" where
  "tier_from row parent_source =
     (case row of
        PDict d \<Rightarrow>
          (case dict_get d ''over_prompt_tokens'' of
             PInt over \<Rightarrow>
               if over \<le> 0 then Inr None
               else map_r (map_option (Pair over))
                 (price_row no_reader no_reader (PDict (dict_without [''windows'', ''tiers''] d))
                   (parent_source @ '' (prompts over '' @ grouped (nat over) @ '' tokens)''))
           | _ \<Rightarrow> Inr None)
      | _ \<Rightarrow> Inr None)"

fun days_from :: "py list \<Rightarrow> int list option" where
  "days_from [] = Some []"
| "days_from (v # vs) = (case day_named v of None \<Rightarrow> None | Some d \<Rightarrow> map_option (Cons d) (days_from vs))"

definition window_from :: "py \<Rightarrow> string \<Rightarrow> py_error + window option" where
  "window_from row parent_source =
     (case row of
        PDict d \<Rightarrow>
          (case (minutes (dict_get d ''utc_from''), minutes (dict_get d ''utc_to'')) of
             (Some start, Some stop) \<Rightarrow>
               if start = stop then Inr None
               else bind_r (py_iter (py_or (dict_get d ''days'') (PList []))) (\<lambda>named.
                 case days_from named of
                   None \<Rightarrow> Inr None
                 | Some days \<Rightarrow>
                     map_r (map_option (Window start stop (remdups days)))
                       (price_row no_reader tier_from (PDict (dict_without [''windows''] d))
                         (parent_source @ '' ('' @ py_str (dict_get d ''utc_from'') @ ''-''
                           @ py_str (dict_get d ''utc_to'') @ '' UTC)'')))
           | _ \<Rightarrow> Inr None)
      | _ \<Rightarrow> Inr None)"

definition price_from :: "py \<Rightarrow> string \<Rightarrow> py_error + price option" where
  "price_from = price_row window_from tier_from"

section \<open>Names\<close>

text \<open>The part of a text before the first occurrence of a separator.\<close>

fun before :: "string \<Rightarrow> string \<Rightarrow> string" where
  "before sep [] = []"
| "before sep (c # s) = (if take (length sep) (c # s) = sep then [] else c # before sep s)"

definition clean_name :: "string \<Rightarrow> string" where
  "clean_name model =
     (let name = strip (before '' @ '' (map lower_char (strip model)))
      in rev (takeWhile (\<lambda>c. c \<noteq> CHR ''/'') (rev name)))"

definition price_key :: "string \<Rightarrow> string" where
  "price_key model = (if clean_name model = [] then ''(unnamed model)'' else clean_name model)"

definition untagged :: "string \<Rightarrow> string" where
  "untagged name = takeWhile (\<lambda>c. c \<noteq> CHR '':'') name"

section \<open>The tables\<close>

text \<open>
  The \<open>prices\<close> of the vendored table once its file is parsed: an exception leaves the table empty
  for now (\<^const>\<open>None\<close>). Keys that start with an underscore are not models, and a row without a
  source is not taken.
\<close>

definition table_prices :: "py \<Rightarrow> (string \<times> price) list option" where
  "table_prices raw =
     (case raw of
        PDict d \<Rightarrow>
          (case py_or (dict_get d ''prices'') (PDict []) of
             PDict rows \<Rightarrow>
               let models = filter (\<lambda>(key, row). take 1 key \<noteq> ''_'') rows in
               (case sequence_r (map (\<lambda>(key, row). map_r (Pair (map lower_char key)) (price_from row [])) models) of
                  Inl e \<Rightarrow> None
                | Inr read \<Rightarrow>
                    Some (foldl (\<lambda>t (key, found).
                        case found of
                          Some p \<Rightarrow> if p_source p \<noteq> [] then AList.update key p t else t
                        | None \<Rightarrow> t) [] read))
           | _ \<Rightarrow> None)
      | _ \<Rightarrow> None)"

text \<open>The operator's rows, kept under the cleaned name; a row that is no price is left out.\<close>

definition operator_prices :: "(string \<times> py) list \<Rightarrow> py_error + (string \<times> price) list" where
  "operator_prices rows =
     map_r (foldl (\<lambda>t (key, found).
         case found of Some p \<Rightarrow> AList.update (clean_name key) p t | None \<Rightarrow> t) [])
       (sequence_r (map (\<lambda>(key, row). map_r (Pair key) (price_from row ''llm.model_prices'')) rows))"

end
