(* ===== verification/Spend_Meter.thy ===== *)
theory Spend_Meter
  imports Spend_Table
begin

text \<open>
  The spend meter of a job (\<open>SpendMeter\<close> of \<open>core/spend.py\<close>): its state, what a call is charged, what
  the job has measured of its calls, the reserve kept for the verdict and the report, the decision on
  a call before it is made, and every operation that changes the state. Each operation is one step,
  although some of them take the lock more than once; the admission of a call is two where it is
  refused, the decision and what the refusal records, so that calls of other threads can come
  between. The sentences of a refusal are not kept, what they are said of is.
\<close>

section \<open>The state\<close>

text \<open>A slot or a loop's key is an object's identity.\<close>

type_synonym slot = nat

definition TAIL_KINDS :: "string list" where "TAIL_KINDS = [''verdict'', ''report'']"

definition TAIL_ORDER :: "string list" where "TAIL_ORDER = [''verdict'', ''report'']"

definition AFTER_EXHAUSTION_KINDS :: "string list" where
  "AFTER_EXHAUSTION_KINDS = TAIL_KINDS @ [''salvage'', ''final-answer nudge'']"

definition LOOP_KINDS :: "string list" where "LOOP_KINDS = [''loop turn'', ''mediation turn'']"

definition LOOP_TURN_CALL :: string where "LOOP_TURN_CALL = ''tool loop turn''"

definition STAGE_CALL_KINDS :: "(string \<times> string list) list" where
  "STAGE_CALL_KINDS = [(''analysis'', [''loop turn'']), (''debate'', [''revision'', ''mediation turn''])]"

definition TAIL_CALLS :: "(string \<times> string) list" where
  "TAIL_CALLS = [(''verdict'', ''verdict''), (''report section'', ''report''), (''narrative'', ''report''),
     (''questions'', ''report''), (''follow-up'', ''report'')]"

definition PROVIDER_REPORTED :: string where "PROVIDER_REPORTED = ''provider-reported''"

definition DEFAULT_REPLY_TOKENS :: int where "DEFAULT_REPLY_TOKENS = 8192"

definition DEFAULT_DEADLINE :: rat where "DEFAULT_DEADLINE = 1800"

text \<open>A planned call of the tail; a kind of call the job makes, seeded by a stage or asked for.\<close>

record tail_row =
  tl_model :: string
  tl_count :: int
  tl_allowed :: int
  tl_cap :: int

record asked =
  as_model :: string
  as_prompt :: int
  as_cap :: int
  as_holdable :: bool
  as_deadline :: "rat option"
  as_generation :: nat
  as_used :: nat

datatype kind_row = Seeded nat | Asked asked

text \<open>Why a call is refused, with the figures the sentence gives.\<close>

datatype refusal =
    AlreadyExhausted
  | Unbounded
  | PaysForFewer rat rat int rat int

datatype why = Reached | AfterRefusal refusal

datatype agent_stop = UsdCeiling rat rat nat | TokenCeiling int int nat

record meter =
  m_ceiling :: "rat option"
  m_hour_models :: "string list option"
  m_hour_writes :: bool
  m_operator :: "(string \<times> price) list"
  m_table :: "(string \<times> price) list"
  m_declared_output :: "string \<Rightarrow> int"
  m_settled :: rat
  m_in_flight :: "(slot \<times> rat) list"
  m_reserved :: "(slot \<times> rat) list"
  m_active :: "slot set"
  m_unpriced :: "(string \<times> nat) list"
  m_priced_from :: "(string \<times> string) set"
  m_reached_at :: "rat option"
  m_unreported :: nat
  m_estimated_calls :: nat
  m_estimated_usd :: rat
  m_largest_loop :: "(string \<times> int) list"
  m_largest_single :: "(string \<times> int) list"
  m_answers :: "((string \<times> string) \<times> int \<times> int) list"
  m_largest_prompt :: "(string \<times> int) list"
  m_smallest_loop_prompt :: int
  m_inputs :: "(string \<times> int \<times> int) list"
  m_loop_inputs :: "(slot \<times> (string \<times> int \<times> int) list) list"
  m_tail :: "(string \<times> tail_row) list"
  m_exhausted :: "(rat \<times> why) option"
  m_kinds :: "(string \<times> kind_row) list"
  m_uses :: nat
  m_refused :: nat
  m_pending :: "refusal option"
  m_generation :: nat
  m_calls_made :: "(string \<times> nat \<times> nat) list"
  m_closed :: bool
  m_agent_ceilings :: "(string \<times> rat option \<times> int option) list"
  m_agent_spent :: "(string \<times> rat \<times> int \<times> nat) list"
  m_agent_stops :: "(string \<times> agent_stop) list"

text \<open>\<open>d.get(k, v)\<close>.\<close>

definition get_or :: "'b \<Rightarrow> ('a \<times> 'b) list \<Rightarrow> 'a \<Rightarrow> 'b" where
  "get_or v d k = (case map_of d k of None \<Rightarrow> v | Some w \<Rightarrow> w)"

definition new_meter ::
  "rat option \<Rightarrow> (string \<times> price) list \<Rightarrow> (string \<times> price) list \<Rightarrow> bool + string list
    \<Rightarrow> (string \<Rightarrow> int) \<Rightarrow> meter" where
  "new_meter ceiling_usd operator_rows table hour_writes declared_output =
     (let models = (case hour_writes of Inl b \<Rightarrow> None | Inr names \<Rightarrow> Some (map clean_name (filter (\<lambda>n. n \<noteq> []) names)))
      in \<lparr>m_ceiling = ceiling_usd, m_hour_models = models,
          m_hour_writes = (case hour_writes of Inl b \<Rightarrow> b | Inr names \<Rightarrow> models \<noteq> Some []),
          m_operator = operator_rows, m_table = table, m_declared_output = declared_output,
          m_settled = 0, m_in_flight = [], m_reserved = [], m_active = {}, m_unpriced = [],
          m_priced_from = {}, m_reached_at = None, m_unreported = 0, m_estimated_calls = 0,
          m_estimated_usd = 0, m_largest_loop = [], m_largest_single = [], m_answers = [],
          m_largest_prompt = [], m_smallest_loop_prompt = 0, m_inputs = [], m_loop_inputs = [],
          m_tail = [], m_exhausted = None, m_kinds = [], m_uses = 0, m_refused = 0, m_pending = None,
          m_generation = 0, m_calls_made = [], m_closed = False, m_agent_ceilings = [],
          m_agent_spent = [], m_agent_stops = []\<rparr>)"

section \<open>What a call is charged\<close>

definition writes_hour_caches :: "meter \<Rightarrow> string \<Rightarrow> bool" where
  "writes_hour_caches m model =
     (case m_hour_models m of
        None \<Rightarrow> m_hour_writes m
      | Some names \<Rightarrow> let name = clean_name model in name \<in> set names \<or> untagged name \<in> set names)"

definition price_of :: "meter \<Rightarrow> string \<Rightarrow> price option" where
  "price_of m model =
     (let name = clean_name model;
          held = (\<lambda>key. case map_of (m_operator m) key of Some p \<Rightarrow> Some p | None \<Rightarrow> map_of (m_table m) key)
      in if name = [] then None
         else case held name of Some p \<Rightarrow> Some p | None \<Rightarrow> held (untagged name))"

definition price_now :: "meter \<Rightarrow> instant \<Rightarrow> string \<Rightarrow> price option" where
  "price_now m now model = map_option (\<lambda>p. price_at p now) (price_of m model)"

text \<open>The last second a timestamp can name is that of the year 9999.\<close>

definition sent_at :: "usage \<Rightarrow> instant \<Rightarrow> instant" where
  "sent_at u fallback =
     (case u_sent_at u of
        None \<Rightarrow> fallback
      | Some stamp \<Rightarrow> if stamp < 0 \<or> 253402300800 \<le> stamp then fallback else micros stamp)"

definition charged :: "meter \<Rightarrow> instant \<Rightarrow> usage \<Rightarrow> string \<Rightarrow> (rat \<times> string) option" where
  "charged m now u model =
     (case (case u_cost u of None \<Rightarrow> None | Some x \<Rightarrow> if x < 0 then None else Some x) of
        Some reported \<Rightarrow> Some (reported, PROVIDER_REPORTED)
      | None \<Rightarrow>
          (case price_of m model of
             None \<Rightarrow> None
           | Some row \<Rightarrow>
               let in_force = price_at row (sent_at u now);
                   u = (if writes_hour_caches m model \<and> u_written u \<noteq> 0 \<and> u_written_1h u = None
                        then u\<lparr>u_written_1h := Some (u_written u)\<rparr> else u)
               in Some (cost in_force u, p_source (for_prompt in_force (u_input u)))))"

definition note_unpriced :: "string \<Rightarrow> meter \<Rightarrow> meter" where
  "note_unpriced name m = m\<lparr>m_unpriced := AList.update name (get_or 0 (m_unpriced m) name + 1) (m_unpriced m)\<rparr>"

definition charge_of :: "instant \<Rightarrow> usage option \<Rightarrow> string \<Rightarrow> meter \<Rightarrow> (rat \<times> string) option \<times> meter" where
  "charge_of now usage model m =
     (case usage of
        None \<Rightarrow> (None, m\<lparr>m_unreported := m_unreported m + 1\<rparr>)
      | Some u \<Rightarrow>
          (case charged m now u model of
             None \<Rightarrow> (None, note_unpriced (price_key model) m)
           | Some (c, source) \<Rightarrow>
               (Some (c, source), m\<lparr>m_priced_from := insert (price_key model, source) (m_priced_from m)\<rparr>)))"

section \<open>What the job has measured\<close>

text \<open>\<open>_measure_locked\<close>, \<open>_count_answer_locked\<close> and \<open>_mean_answer_locked\<close>.\<close>

definition measure_answer :: "usage \<Rightarrow> string \<Rightarrow> bool \<Rightarrow> meter \<Rightarrow> meter" where
  "measure_answer u name loop m =
     (let largest = (if loop then m_largest_loop m else m_largest_single m);
          larger = (if u_output u > get_or 0 largest name then AList.update name (u_output u) largest else largest)
      in if loop then m\<lparr>m_largest_loop := larger\<rparr> else m\<lparr>m_largest_single := larger\<rparr>)"

definition count_answer :: "usage \<Rightarrow> string \<Rightarrow> string \<Rightarrow> meter \<Rightarrow> meter" where
  "count_answer u name which m =
     (if u_output u \<le> 0 then m
      else let (total, calls) = get_or (0, 0) (m_answers m) (which, name) in
        m\<lparr>m_answers := AList.update (which, name) (total + u_output u, calls + 1) (m_answers m)\<rparr>)"

definition mean_answer :: "meter \<Rightarrow> string \<Rightarrow> string \<Rightarrow> int" where
  "mean_answer m name which =
     (let (total, calls) = get_or (0, 0) (m_answers m) (which, name) in
      if calls \<le> 0 then 0 else - ((- total) div calls))"

definition uncapped_output :: "meter \<Rightarrow> string \<Rightarrow> int" where
  "uncapped_output m name = (if m_declared_output m name > 0 then m_declared_output m name else DEFAULT_REPLY_TOKENS)"

definition uncapped_is_declared :: "meter \<Rightarrow> string \<Rightarrow> bool" where
  "uncapped_is_declared m name \<longleftrightarrow> m_declared_output m name > 0"

section \<open>What was spent\<close>

definition total_of :: "(slot \<times> rat) list \<Rightarrow> rat" where
  "total_of d = sum_list (map snd d)"

definition spent :: "meter \<Rightarrow> rat" where
  "spent m = m_settled m + total_of (m_in_flight m)"

definition committed :: "meter \<Rightarrow> rat" where
  "committed m = m_settled m + total_of (m_in_flight m) + total_of (m_reserved m)"

definition remaining :: "meter \<Rightarrow> rat option" where
  "remaining m = map_option (\<lambda>c. max 0 (c - committed m)) (m_ceiling m)"

definition prompt_and_answer :: "int \<Rightarrow> int \<Rightarrow> usage" where
  "prompt_and_answer prompt_tokens output_tokens =
     \<lparr>u_input = prompt_tokens, u_output = output_tokens, u_cached = 0, u_written = 0, u_written_1h = None,
       u_cost = None, u_sent_at = None\<rparr>"

definition worst_case :: "meter \<Rightarrow> instant \<Rightarrow> string \<Rightarrow> int \<Rightarrow> int \<Rightarrow> rat option" where
  "worst_case m now model prompt_tokens output_tokens =
     map_option (\<lambda>p. cost (for_admission p prompt_tokens (writes_hour_caches m model))
         (prompt_and_answer prompt_tokens output_tokens)) (price_now m now model)"

definition round6 :: "rat \<Rightarrow> rat" where
  "round6 x = of_int (round_even (x * MILLION)) / MILLION"

text \<open>\<open>reached\<close> and \<open>_exhaust\<close> latch; \<open>exhausted\<close> asks both.\<close>

definition reached :: "meter \<Rightarrow> bool \<times> meter" where
  "reached m =
     (case m_ceiling m of
        None \<Rightarrow> (False, m)
      | Some usd \<Rightarrow>
          if m_reached_at m \<noteq> None then (True, m)
          else if spent m < usd then (False, m)
          else (True, m\<lparr>m_reached_at := Some (spent m),
              m_exhausted := (case m_exhausted m of None \<Rightarrow> Some (round6 (spent m), Reached) | e \<Rightarrow> e)\<rparr>))"

definition exhaust :: "refusal \<Rightarrow> meter \<Rightarrow> meter" where
  "exhaust r m =
     (case m_exhausted m of
        None \<Rightarrow> m\<lparr>m_exhausted := Some (round6 (spent m), AfterRefusal r)\<rparr>
      | Some e \<Rightarrow> m)"

definition exhausted :: "meter \<Rightarrow> bool \<times> meter" where
  "exhausted m = (let (r, m) = reached m in (r \<or> m_exhausted m \<noteq> None, m))"

section \<open>The reserve for the verdict and the report\<close>

definition cache_share :: "meter \<Rightarrow> string \<Rightarrow> rat option" where
  "cache_share m name =
     (let both = get_or (0, 0) (m_inputs m) name #
            map (\<lambda>(key, held). get_or (0, 0) held name) (m_loop_inputs m);
          total = sum_list (map fst both)
      in if total > 0 then Some (of_int (sum_list (map snd both)) / of_int total) else None)"

definition tail_prompt :: "meter \<Rightarrow> string \<Rightarrow> int \<Rightarrow> int" where
  "tail_prompt m kind allowed =
     (let own = get_or 0 (m_largest_prompt m) (''tail:'' @ kind);
          single = get_or 0 (m_largest_prompt m) ''single'';
          opened = get_or 0 (m_largest_prompt m) ''opening'';
          opening = (if opened \<noteq> 0 then opened else m_smallest_loop_prompt m);
          found = (if single \<noteq> 0 then single else opening)
      in if own \<noteq> 0 then own
         else if found \<noteq> 0 then (if allowed \<noteq> 0 \<and> allowed < found then allowed else found)
         else allowed)"

text \<open>
  \<open>_minimum_locked\<close> past its report calls, which ask the planned answer first; the planned
  answer of the verdict asks it in turn.
\<close>

definition measured_minimum :: "meter \<Rightarrow> string \<Rightarrow> string \<Rightarrow> int \<Rightarrow> int" where
  "measured_minimum m kind name cap =
     (let bounded = (\<lambda>measured. if cap \<noteq> 0 then min measured cap else measured);
          loop = (if kind \<in> set LOOP_KINDS then get_or 0 (m_largest_loop m) name else 0);
          single = get_or 0 (m_largest_single m) name
      in if loop \<noteq> 0 then bounded loop
         else if single \<noteq> 0 then bounded single
         else if cap \<le> 0 then uncapped_output m name else cap)"

definition largest_answer :: "meter \<Rightarrow> string \<Rightarrow> int" where
  "largest_answer m name =
     (let of_model = (\<lambda>largest. let own = get_or 0 largest name in
            if own \<noteq> 0 then Some own else if largest \<noteq> [] then Some (Max (snd ` set largest)) else None)
      in case of_model (m_largest_loop m) of
           Some n \<Rightarrow> n
         | None \<Rightarrow> (case of_model (m_largest_single m) of Some n \<Rightarrow> n | None \<Rightarrow> 0))"

definition planned_answer :: "meter \<Rightarrow> string \<Rightarrow> string \<Rightarrow> int \<Rightarrow> int" where
  "planned_answer m kind name cap =
     (if kind = ''verdict'' then measured_minimum m kind name cap
      else
        let own = mean_answer m name (''tail:'' @ kind);
            single = mean_answer m name ''single'';
            tokens = (if own \<noteq> 0 then own else if single \<noteq> 0 then single else largest_answer m name)
        in if tokens \<noteq> 0 \<and> cap \<noteq> 0 \<and> tokens > cap then cap
           else if tokens = 0 \<and> cap \<le> 0 then uncapped_output m name
           else tokens)"

definition minimum :: "meter \<Rightarrow> string \<Rightarrow> string \<Rightarrow> int \<Rightarrow> int" where
  "minimum m kind name cap =
     (let planned = (if kind = ''report'' then planned_answer m kind name cap else 0)
      in if planned \<noteq> 0 then planned else measured_minimum m kind name cap)"

definition planned_retries :: "meter \<Rightarrow> string \<Rightarrow> int \<Rightarrow> int" where
  "planned_retries m kind firsts =
     (let (made, retried) = get_or (0, 0) (m_calls_made m) kind in
      if firsts \<le> 0 then 0
      else if made \<le> 0 then firsts
      else \<lceil>of_int firsts * of_nat (retried + 1) / of_nat (made + 1) - (1 / 1000000000 :: rat)\<rceil>)"

text \<open>A row of the reserve: what is kept for the planned calls of one kind.\<close>

record reserve_row =
  rv_kind :: string
  rv_model :: string
  rv_calls :: int
  rv_prompt :: int
  rv_answer :: int
  rv_share :: "rat option"
  rv_retries :: int
  rv_usd :: rat
  rv_expected :: rat

definition reserve_row_of :: "meter \<Rightarrow> instant \<Rightarrow> string \<Rightarrow> bool \<Rightarrow> string \<Rightarrow> reserve_row option" where
  "reserve_row_of m now taking retrying kind =
     (case map_of (m_tail m) kind of
        None \<Rightarrow> None
      | Some row \<Rightarrow>
          let retried_for = tl_count row;
              count = (if kind = taking \<and> \<not> retrying \<and> tl_count row > 0 then tl_count row - 1 else tl_count row);
              retries = planned_retries m kind retried_for
          in if count \<le> 0 \<and> retries \<le> 0 then None
             else case price_of m (tl_model row) of
               None \<Rightarrow> None
             | Some row_price \<Rightarrow>
                 let name = clean_name (tl_model row);
                     prompt = tail_prompt m kind (tl_allowed row);
                     price = for_admission (price_at row_price now) prompt (writes_hour_caches m (tl_model row));
                     answer = planned_answer m kind name (tl_cap row)
                 in if answer = 0 then None
                    else
                      let share = cache_share m name;
                          later_rate = (case share of None \<Rightarrow> p_cached price
                            | Some s \<Rightarrow> s * p_cached price + (1 - s) * p_input price);
                          demand = (of_int prompt * p_input price + of_int answer * p_output price) / MILLION;
                          retry_prompt = prompt + answer;
                          retry_demand = (of_int retry_prompt * p_input price + of_int answer * p_output price) / MILLION;
                          first_sent = (get_or 0 (m_largest_prompt m) (''tail:'' @ kind) \<noteq> 0 \<or> kind = taking)
                      in Some \<lparr>rv_kind = kind, rv_model = name, rv_calls = count, rv_prompt = prompt,
                           rv_answer = answer, rv_share = share, rv_retries = retries,
                           rv_usd = demand * of_int count + retry_demand * of_int retries,
                           rv_expected =
                             (\<Sum>index\<leftarrow>[0..<nat count].
                               (of_int prompt * (if index = 0 \<and> \<not> first_sent then p_input price else later_rate)
                                 + of_int answer * p_output price) / MILLION)
                             + of_int retries * (of_int retry_prompt * later_rate + of_int answer * p_output price) / MILLION\<rparr>)"

definition reserve_rows :: "meter \<Rightarrow> instant \<Rightarrow> string \<Rightarrow> bool \<Rightarrow> reserve_row list" where
  "reserve_rows m now taking retrying = List.map_filter (reserve_row_of m now taking retrying) TAIL_ORDER"

definition reserve :: "meter \<Rightarrow> instant \<Rightarrow> string \<Rightarrow> bool \<Rightarrow> rat" where
  "reserve m now taking retrying = (\<Sum>row\<leftarrow>reserve_rows m now taking retrying. rv_usd row)"

text \<open>\<open>plan_tail\<close>; a row's third and fourth figures may be missing, which reads 0.\<close>

definition plan_tail :: "(string \<times> string \<times> int \<times> int \<times> int) list \<Rightarrow> meter \<Rightarrow> meter" where
  "plan_tail calls m =
     foldl (\<lambda>m (kind, model, count, allowed, cap).
       if kind \<in> set TAIL_KINDS \<and> count > 0
       then m\<lparr>m_tail := AList.update kind
              \<lparr>tl_model = model, tl_count = count, tl_allowed = max 0 allowed, tl_cap = max 0 cap\<rparr> (m_tail m)\<rparr>
       else m) m calls"

end
