(* ===== verification/Spend_Calls.thy ===== *)
theory Spend_Calls
  imports Spend_Meter
begin

text \<open>
  The operations of the spend meter (\<open>SpendMeter\<close> of \<open>core/spend.py\<close>): the decision on a call, its
  admission, the charge of a recorded call, the turns of a running loop, the release of a
  reservation, the stages, and one agent's own ceiling.
\<close>

section \<open>Before a call\<close>

text \<open>What is decided of a call (\<open>_Decision\<close>); \<open>dc_bound\<close> is the cap it is held to.\<close>

record decision =
  dc_bound :: "int option"
  dc_refused :: "refusal option"
  dc_reservation :: rat
  dc_available :: rat
  dc_reserve :: rat
  dc_input_cost :: rat
  dc_room :: int
  dc_minimum :: int
  dc_cap :: int
  dc_fallback_cap :: int

definition new_decision :: "int \<Rightarrow> decision" where
  "new_decision cap =
     \<lparr>dc_bound = None, dc_refused = None, dc_reservation = 0, dc_available = 0, dc_reserve = 0,
      dc_input_cost = 0, dc_room = 0, dc_minimum = 0, dc_cap = cap, dc_fallback_cap = 0\<rparr>"

text \<open>What the calls in flight hold, the call's own slot left out.\<close>

definition others_hold :: "meter \<Rightarrow> slot option \<Rightarrow> rat" where
  "others_hold m slot = total_of (filter (\<lambda>(k, v). Some k \<noteq> slot) (m_reserved m))"

text \<open>
  The end of \<open>_decide_locked\<close>, once the cap is known. \<open>held_to\<close> is its outcome over the figures
  already in the decision: the call as it is, held to the room, or refused; \<open>capped\<close> says that a
  call sent with no cap of its own is given the most it may answer as one.
\<close>

definition room_for :: "rat \<Rightarrow> price \<Rightarrow> int \<Rightarrow> int" where
  "room_for spendable price cap =
     (if spendable < 0 then 0
      else max 0 (if p_output price > 0 then \<lfloor>spendable * MILLION / p_output price\<rfloor> else cap))"

definition held_to :: "bool \<Rightarrow> bool \<Rightarrow> price \<Rightarrow> rat \<Rightarrow> decision \<Rightarrow> decision" where
  "held_to holdable capped price spendable d =
     (if spendable \<ge> 0 \<and> (p_output price \<le> 0 \<or> dc_cap d \<noteq> 0 \<and> dc_room d \<ge> dc_cap d) then
        d\<lparr>dc_bound := (if capped then Some (dc_cap d) else None),
          dc_fallback_cap := (if capped then dc_cap d else 0),
          dc_reservation := dc_input_cost d + of_int (dc_cap d) * p_output price / MILLION\<rparr>
      else if holdable \<and> dc_cap d \<noteq> 0 \<and> dc_room d \<ge> max (dc_minimum d) 1 then
        d\<lparr>dc_bound := Some (dc_room d),
          dc_reservation := dc_input_cost d + of_int (dc_room d) * p_output price / MILLION\<rparr>
      else d\<lparr>dc_refused := Some (PaysForFewer (dc_available d) (dc_reserve d) (dc_room d) (dc_input_cost d)
             (if holdable then dc_minimum d else dc_cap d))\<rparr>)"

definition fit_call ::
  "meter \<Rightarrow> string \<Rightarrow> string \<Rightarrow> price \<Rightarrow> int \<Rightarrow> int \<Rightarrow> bool \<Rightarrow> slot option \<Rightarrow> bool \<Rightarrow> instant \<Rightarrow> bool \<Rightarrow> bool
    \<Rightarrow> decision" where
  "fit_call m kind name price prompt_tokens cap uncapped slot holdable now count_reserved retrying =
     (let others = (if count_reserved then others_hold m slot else 0);
          committed = m_settled m + total_of (m_in_flight m) + others;
          kept = reserve m now (if kind \<in> set TAIL_KINDS then kind else []) retrying;
          available = (case m_ceiling m of None \<Rightarrow> 0 | Some c \<Rightarrow> c) - committed - kept;
          input_cost = of_int prompt_tokens * p_input price / MILLION;
          least = minimum m kind name cap;
          closing = (if kind \<in> set LOOP_KINDS then input_cost + of_int least * p_output price / MILLION else 0);
          spendable = available - input_cost - closing
      in held_to holdable (uncapped \<and> holdable \<and> p_output price > 0 \<and> \<not> uncapped_is_declared m name) price spendable
           ((new_decision cap)\<lparr>dc_available := max 0 available, dc_reserve := kept, dc_input_cost := input_cost,
              dc_room := room_for spendable price cap, dc_minimum := least\<rparr>))"

definition decide ::
  "meter \<Rightarrow> string \<Rightarrow> string \<Rightarrow> price option \<Rightarrow> int \<Rightarrow> int \<Rightarrow> slot option \<Rightarrow> bool \<Rightarrow> instant \<Rightarrow> bool \<Rightarrow> bool
    \<Rightarrow> decision" where
  "decide m kind name price prompt_tokens cap slot holdable now count_reserved retrying =
     (let latched = (m_exhausted m \<noteq> None \<or> m_reached_at m \<noteq> None) in
      if latched \<and> kind \<notin> set AFTER_EXHAUSTION_KINDS then (new_decision cap)\<lparr>dc_refused := Some AlreadyExhausted\<rparr>
      else case price of
        None \<Rightarrow> new_decision cap
      | Some p \<Rightarrow>
          if cap \<le> 0 then
            (if \<not> holdable \<and> \<not> uncapped_is_declared m name then (new_decision cap)\<lparr>dc_refused := Some Unbounded\<rparr>
             else fit_call m kind name p prompt_tokens (uncapped_output m name) True slot holdable now count_reserved retrying)
          else fit_call m kind name p prompt_tokens cap False slot holdable now count_reserved retrying)"

definition prompt_key :: "string \<Rightarrow> string" where
  "prompt_key kind =
     (if kind \<in> set TAIL_KINDS then ''tail:'' @ kind else if kind \<in> set LOOP_KINDS then ''loop'' else ''single'')"

definition admission_price :: "meter \<Rightarrow> string \<Rightarrow> instant \<Rightarrow> rat option \<Rightarrow> int \<Rightarrow> price option" where
  "admission_price m model now deadline_s prompt_tokens =
     map_option (\<lambda>row. for_admission (highest_over row now (case deadline_s of None \<Rightarrow> DEFAULT_DEADLINE | Some s \<Rightarrow> s))
         prompt_tokens (writes_hour_caches m model)) (price_of m model)"

text \<open>\<open>tokens_for_chars\<close>: three characters a token, rounded up.\<close>

definition tokens_for_chars :: "int \<Rightarrow> int" where
  "tokens_for_chars chars = - ((- max 0 chars) div 3)"

definition the_model :: "string \<Rightarrow> string" where
  "the_model model = (if clean_name model = [] then ''the model'' else clean_name model)"

record call =
  cl_kind :: string
  cl_model :: string
  cl_prompt_chars :: int
  cl_cap :: int
  cl_slot :: "slot option"
  cl_holdable :: bool
  cl_deadline :: "rat option"
  cl_attempt :: bool
  cl_retrying :: bool

definition decide_call :: "meter \<Rightarrow> instant \<Rightarrow> call \<Rightarrow> bool \<Rightarrow> decision" where
  "decide_call m now c count_reserved =
     (let prompt_tokens = tokens_for_chars (cl_prompt_chars c) in
      decide m (cl_kind c) (the_model (cl_model c)) (admission_price m (cl_model c) now (cl_deadline c) prompt_tokens)
        prompt_tokens (max 0 (cl_cap c)) (cl_slot c) (cl_holdable c) now count_reserved (cl_retrying c))"

text \<open>\<open>preview\<close>: zero where the call would not be made; the slot and the retry are no part of it.\<close>

definition preview :: "meter \<Rightarrow> instant \<Rightarrow> call \<Rightarrow> int option" where
  "preview m now c =
     (if m_ceiling m = None then None
      else let d = decide_call m now (c\<lparr>cl_slot := None, cl_retrying := False\<rparr>) True in
        if dc_refused d \<noteq> None then Some 0 else dc_bound d)"

definition note_kind :: "call \<Rightarrow> meter \<Rightarrow> meter" where
  "note_kind c m =
     (let uses = m_uses m + 1;
          prompt = tokens_for_chars (cl_prompt_chars c);
          row = \<lparr>as_model = cl_model c, as_prompt = prompt, as_cap = max 0 (cl_cap c), as_holdable = cl_holdable c,
            as_deadline = cl_deadline c, as_generation = m_generation m, as_used = uses\<rparr>;
          noted = (case map_of (m_kinds m) (cl_kind c) of
              Some (Asked old) \<Rightarrow>
                row\<lparr>as_prompt := min prompt (as_prompt old), as_holdable := as_holdable old \<or> cl_holdable c\<rparr>
            | _ \<Rightarrow> row)
      in m\<lparr>m_uses := uses, m_kinds := AList.update (cl_kind c) (Asked noted) (m_kinds m)\<rparr>)"

text \<open>What an admitted call leaves of the state.\<close>

definition take_call :: "call \<Rightarrow> decision \<Rightarrow> bool \<Rightarrow> meter \<Rightarrow> meter" where
  "take_call c d priced m =
     (let prompt_tokens = tokens_for_chars (cl_prompt_chars c);
          key = prompt_key (cl_kind c);
          (firsts, retries) = get_or (0, 0) (m_calls_made m) (cl_kind c);
          made = (if cl_attempt c then (firsts, retries)
            else if cl_retrying c then (firsts, retries + 1) else (firsts + 1, retries));
          m = m\<lparr>m_largest_prompt := (if \<not> cl_attempt c \<and> prompt_tokens > get_or 0 (m_largest_prompt m) key
                  then AList.update key prompt_tokens (m_largest_prompt m) else m_largest_prompt m),
                m_calls_made := AList.update (cl_kind c) made (m_calls_made m),
                m_tail := (case map_of (m_tail m) (cl_kind c) of
                    Some row \<Rightarrow>
                      if \<not> cl_attempt c \<and> \<not> cl_retrying c \<and> cl_kind c \<in> set TAIL_KINDS \<and> tl_count row > 0
                      then AList.update (cl_kind c) (row\<lparr>tl_count := tl_count row - 1\<rparr>) (m_tail m) else m_tail m
                  | None \<Rightarrow> m_tail m)\<rparr>
      in case cl_slot c of
           None \<Rightarrow> m
         | Some slot \<Rightarrow> m\<lparr>m_active := insert slot (m_active m),
             m_reserved := (if priced then AList.update slot (dc_reservation d) (m_reserved m) else m_reserved m)\<rparr>)"

text \<open>
  One pass of the loop in \<open>admit\<close>, from the look at the ceiling to the end of the locked block:
  the call is admitted, refused, waits for the others to settle, or gave up as its job is cancelled.
  \<open>noted\<close> says an earlier pass has noted the call's kind, \<open>left\<close> that its wait has time left.
\<close>

datatype answer = Admitted "int option" | Refused refusal | Waits | GaveUp

definition admit_pass :: "call \<Rightarrow> instant \<Rightarrow> bool \<Rightarrow> bool \<Rightarrow> bool \<Rightarrow> meter \<Rightarrow> answer \<times> meter" where
  "admit_pass c now noted left cancelled m =
     (let m = snd (reached m);
          m = (if \<not> noted \<and> \<not> cl_attempt c then note_kind c m else m);
          d = decide_call m now c True;
          others_in_flight = (\<exists>(k, v)\<in>set (m_reserved m). Some k \<noteq> cl_slot c)
      in case dc_refused d of
           None \<Rightarrow>
             (Admitted (dc_bound d), take_call c d (price_of m (cl_model c) \<noteq> None) m)
         | Some r \<Rightarrow>
             if others_in_flight \<and> dc_refused (decide_call m now c False) = None then
               if m_closed m \<or> cancelled then (GaveUp, m)
               else if left then (Waits, m) else (Refused r, m)
             else (Refused r, m))"

section \<open>Whether another call still fits\<close>

definition latest_kind :: "meter \<Rightarrow> asked option" where
  "latest_kind m =
     foldl (\<lambda>best (kind, row).
         (case row of
            Seeded g \<Rightarrow> best
          | Asked a \<Rightarrow> (case best of None \<Rightarrow> Some a | Some b \<Rightarrow> if as_used a > as_used b then Some a else Some b)))
       None (m_kinds m)"

text \<open>The row a seeded kind is asked about: the last kind's model, the largest single-shot prompt and answer.\<close>

definition seeded_row :: "meter \<Rightarrow> asked \<Rightarrow> asked" where
  "seeded_row m latest =
     (let name = the_model (as_model latest);
          single = get_or 0 (m_largest_prompt m) ''single'';
          opening = get_or 0 (m_largest_prompt m) ''opening'';
          answer = get_or 0 (m_largest_single m) name
      in latest\<lparr>as_prompt := (if single \<noteq> 0 then single else if opening \<noteq> 0 then opening else m_smallest_loop_prompt m),
           as_cap := max 1 (if answer \<noteq> 0 then answer else get_or 0 (m_largest_loop m) name),
           as_holdable := True\<rparr>)"

definition row_fits :: "meter \<Rightarrow> instant \<Rightarrow> string \<Rightarrow> asked \<Rightarrow> bool" where
  "row_fits m now kind row \<longleftrightarrow>
     dc_refused (decide m kind (the_model (as_model row))
       (admission_price m (as_model row) now (as_deadline row) (as_prompt row)) (as_prompt row) (as_cap row)
       None (as_holdable row) now True False) = None"

definition another_fits :: "meter \<Rightarrow> instant \<Rightarrow> bool" where
  "another_fits m now \<longleftrightarrow>
     list_ex (\<lambda>(kind, row).
       kind \<notin> set AFTER_EXHAUSTION_KINDS \<and>
       (case row of
          Seeded g \<Rightarrow> g = m_generation m \<and>
            (case latest_kind m of None \<Rightarrow> True | Some latest \<Rightarrow> row_fits m now kind (seeded_row m latest))
        | Asked a \<Rightarrow> as_generation a = m_generation m \<and> row_fits m now kind a)) (m_kinds m)"

text \<open>\<open>_exhaust_if_nothing_fits\<close>, and the end of \<open>admit\<close> on a refusal.\<close>

definition exhaust_if_nothing_fits :: "refusal \<Rightarrow> instant \<Rightarrow> meter \<Rightarrow> meter" where
  "exhaust_if_nothing_fits r now m =
     (if m_exhausted m \<noteq> None then m
      else if m_reserved m \<noteq> [] then m\<lparr>m_pending := Some r\<rparr>
      else if another_fits m now then m
      else exhaust r m)"

definition after_refusal :: "refusal \<Rightarrow> instant \<Rightarrow> meter \<Rightarrow> meter" where
  "after_refusal r now m = exhaust_if_nothing_fits r now (m\<lparr>m_refused := m_refused m + 1\<rparr>)"

text \<open>\<open>admit\<close> where no other call comes between: one pass, and the refusal recorded.\<close>

definition admit :: "call \<Rightarrow> instant \<Rightarrow> bool \<Rightarrow> bool \<Rightarrow> meter \<Rightarrow> answer \<times> meter" where
  "admit c now left cancelled m =
     (if m_ceiling m = None then (Admitted None, m)
      else case admit_pass c now False left cancelled m of
        (Refused r, m') \<Rightarrow> (Refused r, after_refusal r now m')
      | (a, m') \<Rightarrow> (a, m'))"

definition after_drain :: "instant \<Rightarrow> meter \<Rightarrow> meter" where
  "after_drain now m =
     (case m_pending m of
        None \<Rightarrow> m
      | Some r \<Rightarrow>
          if m_reserved m \<noteq> [] \<or> m_exhausted m \<noteq> None then m
          else let m' = m\<lparr>m_pending := None\<rparr> in if another_fits m' now then m' else exhaust r m')"

section \<open>After a call\<close>

definition drop_slot :: "slot \<Rightarrow> meter \<Rightarrow> meter" where
  "drop_slot slot m = m\<lparr>m_reserved := AList.delete slot (m_reserved m), m_active := m_active m - {slot}\<rparr>"

definition release :: "slot \<Rightarrow> instant \<Rightarrow> meter \<Rightarrow> meter" where
  "release slot now m = after_drain now (drop_slot slot m)"

definition holds :: "slot \<Rightarrow> meter \<Rightarrow> bool" where
  "holds slot m \<longleftrightarrow> slot \<in> m_active m"

definition close_meter :: "meter \<Rightarrow> meter" where
  "close_meter m = m\<lparr>m_closed := True\<rparr>"

definition begin_stage :: "string list \<Rightarrow> meter \<Rightarrow> meter" where
  "begin_stage kinds m =
     (let g = m_generation m + 1 in
      m\<lparr>m_generation := g,
        m_kinds := foldl (\<lambda>rows kind. AList.update kind
            (case map_of rows kind of
               Some (Asked a) \<Rightarrow> Asked (a\<lparr>as_generation := g\<rparr>)
             | _ \<Rightarrow> Seeded g) rows) (m_kinds m) kinds\<rparr>)"

text \<open>A stated estimate of a call; what of it is the output alone.\<close>

record estimate =
  es_input :: int
  es_output :: int
  es_at_cached_share :: bool
  es_output_only :: bool

definition with_output :: "int \<Rightarrow> usage \<Rightarrow> usage" where
  "with_output n u = u\<lparr>u_output := n\<rparr>"

definition settle_estimate :: "instant \<Rightarrow> estimate \<Rightarrow> string \<Rightarrow> meter \<Rightarrow> rat option \<times> meter" where
  "settle_estimate now e model m =
     (let name = price_key model;
          share = (if es_at_cached_share e then cache_share m name else None);
          figures = (case share of
              None \<Rightarrow> prompt_and_answer (es_input e) (es_output e)
            | Some s \<Rightarrow>
                if s = 0 then prompt_and_answer (es_input e) (es_output e)
                else (prompt_and_answer (es_input e) (es_output e))\<lparr>u_cached := round_even (of_int (es_input e) * s)\<rparr>)
      in case charged m now figures model of
           None \<Rightarrow> (None, note_unpriced name m)
         | Some (c, source) \<Rightarrow>
             (Some c, m\<lparr>m_priced_from := insert (name, source) (m_priced_from m), m_settled := m_settled m + c,
                m_estimated_calls := m_estimated_calls m + 1, m_estimated_usd := m_estimated_usd m + c\<rparr>))"

definition settle_output_estimate :: "instant \<Rightarrow> usage \<Rightarrow> estimate \<Rightarrow> string \<Rightarrow> meter \<Rightarrow> rat option \<times> meter" where
  "settle_output_estimate now u e model m =
     (let name = price_key model in
      case (charged m now (with_output (max 0 (es_output e)) u) model, charged m now (with_output 0 u) model) of
        (Some (c, source), Some (unanswered, _)) \<Rightarrow>
          (Some c, m\<lparr>m_priced_from := insert (name, source) (m_priced_from m), m_settled := m_settled m + c,
             m_estimated_calls := m_estimated_calls m + 1,
             m_estimated_usd := m_estimated_usd m + max 0 (c - unanswered)\<rparr>)
      | _ \<Rightarrow> (None, note_unpriced name m))"

text \<open>What \<open>settle\<close> measures of a call before it is charged.\<close>

definition measure_call :: "usage \<Rightarrow> string \<Rightarrow> string \<Rightarrow> meter \<Rightarrow> meter" where
  "measure_call u name call m =
     (if name = [] then m
      else if call = LOOP_TURN_CALL then
        (let m = measure_answer u name True m; least = m_smallest_loop_prompt m in
         if u_input u > 0 \<and> (least = 0 \<or> u_input u < least) then m\<lparr>m_smallest_loop_prompt := u_input u\<rparr> else m)
      else
        count_answer u name (case map_of TAIL_CALLS call of Some kind \<Rightarrow> ''tail:'' @ kind | None \<Rightarrow> ''single'')
          (measure_answer u name False m))"

definition settle :: "instant \<Rightarrow> usage option \<Rightarrow> string \<Rightarrow> string \<Rightarrow> estimate option \<Rightarrow> meter \<Rightarrow> rat option \<times> meter" where
  "settle now usage model call estimated m =
     (case (usage, estimated) of
        (None, Some e) \<Rightarrow> settle_estimate now e model m
      | (Some u, Some e) \<Rightarrow>
          if es_output_only e then settle_output_estimate now u e model m
          else
            (case charge_of now usage model (measure_call u (clean_name model) call m) of
               (None, m) \<Rightarrow> (None, m)
             | (Some (c, source), m) \<Rightarrow> (Some c, m\<lparr>m_settled := m_settled m + c\<rparr>))
      | (None, None) \<Rightarrow> (None, snd (charge_of now None model m))
      | (Some u, None) \<Rightarrow>
          (case charge_of now usage model (measure_call u (clean_name model) call m) of
             (None, m) \<Rightarrow> (None, m)
           | (Some (c, source), m) \<Rightarrow> (Some c, m\<lparr>m_settled := m_settled m + c\<rparr>)))"

section \<open>The turns of a running loop\<close>

text \<open>A model turn of a loop: the model that answered it, and the usage it reported.\<close>

type_synonym turn = "string \<times> usage option"

definition turn_cost :: "meter \<Rightarrow> instant \<Rightarrow> turn \<Rightarrow> rat" where
  "turn_cost m now t =
     (case t of
        (model, None) \<Rightarrow> 0
      | (model, Some u) \<Rightarrow> (case charged m now u model of None \<Rightarrow> 0 | Some (c, source) \<Rightarrow> c))"

definition loop_cost :: "meter \<Rightarrow> instant \<Rightarrow> turn list \<Rightarrow> rat" where
  "loop_cost m now turns = sum_list (map (turn_cost m now) turns)"

text \<open>The input tokens of the turns after the first, and those read from the cache, per model.\<close>

definition loop_inputs_of :: "turn list \<Rightarrow> (string \<times> int \<times> int) list" where
  "loop_inputs_of turns =
     foldl (\<lambda>so_far (model, reported).
         (case reported of
            None \<Rightarrow> so_far
          | Some u \<Rightarrow>
              (let name = clean_name model; (total, cached) = get_or (0, 0) so_far name in
               if name = [] then so_far
               else AList.update name (total + u_input u, cached + min (u_input u) (u_cached u)) so_far)))
       [] (drop 1 turns)"

definition opening_of :: "turn list \<Rightarrow> int" where
  "opening_of turns = (case turns of (model, Some u) # ts \<Rightarrow> max 0 (u_input u) | _ \<Rightarrow> 0)"

definition measure_turn :: "turn \<Rightarrow> meter \<Rightarrow> meter" where
  "measure_turn t m =
     (case t of
        (model, None) \<Rightarrow> m
      | (model, Some u) \<Rightarrow> if clean_name model = [] then m else measure_answer u (clean_name model) True m)"

definition note_loop :: "slot \<Rightarrow> turn list \<Rightarrow> instant \<Rightarrow> meter \<Rightarrow> meter" where
  "note_loop key turns now m =
     (let total = loop_cost m now turns;
          m = fold measure_turn turns m;
          m = (if opening_of turns > get_or 0 (m_largest_prompt m) ''opening''
            then m\<lparr>m_largest_prompt := AList.update ''opening'' (opening_of turns) (m_largest_prompt m)\<rparr> else m)
      in after_drain now (drop_slot key
           (m\<lparr>m_in_flight := AList.update key total (m_in_flight m),
              m_loop_inputs := AList.update key (loop_inputs_of turns) (m_loop_inputs m)\<rparr>)))"

definition forget_loop :: "slot \<Rightarrow> instant \<Rightarrow> meter \<Rightarrow> meter" where
  "forget_loop key now m =
     after_drain now (drop_slot key
       (m\<lparr>m_in_flight := AList.delete key (m_in_flight m),
          m_inputs := foldl (\<lambda>so_far (name, total, cached).
              let (t, c) = get_or (0, 0) so_far name in AList.update name (t + total, c + cached) so_far)
            (m_inputs m) (get_or [] (m_loop_inputs m) key),
          m_loop_inputs := AList.delete key (m_loop_inputs m)\<rparr>))"

section \<open>One agent's own ceiling\<close>

definition set_agent_ceiling :: "string \<Rightarrow> rat option \<Rightarrow> int option \<Rightarrow> meter \<Rightarrow> meter" where
  "set_agent_ceiling agent usd tokens m =
     (let key = map lower_char agent in
      m\<lparr>m_agent_ceilings := (if usd = None \<and> tokens = None then AList.delete key (m_agent_ceilings m)
          else AList.update key (usd, tokens) (m_agent_ceilings m))\<rparr>)"

definition note_agent_call ::
  "string \<Rightarrow> instant \<Rightarrow> usage option \<Rightarrow> string \<Rightarrow> estimate option \<Rightarrow> meter \<Rightarrow> meter" where
  "note_agent_call agent now usage model estimated m =
     (let key = map lower_char agent;
          (figures, by_estimate) = (case (usage, estimated) of
              (u, None) \<Rightarrow> (u, False)
            | (None, Some e) \<Rightarrow> (Some (prompt_and_answer (es_input e) (es_output e)), True)
            | (Some u, Some e) \<Rightarrow>
                if es_output_only e then (Some (with_output (es_output e) u), True) else (Some u, False))
      in if map_of (m_agent_ceilings m) key = None then m
         else case figures of
           None \<Rightarrow> m
         | Some u \<Rightarrow>
             let (usd, tokens, guessed) = get_or (0, 0, 0) (m_agent_spent m) key;
                 (usd, tokens) = (case charged m now u model of
                     None \<Rightarrow> (usd, tokens + u_input u + u_output u)
                   | Some (c, source) \<Rightarrow> (usd + c, tokens))
             in m\<lparr>m_agent_spent := AList.update key (usd, tokens, if by_estimate then guessed + 1 else guessed)
                    (m_agent_spent m)\<rparr>)"

text \<open>\<open>agent_refusal\<close>: why an agent makes no further call, and whether this is the first time said.\<close>

definition agent_refusal :: "string \<Rightarrow> meter \<Rightarrow> (agent_stop option \<times> bool) \<times> meter" where
  "agent_refusal agent m =
     (let key = map lower_char agent in
      case map_of (m_agent_ceilings m) key of
        None \<Rightarrow> ((None, False), m)
      | Some (usd, tokens) \<Rightarrow>
          (case map_of (m_agent_stops m) key of
             Some said \<Rightarrow> ((Some said, False), m)
           | None \<Rightarrow>
               let (spent_usd, spent_tokens, guessed) = get_or (0, 0, 0) (m_agent_spent m) key;
                   stop = (case usd of
                       Some c \<Rightarrow>
                         if c \<le> spent_usd then Some (UsdCeiling c spent_usd guessed)
                         else (case tokens of
                             Some t \<Rightarrow> if t \<le> spent_tokens then Some (TokenCeiling t spent_tokens guessed) else None
                           | None \<Rightarrow> None)
                     | None \<Rightarrow>
                         (case tokens of
                             Some t \<Rightarrow> if t \<le> spent_tokens then Some (TokenCeiling t spent_tokens guessed) else None
                           | None \<Rightarrow> None))
               in (case stop of
                     None \<Rightarrow> ((None, False), m)
                   | Some said \<Rightarrow> ((Some said, True), m\<lparr>m_agent_stops := AList.update key said (m_agent_stops m)\<rparr>))))"

definition agents_stopped :: "meter \<Rightarrow> string set" where
  "agents_stopped m = fst ` set (m_agent_stops m)"

end
