(* ===== verification/Spend_Call_Proofs.thy ===== *)
theory Spend_Call_Proofs
  imports Spend_Price_Proofs Spend_Calls
begin

text \<open>
  What an admission is worth: the price it is made at covers every usage within the call's prompt
  and its cap, so its reservation covers what the call is charged; and what is admitted fits
  under the ceiling beside everything spent, in flight and kept for the verdict and the report.
\<close>

section \<open>The price of an admission\<close>

lemma admission_price_covers:
  fixes hour :: bool
  assumes fair: "fair_price row" and t: "start \<le> t" "t \<le> start + micros (max 0 seconds)" and i: "0 \<le> n" "i \<le> n"
  defines "adm \<equiv> for_admission (highest_over row start seconds) n hour"
    and "p \<equiv> for_prompt (price_at row t) i"
  shows "p_input p \<le> p_input adm" "p_written p \<le> p_input adm" "hour \<Longrightarrow> p_written_1h p \<le> p_input adm"
    "p_output p \<le> p_output adm"
proof -
  define q where "q = highest_over row start seconds"
  define counted where "counted = (if p_tiers q \<noteq> [] then \<lceil>of_int n * TIER_COUNT_MARGIN\<rceil> else n)"
  define tier where "tier = for_prompt q counted"
  have "of_int n \<le> of_int n * TIER_COUNT_MARGIN" using i by (simp add: TIER_COUNT_MARGIN_def)
  then have "n \<le> counted" by (simp add: counted_def) linarith
  then have "no_dearer p (for_prompt (price_at row t) counted)"
    unfolding p_def using numbered_fair [OF fair, of t] i by (intro for_prompt_rises) (auto simp: price_at_def)
  also have "no_dearer (for_prompt (price_at row t) counted) tier"
    unfolding tier_def q_def by (rule highest_dominates [OF fair t])
  finally have dear: "no_dearer p tier" .
  define dearest where "dearest = max (max (p_input tier) (p_written tier)) (if hour then p_written_1h tier else 0)"
  have adm: "adm = (if dearest = p_input tier \<and> tier_of q counted = None then q
      else new_price dearest (p_output tier) (p_cached_input tier) (p_source tier) (p_windows tier) None None [])"
    by (simp add: adm_def for_admission_def Let_def q_def counted_def tier_def dearest_def)
  have "p_input adm = dearest" "p_output adm = p_output tier"
    by (auto simp: adm tier_def for_prompt_def)
  then show "p_input p \<le> p_input adm" "p_written p \<le> p_input adm" "hour \<Longrightarrow> p_written_1h p \<le> p_input adm"
    "p_output p \<le> p_output adm"
    using dear by (auto simp: no_dearer_def dearest_def)
qed

text \<open>A usage whose counts are none of them negative costs at most its whole prompt at the dearest.\<close>

definition counts_ok :: "usage \<Rightarrow> bool" where
  "counts_ok u \<longleftrightarrow> 0 \<le> u_input u \<and> 0 \<le> u_output u \<and> 0 \<le> u_cached u \<and> 0 \<le> u_written u \<and> 0 \<le> int_or_0 (u_written_1h u)"

lemma cost_bounds:
  assumes u: "counts_ok u" and p: "p = for_prompt row (u_input u)" "fair_rates p"
    and D: "p_input p \<le> D" "p_written p \<le> D" "int_or_0 (u_written_1h u) = 0 \<or> p_written_1h p \<le> D" "p_output p \<le> Q"
  shows "0 \<le> cost row u" "cost row u \<le> (of_int (u_input u) * D + of_int (u_output u) * Q) / MILLION"
proof -
  define c where "c = min (u_input u) (u_cached u)"
  define w where "w = min (u_input u - c) (u_written u)"
  define h where "h = min w (int_or_0 (u_written_1h u))"
  have parts: "0 \<le> c" "0 \<le> w" "0 \<le> h" "c + w \<le> u_input u" "h \<le> w"
    using u by (auto simp: counts_ok_def c_def w_def h_def)
  have rates: "0 \<le> p_input p" "0 \<le> p_cached p" "0 \<le> p_written p" "0 \<le> p_written_1h p" "0 \<le> p_output p" "p_cached p \<le> D"
    using p(2) D(1) by (auto simp: fair_rates_def)
  have cost: "cost row u =
      (of_int (u_input u - c - w) * p_input p + of_int c * p_cached p + of_int (w - h) * p_written p
        + of_int h * p_written_1h p + of_int (u_output u) * p_output p) / MILLION"
    using parts by (auto simp: cost_def Let_def p(1) c_def w_def h_def)
  have M: "(0 :: rat) < MILLION" by (simp add: MILLION_def)
  show "0 \<le> cost row u"
    unfolding cost using parts rates u M by (intro divide_nonneg_pos add_nonneg_nonneg mult_nonneg_nonneg) (auto simp: counts_ok_def)
  have h: "of_int h * p_written_1h p \<le> of_int h * D"
  proof (cases "h = 0")
    case False
    then have "p_written_1h p \<le> D" using D(3) parts by (auto simp: h_def)
    then show ?thesis using parts by (intro mult_left_mono) auto
  qed simp
  have "of_int (u_input u - c - w) * p_input p + of_int c * p_cached p + of_int (w - h) * p_written p
      + of_int h * p_written_1h p + of_int (u_output u) * p_output p
    \<le> of_int (u_input u - c - w) * D + of_int c * D + of_int (w - h) * D + of_int h * D + of_int (u_output u) * Q"
    by (intro add_mono; (rule h | rule mult_left_mono)) (use parts D rates u in \<open>auto simp: counts_ok_def\<close>)
  also have "\<dots> = of_int (u_input u) * D + of_int (u_output u) * Q" by (simp add: algebra_simps)
  finally show "cost row u \<le> (of_int (u_input u) * D + of_int (u_output u) * Q) / MILLION"
    unfolding cost using M by (intro divide_right_mono) auto
qed

text \<open>A usage costs no more at prices that are no dearer.\<close>

lemma cost_no_dearer:
  assumes u: "counts_ok u" and p: "no_dearer (for_prompt row (u_input u)) (for_prompt row' (u_input u))"
  shows "cost row u \<le> cost row' u"
proof -
  define c where "c = min (u_input u) (u_cached u)"
  define w where "w = min (u_input u - c) (u_written u)"
  define h where "h = min w (int_or_0 (u_written_1h u))"
  have parts: "0 \<le> c" "0 \<le> w" "0 \<le> h" "c + w \<le> u_input u" "h \<le> w" "0 \<le> u_output u"
    using u by (auto simp: counts_ok_def c_def w_def h_def)
  have cost: "cost r u =
      (of_int (u_input u - c - w) * p_input (for_prompt r (u_input u)) + of_int c * p_cached (for_prompt r (u_input u))
        + of_int (w - h) * p_written (for_prompt r (u_input u)) + of_int h * p_written_1h (for_prompt r (u_input u))
        + of_int (u_output u) * p_output (for_prompt r (u_input u))) / MILLION" for r
    using parts by (auto simp: cost_def Let_def c_def w_def h_def)
  show ?thesis
    unfolding cost using p parts
    by (intro divide_right_mono add_mono mult_left_mono) (auto simp: no_dearer_def MILLION_def)
qed

section \<open>A call within its admission\<close>

text \<open>What a call was admitted as, and a usage that stays within it.\<close>

record admission =
  ad_model :: string
  ad_prompt :: int
  ad_answer :: int
  ad_now :: instant
  ad_seconds :: rat

definition answer_cap :: "decision \<Rightarrow> int" where
  "answer_cap d = (case dc_bound d of Some b \<Rightarrow> b | None \<Rightarrow> dc_cap d)"

text \<open>The most a call may answer, sent with its own cap, the cap it is held to, or none.\<close>

definition own_cap :: "meter \<Rightarrow> call \<Rightarrow> int" where
  "own_cap m c = (if cl_cap c \<le> 0 then uncapped_output m (the_model (cl_model c)) else cl_cap c)"

definition admission_of :: "meter \<Rightarrow> call \<Rightarrow> instant \<Rightarrow> int option \<Rightarrow> admission" where
  "admission_of m c now bound =
     \<lparr>ad_model = cl_model c, ad_prompt = tokens_for_chars (cl_prompt_chars c),
      ad_answer = (case bound of Some b \<Rightarrow> b | None \<Rightarrow> own_cap m c),
      ad_now = now, ad_seconds = (case cl_deadline c of None \<Rightarrow> DEFAULT_DEADLINE | Some s \<Rightarrow> s)\<rparr>"

definition fits :: "meter \<Rightarrow> admission \<Rightarrow> instant \<Rightarrow> usage \<Rightarrow> bool" where
  "fits m a now u \<longleftrightarrow>
     counts_ok u \<and> u_input u \<le> ad_prompt a \<and> u_output u \<le> ad_answer a \<and> u_cost u = None \<and>
     (\<not> writes_hour_caches m (ad_model a) \<longrightarrow> int_or_0 (u_written_1h u) = 0) \<and>
     ad_now a \<le> sent_at u now \<and> sent_at u now \<le> ad_now a + micros (max 0 (ad_seconds a))"

definition worst :: "meter \<Rightarrow> admission \<Rightarrow> price \<Rightarrow> rat" where
  "worst m a row =
     (let p = for_admission (highest_over row (ad_now a) (ad_seconds a)) (ad_prompt a) (writes_hour_caches m (ad_model a))
      in (of_int (ad_prompt a) * p_input p + of_int (ad_answer a) * p_output p) / MILLION)"

lemma charged_fits:
  assumes row: "price_of m (ad_model a) = Some row" "fair_price row" and u: "fits m a now u"
  shows "\<exists>c source. charged m now u (ad_model a) = Some (c, source) \<and> 0 \<le> c \<and> c \<le> worst m a row"
proof -
  define hour where "hour = writes_hour_caches m (ad_model a)"
  define v where "v = (if hour \<and> u_written u \<noteq> 0 \<and> u_written_1h u = None then u\<lparr>u_written_1h := Some (u_written u)\<rparr> else u)"
  define r where "r = price_at row (sent_at u now)"
  define adm where "adm = for_admission (highest_over row (ad_now a) (ad_seconds a)) (ad_prompt a) hour"
  have v: "counts_ok v" "u_input v = u_input u" "u_output v = u_output u" "hour \<or> int_or_0 (u_written_1h v) = 0"
    using u by (auto simp: fits_def counts_ok_def v_def hour_def)
  have r: "fair_row r" using numbered_fair [OF row(2)] by (simp add: r_def price_at_def)
  have pos: "0 \<le> u_input u" "u_input u \<le> ad_prompt a" "0 \<le> u_output u" "u_output u \<le> ad_answer a"
    using u by (auto simp: fits_def counts_ok_def)
  have covers: "p_input (for_prompt r (u_input u)) \<le> p_input adm" "p_written (for_prompt r (u_input u)) \<le> p_input adm"
    "hour \<Longrightarrow> p_written_1h (for_prompt r (u_input u)) \<le> p_input adm" "p_output (for_prompt r (u_input u)) \<le> p_output adm"
    unfolding r_def adm_def using u pos by (auto simp: fits_def intro!: admission_price_covers [OF row(2)])
  have rates: "fair_rates (for_prompt r (u_input u))" by (rule fair_rates_for_prompt [OF r])
  then have adm: "0 \<le> p_input adm" "0 \<le> p_output adm" using covers by (auto simp: fair_rates_def)
  have charged: "charged m now u (ad_model a) = Some (cost r v, p_source (for_prompt r (u_input u)))"
    using u row by (simp add: charged_def fits_def Let_def v_def hour_def r_def)
  have bounds: "0 \<le> cost r v" "cost r v \<le> (of_int (u_input u) * p_input adm + of_int (u_output u) * p_output adm) / MILLION"
    using cost_bounds [of v "for_prompt r (u_input u)" r "p_input adm" "p_output adm"] v covers rates by auto
  have "of_int (u_input u) * p_input adm + of_int (u_output u) * p_output adm
      \<le> of_int (ad_prompt a) * p_input adm + of_int (ad_answer a) * p_output adm"
    using pos adm by (intro add_mono mult_right_mono) auto
  then have "(of_int (u_input u) * p_input adm + of_int (u_output u) * p_output adm) / MILLION \<le> worst m a row"
    by (simp add: worst_def Let_def adm_def hour_def MILLION_def divide_right_mono)
  with bounds charged show ?thesis by auto
qed

end
