(* ===== verification/Spend_State.thy ===== *)
theory Spend_State
  imports Spend_Call_Proofs
begin

text \<open>
  The well-formedness of the meter's state and that every operation keeps it: no measure, plan or
  charge in it is negative, and each slot is reserved for and each loop counted once. What an
  admitted call leaves under the ceiling rests on it.
\<close>

named_theorems keeps_wf \<open>operations that keep the state well-formed\<close>

section \<open>Dictionaries\<close>

lemma snd_update: "snd ` set (AList.update k v d) \<subseteq> insert v (snd ` set d)"
  by (induction d) auto

lemma update_all: "P v \<Longrightarrow> \<forall>x\<in>snd ` set d. P x \<Longrightarrow> \<forall>x\<in>snd ` set (AList.update k v d). P x"
  using snd_update [of k v d] by blast

lemma delete_all: "\<forall>x\<in>snd ` set d. P x \<Longrightarrow> \<forall>x\<in>snd ` set (AList.delete k d). P x"
  by (auto simp: AList.delete_eq)

lemma get_or_all: "P v \<Longrightarrow> \<forall>x\<in>snd ` set d. P x \<Longrightarrow> P (get_or v d k)"
  by (force simp: get_or_def split: option.split dest: map_of_SomeD)

lemma map_of_all: "\<forall>x\<in>snd ` set d. P x \<Longrightarrow> map_of d k = Some v \<Longrightarrow> P v"
  by (force dest: map_of_SomeD)

text \<open>Totals over distinct keys.\<close>

lemma total_simps [simp]: "total_of [] = 0" "total_of (kv # d) = snd kv + total_of d"
  by (simp_all add: total_of_def)

lemma total_not_held: "k \<notin> fst ` set d \<Longrightarrow> get_or 0 d k = 0"
  by (simp add: get_or_def map_of_eq_None_iff split: option.split) (metis option.distinct(1) map_of_eq_None_iff)

lemma get_or_Cons [simp]: "get_or v (kv # d) k = (if fst kv = k then snd kv else get_or v d k)"
  by (auto simp: get_or_def)

lemma get_or_Nil [simp]: "get_or v [] k = v"
  by (simp add: get_or_def)

lemma total_others:
  "distinct (map fst d) \<Longrightarrow> total_of (filter (\<lambda>(k', v). Some k' \<noteq> Some k) d) = total_of d - get_or 0 d k"
  by (induction d) (auto simp: total_not_held filter_id_conv)

lemma total_update:
  "distinct (map fst d) \<Longrightarrow> total_of (AList.update k v d) = total_of d - get_or 0 d k + v"
  by (induction d) (auto simp: total_not_held)

lemma total_delete:
  "distinct (map fst d) \<Longrightarrow> total_of (AList.delete k d) = total_of d - get_or 0 d k"
  by (induction d) (auto simp: total_not_held)

lemma total_nonneg: "\<forall>x\<in>snd ` set d. 0 \<le> x \<Longrightarrow> 0 \<le> total_of d"
  by (induction d) auto

section \<open>The state\<close>

definition measures_ok :: "meter \<Rightarrow> bool" where
  "measures_ok m \<longleftrightarrow>
     (\<forall>n\<in>snd ` set (m_largest_loop m). 0 \<le> n) \<and> (\<forall>n\<in>snd ` set (m_largest_single m). 0 \<le> n) \<and>
     (\<forall>(total, calls)\<in>snd ` set (m_answers m). 0 \<le> total \<and> 0 \<le> calls) \<and>
     (\<forall>n\<in>snd ` set (m_largest_prompt m). 0 \<le> n) \<and> 0 \<le> m_smallest_loop_prompt m"

definition plan_ok :: "meter \<Rightarrow> bool" where
  "plan_ok m \<longleftrightarrow> (\<forall>row\<in>snd ` set (m_tail m). 0 \<le> tl_count row \<and> 0 \<le> tl_allowed row \<and> 0 \<le> tl_cap row)"

definition prices_ok :: "meter \<Rightarrow> bool" where
  "prices_ok m \<longleftrightarrow> (\<forall>p\<in>snd ` set (m_operator m) \<union> snd ` set (m_table m). fair_price p)"

definition slots_ok :: "meter \<Rightarrow> bool" where
  "slots_ok m \<longleftrightarrow> distinct (map fst (m_reserved m)) \<and> distinct (map fst (m_in_flight m)) \<and>
     (\<forall>x\<in>snd ` set (m_reserved m). 0 \<le> x)"

definition wf_meter :: "meter \<Rightarrow> bool" where
  "wf_meter m \<longleftrightarrow> measures_ok m \<and> plan_ok m \<and> prices_ok m \<and> slots_ok m"

lemma price_of_held: "price_of m model = Some p \<Longrightarrow> \<exists>key. map_of (m_operator m) key = Some p \<or> map_of (m_table m) key = Some p"
  by (auto simp: price_of_def Let_def split: if_splits option.splits)

lemma fair_price_of: "prices_ok m \<Longrightarrow> price_of m model = Some p \<Longrightarrow> fair_price p"
  by (force simp: prices_ok_def dest!: price_of_held map_of_SomeD)

section \<open>What is planned is not negative\<close>

lemma measured_ge:
  assumes "measures_ok m"
  shows "0 \<le> get_or 0 (m_largest_loop m) name" "0 \<le> get_or 0 (m_largest_single m) name"
    "0 \<le> get_or 0 (m_largest_prompt m) kind"
  using assms by (auto simp: measures_ok_def intro!: get_or_all [where P = "\<lambda>n. 0 \<le> n"])

lemma uncapped_output_pos [simp]: "0 < uncapped_output m name"
  by (simp add: uncapped_output_def DEFAULT_REPLY_TOKENS_def)

lemma measured_minimum_ge:
  assumes m: "measures_ok m" and cap: "0 \<le> cap"
  shows "0 < measured_minimum m kind name cap"
proof -
  have "0 \<le> get_or 0 (m_largest_loop m) name" "0 \<le> get_or 0 (m_largest_single m) name"
    by (rule measured_ge [OF m])+
  with cap uncapped_output_pos [of m name] show ?thesis
    by (simp add: measured_minimum_def Let_def)
qed

lemma mean_answer_ge:
  assumes "measures_ok m"
  shows "0 \<le> mean_answer m name g"
proof -
  obtain total calls where tc: "get_or (0, 0) (m_answers m) (g, name) = (total, calls)" by fastforce
  have "case get_or (0, 0) (m_answers m) (g, name) of (total, calls) \<Rightarrow> 0 \<le> total \<and> 0 \<le> calls"
    using assms unfolding measures_ok_def by (intro get_or_all [where P = "\<lambda>(total, calls). 0 \<le> total \<and> 0 \<le> calls"]) simp_all
  then have "0 \<le> total" "0 \<le> calls" by (simp_all add: tc)
  then show ?thesis by (simp add: mean_answer_def tc div_nonpos_pos_le0 neg_imp_zdiv_nonneg_iff)
qed

lemma largest_answer_ge: "measures_ok m \<Longrightarrow> 0 \<le> largest_answer m name"
proof -
  assume m: "measures_ok m"
  have "0 \<le> Max (snd ` set d)" if "d \<noteq> []" "d = m_largest_loop m \<or> d = m_largest_single m" for d
  proof -
    have "Max (snd ` set d) \<in> snd ` set d" using that(1) by (intro Max_in) auto
    moreover have "\<forall>n\<in>snd ` set d. 0 \<le> n"
      using that(2) m [unfolded measures_ok_def, THEN conjunct1] m [unfolded measures_ok_def, THEN conjunct2, THEN conjunct1]
      by (elim disjE) simp_all
    ultimately show ?thesis by blast
  qed
  then have "case (if get_or 0 d name \<noteq> 0 then Some (get_or 0 d name) else if d \<noteq> [] then Some (Max (snd ` set d)) else None) of
      None \<Rightarrow> True | Some n \<Rightarrow> 0 \<le> n" if "d = m_largest_loop m \<or> d = m_largest_single m" for d
    using measured_ge(1,2) [OF m, of name] that by auto
  from this [of "m_largest_loop m"] this [of "m_largest_single m"] show ?thesis
    unfolding largest_answer_def Let_def by (auto split: if_splits)
qed

lemma planned_answer_ge: "measures_ok m \<Longrightarrow> 0 \<le> cap \<Longrightarrow> 0 \<le> planned_answer m kind name cap"
  using measured_minimum_ge [of m cap kind name] mean_answer_ge [of m name] largest_answer_ge [of m name]
    uncapped_output_pos [of m name]
  by (auto simp: planned_answer_def Let_def less_imp_le)

lemma minimum_pos:
  assumes "measures_ok m" "0 \<le> cap"
  shows "0 < minimum m kind name cap"
  using planned_answer_ge [OF assms, of kind name] measured_minimum_ge [OF assms, of kind name]
  by (auto simp: minimum_def Let_def)

lemma tail_prompt_ge: "measures_ok m \<Longrightarrow> 0 \<le> allowed \<Longrightarrow> 0 \<le> tail_prompt m kind allowed"
  using measured_ge [of m] by (auto simp: tail_prompt_def Let_def measures_ok_def)

lemma planned_retries_ge: "0 \<le> planned_retries m kind firsts"
proof -
  obtain made retried where c: "get_or (0, 0) (m_calls_made m) kind = (made, retried)" by fastforce
  have "- 1 < of_int firsts * of_nat (retried + 1) / of_nat (made + 1) - (1 / 1000000000 :: rat)" if "0 < firsts"
  proof -
    have "0 \<le> of_int firsts * of_nat (retried + 1) / (of_nat (made + 1) :: rat)" using that by simp
    then show ?thesis by linarith
  qed
  then have "0 \<le> \<lceil>of_int firsts * of_nat (retried + 1) / of_nat (made + 1) - (1 / 1000000000 :: rat)\<rceil>" if "0 < firsts"
    using that by (simp add: le_ceiling_iff del: of_nat_Suc)
  then show ?thesis by (auto simp: planned_retries_def c Let_def not_le simp del: of_nat_Suc)
qed

lemma for_admission_rates:
  assumes "fair_row p"
  shows "0 \<le> p_input (for_admission p n hour)" "0 \<le> p_output (for_admission p n hour)"
proof -
  have "fair_rates (for_prompt p k)" for k by (rule fair_rates_for_prompt [OF assms])
  moreover have "fair_rates p" using assms by (simp add: fair_row_def)
  ultimately show "0 \<le> p_input (for_admission p n hour)" "0 \<le> p_output (for_admission p n hour)"
    by (auto simp: for_admission_def Let_def fair_rates_def le_max_iff_disj)
qed

lemma reserve_row_ge:
  assumes "wf_meter m" "reserve_row_of m now taking retrying kind = Some r"
  shows "0 \<le> rv_usd r"
proof -
  obtain row where row: "map_of (m_tail m) kind = Some row"
    using assms(2) by (auto simp: reserve_row_of_def split: option.splits)
  then have plan: "0 \<le> tl_count row" "0 \<le> tl_allowed row" "0 \<le> tl_cap row"
    using assms(1) map_of_all [of "m_tail m" "\<lambda>row. 0 \<le> tl_count row \<and> 0 \<le> tl_allowed row \<and> 0 \<le> tl_cap row" kind row]
    by (auto simp: wf_meter_def plan_ok_def)
  obtain p where p: "price_of m (tl_model row) = Some p"
    using assms(2) row by (auto simp: reserve_row_of_def Let_def split: option.splits if_splits)
  then have fair: "fair_row (price_at p now)"
    using assms(1) fair_price_of [of m] numbered_fair by (auto simp: wf_meter_def price_at_def)
  have "measures_ok m" using assms(1) by (simp add: wf_meter_def)
  note ge = tail_prompt_ge [OF this plan(2), of kind] planned_answer_ge [OF this plan(3), of kind]
    planned_retries_ge [of m kind] for_admission_rates [OF fair]
  show ?thesis
    using assms(2) row p plan ge
    by (auto simp: reserve_row_of_def Let_def MILLION_def split: if_splits
        intro!: add_nonneg_nonneg mult_nonneg_nonneg divide_nonneg_nonneg)
qed

lemma reserve_ge: "wf_meter m \<Longrightarrow> 0 \<le> reserve m now taking retrying"
  unfolding reserve_def
  by (intro sum_list_nonneg) (auto simp: reserve_rows_def List.map_filter_def dest: reserve_row_ge split: option.splits)

section \<open>What a decision leaves under the ceiling\<close>

lemma fits_room:
  fixes x y :: rat
  assumes "0 \<le> x" "0 < y" "n \<le> max 0 \<lfloor>x * MILLION / y\<rfloor>" "0 \<le> n"
  shows "of_int n * y / MILLION \<le> x"
proof -
  have "0 \<le> x * MILLION / y" using assms by (simp add: MILLION_def)
  then have "of_int n \<le> x * MILLION / y" using assms(3) by (simp add: le_floor_iff)
  then show ?thesis using assms(2) by (simp add: MILLION_def field_simps)
qed

lemma held_to_fits:
  assumes d: "dc_refused d = None" "dc_bound d = None" "dc_room d = room_for spendable p (dc_cap d)" "0 < dc_cap d"
    and p: "0 \<le> p_output p"
    and h: "held_to holdable capped p spendable d = d'" "dc_refused d' = None"
  shows "dc_reservation d' = dc_input_cost d + of_int (answer_cap d') * p_output p / MILLION"
    "of_int (answer_cap d') * p_output p / MILLION \<le> spendable"
    "0 \<le> answer_cap d'" "answer_cap d' \<le> dc_cap d" "dc_reserve d' = dc_reserve d" "dc_cap d' = dc_cap d"
proof -
  have room: "0 \<le> dc_room d" "1 \<le> dc_room d \<Longrightarrow> 0 \<le> spendable" by (auto simp: d room_for_def split: if_splits)
  have enough: "1 \<le> room_for spendable p (dc_cap d) \<Longrightarrow> 0 \<le> spendable" using room(2) by (simp add: d)
  have within: "of_int n * p_output p / MILLION \<le> spendable"
    if "0 \<le> spendable" "0 \<le> n" "n \<le> dc_room d" "p_output p \<noteq> 0" for n
    using that p by (intro fits_room) (auto simp: d(3) room_for_def)
  consider (whole) "spendable \<ge> 0" "p_output p \<le> 0 \<or> dc_room d \<ge> dc_cap d" "answer_cap d' = dc_cap d"
      "dc_reservation d' = dc_input_cost d + of_int (dc_cap d) * p_output p / MILLION"
    | (room) "dc_room d \<ge> 1" "dc_room d \<le> dc_cap d" "answer_cap d' = dc_room d"
      "dc_reservation d' = dc_input_cost d + of_int (dc_room d) * p_output p / MILLION"
    using h d enough by (auto simp: held_to_def answer_cap_def split: if_splits)
  then have all: "dc_reservation d' = dc_input_cost d + of_int (answer_cap d') * p_output p / MILLION \<and>
    of_int (answer_cap d') * p_output p / MILLION \<le> spendable \<and> 0 \<le> answer_cap d' \<and> answer_cap d' \<le> dc_cap d"
  proof cases
    case whole
    have "of_int (dc_cap d) * p_output p / MILLION \<le> spendable"
    proof (cases "p_output p = 0")
      case False
      then show ?thesis using whole p d(4) by (intro within) auto
    qed (use whole in simp)
    then show ?thesis using whole d(4) by simp
  next
    case room
    have "of_int (dc_room d) * p_output p / MILLION \<le> spendable"
    proof (cases "p_output p = 0")
      case False
      then show ?thesis using room enough d(3) by (intro within) auto
    qed (use room enough d(3) in simp)
    then show ?thesis using room by simp
  qed
  show "dc_reservation d' = dc_input_cost d + of_int (answer_cap d') * p_output p / MILLION"
    "of_int (answer_cap d') * p_output p / MILLION \<le> spendable" "0 \<le> answer_cap d'" "answer_cap d' \<le> dc_cap d"
    using all by simp_all
  show "dc_reserve d' = dc_reserve d" "dc_cap d' = dc_cap d"
    using h by (auto simp: held_to_def split: if_splits)
qed

lemma fit_call_fits:
  assumes wf: "wf_meter m" and p: "0 \<le> p_input p" "0 \<le> p_output p" and n: "0 \<le> n" "0 < cap"
    and d: "fit_call m kind name p n cap unc slot holdable now counted retrying = d" "dc_refused d = None"
  shows "dc_reservation d = (of_int n * p_input p + of_int (answer_cap d) * p_output p) / MILLION"
    "m_settled m + total_of (m_in_flight m) + (if counted then others_hold m slot else 0) + dc_reserve d
      + dc_reservation d \<le> (case m_ceiling m of None \<Rightarrow> 0 | Some c \<Rightarrow> c)"
    "0 \<le> answer_cap d" "answer_cap d \<le> cap" "0 \<le> dc_reservation d"
    "dc_reserve d = reserve m now (if kind \<in> set TAIL_KINDS then kind else []) retrying" "dc_cap d = cap"
proof -
  define kept where "kept = reserve m now (if kind \<in> set TAIL_KINDS then kind else []) retrying"
  define spare where "spare = (case m_ceiling m of None \<Rightarrow> 0 | Some c \<Rightarrow> c)
    - (m_settled m + total_of (m_in_flight m) + (if counted then others_hold m slot else 0)) - kept"
  define inp where "inp = of_int n * p_input p / MILLION"
  define least where "least = minimum m kind name cap"
  define closing where "closing = (if kind \<in> set LOOP_KINDS then inp + of_int least * p_output p / MILLION else 0)"
  define spendable where "spendable = spare - inp - closing"
  define d0 where "d0 = (new_decision cap)\<lparr>dc_available := max 0 spare, dc_reserve := kept, dc_input_cost := inp,
    dc_room := room_for spendable p cap, dc_minimum := least\<rparr>"
  have pos: "0 \<le> inp" "0 \<le> closing"
    using p n minimum_pos [of m cap kind name] wf
    by (auto simp: inp_def closing_def least_def wf_meter_def MILLION_def)
  have h: "held_to holdable (unc \<and> holdable \<and> p_output p > 0 \<and> \<not> uncapped_is_declared m name) p spendable d0 = d"
    using d(1) unfolding fit_call_def Let_def d0_def spendable_def closing_def least_def inp_def spare_def kept_def .
  have d0: "dc_refused d0 = None" "dc_bound d0 = None" "dc_room d0 = room_for spendable p (dc_cap d0)" "0 < dc_cap d0"
    "dc_input_cost d0 = inp" "dc_cap d0 = cap" "dc_reserve d0 = kept"
    using n by (simp_all add: d0_def new_decision_def)
  note fits = held_to_fits [OF d0(1-4) p(2) h d(2), unfolded d0(5-7)]
  show "dc_reservation d = (of_int n * p_input p + of_int (answer_cap d) * p_output p) / MILLION"
    by (simp add: fits(1) inp_def add_divide_distrib)
  show "0 \<le> answer_cap d" "answer_cap d \<le> cap" "dc_cap d = cap" by (rule fits)+
  show "0 \<le> dc_reservation d" using fits(1,3) pos p by (simp add: MILLION_def)
  show "dc_reserve d = reserve m now (if kind \<in> set TAIL_KINDS then kind else []) retrying"
    using fits(5) by (simp add: kept_def)
  show "m_settled m + total_of (m_in_flight m) + (if counted then others_hold m slot else 0) + dc_reserve d
      + dc_reservation d \<le> (case m_ceiling m of None \<Rightarrow> 0 | Some c \<Rightarrow> c)"
    using fits(1,2,5) pos by (simp add: spendable_def spare_def)
qed

lemma tokens_for_chars_ge [simp]: "0 \<le> tokens_for_chars chars"
proof -
  have "(- max 0 chars) div 3 \<le> 0" by linarith
  then show ?thesis unfolding tokens_for_chars_def by linarith
qed

lemma admission_price_of:
  fixes now :: instant and deadline :: "rat option" and n :: int
  assumes "wf_meter m" "price_of m model = Some row"
  defines "adm \<equiv> for_admission (highest_over row now (case deadline of None \<Rightarrow> DEFAULT_DEADLINE | Some s \<Rightarrow> s))
      n (writes_hour_caches m model)"
  shows "admission_price m model now deadline n = Some adm" "0 \<le> n \<Longrightarrow> 0 \<le> p_input adm" "0 \<le> n \<Longrightarrow> 0 \<le> p_output adm"
proof -
  have fair: "fair_price row" using assms(1,2) fair_price_of by (auto simp: wf_meter_def)
  show "admission_price m model now deadline n = Some adm"
    using assms(2) by (simp add: admission_price_def adm_def)
  have rates: "fair_rates (for_prompt (price_at row now) 0)"
    using numbered_fair [OF fair] by (intro fair_rates_for_prompt) (simp add: price_at_def)
  have span: "now \<le> now + micros (max 0 s)" for s
  proof -
    have "0 \<le> max 0 s * (1000000 :: rat)" by simp
    then have "0 \<le> \<lfloor>max 0 s * (1000000 :: rat)\<rfloor>" by simp
    then show ?thesis by (simp add: micros_def round_even_def Let_def)
  qed
  have covers: "p_input (for_prompt (price_at row now) 0) \<le> p_input adm"
      "p_output (for_prompt (price_at row now) 0) \<le> p_output adm" if "0 \<le> n"
    unfolding adm_def by (rule admission_price_covers [OF fair order_refl span]; simp add: that)+
  show "0 \<le> p_input adm" if "0 \<le> n"
    by (rule order_trans [OF _ covers(1) [OF that]]) (use rates in \<open>simp add: fair_rates_def\<close>)
  show "0 \<le> p_output adm" if "0 \<le> n"
    by (rule order_trans [OF _ covers(2) [OF that]]) (use rates in \<open>simp add: fair_rates_def\<close>)
qed

text \<open>A call that is not refused, of a model with a price.\<close>

lemma decide_call_fits:
  assumes wf: "wf_meter m" and row: "price_of m (cl_model c) = Some row"
    and d: "decide_call m now c counted = d" "dc_refused d = None"
  shows "dc_reservation d = worst m (admission_of m c now (dc_bound d)) row"
    "m_settled m + total_of (m_in_flight m) + (if counted then others_hold m (cl_slot c) else 0) + dc_reserve d
      + dc_reservation d \<le> (case m_ceiling m of None \<Rightarrow> 0 | Some c \<Rightarrow> c)"
    "0 \<le> dc_reservation d"
    "dc_reserve d = reserve m now (if cl_kind c \<in> set TAIL_KINDS then cl_kind c else []) (cl_retrying c)"
proof -
  define n where "n = tokens_for_chars (cl_prompt_chars c)"
  define adm where "adm = for_admission (highest_over row now (case cl_deadline c of None \<Rightarrow> DEFAULT_DEADLINE | Some s \<Rightarrow> s))
      n (writes_hour_caches m (cl_model c))"
  have n: "0 \<le> n" by (simp add: n_def)
  have adm: "admission_price m (cl_model c) now (cl_deadline c) n = Some adm" "0 \<le> p_input adm" "0 \<le> p_output adm"
    using admission_price_of [OF wf row, where deadline = "cl_deadline c" and now = now and n = n] n by (simp_all add: adm_def)
  have cap: "0 < own_cap m c" by (simp add: own_cap_def)
  obtain unc where fit: "fit_call m (cl_kind c) (the_model (cl_model c)) adm n (own_cap m c) unc (cl_slot c)
      (cl_holdable c) now counted (cl_retrying c) = d"
    using d adm(1) by (auto simp: decide_call_def decide_def Let_def n_def own_cap_def split: if_splits)
  note fits = fit_call_fits [OF wf adm(2,3) n cap fit d(2)]
  have "answer_cap d = ad_answer (admission_of m c now (dc_bound d))"
    using fits(7) by (simp add: answer_cap_def admission_of_def split: option.split)
  then show "dc_reservation d = worst m (admission_of m c now (dc_bound d)) row"
    using fits(1) by (simp add: worst_def Let_def admission_of_def adm_def n_def)
  show "m_settled m + total_of (m_in_flight m) + (if counted then others_hold m (cl_slot c) else 0) + dc_reserve d
      + dc_reservation d \<le> (case m_ceiling m of None \<Rightarrow> 0 | Some c \<Rightarrow> c)" by (rule fits(2))
  show "0 \<le> dc_reservation d" by (rule fits(5))
  show "dc_reserve d = reserve m now (if cl_kind c \<in> set TAIL_KINDS then cl_kind c else []) (cl_retrying c)"
    by (rule fits(6))
qed

end
