(* ===== verification/Spend_Frames.thy ===== *)
theory Spend_Frames
  imports Spend_State
begin

text \<open>
  What each operation of the meter leaves as it was: the tariff, which no operation changes, and the
  money, which only admissions, charges, loops and releases change; and that every operation keeps
  the state well-formed.
\<close>

named_theorems frame \<open>what an operation leaves as it was\<close>

section \<open>The tariff and the money\<close>

definition tariff where
  "tariff m = (m_ceiling m, m_hour_models m, m_hour_writes m, m_operator m, m_table m, m_declared_output m)"

definition money :: "meter \<Rightarrow> rat \<times> (slot \<times> rat) list \<times> (slot \<times> rat) list" where
  "money m = (m_settled m, m_in_flight m, m_reserved m)"

lemma tariffD:
  assumes "tariff m = tariff m'"
  shows "m_operator m = m_operator m'" "m_table m = m_table m'" "m_hour_models m = m_hour_models m'"
    "m_hour_writes m = m_hour_writes m'" "m_ceiling m = m_ceiling m'" "m_declared_output m = m_declared_output m'"
  using assms by (simp_all add: tariff_def)

lemma tariff_price:
  assumes "tariff m = tariff m'"
  shows "price_of m = price_of m'"
  unfolding fun_eq_iff price_of_def tariffD [OF assms] by simp

lemma tariff_hour:
  assumes "tariff m = tariff m'"
  shows "writes_hour_caches m = writes_hour_caches m'"
  unfolding fun_eq_iff writes_hour_caches_def tariffD [OF assms] by simp

lemma tariff_charged:
  assumes "tariff m = tariff m'"
  shows "charged m = charged m'"
  unfolding fun_eq_iff charged_def tariff_price [OF assms] tariff_hour [OF assms] by simp

lemma tariff_turn_cost:
  assumes "tariff m = tariff m'"
  shows "turn_cost m = turn_cost m'"
  unfolding fun_eq_iff turn_cost_def tariff_charged [OF assms] by simp

lemma tariff_loop_cost:
  assumes "tariff m = tariff m'"
  shows "loop_cost m = loop_cost m'"
  unfolding fun_eq_iff loop_cost_def tariff_turn_cost [OF assms] by simp

lemma tariff_worst:
  assumes "tariff m = tariff m'"
  shows "worst m = worst m'"
  unfolding fun_eq_iff worst_def tariff_hour [OF assms] by simp

lemma tariff_fits:
  assumes "tariff m = tariff m'"
  shows "fits m = fits m'"
  unfolding fun_eq_iff fits_def tariff_hour [OF assms] by simp

lemma tariff_ceiling: "tariff m = tariff m' \<Longrightarrow> m_ceiling m = m_ceiling m'"
  by (simp add: tariff_def)

lemma tariff_prices_ok: "tariff m = tariff m' \<Longrightarrow> prices_ok m = prices_ok m'"
  by (simp add: tariff_def prices_ok_def)

text \<open>The latches change neither, and no measure or plan either.\<close>

lemma latch_frame [frame]:
  "tariff (snd (reached m)) = tariff m" "money (snd (reached m)) = money m" "wf_meter (snd (reached m)) = wf_meter m"
  "tariff (exhaust r m) = tariff m" "money (exhaust r m) = money m" "wf_meter (exhaust r m) = wf_meter m"
  "tariff (snd (exhausted m)) = tariff m" "money (snd (exhausted m)) = money m" "wf_meter (snd (exhausted m)) = wf_meter m"
  by (auto simp: reached_def exhaust_def exhausted_def tariff_def money_def wf_meter_def measures_ok_def plan_ok_def
      prices_ok_def slots_ok_def split: option.splits prod.splits)

lemma after_frame [frame]:
  "tariff (exhaust_if_nothing_fits r now m) = tariff m" "money (exhaust_if_nothing_fits r now m) = money m"
  "wf_meter (exhaust_if_nothing_fits r now m) = wf_meter m"
  "tariff (after_refusal r now m) = tariff m" "money (after_refusal r now m) = money m"
  "wf_meter (after_refusal r now m) = wf_meter m"
  "tariff (after_drain now m) = tariff m" "money (after_drain now m) = money m"
  "wf_meter (after_drain now m) = wf_meter m"
proof -
  have pending: "tariff (m\<lparr>m_pending := p\<rparr>) = tariff m" "money (m\<lparr>m_pending := p\<rparr>) = money m"
    "wf_meter (m\<lparr>m_pending := p\<rparr>) = wf_meter m" for m p
    by (simp_all add: tariff_def money_def wf_meter_def measures_ok_def plan_ok_def prices_ok_def slots_ok_def)
  have refused: "tariff (m\<lparr>m_refused := p\<rparr>) = tariff m" "money (m\<lparr>m_refused := p\<rparr>) = money m"
    "wf_meter (m\<lparr>m_refused := p\<rparr>) = wf_meter m" for m p
    by (simp_all add: tariff_def money_def wf_meter_def measures_ok_def plan_ok_def prices_ok_def slots_ok_def)
  show e: "tariff (exhaust_if_nothing_fits r now m) = tariff m" "money (exhaust_if_nothing_fits r now m) = money m"
    "wf_meter (exhaust_if_nothing_fits r now m) = wf_meter m" for m
    by (auto simp: exhaust_if_nothing_fits_def pending frame)
  show "tariff (after_refusal r now m) = tariff m" "money (after_refusal r now m) = money m"
    "wf_meter (after_refusal r now m) = wf_meter m"
    by (simp_all add: after_refusal_def e refused)
  show "tariff (after_drain now m) = tariff m" "money (after_drain now m) = money m"
    "wf_meter (after_drain now m) = wf_meter m"
    by (auto simp: after_drain_def Let_def pending frame split: option.split)
qed

lemma quiet_frame [frame]:
  "tariff (note_kind c m) = tariff m" "money (note_kind c m) = money m" "wf_meter (note_kind c m) = wf_meter m"
  "tariff (begin_stage kinds m) = tariff m" "money (begin_stage kinds m) = money m"
  "wf_meter (begin_stage kinds m) = wf_meter m"
  "tariff (close_meter m) = tariff m" "money (close_meter m) = money m" "wf_meter (close_meter m) = wf_meter m"
  "tariff (note_unpriced name m) = tariff m" "money (note_unpriced name m) = money m"
  "wf_meter (note_unpriced name m) = wf_meter m"
  "tariff (set_agent_ceiling ag usd tok m) = tariff m" "money (set_agent_ceiling ag usd tok m) = money m"
  "wf_meter (set_agent_ceiling ag usd tok m) = wf_meter m"
  by (simp_all add: note_kind_def begin_stage_def close_meter_def note_unpriced_def set_agent_ceiling_def Let_def
      tariff_def money_def wf_meter_def measures_ok_def plan_ok_def prices_ok_def slots_ok_def)

lemma agent_frame [frame]:
  "tariff (note_agent_call ag now u model e m) = tariff m" "money (note_agent_call ag now u model e m) = money m"
  "wf_meter (note_agent_call ag now u model e m) = wf_meter m"
  "tariff (snd (agent_refusal ag m)) = tariff m" "money (snd (agent_refusal ag m)) = money m"
  "wf_meter (snd (agent_refusal ag m)) = wf_meter m"
proof -
  have spent: "tariff (m\<lparr>m_agent_spent := p\<rparr>) = tariff m" "money (m\<lparr>m_agent_spent := p\<rparr>) = money m"
    "wf_meter (m\<lparr>m_agent_spent := p\<rparr>) = wf_meter m"
    "tariff (m\<lparr>m_agent_stops := q\<rparr>) = tariff m" "money (m\<lparr>m_agent_stops := q\<rparr>) = money m"
    "wf_meter (m\<lparr>m_agent_stops := q\<rparr>) = wf_meter m" for p q
    by (simp_all add: tariff_def money_def wf_meter_def measures_ok_def plan_ok_def prices_ok_def slots_ok_def)
  show "tariff (note_agent_call ag now u model e m) = tariff m" "money (note_agent_call ag now u model e m) = money m"
    "wf_meter (note_agent_call ag now u model e m) = wf_meter m"
    by (auto simp: note_agent_call_def Let_def spent split: prod.split option.split)
  show "tariff (snd (agent_refusal ag m)) = tariff m" "money (snd (agent_refusal ag m)) = money m"
    "wf_meter (snd (agent_refusal ag m)) = wf_meter m"
    by (auto simp: agent_refusal_def Let_def spent split: prod.split option.split)
qed

section \<open>Measuring\<close>

lemma measure_frame [frame]:
  "tariff (measure_answer u name loop m) = tariff m" "money (measure_answer u name loop m) = money m"
  "tariff (count_answer u name g m) = tariff m" "money (count_answer u name g m) = money m"
  "tariff (measure_call u name call m) = tariff m" "money (measure_call u name call m) = money m"
  "tariff (measure_turn t m) = tariff m" "money (measure_turn t m) = money m"
  by (auto simp: measure_answer_def count_answer_def measure_call_def measure_turn_def Let_def tariff_def money_def
      split: prod.split option.split)

lemma wf_split: "wf_meter m \<longleftrightarrow> measures_ok m \<and> plan_ok m \<and> prices_ok m \<and> slots_ok m"
  by (rule wf_meter_def)

lemma update_ge:
  assumes "\<forall>x\<in>snd ` set d. 0 \<le> (x :: int)" "get_or 0 d k < n"
  shows "\<forall>x\<in>snd ` set (AList.update k n d). 0 \<le> x"
proof -
  have "0 \<le> get_or 0 d k" by (rule get_or_all [where P = "\<lambda>x. 0 \<le> x"]) (use assms(1) in simp_all)
  then have "0 \<le> n" using assms(2) by simp
  then show ?thesis using assms(1) by (rule update_all)
qed

lemma measure_answer_wf [keeps_wf]:
  assumes "wf_meter m"
  shows "wf_meter (measure_answer u name loop m)"
proof -
  have measured: "measures_ok m" using assms by (simp add: wf_meter_def)
  note m = measured [unfolded measures_ok_def, THEN conjunct1]
    measured [unfolded measures_ok_def, THEN conjunct2, THEN conjunct1]
  have wf: "wf_meter (m\<lparr>m_largest_loop := d\<rparr>)" "wf_meter (m\<lparr>m_largest_single := d\<rparr>)"
    if "\<forall>x\<in>snd ` set d. 0 \<le> x" for d
  proof -
    have w: "measures_ok m" "plan_ok m" "prices_ok m" "slots_ok m" using assms by (simp_all add: wf_meter_def)
    have "measures_ok (m\<lparr>m_largest_loop := d\<rparr>)" "measures_ok (m\<lparr>m_largest_single := d\<rparr>)"
      using w(1) that unfolding measures_ok_def by simp_all
    then show "wf_meter (m\<lparr>m_largest_loop := d\<rparr>)" "wf_meter (m\<lparr>m_largest_single := d\<rparr>)"
      using w(2-4) by (simp_all add: wf_meter_def plan_ok_def prices_ok_def slots_ok_def)
  qed
  have larger: "\<forall>x\<in>snd ` set (if get_or 0 d name < u_output u then AList.update name (u_output u) d else d). 0 \<le> x"
    if "\<forall>x\<in>snd ` set d. 0 \<le> x" for d
    using that update_ge [OF that] by (cases "get_or 0 d name < u_output u") (simp_all only: if_True if_False)
  show ?thesis
    using wf(1) [OF larger [OF m(1)]] wf(2) [OF larger [OF m(2)]]
    by (cases loop) (simp_all only: measure_answer_def Let_def if_True if_False)
qed

lemma count_answer_wf [keeps_wf]: "wf_meter m \<Longrightarrow> wf_meter (count_answer u name g m)"
proof -
  assume m: "wf_meter m"
  let ?P = "\<lambda>(total, calls). 0 \<le> total \<and> 0 \<le> (calls :: int)"
  obtain total calls where tc: "get_or (0, 0) (m_answers m) (g, name) = (total, calls)" by fastforce
  have all: "\<forall>x\<in>snd ` set (m_answers m). ?P x" using m unfolding wf_split measures_ok_def by blast
  have "?P (get_or (0, 0) (m_answers m) (g, name))" by (rule get_or_all [where P = ?P, OF _ all]) simp
  then have "?P (total + u_output u, calls + 1)" if "0 < u_output u" using that by (simp add: tc)
  then have "\<forall>x\<in>snd ` set (AList.update (g, name) (total + u_output u, calls + 1) (m_answers m)). ?P x"
    if "0 < u_output u"
    by (rule update_all [where P = ?P, OF _ all]) (use that in blast)
  then show "wf_meter (count_answer u name g m)"
    using m by (auto simp: count_answer_def tc wf_split plan_ok_def prices_ok_def slots_ok_def measures_ok_def not_le)
qed

lemma smallest_wf: "wf_meter m \<Longrightarrow> 0 \<le> n \<Longrightarrow> wf_meter (m\<lparr>m_smallest_loop_prompt := n\<rparr>)"
  by (simp add: wf_split plan_ok_def prices_ok_def slots_ok_def measures_ok_def)

lemma measure_call_wf [keeps_wf]: "wf_meter m \<Longrightarrow> wf_meter (measure_call u name call m)"
  by (auto simp: measure_call_def Let_def intro!: keeps_wf smallest_wf)

lemma measure_turn_wf [keeps_wf]: "wf_meter m \<Longrightarrow> wf_meter (measure_turn t m)"
  by (auto simp: measure_turn_def intro!: keeps_wf split: prod.split option.split)

lemma measure_turns [frame]:
  "tariff (fold measure_turn turns m) = tariff m" "money (fold measure_turn turns m) = money m"
  by (induction turns arbitrary: m) (simp_all add: frame)

lemma measure_turns_wf [keeps_wf]: "wf_meter m \<Longrightarrow> wf_meter (fold measure_turn turns m)"
  by (induction turns arbitrary: m) (simp_all add: keeps_wf)

text \<open>The plan of the tail.\<close>

lemma plan_tail_frame [frame]: "tariff (plan_tail calls m) = tariff m" "money (plan_tail calls m) = money m"
proof -
  have "tariff (plan_tail calls m) = tariff m \<and> money (plan_tail calls m) = money m"
    unfolding plan_tail_def
  proof (induction calls arbitrary: m)
    case (Cons call calls)
    obtain kind model count allowed cap where "call = (kind, model, count, allowed, cap)" by (cases call) auto
    moreover have "tariff (m\<lparr>m_tail := d\<rparr>) = tariff m" "money (m\<lparr>m_tail := d\<rparr>) = money m" for d
      by (simp_all add: tariff_def money_def)
    ultimately show ?case using Cons.IH by simp
  qed simp
  then show "tariff (plan_tail calls m) = tariff m" "money (plan_tail calls m) = money m" by simp_all
qed

lemma plan_tail_wf [keeps_wf]: "wf_meter m \<Longrightarrow> wf_meter (plan_tail calls m)"
  unfolding plan_tail_def
proof (induction calls arbitrary: m)
  case (Cons call calls)
  obtain kind model count allowed cap where c: "call = (kind, model, count, allowed, cap)" by (cases call) auto
  let ?row = "\<lparr>tl_model = model, tl_count = count, tl_allowed = max 0 allowed, tl_cap = max 0 cap\<rparr>"
  have "wf_meter (m\<lparr>m_tail := AList.update kind ?row (m_tail m)\<rparr>)" if "0 < count"
  proof -
    have "\<forall>row\<in>snd ` set (AList.update kind ?row (m_tail m)). 0 \<le> tl_count row \<and> 0 \<le> tl_allowed row \<and> 0 \<le> tl_cap row"
    proof -
      have "\<forall>row\<in>snd ` set (m_tail m). 0 \<le> tl_count row \<and> 0 \<le> tl_allowed row \<and> 0 \<le> tl_cap row"
        using Cons.prems unfolding wf_split plan_ok_def by blast
      with that show ?thesis
        by (intro update_all [where P = "\<lambda>row. 0 \<le> tl_count row \<and> 0 \<le> tl_allowed row \<and> 0 \<le> tl_cap row"]) simp_all
    qed
    then show ?thesis using Cons.prems by (simp add: wf_split measures_ok_def plan_ok_def prices_ok_def slots_ok_def)
  qed
  with Cons show ?case by (simp add: c)
qed simp

end
