(* ===== verification/Spend_Effects.thy ===== *)
theory Spend_Effects
  imports Spend_Frames
begin

text \<open>
  What the operations that move money do to it: an admission, a charge, the turns of a loop and
  the end of one, a release.
\<close>

section \<open>Charges\<close>

lemma charge_of_frame:
  assumes "charge_of now usage model m = (r, m')"
  shows "tariff m' = tariff m" "money m' = money m" "wf_meter m' = wf_meter m"
    "map_option fst r = Option.bind usage (\<lambda>u. map_option fst (charged m now u model))"
proof -
  have parts: "tariff (m\<lparr>m_unreported := n\<rparr>) = tariff m" "money (m\<lparr>m_unreported := n\<rparr>) = money m"
    "wf_meter (m\<lparr>m_unreported := n\<rparr>) = wf_meter m" "tariff (m\<lparr>m_priced_from := d\<rparr>) = tariff m"
    "money (m\<lparr>m_priced_from := d\<rparr>) = money m" "wf_meter (m\<lparr>m_priced_from := d\<rparr>) = wf_meter m" for n d
    by (simp_all add: tariff_def money_def wf_meter_def measures_ok_def plan_ok_def prices_ok_def slots_ok_def)
  show "tariff m' = tariff m" "money m' = money m" "wf_meter m' = wf_meter m"
    using assms by (auto simp: charge_of_def parts frame split: option.splits prod.splits)
  show "map_option fst r = Option.bind usage (\<lambda>u. map_option fst (charged m now u model))"
  proof (cases usage)
    case (Some u)
    then show ?thesis
      using assms by (cases "charged m now u model") (auto simp: charge_of_def)
  qed (use assms in \<open>auto simp: charge_of_def\<close>)
qed

text \<open>The usage a charge is computed from.\<close>

definition priced_usage :: "meter \<Rightarrow> string \<Rightarrow> usage option \<Rightarrow> estimate option \<Rightarrow> usage option" where
  "priced_usage m model usage estimated =
     (case (usage, estimated) of
        (None, None) \<Rightarrow> None
      | (None, Some e) \<Rightarrow>
          (let plain = prompt_and_answer (es_input e) (es_output e) in
           case (if es_at_cached_share e then cache_share m (price_key model) else None) of
             None \<Rightarrow> Some plain
           | Some s \<Rightarrow> Some (if s = 0 then plain else plain\<lparr>u_cached := round_even (of_int (es_input e) * s)\<rparr>))
      | (Some u, None) \<Rightarrow> Some u
      | (Some u, Some e) \<Rightarrow> Some (if es_output_only e then with_output (max 0 (es_output e)) u else u))"

text \<open>A settlement adds what it charges to what is settled, and moves nothing else.\<close>

definition paid_of :: "rat option \<Rightarrow> rat" where
  "paid_of r = (case r of None \<Rightarrow> 0 | Some c \<Rightarrow> c)"

definition settles :: "meter \<Rightarrow> rat option \<Rightarrow> meter \<Rightarrow> bool" where
  "settles m r m' \<longleftrightarrow> tariff m' = tariff m \<and> (wf_meter m \<longrightarrow> wf_meter m') \<and>
     money m' = (m_settled m + paid_of r, m_in_flight m, m_reserved m)"

lemma settled_more:
  "tariff (m\<lparr>m_settled := x\<rparr>) = tariff m" "money (m\<lparr>m_settled := x\<rparr>) = (x, m_in_flight m, m_reserved m)"
  "wf_meter (m\<lparr>m_settled := x\<rparr>) = wf_meter m"
  by (simp_all add: tariff_def money_def wf_meter_def measures_ok_def plan_ok_def prices_ok_def slots_ok_def)

lemma settles_add:
  assumes "tariff m' = tariff m" "money m' = money m" "wf_meter m \<longrightarrow> wf_meter m'"
  shows "settles m (Some c) (m'\<lparr>m_settled := m_settled m' + c\<rparr>)" "settles m None m'"
  using assms by (simp_all add: settles_def paid_of_def settled_more) (simp_all add: money_def)

lemma settles_estimated:
  "settles m (Some c) (m\<lparr>m_priced_from := p, m_settled := m_settled m + c, m_estimated_calls := n, m_estimated_usd := e\<rparr>)"
proof -
  have "wf_meter (m\<lparr>m_priced_from := p, m_settled := m_settled m + c, m_estimated_calls := n, m_estimated_usd := e\<rparr>) = wf_meter m"
    by (simp add: wf_meter_def measures_ok_def plan_ok_def prices_ok_def slots_ok_def)
  then show ?thesis by (simp add: settles_def paid_of_def tariff_def money_def)
qed

lemma settle_estimate_effect:
  assumes "settle_estimate now e model m = (r, m')"
  shows "settles m r m'" "r = Some c \<Longrightarrow>
    \<exists>u source. priced_usage m model None (Some e) = Some u \<and> charged m now u model = Some (c, source)"
  using assms settles_estimated settles_add(2) [of "note_unpriced (price_key model) m" m]
  by (auto simp: settle_estimate_def Let_def priced_usage_def frame split: option.splits prod.splits if_splits)

lemma settle_output_estimate_effect:
  assumes "settle_output_estimate now u e model m = (r, m')"
  shows "settles m r m'" "r = Some c \<Longrightarrow>
    \<exists>source. charged m now (with_output (max 0 (es_output e)) u) model = Some (c, source)"
  using assms settles_estimated settles_add(2) [of "note_unpriced (price_key model) m" m]
  by (auto simp: settle_output_estimate_def Let_def frame split: option.splits prod.splits)

text \<open>The ordinary settlement: measured, then charged.\<close>

lemma measured_charge:
  assumes "(case charge_of now (Some u) model (measure_call u name call m) of
      (None, m) \<Rightarrow> (None, m) | (Some (c, source), m) \<Rightarrow> (Some c, m\<lparr>m_settled := m_settled m + c\<rparr>)) = (r, m')"
  shows "settles m r m'" "r = map_option fst (charged m now u model)"
proof -
  obtain q m1 where q: "charge_of now (Some u) model (measure_call u name call m) = (q, m1)"
    by (cases "charge_of now (Some u) model (measure_call u name call m)")
  note f = charge_of_frame [OF q]
  have m1: "tariff m1 = tariff m" "money m1 = money m" "wf_meter m \<longrightarrow> wf_meter m1"
    using f keeps_wf by (simp_all add: frame)
  have "charged (measure_call u name call m) = charged m" by (rule tariff_charged) (simp add: frame)
  then have q': "map_option fst q = map_option fst (charged m now u model)" using f(4) by simp
  show "settles m r m'" using assms q settles_add [OF m1] by (auto split: option.splits)
  show "r = map_option fst (charged m now u model)"
    using assms q q' by (auto split: option.splits)
qed

lemma settle_effect:
  assumes "settle now usage model call estimated m = (r, m')"
  shows "settles m r m'"
    and "r = Some c \<Longrightarrow>
      \<exists>u source. priced_usage m model usage estimated = Some u \<and> charged m now u model = Some (c, source)"
proof -
  consider (est) e where "usage = None" "estimated = Some e"
    | (out) u e where "usage = Some u" "estimated = Some e" "es_output_only e"
    | (nothing) "usage = None" "estimated = None"
    | (call) u where "usage = Some u" "priced_usage m model usage estimated = Some u"
        "(case charge_of now (Some u) model (measure_call u (clean_name model) call m) of
           (None, m) \<Rightarrow> (None, m) | (Some (c, source), m) \<Rightarrow> (Some c, m\<lparr>m_settled := m_settled m + c\<rparr>)) = (r, m')"
    using assms by (auto simp: settle_def priced_usage_def split: option.splits if_splits)
  then have "settles m r m' \<and> (r = Some c \<longrightarrow>
      (\<exists>u source. priced_usage m model usage estimated = Some u \<and> charged m now u model = Some (c, source)))"
  proof cases
    case est
    then have "settle_estimate now e model m = (r, m')" using assms by (simp add: settle_def)
    then show ?thesis using settle_estimate_effect est by blast
  next
    case out
    then have "settle_output_estimate now u e model m = (r, m')" using assms by (simp add: settle_def)
    then show ?thesis using settle_output_estimate_effect out by (fastforce simp: priced_usage_def)
  next
    case nothing
    then obtain q where "charge_of now None model m = (q, m')" and r: "r = None"
      using assms by (cases "charge_of now None model m") (auto simp: settle_def)
    then show ?thesis using charge_of_frame [of now None model m q m'] settles_add(2) [of m' m] by simp
  next
    case call
    then show ?thesis using measured_charge [OF call(3)] by (auto simp: split_paired_all)
  qed
  then show "settles m r m'" "r = Some c \<Longrightarrow>
      \<exists>u source. priced_usage m model usage estimated = Some u \<and> charged m now u model = Some (c, source)"
    by simp_all
qed

section \<open>Loops and releases\<close>

lemma slots_split: "slots_ok m \<longleftrightarrow> distinct (map fst (m_reserved m)) \<and> distinct (map fst (m_in_flight m)) \<and>
    (\<forall>x\<in>snd ` set (m_reserved m). 0 \<le> x)"
  by (rule slots_ok_def)

lemma drop_slot_effect:
  "tariff (drop_slot s m) = tariff m" "money (drop_slot s m) = (m_settled m, m_in_flight m, AList.delete s (m_reserved m))"
  "wf_meter m \<Longrightarrow> wf_meter (drop_slot s m)"
proof -
  show "tariff (drop_slot s m) = tariff m" "money (drop_slot s m) = (m_settled m, m_in_flight m, AList.delete s (m_reserved m))"
    by (simp_all add: drop_slot_def tariff_def money_def)
  assume m: "wf_meter m"
  then have "\<forall>x\<in>snd ` set (AList.delete s (m_reserved m)). 0 \<le> x"
    unfolding wf_split slots_split by (intro delete_all [where P = "\<lambda>x. 0 \<le> x"]) blast
  then show "wf_meter (drop_slot s m)"
    using m by (simp add: drop_slot_def wf_split slots_split measures_ok_def plan_ok_def prices_ok_def distinct_delete)
qed

lemma release_effect:
  "tariff (release s now m) = tariff m" "money (release s now m) = (m_settled m, m_in_flight m, AList.delete s (m_reserved m))"
  "wf_meter m \<Longrightarrow> wf_meter (release s now m)"
  by (simp_all add: release_def frame drop_slot_effect)

lemma note_loop_effect:
  "tariff (note_loop s turns now m) = tariff m"
  "money (note_loop s turns now m) =
     (m_settled m, AList.update s (loop_cost m now turns) (m_in_flight m), AList.delete s (m_reserved m))"
  "wf_meter m \<Longrightarrow> wf_meter (note_loop s turns now m)"
proof -
  define m1 where "m1 = fold measure_turn turns m"
  define m2 where "m2 = (if opening_of turns > get_or 0 (m_largest_prompt m1) ''opening''
    then m1\<lparr>m_largest_prompt := AList.update ''opening'' (opening_of turns) (m_largest_prompt m1)\<rparr> else m1)"
  define m3 where "m3 = m2\<lparr>m_in_flight := AList.update s (loop_cost m now turns) (m_in_flight m2),
    m_loop_inputs := AList.update s (loop_inputs_of turns) (m_loop_inputs m2)\<rparr>"
  have noted: "note_loop s turns now m = after_drain now (drop_slot s m3)"
    by (simp add: note_loop_def Let_def m1_def m2_def m3_def)
  have m1: "tariff m1 = tariff m" "money m1 = money m" "wf_meter m \<Longrightarrow> wf_meter m1"
    by (simp_all add: m1_def frame keeps_wf)
  have m2: "tariff m2 = tariff m1" "money m2 = money m1" by (simp_all add: m2_def tariff_def money_def)
  have m3: "tariff m3 = tariff m" "money m3 = (m_settled m, AList.update s (loop_cost m now turns) (m_in_flight m), m_reserved m)"
    using m1 m2 by (auto simp: m3_def tariff_def money_def)
  show "tariff (note_loop s turns now m) = tariff m"
    by (simp add: noted frame drop_slot_effect m3)
  show "money (note_loop s turns now m) =
     (m_settled m, AList.update s (loop_cost m now turns) (m_in_flight m), AList.delete s (m_reserved m))"
    using m3(2) by (simp add: noted frame drop_slot_effect) (simp add: money_def)
  assume "wf_meter m"
  then have w1: "wf_meter m1" by (rule m1)
  have "wf_meter m2"
  proof (cases "opening_of turns > get_or 0 (m_largest_prompt m1) ''opening''")
    case True
    have "\<forall>x\<in>snd ` set (m_largest_prompt m1). 0 \<le> x" using w1 unfolding wf_split measures_ok_def by blast
    then have "\<forall>x\<in>snd ` set (AList.update ''opening'' (opening_of turns) (m_largest_prompt m1)). 0 \<le> x"
      by (rule update_ge [OF _ True])
    then show ?thesis
      using w1 True by (simp add: m2_def wf_split slots_split measures_ok_def plan_ok_def prices_ok_def)
  qed (simp add: m2_def w1)
  then have "wf_meter m3"
    by (simp add: m3_def wf_split slots_split measures_ok_def plan_ok_def prices_ok_def distinct_update)
  then show "wf_meter (note_loop s turns now m)" by (simp add: noted frame drop_slot_effect)
qed

lemma forget_loop_effect:
  "tariff (forget_loop s now m) = tariff m"
  "money (forget_loop s now m) = (m_settled m, AList.delete s (m_in_flight m), AList.delete s (m_reserved m))"
  "wf_meter m \<Longrightarrow> wf_meter (forget_loop s now m)"
proof -
  let ?m = "m\<lparr>m_in_flight := AList.delete s (m_in_flight m), m_inputs := i, m_loop_inputs := l\<rparr>"
  have m: "tariff (m\<lparr>m_in_flight := AList.delete s (m_in_flight m), m_inputs := i, m_loop_inputs := l\<rparr>) = tariff m"
    "money (m\<lparr>m_in_flight := AList.delete s (m_in_flight m), m_inputs := i, m_loop_inputs := l\<rparr>) =
      (m_settled m, AList.delete s (m_in_flight m), m_reserved m)"
    "wf_meter m \<Longrightarrow> wf_meter (m\<lparr>m_in_flight := AList.delete s (m_in_flight m), m_inputs := i, m_loop_inputs := l\<rparr>)" for i l
    by (simp_all add: tariff_def money_def wf_split slots_split measures_ok_def plan_ok_def prices_ok_def distinct_delete)
  show "tariff (forget_loop s now m) = tariff m" by (simp add: forget_loop_def frame drop_slot_effect m)
  show "money (forget_loop s now m) = (m_settled m, AList.delete s (m_in_flight m), AList.delete s (m_reserved m))"
    by (simp add: forget_loop_def frame drop_slot_effect)
  show "wf_meter m \<Longrightarrow> wf_meter (forget_loop s now m)"
    by (simp add: forget_loop_def frame drop_slot_effect m)
qed

end
