(* ===== verification/Spend_Admissions.thy ===== *)
theory Spend_Admissions
  imports Spend_Effects
begin

text \<open>
  What one pass of an admission leaves: an admitted call's worst case reserved under its slot, the
  whole committed below the ceiling with the reserve beside it; any other answer moves no money.
\<close>

lemma take_call_effect:
  fixes m :: meter
  assumes "price_of m (cl_model c) = Some row \<longrightarrow> 0 \<le> dc_reservation d"
  defines "priced \<equiv> price_of m (cl_model c) \<noteq> None"
  shows "tariff (take_call c d priced m) = tariff m"
    "money (take_call c d priced m) = (m_settled m, m_in_flight m,
       case cl_slot c of Some s \<Rightarrow> if priced then AList.update s (dc_reservation d) (m_reserved m) else m_reserved m
       | None \<Rightarrow> m_reserved m)"
  by (auto simp: take_call_def Let_def tariff_def money_def split: prod.split option.split)

lemma take_call_wf [keeps_wf]:
  fixes m :: meter
  assumes m: "wf_meter m" and r: "priced \<Longrightarrow> 0 \<le> dc_reservation d"
  shows "wf_meter (take_call c d priced m)"
proof -
  define n where "n = tokens_for_chars (cl_prompt_chars c)"
  define prompts where "prompts = (if \<not> cl_attempt c \<and> n > get_or 0 (m_largest_prompt m) (prompt_key (cl_kind c))
    then AList.update (prompt_key (cl_kind c)) n (m_largest_prompt m) else m_largest_prompt m)"
  define plan where "plan = (case map_of (m_tail m) (cl_kind c) of
      Some row \<Rightarrow>
        if \<not> cl_attempt c \<and> \<not> cl_retrying c \<and> cl_kind c \<in> set TAIL_KINDS \<and> tl_count row > 0
        then AList.update (cl_kind c) (row\<lparr>tl_count := tl_count row - 1\<rparr>) (m_tail m) else m_tail m
    | None \<Rightarrow> m_tail m)"
  define held where "held = (case cl_slot c of None \<Rightarrow> m_reserved m
    | Some s \<Rightarrow> if priced then AList.update s (dc_reservation d) (m_reserved m) else m_reserved m)"
  let ?plan = "\<lambda>row. 0 \<le> tl_count row \<and> 0 \<le> tl_allowed row \<and> 0 \<le> tl_cap row"
  have old: "\<forall>x\<in>snd ` set (m_largest_prompt m). 0 \<le> x" "\<forall>row\<in>snd ` set (m_tail m). ?plan row"
    "\<forall>x\<in>snd ` set (m_reserved m). 0 \<le> x"
    using m unfolding wf_split measures_ok_def plan_ok_def slots_split by blast+
  have prompts: "\<forall>x\<in>snd ` set prompts. 0 \<le> x"
    using old(1) update_ge [OF old(1), of "prompt_key (cl_kind c)" n] unfolding prompts_def by presburger
  have plan: "\<forall>row\<in>snd ` set plan. ?plan row"
  proof (cases "map_of (m_tail m) (cl_kind c)")
    case (Some row)
    then have "?plan row" using map_of_all [OF old(2)] by blast
    then have "?plan (row\<lparr>tl_count := tl_count row - 1\<rparr>)" if "tl_count row > 0" using that by simp
    then have "\<forall>row\<in>snd ` set (AList.update (cl_kind c) (row\<lparr>tl_count := tl_count row - 1\<rparr>) (m_tail m)). ?plan row"
      if "tl_count row > 0"
      using that by (intro update_all [where P = ?plan, OF _ old(2)]) blast
    then show ?thesis using old(2) unfolding plan_def Some by (simp only: option.case) presburger
  qed (use old(2) in \<open>simp add: plan_def\<close>)
  have "\<forall>x\<in>snd ` set (AList.update s (dc_reservation d) (m_reserved m)). 0 \<le> x" if priced for s
    by (rule update_all [where P = "\<lambda>x. 0 \<le> x", OF r [OF that] old(3)])
  then have held: "\<forall>x\<in>snd ` set held. 0 \<le> x" "distinct (map fst held)"
    using old(3) m unfolding held_def by (auto simp: wf_split slots_split distinct_update simp del: image_iff split: option.split)
  obtain made where made: "m_calls_made (take_call c d priced m) = made" by simp
  have same: "m_largest_prompt (take_call c d priced m) = prompts" "m_tail (take_call c d priced m) = plan"
    "m_reserved (take_call c d priced m) = held"
    "m_largest_loop (take_call c d priced m) = m_largest_loop m" "m_largest_single (take_call c d priced m) = m_largest_single m"
    "m_answers (take_call c d priced m) = m_answers m" "m_smallest_loop_prompt (take_call c d priced m) = m_smallest_loop_prompt m"
    "m_operator (take_call c d priced m) = m_operator m" "m_table (take_call c d priced m) = m_table m"
    "m_in_flight (take_call c d priced m) = m_in_flight m"
    by (auto simp: take_call_def Let_def prompts_def plan_def held_def n_def split: prod.split option.split)
  have "measures_ok (take_call c d priced m)"
    using m prompts unfolding wf_split measures_ok_def same by simp
  moreover have "plan_ok (take_call c d priced m)" using plan unfolding plan_ok_def same .
  moreover have "prices_ok (take_call c d priced m)" using m unfolding wf_split prices_ok_def same by simp
  moreover have "slots_ok (take_call c d priced m)" using m held unfolding wf_split slots_ok_def same by simp
  ultimately show ?thesis by (simp add: wf_meter_def)
qed

lemma admit_pass_cases [consumes 1, case_names admitted other]:
  assumes "admit_pass c now noted left cancelled m = (ans, m')"
  obtains m1 where "tariff m1 = tariff m" "money m1 = money m" "wf_meter m1 = wf_meter m"
      "dc_refused (decide_call m1 now c True) = None" "ans = Admitted (dc_bound (decide_call m1 now c True))"
      "m' = take_call c (decide_call m1 now c True) (price_of m1 (cl_model c) \<noteq> None) m1"
  | "\<And>b. ans \<noteq> Admitted b" "tariff m' = tariff m" "money m' = money m" "wf_meter m' = wf_meter m"
proof -
  define m1 where "m1 = (if \<not> noted \<and> \<not> cl_attempt c then note_kind c (snd (reached m)) else snd (reached m))"
  have m1: "tariff m1 = tariff m" "money m1 = money m" "wf_meter m1 = wf_meter m"
    by (simp_all add: m1_def frame)
  show ?thesis
  proof (cases "dc_refused (decide_call m1 now c True)")
    case None
    then have "ans = Admitted (dc_bound (decide_call m1 now c True))"
      "m' = take_call c (decide_call m1 now c True) (price_of m1 (cl_model c) \<noteq> None) m1"
      using assms by (simp_all add: admit_pass_def Let_def m1_def [symmetric])
    then show ?thesis using that(1) [OF m1 None] by blast
  next
    case (Some r)
    then have "(\<forall>b. ans \<noteq> Admitted b) \<and> m' = m1"
      using assms by (auto simp: admit_pass_def Let_def m1_def [symmetric] split: if_splits)
    then show ?thesis using that(2) m1 by auto
  qed
qed

lemma admit_passE:
  assumes "admit_pass c now noted left cancelled m = (Admitted b, m')"
  obtains m1 where "tariff m1 = tariff m" "money m1 = money m" "wf_meter m1 = wf_meter m"
    "dc_refused (decide_call m1 now c True) = None" "b = dc_bound (decide_call m1 now c True)"
    "m' = take_call c (decide_call m1 now c True) (price_of m1 (cl_model c) \<noteq> None) m1"
  using assms by (cases rule: admit_pass_cases) auto

text \<open>An admitted call of a model with a price, made under a slot.\<close>

lemma admitted_effect:
  assumes wf: "wf_meter m" and adm: "admit_pass c now noted left cancelled m = (Admitted b, m')"
    and s: "cl_slot c = Some s" and row: "price_of m (cl_model c) = Some row"
  shows "tariff m' = tariff m" "wf_meter m'"
    "money m' = (m_settled m, m_in_flight m, AList.update s (worst m (admission_of m c now b) row) (m_reserved m))"
    "m_settled m + total_of (m_in_flight m) + others_hold m (Some s) + worst m (admission_of m c now b) row
      \<le> (case m_ceiling m of None \<Rightarrow> 0 | Some c \<Rightarrow> c)"
    "0 \<le> worst m (admission_of m c now b) row"
proof -
  from adm obtain m1 where admitted: "tariff m1 = tariff m" "money m1 = money m" "wf_meter m1 = wf_meter m"
    "dc_refused (decide_call m1 now c True) = None" "b = dc_bound (decide_call m1 now c True)"
    "m' = take_call c (decide_call m1 now c True) (price_of m1 (cl_model c) \<noteq> None) m1"
    by (rule admit_passE)
  define d where "d = decide_call m1 now c True"
  have wf1: "wf_meter m1" and row1: "price_of m1 (cl_model c) = Some row"
    using admitted(3) wf row tariff_price [OF admitted(1)] by simp_all
  have m1: "m_settled m1 = m_settled m" "m_in_flight m1 = m_in_flight m" "m_reserved m1 = m_reserved m" "m_ceiling m1 = m_ceiling m"
    using admitted(2) tariff_ceiling [OF admitted(1)] by (simp_all add: money_def)
  note fits = decide_call_fits [OF wf1 row1 d_def [symmetric] admitted(4) [folded d_def]]
  have b: "b = dc_bound d" using admitted(5) by (simp add: d_def)
  have "own_cap m1 c = own_cap m c"
    using tariffD(6) [OF admitted(1)] by (simp add: own_cap_def uncapped_output_def)
  then have "admission_of m1 c now b = admission_of m c now b" unfolding admission_of_def by (rule ssubst) simp
  then have res: "dc_reservation d = worst m (admission_of m c now b) row"
    using fits(1) tariff_worst [OF admitted(1)] by (simp add: b)
  show "0 \<le> worst m (admission_of m c now b) row" using fits(3) by (simp add: res)
  have m': "m' = take_call c d (price_of m1 (cl_model c) \<noteq> None) m1" using admitted(6) by (simp add: d_def)
  show "tariff m' = tariff m" unfolding m' using take_call_effect(1) [of m1 c row d] fits(3) admitted(1) by simp
  show "wf_meter m'" unfolding m' using wf1 fits(3) by (intro keeps_wf)
  show "money m' = (m_settled m, m_in_flight m, AList.update s (worst m (admission_of m c now b) row) (m_reserved m))"
    unfolding m' using take_call_effect(2) [of m1 c row d] fits(3) row1 s by (simp add: m1 res)
  have "0 \<le> dc_reserve d" using fits(4) reserve_ge [OF wf1] by simp
  moreover have "others_hold m1 (cl_slot c) = others_hold m (Some s)" by (simp add: others_hold_def m1 s)
  ultimately show "m_settled m + total_of (m_in_flight m) + others_hold m (Some s) + worst m (admission_of m c now b) row
      \<le> (case m_ceiling m of None \<Rightarrow> 0 | Some c \<Rightarrow> c)"
    using fits(2) by (simp add: res m1)
qed

lemma admitted_unpriced_effect:
  assumes "admit_pass c now noted left cancelled m = (Admitted b, m')" "price_of m (cl_model c) = None"
  shows "tariff m' = tariff m" "money m' = money m" "wf_meter m \<longrightarrow> wf_meter m'"
proof -
  from assms(1) obtain m1 where admitted: "tariff m1 = tariff m" "money m1 = money m" "wf_meter m1 = wf_meter m"
    "dc_refused (decide_call m1 now c True) = None" "b = dc_bound (decide_call m1 now c True)"
    "m' = take_call c (decide_call m1 now c True) (price_of m1 (cl_model c) \<noteq> None) m1"
    by (rule admit_passE)
  have none: "price_of m1 (cl_model c) = None" using assms(2) tariff_price [OF admitted(1)] by simp
  have m': "m' = take_call c (decide_call m1 now c True) (price_of m1 (cl_model c) \<noteq> None) m1" by (rule admitted(6))
  note effect = take_call_effect [of m1 c _ "decide_call m1 now c True"]
  show "tariff m' = tariff m" unfolding m' using effect(1) none admitted(1) by simp
  show "money m' = money m"
    unfolding m' using effect(2) none admitted(2) by (simp add: money_def split: option.split)
  show "wf_meter m \<longrightarrow> wf_meter m'" unfolding m' using none admitted(3) by (auto intro!: keeps_wf)
qed

end
