(* ===== verification/Spend_Runs.thy ===== *)
theory Spend_Runs
  imports Spend_Admissions
begin

text \<open>
  The life of a job's spend meter: every order in which its calls are admitted, answered, charged and
  released, its loops report their turns and hand them to the token ledger, and stages begin. The
  books beside the meter say what the providers have really billed; the invariant ties the two
  together, and bounds what is billed by the ceiling.
\<close>

section \<open>The books\<close>

text \<open>
  What was billed so far; the admission each slot's call runs under and what of it is already
  charged; the turns of each running loop and how many of them the ledger has recorded.
\<close>

record books =
  bk_billed :: rat
  bk_calls :: "slot \<Rightarrow> admission option"
  bk_paid :: "slot \<Rightarrow> rat"
  bk_turns :: "slot \<Rightarrow> turn list"
  bk_recorded :: "slot \<Rightarrow> nat"

definition no_books :: books where
  "no_books = \<lparr>bk_billed = 0, bk_calls = (\<lambda>s. None), bk_paid = (\<lambda>s. 0), bk_turns = (\<lambda>s. []), bk_recorded = (\<lambda>s. 0)\<rparr>"

text \<open>A usage that says when its request was sent.\<close>

definition stamped :: "usage \<Rightarrow> bool" where
  "stamped u \<longleftrightarrow> (case u_sent_at u of None \<Rightarrow> False | Some x \<Rightarrow> 0 \<le> x \<and> x < 253402300800)"

text \<open>
  A turn of a loop: it reported no usage, or its model has no price and its provider reported no cost,
  or it answered within what the loop's turn was admitted as.
\<close>

definition proper_turn :: "meter \<Rightarrow> admission option \<Rightarrow> instant \<Rightarrow> turn \<Rightarrow> bool" where
  "proper_turn m admission now t =
     (case t of
        (model, None) \<Rightarrow> True
      | (model, Some u) \<Rightarrow>
          price_of m model = None \<and> u_cost u = None \<or>
          stamped u \<and> (case admission of None \<Rightarrow> False | Some a \<Rightarrow> ad_model a = model \<and> fits m a now u))"

inductive spend_step :: "meter \<times> books \<Rightarrow> meter \<times> books \<Rightarrow> bool" where
  admitted: "admit_pass c now noted left cancelled m = (Admitted b, m') \<Longrightarrow> cl_slot c = Some s \<Longrightarrow>
    price_of m (cl_model c) \<noteq> None \<Longrightarrow>
    spend_step (m, k) (m', k\<lparr>bk_calls := (bk_calls k)(s \<mapsto> admission_of m c now b), bk_paid := (bk_paid k)(s := 0)\<rparr>)"
| admitted_unpriced: "admit_pass c now noted left cancelled m = (Admitted b, m') \<Longrightarrow> cl_slot c = Some s \<Longrightarrow>
    price_of m (cl_model c) = None \<Longrightarrow>
    spend_step (m, k) (m', k\<lparr>bk_calls := (bk_calls k)(s := None)\<rparr>)"
| not_admitted: "admit_pass c now noted left cancelled m = (ans, m') \<Longrightarrow> (\<forall>b. ans \<noteq> Admitted b) \<Longrightarrow>
    spend_step (m, k) (m', k)"
| refusal_recorded: "spend_step (m, k) (after_refusal r now m, k)"
| call_charged: "settle now usage model call estimated m = (Some paid, m') \<Longrightarrow>
    bk_calls k s = Some a \<Longrightarrow> ad_model a = model \<Longrightarrow> bk_paid k s = 0 \<Longrightarrow>
    (\<forall>u. priced_usage m model usage estimated = Some u \<longrightarrow> fits m a now u) \<Longrightarrow>
    spend_step (m, k) (m', k\<lparr>bk_paid := (bk_paid k)(s := paid), bk_billed := bk_billed k + paid\<rparr>)"
| call_not_charged: "settle now usage model call estimated m = (None, m') \<Longrightarrow> spend_step (m, k) (m', k)"
| released: "spend_step (m, k) (release s now m, k\<lparr>bk_calls := (bk_calls k)(s := None), bk_paid := (bk_paid k)(s := 0)\<rparr>)"
| turn_noted: "proper_turn m (bk_calls k s) now t \<Longrightarrow> bk_paid k s = 0 \<Longrightarrow> bk_recorded k s = 0 \<Longrightarrow>
    spend_step (m, k) (note_loop s (bk_turns k s @ [t]) now m,
      k\<lparr>bk_turns := (bk_turns k)(s := bk_turns k s @ [t]), bk_calls := (bk_calls k)(s := None),
        bk_billed := bk_billed k + turn_cost m now t\<rparr>)"
| no_turn_noted: "bk_paid k s = 0 \<Longrightarrow> bk_recorded k s = 0 \<Longrightarrow>
    spend_step (m, k) (note_loop s (bk_turns k s) now m, k\<lparr>bk_calls := (bk_calls k)(s := None)\<rparr>)"
| turn_recorded: "bk_recorded k s < length (bk_turns k s) \<Longrightarrow> bk_turns k s ! bk_recorded k s = (model, usage) \<Longrightarrow>
    settle now usage model LOOP_TURN_CALL None m = (r, m') \<Longrightarrow>
    spend_step (m, k) (m', k\<lparr>bk_recorded := (bk_recorded k)(s := bk_recorded k s + 1)\<rparr>)"
| loop_forgotten: "bk_recorded k s = length (bk_turns k s) \<Longrightarrow>
    spend_step (m, k) (forget_loop s now m,
      k\<lparr>bk_calls := (bk_calls k)(s := None), bk_paid := (bk_paid k)(s := 0), bk_turns := (bk_turns k)(s := []),
        bk_recorded := (bk_recorded k)(s := 0)\<rparr>)"
| asked_exhausted: "spend_step (m, k) (snd (exhausted m), k)"
| stage_begun: "spend_step (m, k) (begin_stage kinds m, k)"
| tail_planned: "spend_step (m, k) (plan_tail calls m, k)"
| cancelled: "spend_step (m, k) (close_meter m, k)"
| agent_set: "spend_step (m, k) (set_agent_ceiling ag usd tok m, k)"
| agent_noted: "spend_step (m, k) (note_agent_call ag now usage model estimated m, k)"
| agent_asked: "spend_step (m, k) (snd (agent_refusal ag m), k)"

section \<open>What is left of an account\<close>

definition left_in :: "(slot \<Rightarrow> rat) \<Rightarrow> (slot \<times> rat) list \<Rightarrow> rat" where
  "left_in f d = sum_list (map (\<lambda>(s, v). v - f s) d)"

lemma left_in_simps [simp]: "left_in f [] = 0" "left_in f ((s, v) # d) = v - f s + left_in f d"
  by (simp_all add: left_in_def)

lemma get_or_notin: "s \<notin> fst ` set d \<Longrightarrow> get_or v d s = v"
  by (simp add: get_or_def map_of_eq_None_iff [THEN iffD2])

lemma left_update:
  "distinct (map fst d) \<Longrightarrow> (s \<notin> fst ` set d \<Longrightarrow> f s = 0) \<Longrightarrow>
    left_in f (AList.update s v d) = left_in f d - get_or 0 d s + v"
  by (induction d) (auto simp: get_or_notin)

lemma left_fun: "distinct (map fst d) \<Longrightarrow>
    left_in (f(s := x)) d = left_in f d + (if s \<in> fst ` set d then f s - x else 0)"
  by (induction d) (auto simp: rev_image_eqI)

lemma left_delete: "distinct (map fst d) \<Longrightarrow>
    left_in f (AList.delete s d) = left_in f d - (if s \<in> fst ` set d then get_or 0 d s - f s else 0)"
proof (induction d)
  case (Cons kv d)
  obtain s' v where kv: "kv = (s', v)" by (cases kv)
  have "AList.delete s d = d" if "s' = s" using Cons.prems that kv by (intro delete_id) simp
  then show ?case using Cons kv by auto
qed simp

lemma left_cong: "(\<And>s. s \<in> fst ` set d \<Longrightarrow> f s = g s) \<Longrightarrow> left_in f d = left_in g d"
  by (induction d) auto

lemma left_le: "(\<And>s. 0 \<le> f s) \<Longrightarrow> left_in f d \<le> total_of d"
proof (induction d)
  case (Cons kv d)
  then have "0 \<le> f (fst kv)" "left_in f d \<le> total_of d" by simp_all
  then show ?case by (cases kv) simp
qed simp

lemma left_ge:
  assumes "distinct (map fst d)" "\<And>s. f s \<le> get_or 0 d s"
  shows "0 \<le> left_in f d"
proof -
  have "f s \<le> v" if "(s, v) \<in> set d" for s v
    using assms that by (metis get_or_def map_of_eq_Some_iff option.case(2))
  then show ?thesis unfolding left_in_def by (intro sum_list_nonneg) auto
qed

lemma get_or_update [simp]: "get_or v (AList.update s x d) s' = (if s' = s then x else get_or v d s')"
  by (simp add: get_or_def update_conv)

lemma get_or_delete [simp]: "get_or v (AList.delete s d) s' = (if s' = s then v else get_or v d s')"
  by (simp add: get_or_def delete_conv)

section \<open>The invariant\<close>

definition fixed_cost :: "meter \<Rightarrow> turn \<Rightarrow> bool" where
  "fixed_cost m t \<longleftrightarrow> (\<forall>now. turn_cost m now t = turn_cost m 0 t) \<and> 0 \<le> turn_cost m 0 t"

definition counted :: "meter \<Rightarrow> books \<Rightarrow> slot \<Rightarrow> rat" where
  "counted m k s = loop_cost m 0 (take (bk_recorded k s) (bk_turns k s))"

definition covered :: "meter \<Rightarrow> books \<Rightarrow> bool" where
  "covered m k \<longleftrightarrow>
     (\<forall>s. 0 \<le> bk_paid k s \<and> bk_paid k s \<le> get_or 0 (m_reserved m) s) \<and>
     (\<forall>s a. bk_calls k s = Some a \<longrightarrow>
       (\<exists>v row. map_of (m_reserved m) s = Some v \<and> price_of m (ad_model a) = Some row \<and> worst m a row \<le> v))"

definition loops_ok :: "meter \<Rightarrow> books \<Rightarrow> bool" where
  "loops_ok m k \<longleftrightarrow>
     (\<forall>s. list_all (fixed_cost m) (bk_turns k s) \<and> bk_recorded k s \<le> length (bk_turns k s) \<and>
       get_or 0 (m_in_flight m) s = loop_cost m 0 (bk_turns k s) \<and>
       (s \<notin> fst ` set (m_in_flight m) \<longrightarrow> bk_turns k s = []))"

definition balanced :: "rat \<Rightarrow> meter \<Rightarrow> books \<Rightarrow> bool" where
  "balanced c m k \<longleftrightarrow>
     bk_billed k = m_settled m + left_in (counted m k) (m_in_flight m) \<and>
     bk_billed k + left_in (bk_paid k) (m_reserved m) \<le> c"

definition in_books :: "rat \<Rightarrow> meter \<Rightarrow> books \<Rightarrow> bool" where
  "in_books c m k \<longleftrightarrow> m_ceiling m = Some c \<and> wf_meter m \<and> covered m k \<and> loops_ok m k \<and> balanced c m k"

text \<open>The books depend on the tariff and the money alone.\<close>

lemma moneyD:
  assumes "money m' = money m"
  shows "m_settled m' = m_settled m" "m_in_flight m' = m_in_flight m" "m_reserved m' = m_reserved m"
  using assms by (simp_all add: money_def)

lemma tariff_fixed:
  assumes "tariff m' = tariff m"
  shows "fixed_cost m' = fixed_cost m"
  unfolding fun_eq_iff fixed_cost_def tariff_turn_cost [OF assms] by simp

lemma tariff_counted:
  assumes "tariff m' = tariff m"
  shows "counted m' = counted m"
  unfolding fun_eq_iff counted_def tariff_loop_cost [OF assms] by simp

lemma covered_cong:
  assumes "tariff m' = tariff m" "m_reserved m' = m_reserved m"
  shows "covered m' k = covered m k"
  unfolding covered_def assms(2) tariff_price [OF assms(1)] tariff_worst [OF assms(1)] by (rule refl)

lemma loops_cong:
  assumes "tariff m' = tariff m" "m_in_flight m' = m_in_flight m"
  shows "loops_ok m' k = loops_ok m k"
  unfolding loops_ok_def assms(2) tariff_fixed [OF assms(1)] tariff_loop_cost [OF assms(1)] by (rule refl)

lemma quiet_books:
  assumes "in_books c m k" "tariff m' = tariff m" "money m' = money m" "wf_meter m \<longrightarrow> wf_meter m'"
  shows "in_books c m' k"
  using assms(1,4)
  unfolding in_books_def balanced_def moneyD [OF assms(3)] tariff_ceiling [OF assms(2)] tariff_counted [OF assms(2)]
    covered_cong [OF assms(2) moneyD(3) [OF assms(3)]] loops_cong [OF assms(2) moneyD(2) [OF assms(3)]]
  by simp

lemma counted_ge:
  assumes "loops_ok m k"
  shows "0 \<le> counted m k s" "counted m k s \<le> get_or 0 (m_in_flight m) s"
    "s \<notin> fst ` set (m_in_flight m) \<Longrightarrow> counted m k s = 0"
proof -
  have fixed: "list_all (fixed_cost m) (bk_turns k s)" and total: "get_or 0 (m_in_flight m) s = loop_cost m 0 (bk_turns k s)"
    using assms by (auto simp: loops_ok_def)
  have nonneg: "0 \<le> loop_cost m 0 ts" if "set ts \<subseteq> set (bk_turns k s)" for ts
    unfolding loop_cost_def using fixed that by (intro sum_list_nonneg) (auto simp: list_all_iff fixed_cost_def)
  show "0 \<le> counted m k s" unfolding counted_def by (intro nonneg set_take_subset)
  have "loop_cost m 0 (bk_turns k s) = counted m k s + loop_cost m 0 (drop (bk_recorded k s) (bk_turns k s))"
    unfolding counted_def loop_cost_def by (metis append_take_drop_id map_append sum_list_append)
  with nonneg [of "drop (bk_recorded k s) (bk_turns k s)"] total
  show "counted m k s \<le> get_or 0 (m_in_flight m) s" by (simp add: set_drop_subset)
  show "s \<notin> fst ` set (m_in_flight m) \<Longrightarrow> counted m k s = 0"
    using assms by (simp add: loops_ok_def counted_def loop_cost_def)
qed

end
