(* ===== verification/Spend_Books.thy ===== *)
theory Spend_Books
  imports Spend_Runs
begin

text \<open>
  Every step of the meter keeps the books: what is billed is what is settled and what running loops
  have spent beyond what is already recorded, and with what the reservations still hold it never
  passes the ceiling.
\<close>

lemma in_booksD:
  assumes "in_books c m k"
  shows "m_ceiling m = Some c" "wf_meter m" "covered m k" "loops_ok m k" "balanced c m k"
    "distinct (map fst (m_reserved m))" "distinct (map fst (m_in_flight m))"
  using assms by (simp_all add: in_books_def wf_meter_def slots_ok_def)

lemma paid_le: "covered m k \<Longrightarrow> 0 \<le> bk_paid k s" "covered m k \<Longrightarrow> bk_paid k s \<le> get_or 0 (m_reserved m) s"
  by (simp_all add: covered_def)

lemma paid_zero: "covered m k \<Longrightarrow> s \<notin> fst ` set (m_reserved m) \<Longrightarrow> bk_paid k s = 0"
  using paid_le [of m k s] by (simp add: get_or_notin)

text \<open>Only the calls' part of the books changed, or only the loops'.\<close>

lemma loops_ok_calls: "loops_ok m (k\<lparr>bk_calls := calls, bk_paid := paid\<rparr>) = loops_ok m k"
  "counted m (k\<lparr>bk_calls := calls, bk_paid := paid\<rparr>) = counted m k"
  "loops_ok m (k\<lparr>bk_billed := x\<rparr>) = loops_ok m k" "counted m (k\<lparr>bk_billed := x\<rparr>) = counted m k"
  "loops_ok m (k\<lparr>bk_paid := paid\<rparr>) = loops_ok m k" "counted m (k\<lparr>bk_paid := paid\<rparr>) = counted m k"
  "loops_ok m (k\<lparr>bk_calls := calls\<rparr>) = loops_ok m k" "counted m (k\<lparr>bk_calls := calls\<rparr>) = counted m k"
  by (simp_all add: loops_ok_def counted_def fun_eq_iff)

lemma covered_loops: "covered m (k\<lparr>bk_turns := ts, bk_recorded := ns\<rparr>) = covered m k"
  "covered m (k\<lparr>bk_recorded := ns\<rparr>) = covered m k" "covered m (k\<lparr>bk_billed := x\<rparr>) = covered m k"
  "covered m (k\<lparr>bk_turns := ts\<rparr>) = covered m k"
  by (simp_all add: covered_def)

lemma left_deleted [simp]: "left_in (f(s := x)) (AList.delete s d) = left_in f (AList.delete s d)"
  by (rule left_cong) (metis delete_notin_dom fun_upd_other)

section \<open>Admissions\<close>

lemma admitted_books:
  assumes inv: "in_books c m k" and adm: "admit_pass cl now noted left cancelled m = (Admitted b, m')"
    and s: "cl_slot cl = Some s" and row: "price_of m (cl_model cl) = Some row"
  shows "in_books c m' (k\<lparr>bk_calls := (bk_calls k)(s \<mapsto> admission_of m cl now b), bk_paid := (bk_paid k)(s := 0)\<rparr>)"
proof -
  let ?k = "k\<lparr>bk_calls := (bk_calls k)(s \<mapsto> admission_of m cl now b), bk_paid := (bk_paid k)(s := 0)\<rparr>"
  define w where "w = worst m (admission_of m cl now b) row"
  note D = in_booksD [OF inv]
  note E = admitted_effect [OF D(2) adm s row, folded w_def]
  have m': "m_settled m' = m_settled m" "m_in_flight m' = m_in_flight m" "m_reserved m' = AList.update s w (m_reserved m)"
    using E(3) by (simp_all add: money_def)
  have "covered m' ?k"
    unfolding covered_def m'(3) tariff_price [OF E(1)] tariff_worst [OF E(1)]
    using D(3) row E(5) by (auto simp: covered_def update_conv w_def admission_of_def)
  moreover have "loops_ok m' ?k"
    using D(4) loops_cong [OF E(1) m'(2)] by (simp add: loops_ok_calls)
  moreover have "balanced c m' ?k"
  proof -
    have "left_in ((bk_paid k)(s := 0)) (AList.update s w (m_reserved m)) \<le> total_of (AList.update s w (m_reserved m))"
      using paid_le(1) [OF D(3)] by (intro left_le) simp
    also have "\<dots> = others_hold m (Some s) + w"
      unfolding total_update [OF D(6)] others_hold_def total_others [OF D(6)] by simp
    finally have "left_in ((bk_paid k)(s := 0)) (AList.update s w (m_reserved m)) \<le> others_hold m (Some s) + w" .
    moreover have "left_in (counted m k) (m_in_flight m) \<le> total_of (m_in_flight m)"
      using counted_ge(1) [OF D(4)] by (rule left_le)
    ultimately show ?thesis
      using D(5) E(4) D(1) by (simp add: balanced_def m' loops_ok_calls tariff_counted [OF E(1)])
  qed
  ultimately show ?thesis using E(2) tariff_ceiling [OF E(1)] D(1) by (simp add: in_books_def)
qed

lemma dropped_call_books:
  assumes "in_books c m k"
  shows "in_books c m (k\<lparr>bk_calls := (bk_calls k)(s := None)\<rparr>)"
  using assms unfolding in_books_def
  by (auto simp: loops_ok_calls covered_def balanced_def)

section \<open>Charges\<close>

lemma call_charged_books:
  assumes inv: "in_books c m k" and settle: "settle now usage model call estimated m = (Some paid, m')"
    and a: "bk_calls k s = Some a" "ad_model a = model" "bk_paid k s = 0"
    and fits: "\<forall>u. priced_usage m model usage estimated = Some u \<longrightarrow> fits m a now u"
  shows "in_books c m' (k\<lparr>bk_paid := (bk_paid k)(s := paid), bk_billed := bk_billed k + paid\<rparr>)"
proof -
  let ?k = "k\<lparr>bk_paid := (bk_paid k)(s := paid), bk_billed := bk_billed k + paid\<rparr>"
  note D = in_booksD [OF inv]
  obtain u source where u: "priced_usage m model usage estimated = Some u" "charged m now u model = Some (paid, source)"
    using settle_effect(2) [OF settle] by blast
  obtain v row where v: "map_of (m_reserved m) s = Some v" "price_of m (ad_model a) = Some row" "worst m a row \<le> v"
    using D(3) a(1) unfolding covered_def by meson
  have "fair_price row" using fair_price_of [of m] D(2) v(2) by (auto simp: wf_meter_def)
  then have paid: "0 \<le> paid" "paid \<le> v"
    using charged_fits [of m a row now u] v u fits a(2) by auto
  have s: "settles m (Some paid) m'" by (rule settle_effect(1) [OF settle])
  then have m': "tariff m' = tariff m" "wf_meter m'" "m_settled m' = m_settled m + paid"
    "m_in_flight m' = m_in_flight m" "m_reserved m' = m_reserved m"
    using D(2) by (simp_all add: settles_def money_def paid_of_def)
  have "s \<in> fst ` set (m_reserved m)" using v(1) by (force dest: map_of_SomeD)
  then have left: "left_in ((bk_paid k)(s := paid)) (m_reserved m) = left_in (bk_paid k) (m_reserved m) - paid"
    using left_fun [OF D(6)] a(3) by simp
  have "get_or 0 (m_reserved m) s = v" by (simp add: get_or_def v(1))
  then have "covered m' ?k"
    unfolding covered_cong [OF m'(1,5)] using D(3) paid by (auto simp: covered_def)
  moreover have "loops_ok m' ?k"
    using D(4) loops_cong [OF m'(1,4)] by (simp add: loops_ok_calls)
  moreover have "balanced c m' ?k"
    using D(5) by (simp add: balanced_def m' left loops_ok_calls tariff_counted [OF m'(1)])
  ultimately show ?thesis using m'(2) tariff_ceiling [OF m'(1)] D(1) by (simp add: in_books_def)
qed

lemma call_not_charged_books:
  assumes "in_books c m k" "settle now usage model call estimated m = (None, m')"
  shows "in_books c m' k"
  using quiet_books [OF assms(1)] settle_effect(1) [OF assms(2)]
  by (simp add: settles_def paid_of_def money_def)

section \<open>Releases\<close>

lemma released_books:
  assumes inv: "in_books c m k" and m': "tariff m' = tariff m" "wf_meter m'" "m_settled m' = m_settled m"
    "m_in_flight m' = m_in_flight m" "m_reserved m' = AList.delete s (m_reserved m)"
  shows "in_books c m' (k\<lparr>bk_calls := (bk_calls k)(s := None), bk_paid := (bk_paid k)(s := 0)\<rparr>)"
proof -
  let ?k = "k\<lparr>bk_calls := (bk_calls k)(s := None), bk_paid := (bk_paid k)(s := 0)\<rparr>"
  note D = in_booksD [OF inv]
  have "covered m' ?k"
    unfolding covered_def m'(5) tariff_price [OF m'(1)] tariff_worst [OF m'(1)]
    using D(3) by (auto simp: covered_def delete_conv)
  moreover have "loops_ok m' ?k" using D(4) loops_cong [OF m'(1,4)] by (simp add: loops_ok_calls)
  moreover have "left_in ((bk_paid k)(s := 0)) (AList.delete s (m_reserved m)) \<le> left_in (bk_paid k) (m_reserved m)"
    using left_delete [OF D(6), of "bk_paid k" s] paid_le(2) [OF D(3), of s] by (simp add: left_deleted)
  then have "balanced c m' ?k"
    using D(5) by (simp add: balanced_def m' loops_ok_calls tariff_counted [OF m'(1)])
  ultimately show ?thesis using m'(2) tariff_ceiling [OF m'(1)] D(1) by (simp add: in_books_def)
qed

section \<open>Loops\<close>

lemma loop_cost_snoc: "loop_cost m now (ts @ [t]) = loop_cost m now ts + turn_cost m now t"
  by (simp add: loop_cost_def)

lemma fixed_loop_cost: "list_all (fixed_cost m) ts \<Longrightarrow> loop_cost m now ts = loop_cost m 0 ts"
  by (induction ts) (auto simp: loop_cost_def fixed_cost_def)

lemma stamped_sent: "stamped u \<Longrightarrow> sent_at u now = sent_at u now'"
  by (auto simp: stamped_def sent_at_def split: option.splits)

lemma stamped_charged: "stamped u \<Longrightarrow> charged m now u model = charged m now' u model"
  using stamped_sent [of u now now'] by (simp add: charged_def Let_def split: option.split)

lemma proper_turn_cost:
  assumes inv: "in_books c m k" and t: "proper_turn m (bk_calls k s) now t"
  shows "fixed_cost m t" "turn_cost m now t \<le> get_or 0 (m_reserved m) s"
proof -
  note D = in_booksD [OF inv]
  have held: "0 \<le> get_or 0 (m_reserved m) s" using paid_le [OF D(3), of s] by linarith
  obtain model usage where mu: "t = (model, usage)" by (cases t)
  consider (none) "usage = None"
    | (unpriced) u where "usage = Some u" "price_of m model = None" "u_cost u = None"
    | (within) u a where "usage = Some u" "stamped u" "bk_calls k s = Some a" "ad_model a = model" "fits m a now u"
    using t by (auto simp: proper_turn_def mu split: option.splits)
  then have "fixed_cost m t \<and> turn_cost m now t \<le> get_or 0 (m_reserved m) s"
  proof cases
    case none
    then show ?thesis using held by (simp add: mu fixed_cost_def turn_cost_def)
  next
    case unpriced
    then have "charged m n u model = None" for n by (simp add: charged_def)
    then show ?thesis using held unpriced by (simp add: mu fixed_cost_def turn_cost_def)
  next
    case within
    obtain v row where v: "map_of (m_reserved m) s = Some v" "price_of m (ad_model a) = Some row" "worst m a row \<le> v"
      using D(3) within(3) unfolding covered_def by meson
    have "fair_price row" using fair_price_of [of m] D(2) v(2) by (auto simp: wf_meter_def)
    then obtain x source where x: "charged m now u model = Some (x, source)" "0 \<le> x" "x \<le> worst m a row"
      using charged_fits [of m a row now u] v within by auto
    have "turn_cost m n t = x" for n
      using stamped_charged [OF within(2), of m n model now] x(1) within(1) by (simp add: mu turn_cost_def)
    moreover have "get_or 0 (m_reserved m) s = v" by (simp add: get_or_def v(1))
    ultimately show ?thesis using x v(3) by (simp add: fixed_cost_def)
  qed
  then show "fixed_cost m t" "turn_cost m now t \<le> get_or 0 (m_reserved m) s" by simp_all
qed

text \<open>A loop's total is brought up to \<open>x\<close> more, and what its turn held is given back.\<close>

lemma noted_books:
  assumes inv: "in_books c m k" and m': "tariff m' = tariff m" "wf_meter m'"
    "money m' = (m_settled m, AList.update s (loop_cost m 0 ts) (m_in_flight m), AList.delete s (m_reserved m))"
    and s: "bk_paid k s = 0" "bk_recorded k s = 0"
    and ts: "list_all (fixed_cost m) ts" "loop_cost m 0 ts = get_or 0 (m_in_flight m) s + x"
    and x: "x \<le> get_or 0 (m_reserved m) s"
  shows "in_books c m' (k\<lparr>bk_turns := (bk_turns k)(s := ts), bk_calls := (bk_calls k)(s := None), bk_billed := bk_billed k + x\<rparr>)"
proof -
  let ?k = "k\<lparr>bk_turns := (bk_turns k)(s := ts), bk_calls := (bk_calls k)(s := None), bk_billed := bk_billed k + x\<rparr>"
  note D = in_booksD [OF inv]
  have mm: "m_settled m' = m_settled m" "m_in_flight m' = AList.update s (loop_cost m 0 ts) (m_in_flight m)"
    "m_reserved m' = AList.delete s (m_reserved m)"
    using m'(3) by (simp_all add: money_def)
  have counted: "counted m (k\<lparr>bk_turns := (bk_turns k)(s := ts), bk_calls := cs, bk_billed := y\<rparr>) = counted m k" for cs y
    using s(2) by (auto simp: counted_def fun_eq_iff loop_cost_def)
  have "covered m' ?k"
    unfolding covered_def mm tariff_price [OF m'(1)] tariff_worst [OF m'(1)]
    using D(3) s(1) by (auto simp: covered_def delete_conv)
  moreover have "loops_ok m' ?k"
    unfolding loops_ok_def mm tariff_fixed [OF m'(1)] tariff_loop_cost [OF m'(1)]
    using D(4) ts(1) s(2) by (auto simp: loops_ok_def dom_update)
  moreover have "balanced c m' ?k"
  proof -
    have "left_in (counted m k) (AList.update s (loop_cost m 0 ts) (m_in_flight m)) = left_in (counted m k) (m_in_flight m) + x"
      using left_update [OF D(7), of s "counted m k"] counted_ge(3) [OF D(4)] ts(2) by simp
    moreover have "left_in (bk_paid k) (AList.delete s (m_reserved m)) + x \<le> left_in (bk_paid k) (m_reserved m)"
      using left_delete [OF D(6), of "bk_paid k" s] x s(1) by (simp add: get_or_notin split: if_splits)
    ultimately show ?thesis
      using D(5) by (simp add: balanced_def mm tariff_counted [OF m'(1)] counted)
  qed
  ultimately show ?thesis using m'(2) tariff_ceiling [OF m'(1)] D(1) by (simp add: in_books_def)
qed

lemma loopsD:
  assumes "in_books c m k"
  shows "list_all (fixed_cost m) (bk_turns k s)" "get_or 0 (m_in_flight m) s = loop_cost m 0 (bk_turns k s)"
  using in_booksD(4) [OF assms] by (simp_all add: loops_ok_def)

lemma turn_noted_books:
  assumes inv: "in_books c m k" and t: "proper_turn m (bk_calls k s) now t" and s: "bk_paid k s = 0" "bk_recorded k s = 0"
  shows "in_books c (note_loop s (bk_turns k s @ [t]) now m)
    (k\<lparr>bk_turns := (bk_turns k)(s := bk_turns k s @ [t]), bk_calls := (bk_calls k)(s := None),
       bk_billed := bk_billed k + turn_cost m now t\<rparr>)"
proof -
  note D = in_booksD [OF inv] and L = loopsD [OF inv, of s] and T = proper_turn_cost [OF inv t]
  have fixed: "list_all (fixed_cost m) (bk_turns k s @ [t])" using L(1) T(1) by simp
  have cost: "turn_cost m 0 t = turn_cost m now t" using T(1) unfolding fixed_cost_def by metis
  have total: "loop_cost m 0 (bk_turns k s @ [t]) = get_or 0 (m_in_flight m) s + turn_cost m now t"
    unfolding loop_cost_snoc cost L(2) by (rule refl)
  note effect = note_loop_effect [where s = s and turns = "bk_turns k s @ [t]" and now = now and m = m]
  show ?thesis
    by (rule noted_books [OF inv effect(1) effect(3) [OF D(2)] effect(2) [unfolded fixed_loop_cost [OF fixed, of now]] s fixed total T(2)])
qed

lemma no_turn_noted_books:
  assumes inv: "in_books c m k" and s: "bk_paid k s = 0" "bk_recorded k s = 0"
  shows "in_books c (note_loop s (bk_turns k s) now m) (k\<lparr>bk_calls := (bk_calls k)(s := None)\<rparr>)"
proof -
  note D = in_booksD [OF inv] and L = loopsD [OF inv, of s]
  have held: "0 \<le> get_or 0 (m_reserved m) s" using paid_le(2) [OF D(3), of s] s(1) by simp
  have total: "loop_cost m 0 (bk_turns k s) = get_or 0 (m_in_flight m) s + 0" by (simp only: L(2) add_0_right)
  note effect = note_loop_effect [where s = s and turns = "bk_turns k s" and now = now and m = m]
  have "in_books c (note_loop s (bk_turns k s) now m)
      (k\<lparr>bk_turns := (bk_turns k)(s := bk_turns k s), bk_calls := (bk_calls k)(s := None), bk_billed := bk_billed k + 0\<rparr>)"
    by (rule noted_books [OF inv effect(1) effect(3) [OF D(2)] effect(2) [unfolded fixed_loop_cost [OF L(1), of now]] s L(1) total held])
  then show ?thesis by (simp only: fun_upd_triv add_0_right) simp
qed

text \<open>A turn is recorded: what it costs is settled, and counted once more.\<close>

lemma settle_turn:
  assumes "settle now usage model LOOP_TURN_CALL None m = (r, m')"
  shows "settles m r m'" "paid_of r = turn_cost m now (model, usage)"
proof -
  show "settles m r m'" by (rule settle_effect(1) [OF assms])
  show "paid_of r = turn_cost m now (model, usage)"
  proof (cases usage)
    case None
    then have "r = None" using assms by (simp add: settle_def)
    then show ?thesis using None by (simp add: paid_of_def turn_cost_def)
  next
    case (Some u)
    then have "r = map_option fst (charged m now u model)"
      using measured_charge(2) [of now u model "clean_name model" LOOP_TURN_CALL m r m'] assms by (simp add: settle_def)
    then show ?thesis
      using Some by (cases "charged m now u model") (auto simp: paid_of_def turn_cost_def)
  qed
qed

lemma turn_recorded_books:
  assumes inv: "in_books c m k" and n: "bk_recorded k s < length (bk_turns k s)"
    and t: "bk_turns k s ! bk_recorded k s = (model, usage)"
    and settle: "settle now usage model LOOP_TURN_CALL None m = (r, m')"
  shows "in_books c m' (k\<lparr>bk_recorded := (bk_recorded k)(s := bk_recorded k s + 1)\<rparr>)"
proof -
  let ?k = "k\<lparr>bk_recorded := (bk_recorded k)(s := bk_recorded k s + 1)\<rparr>"
  let ?x = "turn_cost m now (model, usage)"
  note D = in_booksD [OF inv] and L = loopsD [OF inv, of s]
  have m': "tariff m' = tariff m" "wf_meter m'" "m_settled m' = m_settled m + ?x"
    "m_in_flight m' = m_in_flight m" "m_reserved m' = m_reserved m"
    using settle_turn [OF settle] D(2) by (simp_all add: settles_def money_def)
  have "fixed_cost m (model, usage)" using L(1) n t by (metis list_all_length)
  then have cost: "turn_cost m 0 (model, usage) = ?x" unfolding fixed_cost_def by metis
  have "counted m ?k = (counted m k)(s := counted m k s + ?x)"
    using n t cost by (auto simp: fun_eq_iff counted_def take_Suc_conv_app_nth loop_cost_snoc)
  moreover have "s \<in> fst ` set (m_in_flight m)" using D(4) n by (auto simp: loops_ok_def)
  ultimately have left: "left_in (counted m ?k) (m_in_flight m) = left_in (counted m k) (m_in_flight m) - ?x"
    by (simp add: left_fun [OF D(7)] del: image_iff)
  have "covered m' ?k" unfolding covered_cong [OF m'(1,5)] using D(3) by (simp add: covered_loops)
  moreover have "loops_ok m' ?k" unfolding loops_cong [OF m'(1,4)] using D(4) n by (auto simp: loops_ok_def)
  moreover have "balanced c m' ?k"
    using D(5) left by (simp add: balanced_def m' tariff_counted [OF m'(1)])
  ultimately show ?thesis using m'(2) tariff_ceiling [OF m'(1)] D(1) by (simp add: in_books_def)
qed

lemma loop_forgotten_books:
  assumes inv: "in_books c m k" and n: "bk_recorded k s = length (bk_turns k s)"
  shows "in_books c (forget_loop s now m)
    (k\<lparr>bk_calls := (bk_calls k)(s := None), bk_paid := (bk_paid k)(s := 0), bk_turns := (bk_turns k)(s := []),
       bk_recorded := (bk_recorded k)(s := 0)\<rparr>)"
proof -
  let ?k = "k\<lparr>bk_calls := (bk_calls k)(s := None), bk_paid := (bk_paid k)(s := 0), bk_turns := (bk_turns k)(s := []),
       bk_recorded := (bk_recorded k)(s := 0)\<rparr>"
  let ?m = "forget_loop s now m"
  note D = in_booksD [OF inv] and L = loopsD [OF inv, of s]
  note m' = forget_loop_effect(1) [where s = s and now = now and m = m] forget_loop_effect(3) [OF D(2), where s = s and now = now]
  have mm: "m_settled ?m = m_settled m" "m_in_flight ?m = AList.delete s (m_in_flight m)"
    "m_reserved ?m = AList.delete s (m_reserved m)"
    using forget_loop_effect(2) [where s = s and now = now and m = m] by (simp_all add: money_def)
  have counted: "counted m ?k = (counted m k)(s := 0)" by (auto simp: fun_eq_iff counted_def loop_cost_def)
  have all: "counted m k s = get_or 0 (m_in_flight m) s" using n L(2) by (simp add: counted_def)
  have "covered ?m ?k"
    unfolding covered_def mm tariff_price [OF m'(1)] tariff_worst [OF m'(1)]
    using D(3) by (auto simp: covered_def delete_conv)
  moreover have "loops_ok ?m ?k"
    unfolding loops_ok_def mm tariff_fixed [OF m'(1)] tariff_loop_cost [OF m'(1)]
    using D(4) by (auto simp: loops_ok_def loop_cost_def delete_keys simp flip: set_map)
  moreover have "balanced c ?m ?k"
    using D(5) left_delete [OF D(6), of "bk_paid k" s] paid_le(2) [OF D(3), of s] left_delete [OF D(7), of "counted m k" s] all
    by (simp add: balanced_def mm tariff_counted [OF m'(1)] counted split: if_splits)
  ultimately show ?thesis using m'(2) tariff_ceiling [OF m'(1)] D(1) by (simp add: in_books_def)
qed

end
