(* ===== verification/Spend_Latch.thy ===== *)
theory Spend_Latch
  imports Spend_Books
begin

text \<open>
  What every step of the meter keeps, put together: the books, and the latch that says the ceiling
  is exhausted, which is final.
\<close>

named_theorems latched \<open>operations that keep the latch once it is set\<close>

section \<open>The books over a run\<close>

lemma frame_books:
  assumes "in_books c m k" "tariff m' = tariff m" "money m' = money m" "wf_meter m' = wf_meter m"
  shows "in_books c m' k"
  using quiet_books [OF assms(1-3)] assms(4) by simp

lemma step_books:
  assumes "spend_step (m, k) (m', k')" "in_books c m k"
  shows "in_books c m' k'"
  using assms
proof (cases rule: spend_step.cases)
  case (admitted cl now noted left cancelled b s)
  then show ?thesis using admitted_books [OF assms(2) admitted(2,3)] by auto
next
  case (admitted_unpriced cl now noted left cancelled b s)
  then show ?thesis
    using dropped_call_books [OF quiet_books [OF assms(2) admitted_unpriced_effect [OF admitted_unpriced(2,4)]]] by simp
next
  case (not_admitted cl now noted left cancelled ans)
  from not_admitted(2) have "tariff m' = tariff m \<and> money m' = money m \<and> wf_meter m' = wf_meter m"
    by (cases rule: admit_pass_cases) (use not_admitted in auto)
  then show ?thesis using frame_books [OF assms(2)] not_admitted(1) by simp
next
  case (refusal_recorded r now)
  then show ?thesis using frame_books [OF assms(2) after_frame(4-6)] by simp
next
  case (call_charged now usage model call estimated paid s a)
  then show ?thesis using call_charged_books [OF assms(2)] by simp
next
  case (call_not_charged now usage model call estimated)
  then show ?thesis using call_not_charged_books [OF assms(2)] by simp
next
  case (released s now)
  have "in_books c (release s now m) (k\<lparr>bk_calls := (bk_calls k)(s := None), bk_paid := (bk_paid k)(s := 0)\<rparr>)"
    using release_effect(2) [of s now m]
    by (intro released_books [OF assms(2) release_effect(1) release_effect(3) [OF in_booksD(2) [OF assms(2)]]])
      (simp_all add: money_def)
  then show ?thesis using released by simp
next
  case (turn_noted s now t)
  then show ?thesis using turn_noted_books [OF assms(2)] by simp
next
  case (no_turn_noted s now)
  then show ?thesis using no_turn_noted_books [OF assms(2)] by simp
next
  case (turn_recorded s model usage now r)
  then show ?thesis using turn_recorded_books [OF assms(2)] by simp
next
  case (loop_forgotten s now)
  then show ?thesis using loop_forgotten_books [OF assms(2)] by simp
qed (use frame_books [OF assms(2)] in \<open>simp_all add: frame keeps_wf quiet_books [OF assms(2)]\<close>)

lemma new_meter_books:
  assumes "0 \<le> c" "\<forall>p\<in>snd ` set ops \<union> snd ` set tab. fair_price p"
  shows "in_books c (new_meter (Some c) ops tab hours declared) no_books"
  using assms
  by (simp add: in_books_def new_meter_def Let_def wf_meter_def measures_ok_def plan_ok_def prices_ok_def slots_ok_def
      covered_def no_books_def loops_ok_def balanced_def counted_def loop_cost_def)

lemma run_books:
  assumes "spend_step\<^sup>*\<^sup>* s s'" "in_books c (fst s) (snd s)"
  shows "in_books c (fst s') (snd s')"
  using assms
proof (induction rule: rtranclp_induct)
  case (step s' s'')
  then show ?case using step_books [of "fst s'" "snd s'" "fst s''" "snd s''" c] by simp
qed

text \<open>What the books say of the ceiling.\<close>

lemma in_books_bound:
  assumes "in_books c m k"
  shows "bk_billed k \<le> c" "bk_billed k \<le> spent m"
proof -
  note D = in_booksD [OF assms]
  have "0 \<le> left_in (bk_paid k) (m_reserved m)" using paid_le(2) [OF D(3)] by (intro left_ge [OF D(6)])
  then show "bk_billed k \<le> c" using D(5) by (simp add: balanced_def)
  have "left_in (counted m k) (m_in_flight m) \<le> total_of (m_in_flight m)" using counted_ge(1) [OF D(4)] by (rule left_le)
  then show "bk_billed k \<le> spent m" using D(5) by (simp add: balanced_def spent_def)
qed

section \<open>The latch\<close>

lemma latched_reached [latched]:
  "m_exhausted m \<noteq> None \<Longrightarrow> m_exhausted (snd (reached m)) = m_exhausted m"
  "m_exhausted m \<noteq> None \<Longrightarrow> m_exhausted (exhaust r m) = m_exhausted m"
  "m_exhausted m \<noteq> None \<Longrightarrow> m_exhausted (snd (exhausted m)) = m_exhausted m"
  by (auto simp: reached_def exhaust_def exhausted_def split: option.splits prod.splits)

lemma latched_after [latched]:
  "m_exhausted m \<noteq> None \<Longrightarrow> m_exhausted (after_refusal r now m) = m_exhausted m"
  "m_exhausted m \<noteq> None \<Longrightarrow> m_exhausted (after_drain now m) = m_exhausted m"
  by (auto simp: after_refusal_def exhaust_if_nothing_fits_def after_drain_def split: option.split)

lemma same_latch [latched]:
  "m_exhausted (note_kind c m) = m_exhausted m" "m_exhausted (begin_stage kinds m) = m_exhausted m"
  "m_exhausted (close_meter m) = m_exhausted m" "m_exhausted (note_unpriced name m) = m_exhausted m"
  "m_exhausted (set_agent_ceiling ag usd tok m) = m_exhausted m" "m_exhausted (drop_slot s m) = m_exhausted m"
  by (simp_all add: note_kind_def begin_stage_def close_meter_def note_unpriced_def set_agent_ceiling_def drop_slot_def Let_def)

lemma same_latch_measured [latched]:
  "m_exhausted (measure_answer u name loop m) = m_exhausted m" "m_exhausted (count_answer u name g m) = m_exhausted m"
  "m_exhausted (measure_call u name call m) = m_exhausted m" "m_exhausted (measure_turn t m) = m_exhausted m"
  by (auto simp: measure_answer_def count_answer_def measure_call_def measure_turn_def Let_def split: prod.split option.split)

lemma same_latch_turns [latched]: "m_exhausted (fold measure_turn turns m) = m_exhausted m"
  by (induction turns arbitrary: m) (simp_all add: latched)

lemma same_latch_agents [latched]:
  "m_exhausted (note_agent_call ag now u model e m) = m_exhausted m" "m_exhausted (snd (agent_refusal ag m)) = m_exhausted m"
  by (auto simp: note_agent_call_def agent_refusal_def Let_def split: prod.split option.split)

lemma same_latch_plan [latched]: "m_exhausted (plan_tail calls m) = m_exhausted m"
  unfolding plan_tail_def
proof (induction calls arbitrary: m)
  case (Cons call calls)
  then show ?case by (cases call) simp
qed simp

lemma same_latch_take [latched]: "m_exhausted (take_call c d priced m) = m_exhausted m"
  by (auto simp: take_call_def Let_def split: prod.split option.split)

lemma same_latch_charge [latched]: "m_exhausted (snd (charge_of now usage model m)) = m_exhausted m"
  by (auto simp: charge_of_def latched split: option.split prod.split)

lemma same_latch_settle [latched]: "m_exhausted (snd (settle now usage model call estimated m)) = m_exhausted m"
proof -
  have est: "m_exhausted (snd (settle_estimate now e model m)) = m_exhausted m" for e
    by (auto simp: settle_estimate_def Let_def latched split: option.split prod.split)
  have out: "m_exhausted (snd (settle_output_estimate now u e model m)) = m_exhausted m" for u e
    by (auto simp: settle_output_estimate_def Let_def latched split: option.split prod.split)
  have call: "m_exhausted (snd (case charge_of now q model m of
      (None, m) \<Rightarrow> (None, m) | (Some (c, source), m) \<Rightarrow> (Some c, m\<lparr>m_settled := m_settled m + c\<rparr>))) = m_exhausted m" for q m
    using same_latch_charge [of now q model m] by (auto split: option.split prod.split)
  show ?thesis by (auto simp: settle_def est out call latched split: option.split)
qed

lemma latched_loops [latched]:
  assumes "m_exhausted m \<noteq> None"
  shows "m_exhausted (release s now m) = m_exhausted m" "m_exhausted (note_loop s turns now m) = m_exhausted m"
    "m_exhausted (forget_loop s now m) = m_exhausted m"
  using assms by (simp_all add: release_def note_loop_def forget_loop_def Let_def latched)

lemma latched_admit [latched]:
  assumes "m_exhausted m \<noteq> None"
  shows "m_exhausted (snd (admit_pass c now noted left cancelled m)) = m_exhausted m"
  using assms by (auto simp: admit_pass_def Let_def latched split: option.split)

lemma step_latched:
  assumes "spend_step (m, k) (m', k')" "m_exhausted m = Some e"
  shows "m_exhausted m' = Some e"
proof -
  have set: "m_exhausted m \<noteq> None" using assms(2) by simp
  have admit: "m_exhausted m' = m_exhausted m" if "admit_pass c now noted left cancelled m = (ans, m')" for c now noted left cancelled ans
    using latched_admit [OF set, of c now noted left cancelled] that by simp
  have settle: "m_exhausted m' = m_exhausted m" if "settle now usage model call estimated m = (r, m')" for now usage model call estimated r
    using same_latch_settle [of now usage model call estimated m] that by simp
  show ?thesis
    using assms(1) set assms(2) by (cases rule: spend_step.cases) (auto simp: latched admit settle)
qed

lemma run_latched:
  assumes "spend_step\<^sup>*\<^sup>* s s'" "m_exhausted (fst s) = Some e"
  shows "m_exhausted (fst s') = Some e"
  using assms
proof (induction rule: rtranclp_induct)
  case (step s' s'')
  then show ?case using step_latched [of "fst s'" "snd s'" "fst s''" "snd s''" e] by simp
qed

text \<open>No step changes the ceiling.\<close>

lemma admit_pass_tariff:
  assumes "admit_pass c now noted left cancelled m = (ans, m')"
  shows "tariff m' = tariff m"
proof -
  have taken: "tariff (take_call c d priced m) = tariff m" for c d priced m
    by (auto simp: take_call_def Let_def tariff_def split: prod.split option.split)
  show ?thesis using assms by (cases rule: admit_pass_cases) (auto simp: taken)
qed

lemma step_ceiling:
  assumes "spend_step (m, k) (m', k')"
  shows "m_ceiling m' = m_ceiling m"
proof -
  note admit = admit_pass_tariff
  have settle: "tariff m' = tariff m" if "settle now usage model call estimated m = (r, m')" for now usage model call estimated r
    using settle_effect(1) [OF that] by (simp add: settles_def)
  have "tariff m' = tariff m"
    using assms
    by (cases rule: spend_step.cases) (auto simp: admit settle frame release_effect note_loop_effect forget_loop_effect)
  then show ?thesis by (rule tariff_ceiling)
qed

lemma run_ceiling:
  assumes "spend_step\<^sup>*\<^sup>* s s'"
  shows "m_ceiling (fst s') = m_ceiling (fst s)"
  using assms
proof (induction rule: rtranclp_induct)
  case (step s' s'')
  then show ?case using step_ceiling [of "fst s'" "snd s'" "fst s''" "snd s''"] by simp
qed simp

text \<open>Exhausted, a kind of call that is not one of the last is refused.\<close>

lemma decide_exhausted:
  "m_exhausted m \<noteq> None \<Longrightarrow> kind \<notin> set AFTER_EXHAUSTION_KINDS \<Longrightarrow>
    dc_refused (decide m kind name price n cap slot holdable now cnt retrying) = Some AlreadyExhausted"
  by (simp add: decide_def)

lemma admit_exhausted:
  assumes "m_exhausted m \<noteq> None" "cl_kind c \<notin> set AFTER_EXHAUSTION_KINDS"
  shows "\<exists>m'. admit_pass c now noted left cancelled m = (Refused AlreadyExhausted, m')"
proof -
  define m1 where "m1 = (if \<not> noted \<and> \<not> cl_attempt c then note_kind c (snd (reached m)) else snd (reached m))"
  have "m_exhausted m1 \<noteq> None" using assms(1) by (simp add: m1_def latched)
  then have "dc_refused (decide_call m1 now c cnt) = Some AlreadyExhausted" for cnt
    using assms(2) by (simp add: decide_call_def Let_def decide_exhausted)
  then show ?thesis by (simp add: admit_pass_def Let_def m1_def [symmetric])
qed

end
