(* ===== verification/Spend_Planned.thy ===== *)
theory Spend_Planned
  imports Spend_Latch
begin

text \<open>
  What the reserve is for: while what is committed and the reserve fit under the ceiling, each planned
  call of the verdict and the report is let through; and a loop turn that is admitted leaves them
  fitting.
\<close>

section \<open>A longer prompt is admitted at no lower price\<close>

definition admission_count :: "price \<Rightarrow> int \<Rightarrow> int" where
  "admission_count p n = (if p_tiers p \<noteq> [] then \<lceil>of_int n * TIER_COUNT_MARGIN\<rceil> else n)"

lemma for_admission_figures:
  "p_output (for_admission p n hour) = p_output (for_prompt p (admission_count p n))"
  "p_input (for_admission p n hour) =
     max (max (p_input (for_prompt p (admission_count p n))) (p_written (for_prompt p (admission_count p n))))
       (if hour then p_written_1h (for_prompt p (admission_count p n)) else 0)"
  by (auto simp: for_admission_def Let_def admission_count_def for_prompt_def)

lemma for_admission_rises:
  assumes "fair_row p" "n \<le> n'"
  shows "p_input (for_admission p n hour) \<le> p_input (for_admission p n' hour)"
    "p_output (for_admission p n hour) \<le> p_output (for_admission p n' hour)"
proof -
  have "of_int n * TIER_COUNT_MARGIN \<le> of_int n' * TIER_COUNT_MARGIN"
    using assms(2) by (simp add: TIER_COUNT_MARGIN_def)
  then have "admission_count p n \<le> admission_count p n'"
    using assms(2) by (auto simp: admission_count_def intro: ceiling_mono)
  then have "no_dearer (for_prompt p (admission_count p n)) (for_prompt p (admission_count p n'))"
    by (rule for_prompt_rises [OF assms(1)])
  then show "p_input (for_admission p n hour) \<le> p_input (for_admission p n' hour)"
    "p_output (for_admission p n hour) \<le> p_output (for_admission p n' hour)"
    by (auto simp: for_admission_figures no_dearer_def)
qed

lemma micros_ge: "0 \<le> s \<Longrightarrow> 0 \<le> micros s"
  by (simp add: micros_def round_even_def Let_def)

lemma highest_rates:
  assumes "fair_price p"
  shows "0 \<le> p_input (for_admission (highest_over p now seconds) n hour)"
    "0 \<le> p_output (for_admission (highest_over p now seconds) n hour)"
proof -
  let ?k = "admission_count (highest_over p now seconds) n"
  have "fair_rates (for_prompt (price_at p now) ?k)"
    by (simp add: price_at_def numbered_fair [OF assms] fair_rates_for_prompt)
  moreover have "no_dearer (for_prompt (price_at p now) ?k) (for_prompt (highest_over p now seconds) ?k)"
    by (rule highest_dominates [OF assms]) (simp_all add: micros_ge)
  ultimately show "0 \<le> p_input (for_admission (highest_over p now seconds) n hour)"
    "0 \<le> p_output (for_admission (highest_over p now seconds) n hour)"
    by (auto simp: for_admission_figures no_dearer_def fair_rates_def)
qed

text \<open>
  The reserve is priced at the rates in force now, an admission at the highest until the call's
  deadline. That the price does not rise for a call: it is admitted at no higher rates than those in
  force. A price without windows never rises.
\<close>

definition no_rise :: "meter \<Rightarrow> instant \<Rightarrow> call \<Rightarrow> bool" where
  "no_rise m now cl =
     (case price_of m (cl_model cl) of
        None \<Rightarrow> True
      | Some p \<Rightarrow>
          let n = tokens_for_chars (cl_prompt_chars cl);
              hour = writes_hour_caches m (cl_model cl);
              until = (case cl_deadline cl of None \<Rightarrow> DEFAULT_DEADLINE | Some s \<Rightarrow> s)
          in p_input (for_admission (highest_over p now until) n hour) \<le> p_input (for_admission (price_at p now) n hour) \<and>
             p_output (for_admission (highest_over p now until) n hour) \<le> p_output (for_admission (price_at p now) n hour))"

lemma windowless_no_rise: "price_of m (cl_model cl) = Some p \<Longrightarrow> p_windows p = [] \<Longrightarrow> no_rise m now cl"
  by (simp add: no_rise_def Let_def highest_over_def price_at_def window_at_def)

section \<open>What is kept for each kind\<close>

definition kept_for :: "meter \<Rightarrow> instant \<Rightarrow> string \<Rightarrow> bool \<Rightarrow> string \<Rightarrow> rat" where
  "kept_for m now taking retrying kind =
     (case reserve_row_of m now taking retrying kind of None \<Rightarrow> 0 | Some r \<Rightarrow> rv_usd r)"

lemma reserve_kept: "reserve m now taking retrying = (\<Sum>kind\<leftarrow>TAIL_ORDER. kept_for m now taking retrying kind)"
proof -
  have "sum_list (map rv_usd (List.map_filter f kinds)) = (\<Sum>k\<leftarrow>kinds. case f k of None \<Rightarrow> 0 | Some r \<Rightarrow> rv_usd r)"
    for f :: "string \<Rightarrow> reserve_row option" and kinds
    by (induction kinds) (auto simp: List.map_filter_simps split: option.split)
  then show ?thesis by (simp add: reserve_def reserve_rows_def kept_for_def)
qed

text \<open>What one planned call of a kind is kept at.\<close>

definition planned_cost :: "meter \<Rightarrow> instant \<Rightarrow> string \<Rightarrow> tail_row \<Rightarrow> price \<Rightarrow> rat" where
  "planned_cost m now kind row p =
     (let prompt = tail_prompt m kind (tl_allowed row);
          price = for_admission (price_at p now) prompt (writes_hour_caches m (tl_model row));
          answer = planned_answer m kind (clean_name (tl_model row)) (tl_cap row)
      in (of_int prompt * p_input price + of_int answer * p_output price) / MILLION)"

lemma kept_for_other: "kind \<noteq> taking \<Longrightarrow> kept_for m now taking retrying kind = kept_for m now [] False kind"
  if "kind \<noteq> []" for kind
  using that by (auto simp: kept_for_def reserve_row_of_def Let_def split: option.split)

lemma kept_for_taken:
  assumes row: "map_of (m_tail m) kind = Some row" "0 < tl_count row" and p: "price_of m (tl_model row) = Some p"
    and answer: "planned_answer m kind (clean_name (tl_model row)) (tl_cap row) \<noteq> 0" and kind: "kind \<noteq> []"
  shows "kept_for m now [] False kind = kept_for m now kind False kind + planned_cost m now kind row p"
proof -
  have "0 \<le> planned_retries m kind (tl_count row)" by (rule planned_retries_ge)
  then show ?thesis
    using assms
    by (cases "tl_count row = 1")
      (auto simp: kept_for_def reserve_row_of_def Let_def planned_cost_def algebra_simps add_divide_distrib)
qed

lemma reserve_taken:
  assumes "map_of (m_tail m) kind = Some row" "0 < tl_count row" "price_of m (tl_model row) = Some p"
    "planned_answer m kind (clean_name (tl_model row)) (tl_cap row) \<noteq> 0" and kind: "kind \<in> set TAIL_KINDS"
  shows "reserve m now [] False = reserve m now kind False + planned_cost m now kind row p"
proof -
  have "kind \<noteq> []" using kind by (auto simp: TAIL_KINDS_def)
  note taken = kept_for_taken [OF assms(1-4) this, of now]
  have other: "k \<noteq> kind \<Longrightarrow> k \<noteq> [] \<Longrightarrow> kept_for m now kind False k = kept_for m now [] False k" for k
    by (rule kept_for_other)
  show ?thesis
    using kind taken other [of "''verdict''"] other [of "''report''"]
    by (auto simp: reserve_kept TAIL_ORDER_def TAIL_KINDS_def)
qed

section \<open>A planned call is let through\<close>

lemma planned_answer_minimum:
  assumes "kind \<in> set TAIL_KINDS" "planned_answer m kind name cap \<noteq> 0"
  shows "minimum m kind name cap = planned_answer m kind name cap"
  using assms by (auto simp: TAIL_KINDS_def minimum_def planned_answer_def Let_def)

lemma others_hold_le:
  assumes "slots_ok m"
  shows "others_hold m slot \<le> total_of (m_reserved m)" "0 \<le> others_hold m slot"
proof -
  have all: "\<forall>x\<in>snd ` set (m_reserved m). 0 \<le> x" using assms by (simp add: slots_ok_def)
  have "total_of (filter P d) \<le> total_of d \<and> 0 \<le> total_of (filter P d)" if "\<forall>x\<in>snd ` set d. 0 \<le> x" for P d
    using that by (induction d) auto
  then show "others_hold m slot \<le> total_of (m_reserved m)" "0 \<le> others_hold m slot"
    using all by (simp_all add: others_hold_def)
qed

lemma others_hold_some: "distinct (map fst (m_reserved m)) \<Longrightarrow> others_hold m (Some s) = total_of (m_reserved m) - get_or 0 (m_reserved m) s"
  unfolding others_hold_def by (rule total_others)

lemma others_hold_none: "others_hold m None = total_of (m_reserved m)"
  by (simp add: others_hold_def)

lemma held_to_let_through:
  assumes "0 \<le> spendable" "of_int least * p_output p / MILLION \<le> spendable" "0 \<le> p_output p" "0 < least"
    and "dc_refused d = None" "dc_room d = room_for spendable p (dc_cap d)" "0 < dc_cap d" "dc_minimum d = least"
  shows "dc_refused (held_to True capped p spendable d) = None"
proof (cases "p_output p = 0")
  case False
  then have "of_int least \<le> spendable * MILLION / p_output p"
    using assms(2,3) by (simp add: MILLION_def field_simps)
  then have "least \<le> \<lfloor>spendable * MILLION / p_output p\<rfloor>" by (simp add: le_floor_iff)
  then have "least \<le> dc_room d" using assms False by (simp add: room_for_def)
  then show ?thesis using assms by (simp add: held_to_def)
qed (use assms in \<open>simp add: held_to_def\<close>)

lemma planned_call_fits:
  assumes wf: "wf_meter m" and row: "map_of (m_tail m) kind = Some row" "0 < tl_count row" "0 < tl_cap row"
    and p: "price_of m (tl_model row) = Some p" and steady: "no_rise m now cl"
    and kind: "kind \<in> set TAIL_KINDS" and answer: "planned_answer m kind (clean_name (tl_model row)) (tl_cap row) \<noteq> 0"
    and room: "m_ceiling m = Some c" "committed m + reserve m now [] False \<le> c"
    and call: "cl_kind cl = kind" "cl_model cl = tl_model row" "cl_cap cl = tl_cap row" "cl_holdable cl" "\<not> cl_retrying cl"
      "tokens_for_chars (cl_prompt_chars cl) \<le> tail_prompt m kind (tl_allowed row)"
  shows "dc_refused (decide_call m now cl True) = None"
proof -
  define n where "n = tokens_for_chars (cl_prompt_chars cl)"
  define prompt where "prompt = tail_prompt m kind (tl_allowed row)"
  define name where "name = clean_name (tl_model row)"
  define least where "least = planned_answer m kind name (tl_cap row)"
  define hour where "hour = writes_hour_caches m (tl_model row)"
  define until where "until = (case cl_deadline cl of None \<Rightarrow> DEFAULT_DEADLINE | Some s \<Rightarrow> s)"
  define adm where "adm = for_admission (highest_over p now until) n hour"
  define price where "price = for_admission (price_at p now) prompt hour"
  have name: "the_model (tl_model row) = name" using p by (auto simp: the_model_def name_def price_of_def Let_def)
  have fair_p: "fair_price p" using wf p fair_price_of [of m] by (auto simp: wf_meter_def)
  then have fair: "fair_row (price_at p now)" using numbered_fair by (auto simp: price_at_def)
  have n: "0 \<le> n" "n \<le> prompt" using call(6) by (simp_all add: n_def prompt_def tokens_for_chars_def)
  have rates: "0 \<le> p_input adm" "0 \<le> p_output adm" by (simp_all add: adm_def highest_rates [OF fair_p])
  have "p_input adm \<le> p_input (for_admission (price_at p now) n hour)" "p_output adm \<le> p_output (for_admission (price_at p now) n hour)"
    using steady p call(2) by (simp_all add: no_rise_def Let_def adm_def until_def n_def hour_def)
  then have less: "p_input adm \<le> p_input price" "p_output adm \<le> p_output price"
    using for_admission_rises [OF fair n(2), of hour] by (simp_all add: price_def)
  have "measures_ok m" using wf by (simp add: wf_meter_def)
  then have least: "0 < least" "minimum m kind name (tl_cap row) = least"
    using planned_answer_ge [of m "tl_cap row" kind name] row(3) answer planned_answer_minimum [OF kind, of m name "tl_cap row"]
    by (auto simp: least_def name_def)
  define kept where "kept = reserve m now kind False"
  have reserve: "reserve m now [] False = kept + planned_cost m now kind row p"
    unfolding kept_def by (rule reserve_taken [OF row(1,2) p answer kind])
  have cost: "planned_cost m now kind row p = (of_int prompt * p_input price + of_int least * p_output price) / MILLION"
    by (simp add: planned_cost_def Let_def price_def prompt_def hour_def least_def name_def)
  define spendable where "spendable = c - (m_settled m + total_of (m_in_flight m) + others_hold m (cl_slot cl)) - kept
    - of_int n * p_input adm / MILLION"
  have "of_int n * p_input adm + of_int least * p_output adm \<le> of_int prompt * p_input price + of_int least * p_output price"
    using n less least rates by (intro add_mono mult_mono) auto
  then have "of_int n * p_input adm / MILLION + of_int least * p_output adm / MILLION \<le> planned_cost m now kind row p"
    by (simp add: cost MILLION_def add_divide_distrib [symmetric] divide_right_mono)
  moreover have "others_hold m (cl_slot cl) \<le> total_of (m_reserved m)"
    using wf by (intro others_hold_le) (simp add: wf_meter_def)
  ultimately have spendable: "of_int least * p_output adm / MILLION \<le> spendable"
    using room(2) reserve by (simp add: spendable_def committed_def)
  moreover have "0 \<le> of_int least * p_output adm / MILLION" using least rates by (simp add: MILLION_def)
  ultimately have pos: "0 \<le> spendable" by linarith
  have priced: "admission_price m (tl_model row) now (cl_deadline cl) n = Some adm"
    using p call(2) by (simp add: admission_price_def adm_def hour_def until_def)
  have after: "kind \<in> set AFTER_EXHAUSTION_KINDS" "kind \<notin> set LOOP_KINDS"
    using kind by (auto simp: AFTER_EXHAUSTION_KINDS_def TAIL_KINDS_def LOOP_KINDS_def)
  have "decide_call m now cl True = fit_call m kind name adm n (tl_cap row) False (cl_slot cl) True now True False"
    using call row(3) after(1) priced by (simp add: decide_call_def decide_def Let_def n_def [symmetric] name)
  also have "\<dots> = held_to True False adm spendable ((new_decision (tl_cap row))\<lparr>
        dc_available := max 0 (spendable + of_int n * p_input adm / MILLION), dc_reserve := kept,
        dc_input_cost := of_int n * p_input adm / MILLION, dc_room := room_for spendable adm (tl_cap row), dc_minimum := least\<rparr>)"
    using kind after(2) by (simp add: fit_call_def Let_def least(2) room(1) kept_def [symmetric] spendable_def)
  finally have decided: "decide_call m now cl True = held_to True False adm spendable ((new_decision (tl_cap row))\<lparr>
        dc_available := max 0 (spendable + of_int n * p_input adm / MILLION), dc_reserve := kept,
        dc_input_cost := of_int n * p_input adm / MILLION, dc_room := room_for spendable adm (tl_cap row), dc_minimum := least\<rparr>)" .
  show ?thesis
    unfolding decided by (rule held_to_let_through [OF pos spendable rates(2) least(1)]) (simp_all add: new_decision_def row(3))
qed

text \<open>
  A planned call as the plan has it, and no validation retry: of the row's model, which has a price,
  and with its cap, which is some, no longer than the prompt it is planned at, its output held to
  what is left, and the plan sized, that is, with an answer planned.
\<close>

definition planned_call :: "meter \<Rightarrow> call \<Rightarrow> bool" where
  "planned_call m cl \<longleftrightarrow>
     cl_kind cl \<in> set TAIL_KINDS \<and> cl_holdable cl \<and> \<not> cl_retrying cl \<and>
     (case map_of (m_tail m) (cl_kind cl) of
        None \<Rightarrow> False
      | Some row \<Rightarrow>
          0 < tl_count row \<and> 0 < tl_cap row \<and> cl_model cl = tl_model row \<and> cl_cap cl = tl_cap row \<and>
          tokens_for_chars (cl_prompt_chars cl) \<le> tail_prompt m (cl_kind cl) (tl_allowed row) \<and>
          planned_answer m (cl_kind cl) (clean_name (tl_model row)) (tl_cap row) \<noteq> 0 \<and>
          price_of m (tl_model row) \<noteq> None)"

text \<open>What the reserve and the plan are computed from.\<close>

definition same_plan :: "meter \<Rightarrow> meter \<Rightarrow> bool" where
  "same_plan m m' \<longleftrightarrow>
     tariff m' = tariff m \<and> m_tail m' = m_tail m \<and> m_smallest_loop_prompt m' = m_smallest_loop_prompt m \<and>
     m_inputs m' = m_inputs m \<and> m_loop_inputs m' = m_loop_inputs m \<and> m_answers m' = m_answers m \<and>
     m_largest_loop m' = m_largest_loop m \<and> m_largest_single m' = m_largest_single m \<and>
     (\<forall>kind\<in>set TAIL_KINDS. map_of (m_calls_made m') kind = map_of (m_calls_made m) kind) \<and>
     (\<forall>key. key \<noteq> ''loop'' \<longrightarrow> map_of (m_largest_prompt m') key = map_of (m_largest_prompt m) key)"

lemma same_plan_figures:
  assumes "same_plan m m'"
  shows "tail_prompt m' = tail_prompt m" "planned_answer m' = planned_answer m" "cache_share m' = cache_share m"
    "price_of m' = price_of m" "writes_hour_caches m' = writes_hour_caches m"
    "kind \<in> set TAIL_KINDS \<Longrightarrow> planned_retries m' kind = planned_retries m kind" "m_tail m' = m_tail m"
    "get_or 0 (m_largest_prompt m') (''tail:'' @ kind) = get_or 0 (m_largest_prompt m) (''tail:'' @ kind)"
proof -
  have t: "tariff m' = tariff m" using assms by (simp add: same_plan_def)
  show "price_of m' = price_of m" "writes_hour_caches m' = writes_hour_caches m"
    by (rule tariff_price [OF t], rule tariff_hour [OF t])
  have prompt: "get_or 0 (m_largest_prompt m') key = get_or 0 (m_largest_prompt m) key" if "key \<noteq> ''loop''" for key
    using assms that by (simp add: same_plan_def get_or_def)
  show "get_or 0 (m_largest_prompt m') (''tail:'' @ kind) = get_or 0 (m_largest_prompt m) (''tail:'' @ kind)"
    by (rule prompt) simp
  show "tail_prompt m' = tail_prompt m"
    using assms by (simp add: fun_eq_iff tail_prompt_def Let_def prompt same_plan_def)
  have same: "m_largest_loop m' = m_largest_loop m" "m_largest_single m' = m_largest_single m" "m_answers m' = m_answers m"
    "m_declared_output m' = m_declared_output m"
    using assms tariffD [OF t] by (simp_all add: same_plan_def)
  have "mean_answer m' = mean_answer m" "largest_answer m' = largest_answer m" "measured_minimum m' = measured_minimum m"
    "uncapped_output m' = uncapped_output m"
    by (simp_all add: fun_eq_iff mean_answer_def largest_answer_def measured_minimum_def uncapped_output_def Let_def same)
  then show "planned_answer m' = planned_answer m" by (simp add: fun_eq_iff planned_answer_def Let_def)
  show "cache_share m' = cache_share m" using assms by (simp add: fun_eq_iff cache_share_def same_plan_def)
  show "kind \<in> set TAIL_KINDS \<Longrightarrow> planned_retries m' kind = planned_retries m kind"
    using assms by (simp add: fun_eq_iff planned_retries_def get_or_def same_plan_def)
  show "m_tail m' = m_tail m" using assms by (simp add: same_plan_def)
qed

lemma same_plan_kept:
  assumes "same_plan m m'" "kind \<in> set TAIL_KINDS"
  shows "kept_for m' now taking retrying kind = kept_for m now taking retrying kind"
  unfolding kept_for_def reserve_row_of_def same_plan_figures(1-5,7,8) [OF assms(1)] same_plan_figures(6) [OF assms]
  by (rule refl)

lemma same_plan_reserve:
  assumes "same_plan m m'"
  shows "reserve m' now taking retrying = reserve m now taking retrying" "reserve m' now [] retrying = reserve m now [] False"
proof -
  show same: "reserve m' now taking retrying = reserve m now taking retrying" for taking
    using same_plan_kept [OF assms] by (simp add: reserve_kept TAIL_ORDER_def TAIL_KINDS_def)
  have "kept_for m now [] retrying kind = kept_for m now [] False kind" if "kind \<noteq> []" for kind
    using that by (auto simp: kept_for_def reserve_row_of_def Let_def split: option.split)
  then show "reserve m' now [] retrying = reserve m now [] False"
    unfolding same by (simp add: reserve_kept TAIL_ORDER_def)
qed

text \<open>A decision rests on the plan, the money and the latches alone.\<close>

lemma decide_call_cong:
  assumes plan: "same_plan m m'" and money: "money m' = money m"
    and latch: "m_exhausted m' = m_exhausted m" "m_reached_at m' = m_reached_at m"
  shows "decide_call m' now c cnt = decide_call m now c cnt"
proof -
  note figures = same_plan_figures [OF plan]
  have t: "tariff m' = tariff m" and largest: "m_largest_loop m' = m_largest_loop m" "m_largest_single m' = m_largest_single m"
    using plan by (simp_all add: same_plan_def)
  have out: "uncapped_output m' = uncapped_output m" "uncapped_is_declared m' = uncapped_is_declared m"
    by (simp_all add: fun_eq_iff uncapped_output_def uncapped_is_declared_def tariffD(6) [OF t])
  have "measured_minimum m' = measured_minimum m"
    by (simp add: fun_eq_iff measured_minimum_def Let_def largest out)
  then have least: "minimum m' = minimum m" by (simp add: fun_eq_iff minimum_def Let_def figures(2))
  have same: "m_settled m' = m_settled m" "m_in_flight m' = m_in_flight m" "m_reserved m' = m_reserved m"
    using money by (simp_all add: money_def)
  have others: "others_hold m' = others_hold m" by (simp add: fun_eq_iff others_hold_def same)
  have fit: "fit_call m' = fit_call m"
    unfolding fun_eq_iff fit_call_def same others least out same_plan_reserve(1) [OF plan] tariff_ceiling [OF t] by simp
  have price: "admission_price m' = admission_price m"
    by (simp add: fun_eq_iff admission_price_def figures(4,5))
  show ?thesis unfolding decide_call_def decide_def latch out fit price by (rule refl)
qed

lemma same_plan_planned:
  assumes "same_plan m m'"
  shows "planned_call m' cl = planned_call m cl"
  unfolding planned_call_def same_plan_figures(1-5,7) [OF assms] by (rule refl)

lemma same_plan_no_rise:
  assumes "same_plan m m'"
  shows "no_rise m' now cl = no_rise m now cl"
  unfolding no_rise_def same_plan_figures(4,5) [OF assms] by (rule refl)

lemma same_plan_refl [simp]: "same_plan m m"
  by (simp add: same_plan_def)

lemma same_plan_trans: "same_plan m m' \<Longrightarrow> same_plan m' m'' \<Longrightarrow> same_plan m m''"
  by (simp add: same_plan_def)

lemma same_plan_latches: "same_plan m (snd (reached m))" "same_plan m (note_kind c m)"
  by (auto simp: same_plan_def reached_def note_kind_def tariff_def Let_def split: option.split)

lemma same_plan_turn:
  assumes "cl_kind c \<in> set LOOP_KINDS"
  shows "same_plan m (take_call c d priced m)"
proof -
  have kind: "cl_kind c \<notin> set TAIL_KINDS" using assms by (auto simp: TAIL_KINDS_def LOOP_KINDS_def)
  then have key: "prompt_key (cl_kind c) = ''loop''" using assms by (simp add: prompt_key_def)
  define m' where "m' = take_call c d priced m"
  obtain prompts made where m': "tariff m' = tariff m" "m_tail m' = m_tail m"
    "m_smallest_loop_prompt m' = m_smallest_loop_prompt m" "m_inputs m' = m_inputs m" "m_loop_inputs m' = m_loop_inputs m"
    "m_answers m' = m_answers m" "m_largest_loop m' = m_largest_loop m" "m_largest_single m' = m_largest_single m"
    "m_largest_prompt m' = m_largest_prompt m \<or> m_largest_prompt m' = AList.update ''loop'' prompts (m_largest_prompt m)"
    "m_calls_made m' = AList.update (cl_kind c) made (m_calls_made m)"
    by (atomize_elim, cases "get_or (0, 0) (m_calls_made m) (cl_kind c)", cases "cl_slot c")
      (auto simp: m'_def take_call_def Let_def tariff_def key kind split: option.split)
  have "map_of (m_calls_made m') k = map_of (m_calls_made m) k" if "k \<in> set TAIL_KINDS" for k
    using kind that by (auto simp: m'(10) update_conv')
  moreover have "map_of (m_largest_prompt m') k = map_of (m_largest_prompt m) k" if "k \<noteq> ''loop''" for k
    using m'(9) that by (auto simp: update_conv')
  ultimately show ?thesis using m'(1-8) by (simp add: same_plan_def m'_def)
qed

lemma planned_call_let_through:
  assumes wf: "wf_meter m" and room: "m_ceiling m = Some c" "committed m + reserve m now [] False \<le> c"
    and call: "planned_call m cl" "no_rise m now cl"
  shows "\<exists>b m'. admit_pass cl now noted left cancelled m = (Admitted b, m')"
proof -
  define m1 where "m1 = (if \<not> noted \<and> \<not> cl_attempt cl then note_kind cl (snd (reached m)) else snd (reached m))"
  have m1: "wf_meter m1" "m_ceiling m1 = Some c" "money m1 = money m" "same_plan m m1"
    using wf room(1) tariff_ceiling [of m1 m] same_plan_trans [OF same_plan_latches(1) same_plan_latches(2)] same_plan_latches(1)
    by (simp_all add: m1_def frame)
  have "committed m1 + reserve m1 now [] False \<le> c"
    using room(2) m1(3) same_plan_reserve [OF m1(4)] by (simp add: committed_def money_def)
  moreover have "planned_call m1 cl" "no_rise m1 now cl"
    using call same_plan_planned [OF m1(4)] same_plan_no_rise [OF m1(4)] by simp_all
  ultimately have "dc_refused (decide_call m1 now cl True) = None"
    unfolding planned_call_def
    by (auto split: option.splits intro!: planned_call_fits [OF m1(1) _ _ _ _ _ _ _ m1(2)])
  then show ?thesis by (simp add: admit_pass_def Let_def m1_def [symmetric])
qed

text \<open>Below the ceiling a pass decides as the state stands.\<close>

lemma admit_pass_below:
  assumes "\<not> fst (reached m)"
  shows "fst (admit_pass c now noted left cancelled m) =
    (case dc_refused (decide_call m now c True) of
       None \<Rightarrow> Admitted (dc_bound (decide_call m now c True))
     | Some r \<Rightarrow> if (\<exists>(k, v)\<in>set (m_reserved m). Some k \<noteq> cl_slot c) \<and> dc_refused (decide_call m now c False) = None
         then if m_closed m \<or> cancelled then GaveUp else if left then Waits else Refused r else Refused r)"
proof -
  have m: "snd (reached m) = m"
  proof (cases "m_ceiling m")
    case (Some usd)
    then have "m_reached_at m = None" "spent m < usd" using assms by (simp_all add: reached_def split: if_splits)
    with Some show ?thesis by (simp only: reached_def option.case if_True if_False not_True_eq_False simp_thms snd_conv)
  qed (simp add: reached_def)
  define m1 where "m1 = (if \<not> noted \<and> \<not> cl_attempt c then note_kind c m else m)"
  have "decide_call (note_kind c m) now c cnt = decide_call m now c cnt" for cnt
    using frame by (intro decide_call_cong same_plan_latches) (simp_all add: note_kind_def money_def Let_def)
  then have decided: "decide_call m1 now c cnt = decide_call m now c cnt" for cnt by (simp add: m1_def)
  have same: "m_reserved m1 = m_reserved m" "m_closed m1 = m_closed m"
    by (simp_all add: m1_def note_kind_def Let_def)
  show ?thesis
    unfolding admit_pass_def Let_def m m1_def [symmetric] decided same by (simp split: option.split)
qed

text \<open>A slot that holds nothing, and a retry that is not of a planned call, leave the decision as it is.\<close>

lemma decide_as_previewed:
  assumes slot: "case cl_slot c of None \<Rightarrow> True | Some s \<Rightarrow> map_of (m_reserved m) s = None"
    and retry: "cl_kind c \<in> set TAIL_KINDS \<Longrightarrow> \<not> cl_retrying c"
  shows "decide_call m now (c\<lparr>cl_slot := None, cl_retrying := False\<rparr>) cnt = decide_call m now c cnt"
proof -
  have "filter (\<lambda>(k, v). Some k \<noteq> cl_slot c) (m_reserved m) = m_reserved m"
    using slot by (force simp: filter_id_conv map_of_eq_None_iff split: option.splits)
  then have others: "others_hold m (cl_slot c) = others_hold m None" by (simp add: others_hold_def)
  have "reserve m now (if cl_kind c \<in> set TAIL_KINDS then cl_kind c else []) False =
      reserve m now (if cl_kind c \<in> set TAIL_KINDS then cl_kind c else []) (cl_retrying c)"
    using retry same_plan_reserve(2) [OF same_plan_refl, of m now True] by (cases "cl_retrying c") auto
  then have "fit_call m (cl_kind c) name p n cap uncapped None holdable now cnt False =
      fit_call m (cl_kind c) name p n cap uncapped (cl_slot c) holdable now cnt (cl_retrying c)"
    for name p n cap uncapped holdable
    unfolding fit_call_def others by simp
  then show ?thesis by (simp add: decide_call_def decide_def Let_def split: option.split)
qed

text \<open>A loop turn that is admitted leaves the reserve under the ceiling.\<close>

lemma admitted_turn_leaves:
  assumes wf: "wf_meter m" and c: "m_ceiling m = Some c" and row: "price_of m (cl_model cl) = Some row"
    and kind: "cl_kind cl \<in> set LOOP_KINDS" and adm: "admit_pass cl now noted left cancelled m = (Admitted b, m')"
    and later: "reserve m later [] False \<le> reserve m now [] False"
  shows "wf_meter m'" "same_plan m m'" "committed m' + reserve m' later [] False \<le> c"
proof -
  define m1 where "m1 = (if \<not> noted \<and> \<not> cl_attempt cl then note_kind cl (snd (reached m)) else snd (reached m))"
  define d where "d = decide_call m1 now cl True"
  have m1: "wf_meter m1" "tariff m1 = tariff m" "money m1 = money m" "same_plan m m1"
    using wf same_plan_trans [OF same_plan_latches(1) same_plan_latches(2)] same_plan_latches(1)
    by (simp_all add: m1_def frame)
  have row1: "price_of m1 (cl_model cl) = Some row" using row tariff_price [OF m1(2)] by simp
  have d: "dc_refused d = None" "m' = take_call cl d True m1"
    using adm row1 by (auto simp: admit_pass_def Let_def m1_def [symmetric] d_def split: option.splits if_splits)
  note fits = decide_call_fits [OF m1(1) row1 d_def [symmetric] d(1)]
  show "wf_meter m'" unfolding d(2) using m1(1) fits(3) by (intro keeps_wf)
  show plan: "same_plan m m'" unfolding d(2) by (rule same_plan_trans [OF m1(4) same_plan_turn [OF kind]])
  have "cl_kind cl \<notin> set TAIL_KINDS" using kind by (auto simp: TAIL_KINDS_def LOOP_KINDS_def)
  then have kept: "dc_reserve d = reserve m' now [] False"
    using fits(4) same_plan_reserve [OF m1(4)] same_plan_reserve [OF plan] by simp
  have "money m' = (m_settled m1, m_in_flight m1, case cl_slot cl of Some s \<Rightarrow> AList.update s (dc_reservation d) (m_reserved m1)
      | None \<Rightarrow> m_reserved m1)"
    unfolding d(2) using take_call_effect(2) [of m1 cl row d] fits(3) row1 by (simp split: option.split)
  moreover have "distinct (map fst (m_reserved m1))" using m1(1) by (simp add: wf_meter_def slots_ok_def)
  ultimately have "committed m' \<le> m_settled m1 + total_of (m_in_flight m1) + others_hold m1 (cl_slot cl) + dc_reservation d"
    using fits(3) others_hold_some [of m1] total_update [of "m_reserved m1"] others_hold_none [of m1]
    by (cases "cl_slot cl") (simp_all add: committed_def money_def)
  moreover have "m_ceiling m1 = Some c" using c tariff_ceiling [OF m1(2)] by simp
  moreover have "reserve m' later [] False \<le> reserve m' now [] False"
    using later same_plan_reserve(1) [OF plan] by simp
  ultimately show "committed m' + reserve m' later [] False \<le> c"
    using fits(2) kept by simp
qed

end
