(* ===== verification/Spend_Demo.thy ===== *)
theory Spend_Demo
  imports Spend_Planned
begin

text \<open>
  A small job on which the statements about the meter are checked: one model at 1 and 2 dollars a
  million tokens, and a ceiling of 0.85 cent.
\<close>

definition demo_price :: price where
  "demo_price = new_price 1 2 None ''table'' [] None None []"

definition demo_meter :: meter where
  "demo_meter = new_meter (Some (17 / 2000)) [] [(''m'', demo_price)] (Inl False) (\<lambda>name. 0)"

text \<open>The same model at half price in the first minute of each day.\<close>

definition demo_windowed :: price where
  "demo_windowed = new_price 1 2 None ''table''
     [Window 0 1 [] (new_price (1 / 2) 1 None ''table'' [] None None [])] None None []"

text \<open>A loop turn of 1,000 prompt tokens and at most 1,000 tokens of answer, and what it used.\<close>

definition demo_turn :: call where
  "demo_turn = \<lparr>cl_kind = ''loop turn'', cl_model = ''m'', cl_prompt_chars = 3000, cl_cap = 1000, cl_slot = Some 0,
     cl_holdable = True, cl_deadline = None, cl_attempt = False, cl_retrying = False\<rparr>"

definition demo_usage :: usage where
  "demo_usage = \<lparr>u_input = 900, u_output = 800, u_cached = 0, u_written = 0, u_written_1h = None, u_cost = None,
     u_sent_at = Some 1\<rparr>"

lemmas demo_defs = demo_price_def demo_meter_def demo_turn_def demo_usage_def

lemma demo_fair: "fair_price demo_price"
  by (simp add: demo_price_def fair_price_def fair_row_def fair_rates_def p_cached_def p_written_def p_written_1h_def)

lemma demo_wf: "wf_meter demo_meter"
  using demo_fair
  by (simp add: demo_meter_def new_meter_def Let_def wf_meter_def measures_ok_def plan_ok_def prices_ok_def slots_ok_def)

lemma demo_priced: "price_of demo_meter ''m'' = Some demo_price"
  by code_simp

text \<open>Two turns are let through and reported, then both are recorded.\<close>

definition demo_report :: turn where
  "demo_report = (''m'', Some demo_usage)"

definition demo_1 :: meter where "demo_1 = snd (admit_pass demo_turn 0 False True False demo_meter)"
definition demo_2 :: meter where "demo_2 = note_loop 0 [demo_report] 0 demo_1"
definition demo_3 :: meter where "demo_3 = snd (admit_pass demo_turn 0 False True False demo_2)"
definition demo_4 :: meter where "demo_4 = note_loop 0 [demo_report, demo_report] 0 demo_3"
definition demo_5 :: meter where "demo_5 = snd (settle 0 (Some demo_usage) ''m'' LOOP_TURN_CALL None demo_4)"
definition demo_6 :: meter where "demo_6 = snd (settle 0 (Some demo_usage) ''m'' LOOP_TURN_CALL None demo_5)"

definition demo_books :: "nat \<Rightarrow> nat \<Rightarrow> books" where
  "demo_books turns recorded = \<lparr>bk_billed = of_nat turns / 400, bk_calls = (\<lambda>s. None), bk_paid = (\<lambda>s. 0),
     bk_turns = (\<lambda>s. [])(0 := replicate turns demo_report), bk_recorded = (\<lambda>s. 0)(0 := recorded)\<rparr>"

lemma demo_figures:
  "fits demo_meter (admission_of demo_meter demo_turn 0 None) 0 demo_usage" "turn_cost demo_meter 0 demo_report = 1 / 400"
  by code_simp+

lemma demo_turn_run:
  assumes adm: "fst (admit_pass demo_turn 0 False True False m) = Admitted None" and m: "tariff m = tariff demo_meter"
    and m1: "m1 = snd (admit_pass demo_turn 0 False True False m)"
  shows "spend_step\<^sup>*\<^sup>* (m, demo_books n 0) (note_loop 0 (replicate (n + 1) demo_report) 0 m1, demo_books (n + 1) 0)"
    "tariff m1 = tariff demo_meter"
proof -
  have pass: "admit_pass demo_turn 0 False True False m = (Admitted None, m1)" using adm(1) m1 by (simp add: prod_eq_iff)
  show tariff: "tariff m1 = tariff demo_meter" using admit_pass_tariff [OF pass] m by simp
  have "admission_of m demo_turn 0 None = admission_of demo_meter demo_turn 0 None"
    by (simp add: admission_of_def own_cap_def demo_turn_def)
  then have t: "fits m1 (admission_of m demo_turn 0 None) 0 demo_usage" "turn_cost m1 0 demo_report = 1 / 400"
    unfolding tariff_fits [OF tariff] tariff_turn_cost [OF tariff] by (simp_all add: demo_figures)
  have priced: "price_of m ''m'' \<noteq> None" unfolding tariff_price [OF m] by (simp add: demo_priced)
  let ?k = "(demo_books n 0)\<lparr>bk_calls := (bk_calls (demo_books n 0))(0 \<mapsto> admission_of m demo_turn 0 None),
      bk_paid := (bk_paid (demo_books n 0))(0 := 0)\<rparr>"
  have taken: "spend_step (m, demo_books n 0) (m1, ?k)"
    by (rule spend_step.admitted [OF pass]) (use priced in \<open>simp_all add: demo_turn_def\<close>)
  have "proper_turn m1 (bk_calls ?k 0) 0 demo_report"
    using t(1) by (simp add: proper_turn_def demo_report_def stamped_def admission_of_def demo_turn_def demo_usage_def)
  then have noted: "spend_step (m1, ?k) (note_loop 0 (bk_turns ?k 0 @ [demo_report]) 0 m1,
      ?k\<lparr>bk_turns := (bk_turns ?k)(0 := bk_turns ?k 0 @ [demo_report]), bk_calls := (bk_calls ?k)(0 := None),
        bk_billed := bk_billed ?k + turn_cost m1 0 demo_report\<rparr>)"
    by (rule spend_step.turn_noted) (simp_all add: demo_books_def)
  have "?k\<lparr>bk_turns := (bk_turns ?k)(0 := bk_turns ?k 0 @ [demo_report]), bk_calls := (bk_calls ?k)(0 := None),
        bk_billed := bk_billed ?k + turn_cost m1 0 demo_report\<rparr> = demo_books (n + 1) 0"
    using t(2) by (simp add: demo_books_def replicate_append_same add_divide_distrib fun_eq_iff)
  moreover have "bk_turns ?k 0 @ [demo_report] = replicate (n + 1) demo_report"
    by (simp add: demo_books_def replicate_append_same)
  ultimately have "spend_step (m1, ?k) (note_loop 0 (replicate (n + 1) demo_report) 0 m1, demo_books (n + 1) 0)"
    using noted by simp
  with taken show "spend_step\<^sup>*\<^sup>* (m, demo_books n 0) (note_loop 0 (replicate (n + 1) demo_report) 0 m1, demo_books (n + 1) 0)"
    by (meson converse_rtranclp_into_rtranclp r_into_rtranclp)
qed

lemma demo_recorded_run:
  assumes "n < k"
  shows "spend_step (m, demo_books k n) (snd (settle 0 (Some demo_usage) ''m'' LOOP_TURN_CALL None m), demo_books k (n + 1))"
proof -
  have "spend_step (m, demo_books k n) (snd (settle 0 (Some demo_usage) ''m'' LOOP_TURN_CALL None m),
      (demo_books k n)\<lparr>bk_recorded := (bk_recorded (demo_books k n))(0 := bk_recorded (demo_books k n) 0 + 1)\<rparr>)"
    by (rule spend_step.turn_recorded [where usage = "Some demo_usage" and model = "''m''" and now = 0])
      (use assms in \<open>simp_all add: demo_books_def demo_report_def prod_eq_iff\<close>)
  then show ?thesis by (simp add: demo_books_def)
qed

lemma demo_evaluated:
  "fst (admit_pass demo_turn 0 False True False demo_meter) = Admitted None"
  "fst (admit_pass demo_turn 0 False True False demo_2) = Admitted None"
  "fst (reached demo_4) = False" "fst (reached demo_6) = True"
  by code_simp+

lemma demo_run:
  "spend_step\<^sup>*\<^sup>* (demo_meter, no_books) (demo_4, demo_books 2 0)"
  "spend_step\<^sup>*\<^sup>* (demo_meter, no_books) (demo_6, demo_books 2 2)"
proof -
  note first = demo_turn_run [OF demo_evaluated(1) refl demo_1_def]
  have tariff: "tariff demo_2 = tariff demo_meter" using first(2) by (simp add: demo_2_def note_loop_effect(1))
  have start: "no_books = demo_books 0 0" by (auto simp: no_books_def demo_books_def)
  have "spend_step\<^sup>*\<^sup>* (demo_meter, demo_books 0 0) (demo_2, demo_books 1 0)"
    using first(1) [where n = 0] by (simp add: demo_2_def)
  also have "spend_step\<^sup>*\<^sup>* (demo_2, demo_books 1 0) (demo_4, demo_books 2 0)"
    using demo_turn_run(1) [OF demo_evaluated(2) tariff demo_3_def, of 1] by (simp add: demo_4_def numeral_2_eq_2)
  finally show four: "spend_step\<^sup>*\<^sup>* (demo_meter, no_books) (demo_4, demo_books 2 0)" by (simp add: start)
  have "spend_step (demo_4, demo_books 2 0) (demo_5, demo_books 2 1)" "spend_step (demo_5, demo_books 2 1) (demo_6, demo_books 2 2)"
    using demo_recorded_run [of 0 2 demo_4] demo_recorded_run [of 1 2 demo_5]
    by (simp_all add: demo_5_def demo_6_def numeral_2_eq_2)
  with four show "spend_step\<^sup>*\<^sup>* (demo_meter, no_books) (demo_6, demo_books 2 2)"
    by (meson rtranclp.rtrancl_into_rtrancl)
qed

text \<open>The same job with more spent than its ceiling.\<close>

definition demo_spent :: meter where
  "demo_spent = demo_meter\<lparr>m_settled := 1 / 100\<rparr>"

text \<open>The same job with a verdict planned, a shorter turn, and the verdict's call.\<close>

definition demo_planned :: meter where
  "demo_planned = plan_tail [(''verdict'', ''m'', 1, 1000, 500)] demo_meter"

definition demo_short :: call where
  "demo_short = demo_turn\<lparr>cl_cap := 200\<rparr>"

definition demo_verdict :: call where
  "demo_verdict = demo_turn\<lparr>cl_kind := ''verdict'', cl_cap := 500, cl_slot := Some 1\<rparr>"

lemma demo_planned_wf: "wf_meter demo_planned" "m_ceiling demo_planned = Some (17 / 2000)"
  using tariff_ceiling [OF plan_tail_frame(1)] plan_tail_wf [OF demo_wf]
  by (simp_all add: demo_planned_def demo_meter_def new_meter_def Let_def)

lemma demo_planned_evaluated:
  "planned_call demo_planned demo_verdict" "committed demo_planned + reserve demo_planned 0 [] False \<le> 17 / 2000"
  "fst (admit_pass demo_short 0 False True False demo_planned) = Admitted None"
  "no_rise demo_planned 0 demo_verdict" "no_rise demo_planned 60000000 demo_verdict"
  "reserve demo_planned 60000000 [] False \<le> reserve demo_planned 0 [] False"
  by code_simp+

definition refused :: "answer \<Rightarrow> bool" where
  "refused a = (case a of Refused r \<Rightarrow> True | _ \<Rightarrow> False)"

text \<open>
  A job whose model is at half price in the first minute of each day, with a longer verdict planned, and
  that verdict's call.
\<close>

definition demo_rising :: meter where
  "demo_rising = plan_tail [(''verdict'', ''m'', 1, 1000, 3000)]
     (new_meter (Some (113 / 10000)) [] [(''m'', demo_windowed)] (Inl False) (\<lambda>name. 0))"

definition demo_long_verdict :: call where
  "demo_long_verdict = demo_verdict\<lparr>cl_cap := 3000\<rparr>"

end
