(* ===== verification/Spend_Properties.thy ===== *)
theory Spend_Properties
  imports Spend_Demo
begin

text \<open>
  What the spend meter promises: the ceiling holds over every run, a reservation covers its call, the
  verdict and the report stay affordable, exhaustion is final, and no price in force is above the
  one an admission is made at.
\<close>

text \<open>
  C20. However calls are admitted, answered, charged and released, loops report and record their
  turns, and stages begin, what the providers have billed for the calls the meter let through never
  passes the ceiling, and is never more than the meter says is spent, provided each call stays
  within the prompt, the cap and the deadline it was admitted for, its provider reports tokens and
  no cost of its own, and the prices are as vendors state them.
\<close>

theorem the_ceiling_holds:
  assumes "0 \<le> c" "\<forall>p\<in>snd ` set ops \<union> snd ` set tab. fair_price p"
    and "spend_step\<^sup>*\<^sup>* (new_meter (Some c) ops tab hours declared, no_books) (m, k)"
  shows "bk_billed k \<le> c \<and> bk_billed k \<le> spent m \<and> wf_meter m"
proof -
  have "in_books c m k" using run_books [OF assms(3), of c] new_meter_books [OF assms(1,2)] by simp
  then show ?thesis using in_books_bound in_booksD(2) by blast
qed

lemma the_ceiling_holds_witness:
  "spend_step\<^sup>*\<^sup>* (demo_meter, no_books) (demo_4, demo_books 2 0) \<and> bk_billed (demo_books 2 0) = 1 / 200 \<and>
    bk_billed (demo_books 2 0) \<le> 17 / 2000 \<and> bk_billed (demo_books 2 0) \<le> spent demo_4"
  using the_ceiling_holds [of "17 / 2000" "[]" "[(''m'', demo_price)]" "Inl False" "\<lambda>name. 0" demo_4 "demo_books 2 0"]
    demo_run(1) demo_fair
  by (simp add: demo_meter_def) (simp add: demo_books_def)







text \<open>
  Where the price rises the reserve is too small: it is taken at the rates in force, and the verdict is
  admitted at the highest before its deadline. A loop turn is let through and what is committed and the
  reserve fit under the ceiling, but the planned verdict is refused, before the turn and after it.
\<close>

theorem a_rising_price_leaves_the_verdict_unpaid:
  "planned_call demo_rising demo_long_verdict \<and> m_ceiling demo_rising = Some (113 / 10000) \<and>
    committed demo_rising + reserve demo_rising 0 [] False \<le> 113 / 10000 \<and> \<not> no_rise demo_rising 0 demo_long_verdict \<and>
    fst (admit_pass demo_short 0 False True False demo_rising) = Admitted None \<and>
    refused (fst (admit demo_long_verdict 0 True False demo_rising)) \<and>
    refused (fst (admit demo_long_verdict 0 True False (snd (admit_pass demo_short 0 False True False demo_rising))))"
  by (intro conjI; code_simp)

text \<open>
  C24. Once the job is exhausted it stays so, for the reason first given, whatever is charged,
  released, measured or begun after; and no further call is let through but the verdict's, the
  report's, a salvage and the nudge for a final answer.
\<close>

theorem exhaustion_is_final:
  assumes "m_exhausted m = Some e" "m_ceiling m \<noteq> None" "spend_step\<^sup>*\<^sup>* (m, k) (m', k')"
    and "cl_kind cl \<notin> set AFTER_EXHAUSTION_KINDS"
  shows "m_exhausted m' = Some e \<and> fst (admit cl now left cancelled m') = Refused AlreadyExhausted"
proof -
  have latched: "m_exhausted m' = Some e" using run_latched [OF assms(3), of e] assms(1) by simp
  have "m_ceiling m' \<noteq> None" using run_ceiling [OF assms(3)] assms(2) by simp
  moreover obtain m'' where "admit_pass cl now False left cancelled m' = (Refused AlreadyExhausted, m'')"
    using admit_exhausted [of m' cl now False left cancelled] latched assms(4) by auto
  ultimately show ?thesis using latched by (simp add: admit_def)
qed

lemma exhaustion_is_final_witness:
  "m_exhausted (begin_stage [''revision''] (snd (reached demo_spent))) = Some (1 / 100, Reached) \<and>
    fst (admit demo_turn 0 True False (begin_stage [''revision''] (snd (reached demo_spent)))) = Refused AlreadyExhausted"
proof (rule exhaustion_is_final)
  show "m_exhausted (snd (reached demo_spent)) = Some (1 / 100, Reached)" "m_ceiling (snd (reached demo_spent)) \<noteq> None"
    by code_simp+
  show "spend_step\<^sup>*\<^sup>* (snd (reached demo_spent), no_books) (begin_stage [''revision''] (snd (reached demo_spent)), no_books)"
    by (intro r_into_rtranclp spend_step.stage_begun)
  show "cl_kind demo_turn \<notin> set AFTER_EXHAUSTION_KINDS"
    by (simp add: demo_turn_def AFTER_EXHAUSTION_KINDS_def TAIL_KINDS_def)
qed

text \<open>
  C25. The price an admission is made at is the highest in force: at every instant between the
  admission and the end of its deadline, a usage costs at most what it costs at that price.
\<close>

theorem highest_over_is_highest:
  assumes "fair_price p" "start \<le> t" "t \<le> start + micros (max 0 seconds)" "counts_ok u"
  shows "cost (price_at p t) u \<le> cost (highest_over p start seconds) u"
  using cost_no_dearer [OF assms(4)] highest_dominates [OF assms(1-3)] by blast

lemma highest_over_is_highest_witness:
  "cost (price_at demo_windowed 60000000) demo_usage \<le> cost (highest_over demo_windowed 0 120) demo_usage"
proof (rule highest_over_is_highest)
  show "fair_price demo_windowed"
    by (simp add: demo_windowed_def fair_price_def fair_row_def fair_rates_def fair_window_def new_price_def
        p_cached_def p_written_def p_written_1h_def)
  show "60000000 \<le> 0 + micros (max 0 120)" by code_simp
  show "counts_ok demo_usage" by (simp add: counts_ok_def demo_usage_def int_or_0_def)
qed simp

text \<open>
  C26. Below the ceiling the preview of a call tells what admitting it would answer: where the call
  would be let through, the cap it is held to or none, and zero exactly where it would be refused,
  wait for calls in flight, or give up. The call's slot holds no reservation yet, as the preview's own does
  not, and the call is no validation retry of a planned call, of which the preview knows nothing:
  for one they part (\<open>preview_misses_a_retry\<close>).
\<close>

theorem preview_tells_the_answer:
  assumes "m_ceiling m \<noteq> None" "\<not> fst (reached m)"
    and "case cl_slot c of None \<Rightarrow> True | Some s \<Rightarrow> map_of (m_reserved m) s = None"
    and "cl_kind c \<in> set TAIL_KINDS \<Longrightarrow> \<not> cl_retrying c"
  shows "preview m now c = (case fst (admit c now left cancelled m) of Admitted b \<Rightarrow> b | _ \<Rightarrow> Some 0)"
proof -
  have "fst (admit c now left cancelled m) = fst (admit_pass c now False left cancelled m)"
    using assms(1) by (auto simp: admit_def split: prod.split answer.split)
  moreover obtain usd where "m_ceiling m = Some usd" using assms(1) by blast
  ultimately show ?thesis
    by (simp add: preview_def Let_def decide_as_previewed [OF assms(3,4)] admit_pass_below [OF assms(2)] split: option.split)
qed

lemma preview_tells_the_answer_witness:
  "preview demo_planned 0 demo_verdict =
    (case fst (admit demo_verdict 0 True False demo_planned) of Admitted b \<Rightarrow> b | _ \<Rightarrow> Some 0)"
proof (rule preview_tells_the_answer)
  show "m_ceiling demo_planned \<noteq> None" by (simp add: demo_planned_wf)
  show "\<not> fst (reached demo_planned)"
    "case cl_slot demo_verdict of None \<Rightarrow> True | Some s \<Rightarrow> map_of (m_reserved demo_planned) s = None"
    "\<not> cl_retrying demo_verdict"
    by code_simp+
qed

text \<open>
  For a validation retry of the verdict they part below the ceiling: the preview counts the planned
  call as the one being made, the admission of a retry keeps it in the reserve.
\<close>

theorem preview_misses_a_retry:
  "\<not> fst (reached (demo_planned\<lparr>m_settled := 3 / 1000\<rparr>)) \<and>
    preview (demo_planned\<lparr>m_settled := 3 / 1000\<rparr>) 0 (demo_verdict\<lparr>cl_retrying := True\<rparr>) = None \<and>
    refused (fst (admit (demo_verdict\<lparr>cl_retrying := True\<rparr>) 0 True False (demo_planned\<lparr>m_settled := 3 / 1000\<rparr>)))"
  by (intro conjI; code_simp)

text \<open>
  At the ceiling they part: a call of a model with no price is said to be let through until some call
  asks, and is refused when it asks.
\<close>

theorem preview_misses_the_ceiling:
  "preview demo_spent 0 (demo_turn\<lparr>cl_model := ''other'', cl_slot := None\<rparr>) = None \<and>
    fst (admit (demo_turn\<lparr>cl_model := ''other'', cl_slot := None\<rparr>) 0 True False demo_spent) = Refused AlreadyExhausted"
  by code_simp

text \<open>
  A call of a model with no price is let through with nothing reserved, and what its provider then
  reports of its cost is charged, however far past the ceiling.
\<close>

theorem a_reported_cost_passes_the_ceiling:
  "m_ceiling demo_meter = Some (17 / 2000) \<and>
    fst (admit (demo_turn\<lparr>cl_model := ''other''\<rparr>) 0 True False demo_meter) = Admitted None \<and>
    fst (settle 0 (Some (demo_usage\<lparr>u_cost := Some 1\<rparr>)) ''other'' [] None
      (snd (admit (demo_turn\<lparr>cl_model := ''other''\<rparr>) 0 True False demo_meter))) = Some 1"
  by code_simp

text \<open>
  A turn the ledger has recorded is counted with its loop until the loop is forgotten: a job is seen
  as past its ceiling, and latched there, when what it was billed is below it.
\<close>

theorem recorded_turns_are_counted_twice:
  "spend_step\<^sup>*\<^sup>* (demo_meter, no_books) (demo_6, demo_books 2 2) \<and>
    bk_billed (demo_books 2 2) = 1 / 200 \<and> m_ceiling demo_6 = Some (17 / 2000) \<and>
    \<not> fst (reached demo_4) \<and> fst (reached demo_6)"
proof -
  have "m_ceiling demo_6 = Some (17 / 2000)" using run_ceiling [OF demo_run(2)] by (simp add: demo_meter_def new_meter_def Let_def)
  then show ?thesis using demo_run(2) demo_evaluated(3,4) by (simp add: demo_books_def)
qed

end
