(* ===== verification/Spec2Isabelle.thy ===== *)
theory Spec2Isabelle
  imports Anchor_Objects Ledger_Properties Ledger_Returns Stage_Properties Upx_Witnesses Upx_Tool Debate_Properties Spend_Properties
begin

text \<open>
  Maljan, a platform that lets several language-model agents analyse a malware sample and
  debate what it is. The development covers the parts of its Python code whose correctness does
  not hang on a model's answer:

    \<^item> the \<^bold>\<open>evidence integrity\<close> of the API (\<open>apps/api/app/services\<close>): the audit log's keyed
      hash chain, the heads of that chain anchored outside the database, and the evidence ledger
      of one job, sealed when its report is stored and verified later;
    \<^item> the \<^bold>\<open>pipeline's own decisions\<close> (\<open>src/maljan/pipeline\<close>): whether a stage runs
      (\<open>conditions.py\<close>), and when a debate goes to the judge (\<open>routing.py\<close>);
    \<^item> the \<^bold>\<open>spend meter\<close> of a job (\<open>src/maljan/core/spend.py\<close>): what its model calls cost, and whether a
      call may be made under the operator's ceiling;
    \<^item> the \<^bold>\<open>UPX reader\<close> (\<open>src/maljan/tools/upx.py\<close>): a decoder of hostile packed programs written
      in the platform itself.

  How they interact: a job's stages run under their conditions, among them the debate; every call an
  agent makes of a model passes the job's spend meter, whose refusals end loops and debates; the pack of
  triage tools, the UPX reader being one, leaves its evidence in the ledger; at the end the
  worker computes the ledger's digests, chain and seal, stores them with the report and
  writes the seal into the audit log; every committed head of that log is anchored. The
  verification of a job reads all of these back: rows, report, audit log and anchor.

  \<^bold>\<open>Shared theories.\<close> \<open>Maljan_Prelude\<close> holds the errors Python raises in the modelled code, the
  error monad (\<open>bind_r\<close>, \<open>map_r\<close> over a sum type, the collection \<open>result_simps\<close>), numerals and
  texts. \<open>Py_Json\<close> holds the Python values of JSON documents (\<open>py\<close>), the canonical serialisation every
  digest is taken over and the proof that it separates values that differ. \<open>Py_Dict\<close> holds the
  dictionary, truth and conversion operations of the code. \<open>Hash_Chain\<close> is a locale, the contract of a
  keyed hash chain, with the theorem that equal last values mean equal rows or a named clash; it is
  interpreted on the audit chain's links (\<open>Audit_Tamper\<close>) and on the ledger's (\<open>Ledger_Proofs\<close>).

  \<^bold>\<open>Audit log\<close> (\<open>audit_chain.py\<close>, \<open>models/audit.py\<close>). \<open>Audit_Rows\<close>: the rows, the head record, their
  digest, link and MAC. \<open>Audit_Chain\<close>: \<open>append\<close> with the boundary of a key rotation
  (\<open>boundary_for_append\<close>), and \<open>verify_audit_chain\<close> as the walk over the rows (\<open>audit_walk\<close>) and its end
  against the head (\<open>walk_end\<close>). \<open>Audit_Repair\<close>: the check of one job's rows, the plan of a head's
  repair and the record of a deleted report. A \<open>session\<close> is the transaction: the rows, the head, the
  failure counter and the head waiting to be anchored. The advisory lock the code takes makes
  appends one after the other, so a log's history is a sequence of steps (\<open>log_run\<close> in \<open>Audit_Runs\<close>).
  Shown: whatever sequence of appends under whatever keys, the log verifies with the boundary of its
  head (C1), appends are all or nothing, are refused over a head that cannot be trusted and only then
  (C3 to C5), what is verified and what is unverifiable (\<open>one_key_verification\<close>), removed, cut off and
  edited rows are named (C6, C7, \<open>edited_row_is_named\<close>), two logs under one head are the same log or
  exhibit a collision (C2), and the local check and the repair agree with the full
  verification (C8 to C10).

  \<^bold>\<open>Anchor\<close> (\<open>audit_anchor.py\<close>). \<open>Audit_Anchor\<close>: the table and the versioned object store as two
  stores of heads (\<open>db_latest\<close>, \<open>db_put\<close>; \<open>object_latest\<close>, \<open>object_put\<close>), the anchoring of a committed head, the
  comparison of log and anchor, and the reading of the database roles' rights. \<open>Anchor_Proofs\<close> states the
  contract of a store as the locale \<open>chain_anchor\<close> and interprets it on the table. \<open>Anchor_Objects\<close> is the
  object store over a bucket under object lock: a bucket is the writes it took, \<open>serves\<close> what its service
  answers from them, and \<open>bucket_ops\<close> a service that does.
  Shown: an anchor never raises an alarm over a log that only grew, whatever writes were lost
  (C11); a log rolled back below it is broken (C12); anchoring only adds (\<open>anchoring_only_adds\<close>); when
  the table is called protected (\<open>protected_iff\<close>); once a head was seen in the object store, what is
  read there is what was first written under the highest name, that head's or a later one, whatever was
  written over it, or the store is called tampered with (C13).

  \<^bold>\<open>Evidence ledger\<close> (\<open>ledger_chain.py\<close>, \<open>ledger_verify.py\<close>, the sealing in \<open>analysis_worker.py\<close>, the
  amending in \<open>enrich_worker.py\<close>). \<open>Ledger_Chain\<close>: keys, digests, links, seal and amendments.
  \<open>Ledger_Seal\<close>: where seals and amendments are written. \<open>Ledger_Verify\<close>: the verification
  in the order of the code, its early returns as the \<open>Inl\<close> of a verdict (\<open>stop\<close>), from the seal through
  the rows, the report, the audit log and the anchor (\<open>verify_job\<close>). \<open>Ledger_Runs\<close>: the life of a
  sealed report as a step relation (\<open>sealed_run\<close>). Shown: what a verdict the
  verification itself computed as verified means (C14), one
  seal stands for one ledger or a collision is exhibited (C15; a stored seal that is handed back as the
  verdict itself is outside both, \<open>a_forged_verdict_is_handed_back\<close>), every run of sealing and amending
  verifies (C16), each kind of change is named (C17, C18, \<open>removed_entry_is_named\<close>,
  \<open>cut_off_entries_are_named\<close>), and the one loop without a bound, the
  search for the amendment that follows another (a \<open>partial_function\<close> on \<open>option\<close>), ends unless the
  recorded amendments close into a cycle of MACs (C19).

  \<^bold>\<open>Spend meter\<close> (\<open>spend.py\<close>). \<open>Spend_Prices\<close>: prices with their windows of the day and tiers of prompt
  length, the prices in force (\<open>price_at\<close>), the dearest over a span (\<open>highest_over\<close>), the cost of a usage.
  \<open>Spend_Table\<close>: the reading of price rows and the names models are priced under. \<open>Spend_Meter\<close>: the
  state of \<open>SpendMeter\<close> as the record \<open>meter\<close>, what a call is charged, what was measured, and the
  reserve kept for the verdict and the report. \<open>Spend_Calls\<close>: every operation, the decision on a call
  (\<open>decide\<close>) and its admission (\<open>admit_pass\<close>, one pass of the loop of \<open>admit\<close>) first. \<open>Spend_Price_Proofs\<close>
  and \<open>Spend_Call_Proofs\<close> compare prices and bound the cost of a call; \<open>Spend_State\<close>, \<open>Spend_Frames\<close>,
  \<open>Spend_Effects\<close> and \<open>Spend_Admissions\<close> say what each operation keeps and moves (the collections
  \<open>frame\<close> and \<open>keeps_wf\<close>); \<open>Spend_Runs\<close> is the meter's life as a step relation over the meter and books of
  what was really billed, \<open>Spend_Books\<close> the balance each step keeps, \<open>Spend_Latch\<close> its composition over
  a run and the latch; \<open>Spend_Planned\<close> is what the reserve is for. Shown: the ceiling holds (C20) because
  a reservation covers its call (C21); at prices that do not rise meanwhile, a loop turn leaves the
  verdict and the report their money, and while it is there they are made as planned (C22, C23); exhaustion is final (C24); no price in force is
  above the one of an admission (C25); the preview tells the answer (C26). What does not hold: the reserve is
  priced at the rates in force and an admission at the highest before its deadline, so where the
  price rises the planned verdict is refused (\<open>a_rising_price_leaves_the_verdict_unpaid\<close>);
  a recorded turn is counted twice until its loop is forgotten, so a job can be latched early
  (\<open>recorded_turns_are_counted_twice\<close>); a cost reported for a call of a model with no price passes
  the ceiling (\<open>a_reported_cost_passes_the_ceiling\<close>); at the ceiling, and for a validation retry, the preview can
  differ (\<open>preview_misses_the_ceiling\<close>, \<open>preview_misses_a_retry\<close>).

  \<^bold>\<open>Stage conditions\<close> (\<open>conditions.py\<close>, \<open>stage_context\<close> and \<open>stage_runs\<close> of \<open>nodes.py\<close>). \<open>Stage_Values\<close>:
  the stage results and triage facts, their way into the run's state and back (the locale
  \<open>state_codec\<close>, interpreted for both in \<open>Stage_Proofs\<close>), and the values a condition is read over. \<open>Stage_Conditions\<close>: the syntax trees, the
  allow-list (\<open>check\<close>), the evaluator (\<open>resolve\<close>), the references and the constant conditions. Shown:
  a condition costs the run only where Python's parser raises something the module does not catch (C27), what an evaluation depends on (C28), chained
  comparisons (C29), constant conditions (C30), the facts and results read back are those
  written (C31, C32), and how rule matches are counted (\<open>hits_are_the_matches\<close>).

  \<^bold>\<open>UPX reader\<close> (\<open>upx.py\<close>, what it asks of \<open>pe_image.py\<close>). \<open>Upx_Decode\<close>: the pack header, the bit reader
  and the three NRV decoders. \<open>Upx_Rebuild\<close>: the packed file's headers, the code filter, the
  relocations and the file put together. \<open>Upx_Tables\<close>: imports, exports and resources. \<open>Upx_Unpack\<close>: the
  whole unpack; \<open>Upx_Tool\<close>: the tool and the test before it. \<open>Upx_Stream\<close>, \<open>Upx_Proofs\<close> and
  \<open>Upx_Rebuild_Proofs\<close> hold the writer's side and what the properties share. Shown: whatever is
  written as a stream is decoded to what was written (C33), the filter is undone exactly (C34), the
  relocation records are read as if one by one (C35), nothing is written outside the
  unpacked data (C36), what is unpacked was held against the header (C37), and the file holds its
  sections where its own table says (C38).

  \<^bold>\<open>Debate\<close> (\<open>routing.py\<close>, the comparison of contested points in \<open>debate_facts.py\<close>). \<open>Debate_Routing\<close>: where a
  debate began, its own rounds, confidences and mediations, the order of the reasons to stop
  (\<open>debate_route\<close>) and the loop of negotiation and revision the graph runs (\<open>debate\<close>). Shown: every
  debate ends within its rounds (C39) and, once it has begun, is decided by its own rounds alone (C40).

  \<^bold>\<open>What is a parameter.\<close> The record \<open>stdlib\<close> holds SHA-256, HMAC, \<open>ipaddress.ip_interface\<close> and
  \<open>datetime.fromisoformat\<close> as functions; no property assumes the digest or the MAC to be free of collisions:
  where one would be needed the conclusion names the two messages that clash. Python's
  parser of a condition, the raw LZMA decoder, the digest and import reader of the
  unpacked file, the object store's service, the database's catalogue of rights, the reading
  of a ledger row's declared facts, the maximum output a model declares, the reading of an analyst's line and the mediator's and
  analysts' answers are arguments of the definitions that use them. Every hypothesis a property
  has on them is discharged on concrete functions in its witness.

  \<^bold>\<open>Numbers, texts, time.\<close> Python's integers are \<open>int\<close> (\<open>nat\<close> for sizes and offsets); the 32-bit arithmetic of
  the UPX reader is written out with \<open>mod 2 ^ 32\<close>, \<open>struct.error\<close> past it included. A text is its UTF-8
  bytes. A float in a JSON document is not a number, an infinity, or its sign, decimal digits and
  exponent; the confidences of a debate and the amounts of the spend meter are exact rationals, so
  rounding is not covered. A timestamp is the text stored, or a wall clock in microseconds with its
  offset; an instant of the spend meter is microseconds since 1970 UTC.

  \<^bold>\<open>Termination.\<close> All definitions are total: the loops over a stream by the bits that remain, those over
  a table by the bytes from the position to its end, the walk over a condition's tree by the size
  of what is still to be visited, the tiers of a price by its size, the resource tree by the budget of bytes the reader counts.
  The single \<open>partial_function\<close> is the amendment search above; no fuel is used.

  \<^bold>\<open>Not modelled.\<close> SQLAlchemy, the asyncio scheduling, storage, queues and HTTP routes: what they
  read and write is the state the definitions pass. The rest of the pipeline's nodes, the agents,
  the judge, the triage pack's runners, reporting and the other tools, which carry prompts,
  regular expressions over prose, calls of outside programs and rendering; the sentences the
  code attaches to a finding where they decide nothing (kept where a later step reads them).
  Of the spend meter, its snapshot and sentences, the thread's wait between two passes of an
  admission, the reading of the settings and the helpers that hold a call around it; each of its
  operations is one step, although some take the lock more than once.
  The configuration's declarative fields, the database migrations and the web client.
\<close>

end
